(* ===== verification/Prelude.thy ===== *)
theory Prelude
  imports Main "HOL-Library.List_Lexorder" "HOL-Library.Char_ord" "HOL-Library.Sublist"
begin

text \<open>
  What every component shares: the types that stand for Go's strings, times and
  64-bit integers, the part of Go's standard library the sources call
  (\<^verbatim>\<open>strconv\<close>, \<^verbatim>\<open>strings\<close>, \<^verbatim>\<open>encoding/base64\<close>, \<^verbatim>\<open>slices\<close>), fallible operations
  on a state, and generic lemmas on lists.

  A Go string is its list of bytes, so a \<^typ>\<open>string\<close>; \<^verbatim>\<open><\<close> on strings is the
  bytewise lexicographic order, which is the order of \<^verbatim>\<open>List_Lexorder\<close> over
  \<^verbatim>\<open>Char_ord\<close>. A \<^verbatim>\<open>time.Time\<close> is the number of nanoseconds since the Unix epoch.
  An \<^verbatim>\<open>int64\<close> is an \<^typ>\<open>int\<close>; arithmetic that can leave the range is wrapped with
  \<^verbatim>\<open>i64\<close> where the source computes it.
\<close>

named_theorems go_simps \<open>equations that unfold the Go library model on constructor patterns\<close>
named_theorems op_simps \<open>equations for running fallible operations\<close>

type_synonym time = int
type_synonym duration = int
type_synonym int64 = int
type_synonym int32 = int

section \<open>Integers and times\<close>

definition i64 :: "int \<Rightarrow> int64" where
  "i64 x = (x + 2 ^ 63) mod 2 ^ 64 - 2 ^ 63"

definition i32 :: "int \<Rightarrow> int32" where
  "i32 x = (x + 2 ^ 31) mod 2 ^ 32 - 2 ^ 31"

definition in_i64 :: "int \<Rightarrow> bool" where
  "in_i64 x \<longleftrightarrow> - (2 ^ 63) \<le> x \<and> x < 2 ^ 63"

lemma i64_id [simp]: "in_i64 x \<Longrightarrow> i64 x = x"
  by (simp add: i64_def in_i64_def)

lemma in_i64_i64: "in_i64 (i64 x)"
proof -
  have "0 \<le> (x + 2 ^ 63) mod 2 ^ 64" "(x + 2 ^ 63) mod 2 ^ 64 < (2 ^ 64 :: int)"
    by simp_all
  then show ?thesis
    by (simp add: i64_def in_i64_def)
qed

lemma in_i64_numeral [simp]:
  "in_i64 0" "in_i64 1" "in_i64 (numeral n) \<longleftrightarrow> numeral n < (2 ^ 63 :: int)"
  by (simp_all add: in_i64_def)

definition millisecond :: duration where "millisecond = 1000000"
definition second :: duration where "second = 1000000000"

text \<open>The zero \<^verbatim>\<open>time.Time\<close>, January 1 of year 1.\<close>

definition time_zero :: time where "time_zero = - 62135596800 * second"

text \<open>\<^verbatim>\<open>t.UnixMilli()\<close>, \<^verbatim>\<open>time.UnixMilli(n)\<close> and \<^verbatim>\<open>t.Truncate(time.Millisecond)\<close>.\<close>

definition UnixMilli :: "time \<Rightarrow> int64" where
  "UnixMilli t = t div millisecond"

definition time_UnixMilli :: "int64 \<Rightarrow> time" where
  "time_UnixMilli n = n * millisecond"

definition truncate_ms :: "time \<Rightarrow> time" where
  "truncate_ms t = t - t mod millisecond"

lemma UnixMilli_time_UnixMilli [simp]: "UnixMilli (time_UnixMilli n) = n"
  by (simp add: UnixMilli_def time_UnixMilli_def millisecond_def)

lemma time_UnixMilli_truncate: "time_UnixMilli (UnixMilli t) = truncate_ms t"
  by (simp add: UnixMilli_def time_UnixMilli_def truncate_ms_def minus_mod_eq_div_mult)

lemma truncate_ms_idem [simp]: "truncate_ms (truncate_ms t) = truncate_ms t"
  by (metis UnixMilli_time_UnixMilli time_UnixMilli_truncate)

section \<open>strconv\<close>

definition digit_char :: "int \<Rightarrow> char" where
  "digit_char n = char_of (n + 48)"

definition is_digit :: "char \<Rightarrow> bool" where
  "is_digit c \<longleftrightarrow> 48 \<le> (of_char c :: int) \<and> (of_char c :: int) \<le> 57"

definition digit_value :: "char \<Rightarrow> int" where
  "digit_value c = of_char c - 48"

lemma of_char_bounds: "0 \<le> (of_char c :: int)" "(of_char c :: int) < 256"
proof -
  have eq: "(of_char c :: int) = (of_char c :: int) mod 256"
    by simp
  show "0 \<le> (of_char c :: int)"
    by (subst eq) (rule pos_mod_sign, simp only: zero_less_numeral)
  show "(of_char c :: int) < 256"
    by (subst eq) (rule pos_mod_bound, simp only: zero_less_numeral)
qed

lemma of_char_digit: "0 \<le> n \<Longrightarrow> n < 10 \<Longrightarrow> (of_char (digit_char n) :: int) = n + 48"
  by (simp add: digit_char_def)

lemma is_digit_char [simp]: "0 \<le> n \<Longrightarrow> n < 10 \<Longrightarrow> is_digit (digit_char n)"
  by (simp add: is_digit_def of_char_digit)

lemma digit_value_char [simp]: "0 \<le> n \<Longrightarrow> n < 10 \<Longrightarrow> digit_value (digit_char n) = n"
  by (simp add: digit_value_def of_char_digit)

lemma digit_value_bounds: "is_digit c \<Longrightarrow> 0 \<le> digit_value c \<and> digit_value c < 10"
  by (simp add: is_digit_def digit_value_def)

text \<open>The decimal digits of a non-negative integer.\<close>

function int_digits :: "int \<Rightarrow> string" where
  "int_digits n = (if n < 10 then [digit_char n]
                   else int_digits (n div 10) @ [digit_char (n mod 10)])"
  by auto
termination
  by (relation "measure nat") auto

declare int_digits.simps [simp del]

definition digits_value :: "string \<Rightarrow> int" where
  "digits_value s = foldl (\<lambda>n c. n * 10 + digit_value c) 0 s"

lemma digits_value_snoc [simp]: "digits_value (s @ [c]) = digits_value s * 10 + digit_value c"
  by (simp add: digits_value_def)

lemma digits_value_nonneg: "list_all is_digit s \<Longrightarrow> 0 \<le> digits_value s"
proof (induction s rule: rev_induct)
  case Nil
  then show ?case
    by (simp add: digits_value_def)
next
  case (snoc c s)
  then show ?case
    using digit_value_bounds [of c] by simp
qed

lemma int_digits_nonempty [simp]: "int_digits n \<noteq> []"
  by (subst int_digits.simps) simp

lemma int_digits_all_digits: "0 \<le> n \<Longrightarrow> list_all is_digit (int_digits n)"
proof (induction n rule: int_digits.induct)
  case (1 n)
  then show ?case
    by (subst int_digits.simps) (simp add: pos_imp_zdiv_nonneg_iff)
qed

lemma digits_value_int_digits [simp]: "0 \<le> n \<Longrightarrow> digits_value (int_digits n) = n"
proof (induction n rule: int_digits.induct)
  case (1 n)
  show ?case
  proof (cases "n < 10")
    case True
    then show ?thesis
      using 1 by (subst int_digits.simps) (simp add: digits_value_def)
  next
    case False
    then show ?thesis
      using 1 by (subst int_digits.simps) (simp add: pos_imp_zdiv_nonneg_iff)
  qed
qed

text \<open>\<^verbatim>\<open>strconv.FormatInt(i, 10)\<close> and \<^verbatim>\<open>strconv.ParseInt(s, 10, 64)\<close>; both syntax and range
  errors of the latter are \<^verbatim>\<open>None\<close>, as no caller tells them apart.\<close>

definition FormatInt :: "int64 \<Rightarrow> string" where
  "FormatInt i = (if i < 0 then CHR ''-'' # int_digits (- i) else int_digits i)"

definition ParseUint :: "string \<Rightarrow> int option" where
  "ParseUint s = (if s \<noteq> [] \<and> list_all is_digit s then Some (digits_value s) else None)"

definition ParseInt :: "string \<Rightarrow> int64 option" where
  "ParseInt s = (case s of
       [] \<Rightarrow> None
     | c # r \<Rightarrow>
         (let neg = (c = CHR ''-'');
              body = (if c = CHR ''-'' \<or> c = CHR ''+'' then r else s)
          in case ParseUint body of
               None \<Rightarrow> None
             | Some n \<Rightarrow> (if neg then (if n \<le> 2 ^ 63 then Some (- n) else None)
                          else (if n < 2 ^ 63 then Some n else None))))"

lemma not_digit_sign [simp]:
  "\<not> is_digit (CHR ''-'')" "\<not> is_digit (CHR ''+'')" "\<not> is_digit (CHR '':'')"
  by (simp_all add: is_digit_def)

lemma ParseUint_int_digits [simp]: "0 \<le> n \<Longrightarrow> ParseUint (int_digits n) = Some n"
  by (simp add: ParseUint_def int_digits_all_digits)

lemma hd_int_digits: "0 \<le> n \<Longrightarrow> is_digit (hd (int_digits n))"
  by (metis list.pred_inject(2) list.collapse int_digits_all_digits int_digits_nonempty)

lemma ParseInt_FormatInt [simp]:
  assumes "in_i64 i"
  shows "ParseInt (FormatInt i) = Some i"
proof (cases "i < 0")
  case True
  then have "- i \<le> 2 ^ 63"
    using assms by (simp add: in_i64_def)
  then show ?thesis
    using True by (simp add: ParseInt_def FormatInt_def)
next
  case False
  then obtain c r where cr: "int_digits i = c # r"
    by (meson list.exhaust int_digits_nonempty)
  then have "is_digit c"
    using hd_int_digits [of i] False by simp
  then have sign: "c \<noteq> CHR ''-''" "c \<noteq> CHR ''+''"
    using not_digit_sign by blast+
  have "i < 2 ^ 63"
    using assms by (simp add: in_i64_def)
  then show ?thesis
    using False sign ParseUint_int_digits [of i]
    by (simp add: ParseInt_def FormatInt_def cr)
qed

lemma ParseInt_range:
  assumes "ParseInt s = Some i"
  shows "in_i64 i"
proof -
  have "0 \<le> n" if "ParseUint b = Some n" for b n
    using that digits_value_nonneg by (auto simp: ParseUint_def split: if_splits)
  then show ?thesis
    using assms by (force simp: ParseInt_def in_i64_def Let_def split: list.splits option.splits if_splits)
qed

lemma FormatInt_no_colon: "CHR '':'' \<notin> set (FormatInt i)"
proof -
  have "CHR '':'' \<notin> set (int_digits n)" if "0 \<le> n" for n
    using int_digits_all_digits [OF that] not_digit_sign(3) by (auto simp: list_all_iff)
  then show ?thesis
    by (simp add: FormatInt_def)
qed

lemma FormatInt_inj: "in_i64 i \<Longrightarrow> in_i64 j \<Longrightarrow> FormatInt i = FormatInt j \<Longrightarrow> i = j"
  by (metis ParseInt_FormatInt option.inject)

section \<open>strings\<close>

definition HasPrefix :: "string \<Rightarrow> string \<Rightarrow> bool" where
  "HasPrefix s p \<longleftrightarrow> take (length p) s = p"

fun Cut :: "string \<Rightarrow> char \<Rightarrow> string \<times> string \<times> bool" where
  "Cut [] c = ([], [], False)"
| "Cut (x # xs) c = (if x = c then ([], xs, True)
                     else (case Cut xs c of (before, after, found) \<Rightarrow>
                             if found then (x # before, after, True) else (x # xs, [], False)))"

lemma Cut_append [simp]: "c \<notin> set a \<Longrightarrow> Cut (a @ c # b) c = (a, b, True)"
  by (induction a) auto

lemma Cut_found: "Cut s c = (a, b, True) \<Longrightarrow> s = a @ c # b \<and> c \<notin> set a"
  by (induction s arbitrary: a) (auto split: if_splits prod.splits)

lemma HasPrefix_append [simp]: "HasPrefix (p @ s) p"
  by (simp add: HasPrefix_def)

end
