(* ===== verification/Errcode.thy ===== *)
theory Errcode
  imports Prelude
begin

text \<open>
  Go errors and \<^verbatim>\<open>errcode/errcode.go\<close>. An \<^verbatim>\<open>error\<close> value is a tree: a package-level
  sentinel, an \<^verbatim>\<open>*errcode.Error\<close> with an optional cause, the result of
  \<^verbatim>\<open>fmt.Errorf\<close> with its \<^verbatim>\<open>%w\<close> operands, or an error of code outside the repository
  (a database driver, a network). \<^verbatim>\<open>errors.Is\<close> and \<^verbatim>\<open>errors.AsType\<close> walk that tree.
  The text that \<^verbatim>\<open>fmt.Errorf\<close> formats is kept only as a label.
\<close>

datatype sentinel =
    store_ErrNotFound | store_ErrDuplicate | store_ErrNestedTx
  | identity_ErrInvalidUserId
  | auth_ErrTokenInvalid | auth_ErrTokenExpired | auth_ErrUnavailable
  | auth_ErrServiceNotAllowed | auth_ErrClockSkew | auth_ErrBadSignature | auth_ErrNonceReplayed
  | message_errRollback
  | pgx_ErrNoRows | pgx_UniqueViolation
  | jwt_ErrTokenExpired | jwt_ErrTokenSignatureInvalid
  | context_Canceled | context_DeadlineExceeded

datatype go_error =
    Sentinel sentinel
  | Of_errcode Error
  | Errorf string "go_error list"
  | Foreign string
and Error = Error (Code: int) (ErrMessage: string) (ErrCause: "go_error option")

type_synonym 'a result = "go_error + 'a"

text \<open>A fallible operation on a state: every outcome, error or value, comes with the state after it.\<close>

type_synonym ('s, 'a) op = "'s \<Rightarrow> 'a result \<times> 's"

section \<open>errors.Is and errors.AsType\<close>

fun Error_Is :: "Error \<Rightarrow> go_error \<Rightarrow> bool" where
  "Error_Is e (Of_errcode t) = (Code t = Code e)"
| "Error_Is e _ = False"

fun errors_Is :: "go_error \<Rightarrow> go_error \<Rightarrow> bool" where
  "errors_Is (Sentinel a) t = (t = Sentinel a)"
| "errors_Is (Foreign a) t = (t = Foreign a)"
| "errors_Is (Errorf l es) t = (\<exists>e \<in> set es. errors_Is e t)"
| "errors_Is (Of_errcode (Error c m None)) t = Error_Is (Error c m None) t"
| "errors_Is (Of_errcode (Error c m (Some e))) t =
     (Error_Is (Error c m (Some e)) t \<or> errors_Is e t)"

fun as_errcode :: "go_error \<Rightarrow> Error option" and as_errcodes :: "go_error list \<Rightarrow> Error option" where
  "as_errcode (Of_errcode e) = Some e"
| "as_errcode (Sentinel a) = None"
| "as_errcode (Foreign a) = None"
| "as_errcode (Errorf l es) = as_errcodes es"
| "as_errcodes [] = None"
| "as_errcodes (e # es) = (case as_errcode e of Some x \<Rightarrow> Some x | None \<Rightarrow> as_errcodes es)"

section \<open>errcode.Error\<close>

datatype Class = Business | System | OtherClass int

definition Error_Class :: "Error \<Rightarrow> Class" where
  "Error_Class e = (let k = Code e div 10000 in
     if k = 1 then Business else if k = 2 then System else OtherClass k)"

definition Error_IsSystem :: "Error \<Rightarrow> bool" where
  "Error_IsSystem e \<longleftrightarrow> Error_Class e = System"

text \<open>\<^verbatim>\<open>None\<close> is the panic on a malformed code.\<close>

definition New :: "int \<Rightarrow> string \<Rightarrow> Error option" where
  "New code message =
     (if code < 10000 \<or> code > 29999 \<or> code mod 100 = 0 then None
      else Some (Error code message None))"

definition Wrap :: "Error \<Rightarrow> go_error option \<Rightarrow> Error" where
  "Wrap e cause = (case cause of None \<Rightarrow> e | Some c \<Rightarrow> Error (Code e) (ErrMessage e) (Some c))"

definition WithMessage :: "Error \<Rightarrow> string \<Rightarrow> Error" where
  "WithMessage e message = Error (Code e) message (ErrCause e)"

section \<open>The catalogue\<close>

definition "ErrInvalidParam = Error 10001 ''invalid parameter'' None"
definition "ErrUnauthorized = Error 10002 ''unauthorized'' None"
definition "ErrForbidden = Error 10003 ''forbidden'' None"
definition "ErrNotFound = Error 10004 ''not found'' None"
definition "ErrTooManyRequests = Error 10005 ''too many requests'' None"
definition "ErrNoPermission = Error 10006 ''no permission to access this resource'' None"
definition "ErrInternal = Error 20001 ''internal server error'' None"
definition "ErrStoreFailed = Error 20002 ''storage unavailable'' None"
definition "ErrBusFailed = Error 20003 ''event bus unavailable'' None"
definition "ErrTimeout = Error 20004 ''request timed out'' None"
definition "ErrTokenInvalid = Error 10101 ''token invalid'' None"
definition "ErrTokenExpired = Error 10102 ''token expired'' None"
definition "ErrTokenMissing = Error 10103 ''token missing'' None"
definition "ErrTokenMismatch = Error 10104 ''token user mismatch'' None"
definition "ErrLoginFailed = Error 10105 ''login failed'' None"
definition "ErrPasswordWrong = Error 10106 ''password wrong'' None"
definition "ErrProviderDisabled = Error 10107 ''auth provider disabled'' None"
definition "ErrAuthUnavailable = Error 20101 ''authentication temporarily unavailable'' None"
definition "ErrUserNotFound = Error 10201 ''user not found'' None"
definition "ErrUserExists = Error 10202 ''user already exists'' None"
definition "ErrGroupNotFound = Error 10301 ''group not found'' None"
definition "ErrGroupDismissed = Error 10302 ''group has been dismissed'' None"
definition "ErrNotGroupMember = Error 10303 ''not a group member'' None"
definition "ErrMemberNotActive = Error 10304 ''member not active'' None"
definition "ErrAlreadyGroupMember = Error 10305 ''already a group member'' None"
definition "ErrNotGroupOwner = Error 10306 ''not group owner'' None"
definition "ErrNotGroupAdmin = Error 10307 ''not group admin'' None"
definition "ErrCannotKickOwner = Error 10308 ''cannot kick group owner'' None"
definition "ErrGroupFull = Error 10309 ''group member limit reached'' None"
definition "ErrMessageNotFound = Error 10401 ''message not found'' None"
definition "ErrMessageDuplicate = Error 10402 ''duplicate message'' None"
definition "ErrMessageContentTooLong = Error 10403 ''message content too large'' None"
definition "ErrSeqAllocFailed = Error 20401 ''seq allocation failed'' None"
definition "ErrMessageSendFailed = Error 20402 ''message send failed'' None"
definition "ErrMessagePullFailed = Error 20403 ''message pull failed'' None"
definition "ErrConversationNotFound = Error 10501 ''conversation not found'' None"
definition "ErrConnOverLimit = Error 10601 ''connection over max limit'' None"
definition "ErrConnClosed = Error 10602 ''connection closed'' None"
definition "ErrInvalidProtocol = Error 10603 ''invalid protocol'' None"
definition "ErrNodeDraining = Error 10604 ''node is shutting down'' None"
definition "ErrPushFailed = Error 20601 ''push message failed'' None"

lemmas catalogue_defs =
  ErrInvalidParam_def ErrUnauthorized_def ErrForbidden_def ErrNotFound_def ErrTooManyRequests_def
  ErrNoPermission_def ErrInternal_def ErrStoreFailed_def ErrBusFailed_def ErrTimeout_def
  ErrTokenInvalid_def ErrTokenExpired_def ErrTokenMissing_def ErrTokenMismatch_def
  ErrLoginFailed_def ErrPasswordWrong_def ErrProviderDisabled_def ErrAuthUnavailable_def
  ErrUserNotFound_def ErrUserExists_def ErrGroupNotFound_def ErrGroupDismissed_def
  ErrNotGroupMember_def ErrMemberNotActive_def ErrAlreadyGroupMember_def ErrNotGroupOwner_def
  ErrNotGroupAdmin_def ErrCannotKickOwner_def ErrGroupFull_def ErrMessageNotFound_def
  ErrMessageDuplicate_def ErrMessageContentTooLong_def ErrSeqAllocFailed_def
  ErrMessageSendFailed_def ErrMessagePullFailed_def ErrConversationNotFound_def
  ErrConnOverLimit_def ErrConnClosed_def ErrInvalidProtocol_def ErrNodeDraining_def
  ErrPushFailed_def

definition catalogue :: "Error list" where
  "catalogue =
     [ErrInvalidParam, ErrUnauthorized, ErrForbidden, ErrNotFound, ErrTooManyRequests,
      ErrNoPermission, ErrInternal, ErrStoreFailed, ErrBusFailed, ErrTimeout, ErrTokenInvalid,
      ErrTokenExpired, ErrTokenMissing, ErrTokenMismatch, ErrLoginFailed, ErrPasswordWrong,
      ErrProviderDisabled, ErrAuthUnavailable, ErrUserNotFound, ErrUserExists, ErrGroupNotFound,
      ErrGroupDismissed, ErrNotGroupMember, ErrMemberNotActive, ErrAlreadyGroupMember,
      ErrNotGroupOwner, ErrNotGroupAdmin, ErrCannotKickOwner, ErrGroupFull, ErrMessageNotFound,
      ErrMessageDuplicate, ErrMessageContentTooLong, ErrSeqAllocFailed, ErrMessageSendFailed,
      ErrMessagePullFailed, ErrConversationNotFound, ErrConnOverLimit, ErrConnClosed,
      ErrInvalidProtocol, ErrNodeDraining, ErrPushFailed]"

section \<open>Crossing a boundary\<close>

definition From :: "go_error option \<Rightarrow> Error option" where
  "From err = (case err of
       None \<Rightarrow> None
     | Some e \<Rightarrow> (case as_errcode e of
           Some x \<Rightarrow> Some x
         | None \<Rightarrow> Some (Wrap ErrInternal (Some e))))"

definition Or :: "go_error \<Rightarrow> Error \<Rightarrow> go_error" where
  "Or err fallback = (case as_errcode err of
       Some _ \<Rightarrow> err
     | None \<Rightarrow> Of_errcode (Wrap fallback (Some err)))"

definition IsSystem :: "go_error option \<Rightarrow> bool" where
  "IsSystem err = (case From err of None \<Rightarrow> False | Some e \<Rightarrow> Error_IsSystem e)"

text \<open>Shorthands of the services: an errcode as the error of a result, and the fallback every
  unexpected store error is wrapped with.\<close>

abbreviation fail :: "Error \<Rightarrow> 'a result" where
  "fail e \<equiv> Inl (Of_errcode e)"

abbreviation store_failed :: "go_error \<Rightarrow> go_error" where
  "store_failed e \<equiv> Of_errcode (Wrap ErrStoreFailed (Some e))"

abbreviation is_not_found :: "go_error \<Rightarrow> bool" where
  "is_not_found e \<equiv> errors_Is e (Sentinel store_ErrNotFound)"

abbreviation is_duplicate :: "go_error \<Rightarrow> bool" where
  "is_duplicate e \<equiv> errors_Is e (Sentinel store_ErrDuplicate)"

section \<open>Lemmas\<close>

lemma Code_Wrap [simp]: "Code (Wrap e c) = Code e"
  by (simp add: Wrap_def split: option.splits)

lemma Code_WithMessage [simp]: "Code (WithMessage e m) = Code e"
  by (simp add: WithMessage_def)

lemma errors_Is_Wrap: "errors_Is (Of_errcode (Wrap e (Some c))) t \<longleftrightarrow>
    Error_Is e t \<or> errors_Is c t"
  by (cases t) (simp_all add: Wrap_def)

lemma errors_Is_errcode_code:
  "errors_Is (Of_errcode e) (Of_errcode t) \<longleftrightarrow>
     Code t = Code e \<or> (\<exists>c. ErrCause e = Some c \<and> errors_Is c (Of_errcode t))"
proof (cases e)
  case (Error c m ca)
  then show ?thesis
    by (cases ca) simp_all
qed

lemma as_errcode_is:
  "as_errcode err = Some x \<Longrightarrow> errors_Is err (Of_errcode x)"
  "as_errcodes es = Some x \<Longrightarrow> \<exists>e \<in> set es. errors_Is e (Of_errcode x)"
proof (induction err and es rule: as_errcode_as_errcodes.induct)
  case (1 e)
  then show ?case
    by (simp add: errors_Is_errcode_code)
next
  case (6 e es)
  then show ?case
    by (auto split: option.splits)
qed simp_all

lemma From_Some: "\<exists>x. From (Some e) = Some x"
  by (simp add: From_def split: option.splits)

lemma Or_has_errcode: "\<exists>x. as_errcode (Or err fallback) = Some x"
  by (auto simp: Or_def split: option.splits)

lemma Or_keeps: "as_errcode err = Some x \<Longrightarrow> Or err fallback = err"
  by (simp add: Or_def)

lemma Or_wraps: "as_errcode err = None \<Longrightarrow>
    as_errcode (Or err fallback) = Some (Error (Code fallback) (ErrMessage fallback) (Some err))"
  by (simp add: Or_def Wrap_def)

end
