(* ===== verification/Identity.thy ===== *)
theory Identity
  imports Errcode
begin

text \<open>
  \<^verbatim>\<open>internal/identity/identity.go\<close>: the user id formats, the actor behind a platform id and
  the validity test every entry point applies. The lemmas show that an actor id is
  spelled in exactly one way and that a valid id holds no \<^verbatim>\<open>:\<close>, which is what conversation
  ids rely on.
\<close>

section \<open>uuid\<close>

text \<open>
  Go's \<^verbatim>\<open>uuid.Parse\<close> on the 36-character form, hexadecimal digits in either case; the value
  is the list of its 32 nibbles. Other spellings it may accept have another length, so
  the comparison with \<^verbatim>\<open>u.String()\<close> that follows every call here refuses them as well.
\<close>

definition hex_value :: "char \<Rightarrow> int option" where
  "hex_value c = (let n = of_char c :: int in
     if 48 \<le> n \<and> n \<le> 57 then Some (n - 48)
     else if 97 \<le> n \<and> n \<le> 102 then Some (n - 87)
     else if 65 \<le> n \<and> n \<le> 70 then Some (n - 55)
     else None)"

definition hex_char :: "int \<Rightarrow> char" where
  "hex_char n = (if n < 10 then char_of (n + 48) else char_of (n + 87))"

fun hex_values :: "string \<Rightarrow> int list option" where
  "hex_values [] = Some []"
| "hex_values (c # cs) = (case hex_value c of None \<Rightarrow> None
     | Some v \<Rightarrow> map_option ((#) v) (hex_values cs))"

definition uuid_Parse :: "string \<Rightarrow> int list option" where
  "uuid_Parse s =
     (if length s = 36 \<and> s ! 8 = CHR ''-'' \<and> s ! 13 = CHR ''-'' \<and> s ! 18 = CHR ''-''
         \<and> s ! 23 = CHR ''-''
      then hex_values (take 8 s @ take 4 (drop 9 s) @ take 4 (drop 14 s)
                       @ take 4 (drop 19 s) @ drop 24 s)
      else None)"

definition uuid_String :: "int list \<Rightarrow> string" where
  "uuid_String u = (let h = map hex_char u in
     take 8 h @ ''-'' @ take 4 (drop 8 h) @ ''-'' @ take 4 (drop 12 h) @ ''-''
     @ take 4 (drop 16 h) @ ''-'' @ drop 20 h)"

section \<open>Ids and actors\<close>

definition PrefixLength :: nat where "PrefixLength = 4"
definition PrefixUser :: string where "PrefixUser = ''u___''"
definition PrefixAgent :: string where "PrefixAgent = ''ag__''"
definition PrefixNative :: string where "PrefixNative = ''nx__''"

datatype Role = RoleUser | RoleAgent | OtherRole string

record Actor =
  actor_Id :: int64
  actor_Role :: Role

definition UserId :: "Actor \<Rightarrow> string result" where
  "UserId a = (case actor_Role a of
       RoleUser \<Rightarrow> Inr (PrefixUser @ FormatInt (actor_Id a))
     | RoleAgent \<Rightarrow> Inr (PrefixAgent @ FormatInt (actor_Id a))
     | OtherRole r \<Rightarrow> Inl (Errorf ''identity: unknown role'' []))"

abbreviation invalid_user_id :: go_error where
  "invalid_user_id \<equiv> Errorf ''identity: invalid user id'' [Sentinel identity_ErrInvalidUserId]"

definition ParseActor :: "string \<Rightarrow> Actor result" where
  "ParseActor userId =
     (if length userId \<le> PrefixLength then Inl invalid_user_id
      else let prefix = take PrefixLength userId;
               role = (if prefix = PrefixUser then Some RoleUser
                       else if prefix = PrefixAgent then Some RoleAgent else None);
               digits = drop PrefixLength userId
           in case role of
                None \<Rightarrow> Inl invalid_user_id
              | Some r \<Rightarrow>
                  (case ParseInt digits of
                     None \<Rightarrow> Inl invalid_user_id
                   | Some i \<Rightarrow> (if i \<le> 0 \<or> FormatInt i \<noteq> digits then Inl invalid_user_id
                                else Inr \<lparr>actor_Id = i, actor_Role = r\<rparr>)))"

definition NativeUserId :: "string \<Rightarrow> string" where
  "NativeUserId u = PrefixNative @ u"

definition IsNative :: "string \<Rightarrow> bool" where
  "IsNative userId = HasPrefix userId PrefixNative"

definition Valid :: "string \<Rightarrow> bool" where
  "Valid userId =
     (if length userId \<le> PrefixLength \<or> CHR '':'' \<in> set userId then False
      else let prefix = take PrefixLength userId in
        if prefix = PrefixUser \<or> prefix = PrefixAgent then
          (case ParseActor userId of Inl _ \<Rightarrow> False | Inr _ \<Rightarrow> True)
        else if prefix = PrefixNative then
          (case uuid_Parse (drop PrefixLength userId) of
             None \<Rightarrow> False
           | Some u \<Rightarrow> uuid_String u = drop PrefixLength userId)
        else False)"

lemmas prefix_defs = PrefixLength_def PrefixUser_def PrefixAgent_def PrefixNative_def

section \<open>Lemmas\<close>

lemma FormatInt_nonempty [simp]: "FormatInt i \<noteq> []"
  by (simp add: FormatInt_def)

lemma ParseActor_user: "0 < i \<Longrightarrow> in_i64 i \<Longrightarrow>
    ParseActor (PrefixUser @ FormatInt i) = Inr \<lparr>actor_Id = i, actor_Role = RoleUser\<rparr>"
  by (simp add: ParseActor_def prefix_defs)

lemma ParseActor_agent: "0 < i \<Longrightarrow> in_i64 i \<Longrightarrow>
    ParseActor (PrefixAgent @ FormatInt i) = Inr \<lparr>actor_Id = i, actor_Role = RoleAgent\<rparr>"
  by (simp add: ParseActor_def prefix_defs)

lemma ParseActor_Inr:
  assumes "ParseActor s = Inr a"
  shows "UserId a = Inr s \<and> 0 < actor_Id a \<and> in_i64 (actor_Id a)"
proof -
  have split: "s = take PrefixLength s @ drop PrefixLength s"
    by simp
  from assms obtain i r where i: "ParseInt (drop PrefixLength s) = Some i" "0 < i"
      "FormatInt i = drop PrefixLength s" "a = \<lparr>actor_Id = i, actor_Role = r\<rparr>"
      and r: "(take PrefixLength s = PrefixUser \<and> r = RoleUser) \<or>
              (take PrefixLength s = PrefixAgent \<and> r = RoleAgent)"
    by (auto simp: ParseActor_def Let_def split: if_splits option.splits)
  have range: "in_i64 i"
    using i(1) by (rule ParseInt_range)
  show ?thesis
  proof (cases "r = RoleUser")
    case True
    then have "UserId a = Inr (take PrefixLength s @ drop PrefixLength s)"
      using i r by (auto simp: UserId_def)
    then show ?thesis
      using i range by simp
  next
    case False
    then have "UserId a = Inr (take PrefixLength s @ drop PrefixLength s)"
      using i r by (auto simp: UserId_def)
    then show ?thesis
      using i range by simp
  qed
qed

lemma ParseActor_error_kind:
  "ParseActor s = Inl e \<Longrightarrow> errors_Is e (Sentinel identity_ErrInvalidUserId)"
  by (auto simp: ParseActor_def Let_def split: if_splits option.splits)

lemma Valid_no_colon: "Valid s \<Longrightarrow> CHR '':'' \<notin> set s"
  by (simp add: Valid_def split: if_splits)

lemma Valid_nonempty: "Valid s \<Longrightarrow> s \<noteq> []"
  by (auto simp: Valid_def PrefixLength_def)

lemma hex_values_length: "hex_values s = Some v \<Longrightarrow> length v = length s"
  by (induction s arbitrary: v) (auto split: option.splits)

lemma hex_values_bound: "hex_values s = Some v \<Longrightarrow> list_all (\<lambda>n. 0 \<le> n \<and> n < 16) v"
  by (induction s arbitrary: v)
    (auto simp: hex_value_def Let_def split: option.splits if_splits)

lemma hex_char_no_colon: "0 \<le> n \<Longrightarrow> n < 16 \<Longrightarrow> hex_char n \<noteq> CHR '':''"
proof -
  assume "0 \<le> n" "n < 16"
  then have "(of_char (hex_char n) :: int) \<noteq> of_char (CHR '':'')"
    by (auto simp: hex_char_def)
  then show ?thesis
    by metis
qed

end
