(* ===== verification/Base64.thy ===== *)
theory Base64
  imports Prelude
begin

text \<open>
  \<^verbatim>\<open>base64.RawURLEncoding\<close> of Go's standard library, which carries the paging cursors:
  three bytes become four characters of the URL alphabet, there is no padding, decoding
  ignores carriage returns and newlines, refuses every other character outside the
  alphabet and a final group of one character, and does not look at the spare bits of
  a final group of two or three.
\<close>

definition b64_char :: "int \<Rightarrow> char" where
  "b64_char n = (if n < 26 then char_of (n + 65) else if n < 52 then char_of (n + 71)
                 else if n < 62 then char_of (n - 4) else if n = 62 then CHR ''-'' else CHR ''_'')"

definition b64_value :: "char \<Rightarrow> int option" where
  "b64_value c = (let n = of_char c :: int in
     if 65 \<le> n \<and> n \<le> 90 then Some (n - 65)
     else if 97 \<le> n \<and> n \<le> 122 then Some (n - 71)
     else if 48 \<le> n \<and> n \<le> 57 then Some (n + 4)
     else if n = 45 then Some 62
     else if n = 95 then Some 63
     else None)"

fun b64_groups :: "int list \<Rightarrow> int list" where
  "b64_groups [] = []"
| "b64_groups [a] = [a div 4, (a mod 4) * 16]"
| "b64_groups [a, b] = [a div 4, (a mod 4) * 16 + b div 16, (b mod 16) * 4]"
| "b64_groups (a # b # c # r) =
     a div 4 # ((a mod 4) * 16 + b div 16) # ((b mod 16) * 4 + c div 64) # (c mod 64)
     # b64_groups r"

fun b64_ungroup :: "int list \<Rightarrow> int list option" where
  "b64_ungroup [] = Some []"
| "b64_ungroup [a] = None"
| "b64_ungroup [a, b] = Some [a * 4 + b div 16]"
| "b64_ungroup [a, b, c] = Some [a * 4 + b div 16, (b mod 16) * 16 + c div 4]"
| "b64_ungroup (a # b # c # d # r) =
     map_option (\<lambda>t. (a * 4 + b div 16) # ((b mod 16) * 16 + c div 4) # ((c mod 4) * 64 + d) # t)
       (b64_ungroup r)"

fun b64_values :: "string \<Rightarrow> int list option" where
  "b64_values [] = Some []"
| "b64_values (c # cs) =
     (if c = CHR 0x0A \<or> c = CHR 0x0D then b64_values cs
      else case b64_value c of None \<Rightarrow> None
           | Some v \<Rightarrow> map_option ((#) v) (b64_values cs))"

definition EncodeToString :: "string \<Rightarrow> string" where
  "EncodeToString s = map b64_char (b64_groups (map of_char s))"

definition DecodeString :: "string \<Rightarrow> string option" where
  "DecodeString s = (case b64_values s of None \<Rightarrow> None
     | Some vs \<Rightarrow> map_option (map char_of) (b64_ungroup vs))"

lemma b64_value_char [simp]: "0 \<le> n \<and> n < 64 \<Longrightarrow> b64_value (b64_char n) = Some n"
  by (auto simp: b64_value_def b64_char_def Let_def)

lemma b64_char_not_newline:
  assumes "0 \<le> n \<and> n < 64"
  shows "b64_char n \<noteq> CHR 0x0A" "b64_char n \<noteq> CHR 0x0D"
proof -
  have "b64_value (CHR 0x0A) = None" "b64_value (CHR 0x0D) = None"
    by (simp_all add: b64_value_def)
  then show "b64_char n \<noteq> CHR 0x0A" "b64_char n \<noteq> CHR 0x0D"
    using b64_value_char [OF assms] by force+
qed

lemma b64_values_chars [simp]:
  "list_all (\<lambda>n. 0 \<le> n \<and> n < 64) ns \<Longrightarrow> b64_values (map b64_char ns) = Some ns"
  by (induction ns) (simp_all add: b64_char_not_newline)

lemma b64_groups_bound [simp]:
  "list_all (\<lambda>n. 0 \<le> n \<and> n < 256) ns \<Longrightarrow> list_all (\<lambda>n. 0 \<le> n \<and> n < 64) (b64_groups ns)"
  by (induction ns rule: b64_groups.induct)
    (auto simp: pos_imp_zdiv_nonneg_iff intro!: add_nonneg_nonneg)

lemma b64_ungroup_groups [simp]:
  "list_all (\<lambda>n. 0 \<le> n \<and> n < 256) ns \<Longrightarrow> b64_ungroup (b64_groups ns) = Some ns"
  by (induction ns rule: b64_groups.induct) auto

lemma of_char_bound: "list_all (\<lambda>n. 0 \<le> n \<and> n < 256) (map of_char (s :: string) :: int list)"
  by (simp add: list_all_iff of_char_bounds)

lemma DecodeString_EncodeToString [simp]: "DecodeString (EncodeToString s) = Some s"
  by (simp add: DecodeString_def EncodeToString_def of_char_bound comp_def)

lemma EncodeToString_empty [simp]: "EncodeToString s = [] \<longleftrightarrow> s = []"
  by (cases "map of_char s :: int list" rule: b64_groups.cases) (auto simp: EncodeToString_def)

end
