(* ===== verification/Store.thy ===== *)
theory Store
  imports Errcode "HOL-Library.State_Monad"
begin

text \<open>
  \<^verbatim>\<open>internal/store/store.go\<close>: the rows of the tables, the \<^verbatim>\<open>Store\<close> interface as a record of
  operations on a database state of any type, and what each operation promises.

  An operation is a \<^verbatim>\<open>State_Monad\<close> action that returns a \<^verbatim>\<open>result\<close>: the value or the Go
  error. \<^verbatim>\<open>WithTx\<close> stands apart, since the callback receives a store without it. The
  callback's captured variables are an explicit argument and result.

  The promise of the interface is stated over \<^verbatim>\<open>Tables\<close>, finite maps from keys to rows, by
  one relation per method.
\<close>

section \<open>Rows\<close>

definition MaxExtraBytes :: int where "MaxExtraBytes = 65535"

record User =
  user_Id :: string
  user_Username :: string
  user_PasswordHash :: string
  user_Nickname :: string
  user_Avatar :: string
  user_Extra :: string
  user_CreatedAt :: time
  user_UpdatedAt :: time

definition GroupStatusNormal :: int32 where "GroupStatusNormal = 0"
definition GroupStatusDismissed :: int32 where "GroupStatusDismissed = 1"
definition RoleMember :: int32 where "RoleMember = 1"
definition RoleAdmin :: int32 where "RoleAdmin = 2"
definition RoleOwner :: int32 where "RoleOwner = 3"
definition ConversationSingle :: int32 where "ConversationSingle = 1"
definition ConversationGroup :: int32 where "ConversationGroup = 2"

lemmas store_consts = GroupStatusNormal_def GroupStatusDismissed_def RoleMember_def RoleAdmin_def
  RoleOwner_def ConversationSingle_def ConversationGroup_def

record Group =
  group_Id :: string
  group_Name :: string
  group_Avatar :: string
  group_Introduction :: string
  group_OwnerId :: string
  group_Status :: int32
  group_Extra :: string
  group_CreatedAt :: time
  group_UpdatedAt :: time

record GroupMember =
  gm_GroupId :: string
  gm_UserId :: string
  gm_Role :: int32
  gm_Nickname :: string
  gm_InviterUserId :: string
  gm_JoinedAt :: time

record Conversation =
  conv_ConversationId :: string
  conv_Type :: int32
  conv_GroupId :: string
  conv_MaxSeq :: int64
  conv_CreatedAt :: time
  conv_UpdatedAt :: time

record UserConversation =
  uc_OwnerId :: string
  uc_ConversationId :: string
  uc_Type :: int32
  uc_PeerUserId :: string
  uc_GroupId :: string
  uc_MinSeq :: int64
  uc_MaxSeq :: int64
  uc_ReadSeq :: int64
  uc_RecvMsgOpt :: int32
  uc_IsPinned :: bool
  uc_Extra :: string
  uc_UpdatedAt :: time
  uc_CreatedAt :: time

text \<open>The embedding of \<^verbatim>\<open>UserConversation\<close> in \<^verbatim>\<open>UserConversationRow\<close> is record extension.\<close>

record UserConversationRow = UserConversation +
  row_ConvMaxSeq :: int64

record OnlineConn =
  oc_ConnId :: string
  oc_UserId :: string
  oc_PlatformId :: int32
  oc_NodeId :: string
  oc_HeartbeatAt :: time

record Message =
  msg_ConversationId :: string
  msg_Seq :: int64
  msg_ServerMsgId :: string
  msg_ClientMsgId :: string
  msg_SenderId :: string
  msg_RecvId :: string
  msg_GroupId :: string
  msg_SessionType :: int32
  msg_ContentType :: int32
  msg_Content :: string
  msg_SendTime :: time
  msg_CreatedAt :: time

type_synonym MessageKey = "string \<times> int64"

text \<open>A list cursor, ordered as the pages are: by time, then by conversation id.\<close>

datatype ListCursor = ListCursor (cur_UpdatedAt: time) (cur_ConversationId: string)

instantiation ListCursor :: linorder
begin

definition less_eq_ListCursor :: "ListCursor \<Rightarrow> ListCursor \<Rightarrow> bool" where
  "a \<le> b \<longleftrightarrow> cur_UpdatedAt a < cur_UpdatedAt b \<or>
     (cur_UpdatedAt a = cur_UpdatedAt b \<and> cur_ConversationId a \<le> cur_ConversationId b)"

definition less_ListCursor :: "ListCursor \<Rightarrow> ListCursor \<Rightarrow> bool" where
  "a < b \<longleftrightarrow> cur_UpdatedAt a < cur_UpdatedAt b \<or>
     (cur_UpdatedAt a = cur_UpdatedAt b \<and> cur_ConversationId a < cur_ConversationId b)"

instance
  by standard
    (auto simp: less_eq_ListCursor_def less_ListCursor_def intro: ListCursor.expand)

end

text \<open>\<^verbatim>\<open>time.Date(9999, 1, 1, 0, 0, 0, 0, time.UTC)\<close> is 253370764800 seconds after the epoch.\<close>

definition FirstPage :: ListCursor where
  "FirstPage = ListCursor (253370764800 * second) []"

definition cursor_of :: "'a UserConversation_scheme \<Rightarrow> ListCursor" where
  "cursor_of uc = ListCursor (uc_UpdatedAt uc) (uc_ConversationId uc)"

definition join_row :: "UserConversation \<Rightarrow> Conversation \<Rightarrow> UserConversationRow" where
  "join_row uc c = UserConversation.extend uc (UserConversationRow.fields (conv_MaxSeq c))"

text \<open>SQL's \<^verbatim>\<open>COALESCE\<close> on a nullable parameter: a nil pointer keeps the column.\<close>

definition coalesce :: "'a option \<Rightarrow> 'a \<Rightarrow> 'a" where
  "coalesce x d = (case x of None \<Rightarrow> d | Some v \<Rightarrow> v)"

definition memKey :: "GroupMember \<Rightarrow> string \<times> string" where
  "memKey m = (gm_GroupId m, gm_UserId m)"

definition ucKey :: "'a UserConversation_scheme \<Rightarrow> string \<times> string" where
  "ucKey uc = (uc_OwnerId uc, uc_ConversationId uc)"

definition msgKey :: "Message \<Rightarrow> string \<times> int64" where
  "msgKey m = (msg_ConversationId m, msg_Seq m)"

definition clientKey :: "Message \<Rightarrow> string \<times> string \<times> string" where
  "clientKey m = (msg_ConversationId m, msg_SenderId m, msg_ClientMsgId m)"

lemma join_row_simps [simp]:
  "uc_OwnerId (join_row uc c) = uc_OwnerId uc"
  "uc_ConversationId (join_row uc c) = uc_ConversationId uc"
  "uc_Type (join_row uc c) = uc_Type uc"
  "uc_PeerUserId (join_row uc c) = uc_PeerUserId uc"
  "uc_GroupId (join_row uc c) = uc_GroupId uc"
  "uc_MinSeq (join_row uc c) = uc_MinSeq uc"
  "uc_MaxSeq (join_row uc c) = uc_MaxSeq uc"
  "uc_ReadSeq (join_row uc c) = uc_ReadSeq uc"
  "uc_RecvMsgOpt (join_row uc c) = uc_RecvMsgOpt uc"
  "uc_IsPinned (join_row uc c) = uc_IsPinned uc"
  "uc_UpdatedAt (join_row uc c) = uc_UpdatedAt uc"
  "row_ConvMaxSeq (join_row uc c) = conv_MaxSeq c"
  "ucKey (join_row uc c) = ucKey uc"
  "cursor_of (join_row uc c) = cursor_of uc"
  by (cases uc; simp add: join_row_def UserConversation.defs UserConversationRow.defs
      ucKey_def cursor_of_def)+

section \<open>The interface\<close>

record 'db StoreOps =
  GetUser :: "string \<Rightarrow> ('db, User result) state"
  GetUsers :: "string list \<Rightarrow> ('db, User list result) state"
  GetUserByUsername :: "string \<Rightarrow> ('db, User result) state"
  CreateUser :: "User \<Rightarrow> ('db, unit result) state"
  UpsertUser :: "User \<Rightarrow> ('db, unit result) state"
  UpdateUserProfile :: "string \<Rightarrow> string option \<Rightarrow> string option \<Rightarrow> string option \<Rightarrow> time
    \<Rightarrow> ('db, unit result) state"
  CreateGroup :: "Group \<Rightarrow> GroupMember list \<Rightarrow> ('db, unit result) state"
  GetGroup :: "string \<Rightarrow> ('db, Group result) state"
  AddGroupMember :: "GroupMember \<Rightarrow> ('db, unit result) state"
  RemoveGroupMember :: "string \<Rightarrow> string \<Rightarrow> ('db, bool result) state"
  GetGroupMember :: "string \<Rightarrow> string \<Rightarrow> ('db, GroupMember result) state"
  ListGroupMembers :: "string \<Rightarrow> ('db, GroupMember list result) state"
  CountGroupMembers :: "string \<Rightarrow> ('db, int64 result) state"
  ListUserGroupIds :: "string \<Rightarrow> ('db, string list result) state"
  LockConversation :: "string \<Rightarrow> int32 \<Rightarrow> string \<Rightarrow> time \<Rightarrow> ('db, Conversation result) state"
  GetConversation :: "string \<Rightarrow> ('db, Conversation result) state"
  GetUserConversation :: "string \<Rightarrow> string \<Rightarrow> ('db, UserConversation result) state"
  GetUserConversationRow :: "string \<Rightarrow> string \<Rightarrow> ('db, UserConversationRow result) state"
  UpsertUserConversation :: "UserConversation \<Rightarrow> ('db, unit result) state"
  CreateUserConversations :: "UserConversation list \<Rightarrow> ('db, unit result) state"
  SetUserConversationMaxSeq :: "string \<Rightarrow> string \<Rightarrow> int64 \<Rightarrow> ('db, unit result) state"
  DeleteUserConversation :: "string \<Rightarrow> string \<Rightarrow> ('db, unit result) state"
  SetUserConversationOpt :: "string \<Rightarrow> string \<Rightarrow> int32 option \<Rightarrow> bool option
    \<Rightarrow> ('db, unit result) state"
  VisibleOwners :: "string \<Rightarrow> string list \<Rightarrow> int64 \<Rightarrow> ('db, string list result) state"
  MutedOwners :: "string \<Rightarrow> string list \<Rightarrow> ('db, string list result) state"
  GetMessageByClientId :: "string \<Rightarrow> string \<Rightarrow> string \<Rightarrow> ('db, Message result) state"
  InsertMessage :: "Message \<Rightarrow> ('db, bool result) state"
  SetConversationMaxSeq :: "string \<Rightarrow> int64 \<Rightarrow> time \<Rightarrow> ('db, unit result) state"
  ListMessages :: "string \<Rightarrow> int64 \<Rightarrow> int64 \<Rightarrow> int \<Rightarrow> ('db, Message list result) state"
  GetMessages :: "MessageKey list \<Rightarrow> ('db, Message list result) state"
  TouchUserConversation :: "UserConversation \<Rightarrow> int64 \<Rightarrow> ('db, unit result) state"
  TouchConversationMembers :: "string \<Rightarrow> time \<Rightarrow> ('db, unit result) state"
  AdvanceReadSeq :: "string \<Rightarrow> string \<Rightarrow> int64 \<Rightarrow> ('db, unit result) state"
  ListUserConversations :: "string \<Rightarrow> ListCursor \<Rightarrow> int \<Rightarrow> ('db, UserConversationRow list result) state"
  UpsertOnlineConn :: "OnlineConn \<Rightarrow> ('db, unit result) state"
  DeleteOnlineConn :: "string \<Rightarrow> ('db, unit result) state"
  RenewOnlineConns :: "string \<Rightarrow> string list \<Rightarrow> time \<Rightarrow> ('db, unit result) state"
  ListOnlineConns :: "string list \<Rightarrow> time \<Rightarrow> ('db, OnlineConn list result) state"
  DeleteOnlineConnsByNode :: "string \<Rightarrow> ('db, unit result) state"

record ('db, 'c) StoreTx = "'db StoreOps" +
  WithTx :: "('db StoreOps \<Rightarrow> ('db, unit result \<times> 'c) state) \<Rightarrow> 'c \<Rightarrow> ('db, unit result \<times> 'c) state"

end
