(* ===== verification/StoreSpec.thy ===== *)
theory StoreSpec
  imports Store
begin

text \<open>
  What the \<^verbatim>\<open>Store\<close> interface promises (the comments of \<^verbatim>\<open>internal/store/store.go\<close> and the
  statements in \<^verbatim>\<open>internal/store/pgstore/queries\<close>), stated over \<^verbatim>\<open>Tables\<close>: maps from primary
  keys to rows. One relation per method gives the outcomes it may have and the tables after it.

  The locales of \<^verbatim>\<open>StoreContract\<close> are the interface the services are proved against. \<^verbatim>\<open>store_statements\<close> has a
  law per method: it behaves as its relation says, or, when the store is not healthy, it may
  report a driver error, the effect applied or not. \<^verbatim>\<open>store_tx\<close> adds the law of \<^verbatim>\<open>WithTx\<close>: the
  callback's effects are applied together when it returns no error and not at all when it
  does, and a failed commit may or may not have been applied.

  \<^verbatim>\<open>wp\<close> is the proof rule of both: from the tables \<^verbatim>\<open>t\<close> an action ends with a result and
  tables that satisfy the postcondition.
\<close>

section \<open>Tables\<close>

record Tables =
  users :: "string \<rightharpoonup> User"
  groups :: "string \<rightharpoonup> Group"
  members :: "string \<times> string \<rightharpoonup> GroupMember"
  convs :: "string \<rightharpoonup> Conversation"
  uconvs :: "string \<times> string \<rightharpoonup> UserConversation"
  msgs :: "string \<times> int64 \<rightharpoonup> Message"
  conns :: "string \<rightharpoonup> OnlineConn"

text \<open>Every row is stored under its own key.\<close>

definition keyed :: "Tables \<Rightarrow> bool" where
  "keyed t \<longleftrightarrow>
     (\<forall>k u. users t k = Some u \<longrightarrow> user_Id u = k) \<and>
     (\<forall>k g. groups t k = Some g \<longrightarrow> group_Id g = k) \<and>
     (\<forall>k m. members t k = Some m \<longrightarrow> memKey m = k) \<and>
     (\<forall>k c. convs t k = Some c \<longrightarrow> conv_ConversationId c = k) \<and>
     (\<forall>k uc. uconvs t k = Some uc \<longrightarrow> ucKey uc = k) \<and>
     (\<forall>k m. msgs t k = Some m \<longrightarrow> msgKey m = k) \<and>
     (\<forall>k c. conns t k = Some c \<longrightarrow> oc_ConnId c = k)"

type_synonym 'a spec = "Tables \<Rightarrow> (sentinel + 'a) \<Rightarrow> Tables \<Rightarrow> bool"

definition found :: "'a option \<Rightarrow> sentinel + 'a" where
  "found x = (case x of None \<Rightarrow> Inl store_ErrNotFound | Some v \<Rightarrow> Inr v)"

definition alter :: "'k \<Rightarrow> ('v \<Rightarrow> 'v) \<Rightarrow> ('k \<rightharpoonup> 'v) \<Rightarrow> ('k \<rightharpoonup> 'v)" where
  "alter k f m = (case m k of None \<Rightarrow> m | Some v \<Rightarrow> m(k \<mapsto> f v))"

section \<open>What each method promises\<close>

named_theorems spec_defs \<open>the relations of the store methods\<close>

definition GetUser_spec :: "string \<Rightarrow> User spec" where [spec_defs]:
  "GetUser_spec i t r t' \<longleftrightarrow> t' = t \<and> r = found (users t i)"

definition GetUsers_spec :: "string list \<Rightarrow> User list spec" where [spec_defs]:
  "GetUsers_spec ids t r t' \<longleftrightarrow> t' = t \<and>
     (\<exists>us. r = Inr us \<and> distinct us \<and> set us = {u. \<exists>i \<in> set ids. users t i = Some u})"

definition GetUserByUsername_spec :: "string \<Rightarrow> User spec" where [spec_defs]:
  "GetUserByUsername_spec name t r t' \<longleftrightarrow> t' = t \<and>
     (case r of Inr u \<Rightarrow> users t (user_Id u) = Some u \<and> user_Username u = name
      | Inl e \<Rightarrow> e = store_ErrNotFound \<and> (\<forall>u \<in> ran (users t). user_Username u \<noteq> name))"

definition CreateUser_spec :: "User \<Rightarrow> unit spec" where [spec_defs]:
  "CreateUser_spec u t r t' \<longleftrightarrow>
     (if users t (user_Id u) = None
      then r = Inr () \<and> t' = t\<lparr>users := (users t)(user_Id u \<mapsto> u)\<rparr>
      else r = Inl store_ErrDuplicate \<and> t' = t)"

definition UpsertUser_spec :: "User \<Rightarrow> unit spec" where [spec_defs]:
  "UpsertUser_spec u t r t' \<longleftrightarrow> r = Inr () \<and>
     t' = t\<lparr>users := (users t)(user_Id u \<mapsto>
       (case users t (user_Id u) of
          None \<Rightarrow> u\<lparr>user_Username := [], user_PasswordHash := [], user_CreatedAt := user_UpdatedAt u\<rparr>
        | Some old \<Rightarrow> old\<lparr>user_Nickname := user_Nickname u, user_Avatar := user_Avatar u,
                       user_Extra := user_Extra u, user_UpdatedAt := user_UpdatedAt u\<rparr>))\<rparr>"

definition UpdateUserProfile_spec ::
  "string \<Rightarrow> string option \<Rightarrow> string option \<Rightarrow> string option \<Rightarrow> time \<Rightarrow> unit spec" where [spec_defs]:
  "UpdateUserProfile_spec i nick av ex now t r t' \<longleftrightarrow>
     (case users t i of
        None \<Rightarrow> r = Inl store_ErrNotFound \<and> t' = t
      | Some u \<Rightarrow> r = Inr () \<and> t' = t\<lparr>users := (users t)(i \<mapsto>
          u\<lparr>user_Nickname := coalesce nick (user_Nickname u),
            user_Avatar := coalesce av (user_Avatar u),
            user_Extra := coalesce ex (user_Extra u), user_UpdatedAt := now\<rparr>)\<rparr>)"

text \<open>Two statements: a failure of the second leaves the first to the transaction's rollback.\<close>

definition CreateGroup_spec :: "Group \<Rightarrow> GroupMember list \<Rightarrow> unit spec" where [spec_defs]:
  "CreateGroup_spec g ms t r t' \<longleftrightarrow>
     (case r of
        Inr _ \<Rightarrow> groups t (group_Id g) = None \<and> distinct (map memKey ms) \<and>
               (\<forall>m \<in> set ms. members t (memKey m) = None) \<and>
               t' = t\<lparr>groups := (groups t)(group_Id g \<mapsto> g),
                      members := members t ++ map_of (map (\<lambda>m. (memKey m, m)) ms)\<rparr>
      | Inl e \<Rightarrow> e = store_ErrDuplicate \<and>
          \<not> (groups t (group_Id g) = None \<and> distinct (map memKey ms) \<and>
             (\<forall>m \<in> set ms. members t (memKey m) = None)))"

definition GetGroup_spec :: "string \<Rightarrow> Group spec" where [spec_defs]:
  "GetGroup_spec i t r t' \<longleftrightarrow> t' = t \<and> r = found (groups t i)"

definition AddGroupMember_spec :: "GroupMember \<Rightarrow> unit spec" where [spec_defs]:
  "AddGroupMember_spec m t r t' \<longleftrightarrow>
     (if members t (memKey m) = None
      then r = Inr () \<and> t' = t\<lparr>members := (members t)(memKey m \<mapsto> m)\<rparr>
      else r = Inl store_ErrDuplicate \<and> t' = t)"

definition RemoveGroupMember_spec :: "string \<Rightarrow> string \<Rightarrow> bool spec" where [spec_defs]:
  "RemoveGroupMember_spec g u t r t' \<longleftrightarrow>
     r = Inr (members t (g, u) \<noteq> None) \<and> t' = t\<lparr>members := (members t)((g, u) := None)\<rparr>"

definition GetGroupMember_spec :: "string \<Rightarrow> string \<Rightarrow> GroupMember spec" where [spec_defs]:
  "GetGroupMember_spec g u t r t' \<longleftrightarrow> t' = t \<and> r = found (members t (g, u))"

definition roster :: "Tables \<Rightarrow> string \<Rightarrow> string set" where
  "roster t g = {u. members t (g, u) \<noteq> None}"

definition ListGroupMembers_spec :: "string \<Rightarrow> GroupMember list spec" where [spec_defs]:
  "ListGroupMembers_spec g t r t' \<longleftrightarrow> t' = t \<and>
     (\<exists>ms. r = Inr ms \<and> distinct (map gm_UserId ms) \<and>
        set ms = {m. \<exists>u. members t (g, u) = Some m} \<and>
        sorted_wrt (\<lambda>a b. gm_JoinedAt a \<le> gm_JoinedAt b) ms)"

definition CountGroupMembers_spec :: "string \<Rightarrow> int64 spec" where [spec_defs]:
  "CountGroupMembers_spec g t r t' \<longleftrightarrow> t' = t \<and> finite (roster t g) \<and> r = Inr (int (card (roster t g)))"

definition ListUserGroupIds_spec :: "string \<Rightarrow> string list spec" where [spec_defs]:
  "ListUserGroupIds_spec u t r t' \<longleftrightarrow> t' = t \<and>
     (\<exists>gs. r = Inr gs \<and> distinct gs \<and> set gs = {g. members t (g, u) \<noteq> None})"

definition new_conversation :: "string \<Rightarrow> int32 \<Rightarrow> string \<Rightarrow> time \<Rightarrow> Conversation" where
  "new_conversation i typ gid now =
     \<lparr>conv_ConversationId = i, conv_Type = typ, conv_GroupId = gid, conv_MaxSeq = 0,
      conv_CreatedAt = now, conv_UpdatedAt = now\<rparr>"

definition LockConversation_spec ::
  "string \<Rightarrow> int32 \<Rightarrow> string \<Rightarrow> time \<Rightarrow> Conversation spec" where [spec_defs]:
  "LockConversation_spec i typ gid now t r t' \<longleftrightarrow>
     (case convs t i of
        Some c \<Rightarrow> r = Inr c \<and> t' = t
      | None \<Rightarrow> r = Inr (new_conversation i typ gid now) \<and>
                t' = t\<lparr>convs := (convs t)(i \<mapsto> new_conversation i typ gid now)\<rparr>)"

definition GetConversation_spec :: "string \<Rightarrow> Conversation spec" where [spec_defs]:
  "GetConversation_spec i t r t' \<longleftrightarrow> t' = t \<and> r = found (convs t i)"

definition GetUserConversation_spec :: "string \<Rightarrow> string \<Rightarrow> UserConversation spec" where [spec_defs]:
  "GetUserConversation_spec ow i t r t' \<longleftrightarrow> t' = t \<and> r = found (uconvs t (ow, i))"

definition joined :: "Tables \<Rightarrow> string \<Rightarrow> string \<Rightarrow> UserConversationRow option" where
  "joined t ow i = (case (uconvs t (ow, i), convs t i) of
     (Some uc, Some c) \<Rightarrow> Some (join_row uc c) | _ \<Rightarrow> None)"

lemma joined_Some: "joined t ow i = Some row \<longleftrightarrow>
    (\<exists>uc c. uconvs t (ow, i) = Some uc \<and> convs t i = Some c \<and> row = join_row uc c)"
  by (auto simp: joined_def split: option.splits)

definition GetUserConversationRow_spec :: "string \<Rightarrow> string \<Rightarrow> UserConversationRow spec" where [spec_defs]:
  "GetUserConversationRow_spec ow i t r t' \<longleftrightarrow> t' = t \<and> r = found (joined t ow i)"

definition upsert_uc :: "UserConversation \<Rightarrow> (string \<times> string \<rightharpoonup> UserConversation) \<Rightarrow>
    (string \<times> string \<rightharpoonup> UserConversation)" where
  "upsert_uc uc m = m(ucKey uc \<mapsto>
     (case m (ucKey uc) of
        None \<Rightarrow> uc\<lparr>uc_CreatedAt := uc_UpdatedAt uc\<rparr>
      | Some old \<Rightarrow> old\<lparr>uc_MinSeq := uc_MinSeq uc, uc_MaxSeq := uc_MaxSeq uc,
                       uc_ReadSeq := uc_ReadSeq uc, uc_UpdatedAt := uc_UpdatedAt uc\<rparr>))"

definition UpsertUserConversation_spec :: "UserConversation \<Rightarrow> unit spec" where [spec_defs]:
  "UpsertUserConversation_spec uc t r t' \<longleftrightarrow> r = Inr () \<and> t' = t\<lparr>uconvs := upsert_uc uc (uconvs t)\<rparr>"

definition stamp_created :: "UserConversation \<Rightarrow> UserConversation" where
  "stamp_created uc = uc\<lparr>uc_CreatedAt := uc_UpdatedAt uc\<rparr>"

definition CreateUserConversations_spec :: "UserConversation list \<Rightarrow> unit spec" where [spec_defs]:
  "CreateUserConversations_spec ucs t r t' \<longleftrightarrow>
     (if distinct (map ucKey ucs) \<and> (\<forall>uc \<in> set ucs. uconvs t (ucKey uc) = None)
      then r = Inr () \<and>
           t' = t\<lparr>uconvs := uconvs t ++ map_of (map (\<lambda>uc. (ucKey uc, stamp_created uc)) ucs)\<rparr>
      else r = Inl store_ErrDuplicate \<and> t' = t)"

definition SetUserConversationMaxSeq_spec :: "string \<Rightarrow> string \<Rightarrow> int64 \<Rightarrow> unit spec" where [spec_defs]:
  "SetUserConversationMaxSeq_spec ow i s t r t' \<longleftrightarrow> r = Inr () \<and>
     t' = t\<lparr>uconvs := alter (ow, i) (\<lambda>uc. uc\<lparr>uc_MaxSeq := s\<rparr>) (uconvs t)\<rparr>"

definition DeleteUserConversation_spec :: "string \<Rightarrow> string \<Rightarrow> unit spec" where [spec_defs]:
  "DeleteUserConversation_spec ow i t r t' \<longleftrightarrow> r = Inr () \<and>
     t' = t\<lparr>uconvs := (uconvs t)((ow, i) := None)\<rparr>"

definition SetUserConversationOpt_spec ::
  "string \<Rightarrow> string \<Rightarrow> int32 option \<Rightarrow> bool option \<Rightarrow> unit spec" where [spec_defs]:
  "SetUserConversationOpt_spec ow i opt pin t r t' \<longleftrightarrow>
     (case uconvs t (ow, i) of
        None \<Rightarrow> r = Inl store_ErrNotFound \<and> t' = t
      | Some uc \<Rightarrow> r = Inr () \<and> t' = t\<lparr>uconvs := (uconvs t)((ow, i) \<mapsto>
          uc\<lparr>uc_RecvMsgOpt := coalesce opt (uc_RecvMsgOpt uc),
             uc_IsPinned := coalesce pin (uc_IsPinned uc)\<rparr>)\<rparr>)"

definition covers :: "'a UserConversation_scheme \<Rightarrow> int64 \<Rightarrow> bool" where
  "covers uc s \<longleftrightarrow> uc_MinSeq uc \<le> s \<and> (uc_MaxSeq uc = 0 \<or> s \<le> uc_MaxSeq uc)"

definition VisibleOwners_spec :: "string \<Rightarrow> string list \<Rightarrow> int64 \<Rightarrow> string list spec" where [spec_defs]:
  "VisibleOwners_spec i ows s t r t' \<longleftrightarrow> t' = t \<and>
     (\<exists>xs. r = Inr xs \<and> distinct xs \<and>
        set xs = {ow \<in> set ows. \<exists>uc. uconvs t (ow, i) = Some uc \<and> covers uc s})"

definition MutedOwners_spec :: "string \<Rightarrow> string list \<Rightarrow> string list spec" where [spec_defs]:
  "MutedOwners_spec i ows t r t' \<longleftrightarrow> t' = t \<and>
     (\<exists>xs. r = Inr xs \<and> distinct xs \<and>
        set xs = {ow \<in> set ows. \<exists>uc. uconvs t (ow, i) = Some uc \<and> uc_RecvMsgOpt uc \<noteq> 0})"

definition GetMessageByClientId_spec :: "string \<Rightarrow> string \<Rightarrow> string \<Rightarrow> Message spec" where [spec_defs]:
  "GetMessageByClientId_spec i sn cm t r t' \<longleftrightarrow> t' = t \<and>
     (case r of Inr m \<Rightarrow> m \<in> ran (msgs t) \<and> clientKey m = (i, sn, cm)
      | Inl e \<Rightarrow> e = store_ErrNotFound \<and> (\<forall>m \<in> ran (msgs t). clientKey m \<noteq> (i, sn, cm)))"

definition message_conflict :: "Message \<Rightarrow> Tables \<Rightarrow> bool" where
  "message_conflict m t \<longleftrightarrow>
     (\<exists>old \<in> ran (msgs t). msgKey old = msgKey m \<or> msg_ServerMsgId old = msg_ServerMsgId m \<or>
                        clientKey old = clientKey m)"

definition InsertMessage_spec :: "Message \<Rightarrow> bool spec" where [spec_defs]:
  "InsertMessage_spec m t r t' \<longleftrightarrow>
     (if message_conflict m t then r = Inr False \<and> t' = t
      else r = Inr True \<and> t' = t\<lparr>msgs := (msgs t)(msgKey m \<mapsto> m)\<rparr>)"

definition SetConversationMaxSeq_spec :: "string \<Rightarrow> int64 \<Rightarrow> time \<Rightarrow> unit spec" where [spec_defs]:
  "SetConversationMaxSeq_spec i s now t r t' \<longleftrightarrow> r = Inr () \<and>
     t' = t\<lparr>convs := alter i (\<lambda>c. c\<lparr>conv_MaxSeq := s, conv_UpdatedAt := now\<rparr>) (convs t)\<rparr>"

definition messages_between :: "Tables \<Rightarrow> string \<Rightarrow> int64 \<Rightarrow> int64 \<Rightarrow> Message list" where
  "messages_between t i b e = List.map_filter (\<lambda>s. msgs t (i, s)) [b..e]"

lemma set_map_filter': "set (List.map_filter f xs) = {y. \<exists>x \<in> set xs. f x = Some y}"
  by (induction xs) (auto simp: List.map_filter_def split: option.splits)

lemma set_messages_between:
  "set (messages_between t i b e) = {m. \<exists>s. b \<le> s \<and> s \<le> e \<and> msgs t (i, s) = Some m}"
  by (auto simp: messages_between_def set_map_filter')

lemma seqs_messages_between:
  assumes "keyed t"
  shows "map msg_Seq (messages_between t i b e) = filter (\<lambda>s. msgs t (i, s) \<noteq> None) [b..e]"
proof -
  have "map msg_Seq (List.map_filter (\<lambda>s. msgs t (i, s)) xs) = filter (\<lambda>s. msgs t (i, s) \<noteq> None) xs" for xs
  proof (induction xs)
    case (Cons x xs)
    have "msg_Seq m = x" if "msgs t (i, x) = Some m" for m
      using assms that by (auto simp: keyed_def msgKey_def)
    then show ?case
      using Cons by (cases "msgs t (i, x)") (simp_all add: List.map_filter_simps)
  qed (simp add: List.map_filter_simps)
  then show ?thesis
    by (simp add: messages_between_def)
qed

definition ListMessages_spec ::
  "string \<Rightarrow> int64 \<Rightarrow> int64 \<Rightarrow> int \<Rightarrow> Message list spec" where [spec_defs]:
  "ListMessages_spec i b e lim t r t' \<longleftrightarrow> t' = t \<and> r = Inr (take (nat lim) (messages_between t i b e))"

definition GetMessages_spec :: "MessageKey list \<Rightarrow> Message list spec" where [spec_defs]:
  "GetMessages_spec ks t r t' \<longleftrightarrow> t' = t \<and>
     (\<exists>ms. r = Inr ms \<and> set ms = {m. \<exists>k \<in> set ks. msgs t k = Some m})"

definition touch_uc :: "UserConversation \<Rightarrow> int64 \<Rightarrow> (string \<times> string \<rightharpoonup> UserConversation) \<Rightarrow>
    (string \<times> string \<rightharpoonup> UserConversation)" where
  "touch_uc uc rd m = m(ucKey uc \<mapsto>
     (case m (ucKey uc) of
        None \<Rightarrow> uc\<lparr>uc_MinSeq := 1, uc_MaxSeq := 0, uc_ReadSeq := rd, uc_RecvMsgOpt := 0,
                   uc_IsPinned := False, uc_Extra := [], uc_CreatedAt := uc_UpdatedAt uc\<rparr>
      | Some old \<Rightarrow> old\<lparr>uc_UpdatedAt := max (uc_UpdatedAt old) (uc_UpdatedAt uc),
                       uc_ReadSeq := max (uc_ReadSeq old) rd\<rparr>))"

definition TouchUserConversation_spec :: "UserConversation \<Rightarrow> int64 \<Rightarrow> unit spec" where [spec_defs]:
  "TouchUserConversation_spec uc rd t r t' \<longleftrightarrow> r = Inr () \<and> t' = t\<lparr>uconvs := touch_uc uc rd (uconvs t)\<rparr>"

definition touch_member :: "string \<Rightarrow> time \<Rightarrow> UserConversation \<Rightarrow> UserConversation" where
  "touch_member i now uc = (if uc_ConversationId uc = i \<and> uc_MaxSeq uc = 0
     then uc\<lparr>uc_UpdatedAt := max (uc_UpdatedAt uc) now\<rparr> else uc)"

definition touch_members :: "string \<Rightarrow> time \<Rightarrow> (string \<times> string \<rightharpoonup> UserConversation) \<Rightarrow>
    (string \<times> string \<rightharpoonup> UserConversation)" where
  "touch_members i now m = (\<lambda>k. map_option (touch_member i now) (m k))"

definition TouchConversationMembers_spec :: "string \<Rightarrow> time \<Rightarrow> unit spec" where [spec_defs]:
  "TouchConversationMembers_spec i now t r t' \<longleftrightarrow> r = Inr () \<and>
     t' = t\<lparr>uconvs := touch_members i now (uconvs t)\<rparr>"

definition advance_read :: "string \<Rightarrow> string \<Rightarrow> int64 \<Rightarrow> (string \<times> string \<rightharpoonup> UserConversation) \<Rightarrow>
    (string \<times> string \<rightharpoonup> UserConversation)" where
  "advance_read ow i rd = alter (ow, i) (\<lambda>uc. uc\<lparr>uc_ReadSeq := max (uc_ReadSeq uc) rd\<rparr>)"

definition AdvanceReadSeq_spec :: "string \<Rightarrow> string \<Rightarrow> int64 \<Rightarrow> unit spec" where [spec_defs]:
  "AdvanceReadSeq_spec ow i rd t r t' \<longleftrightarrow> r = Inr () \<and>
     t' = t\<lparr>uconvs := advance_read ow i rd (uconvs t)\<rparr>"

definition rows_after :: "Tables \<Rightarrow> string \<Rightarrow> ListCursor \<Rightarrow> UserConversationRow set" where
  "rows_after t ow cur = {row. \<exists>i. joined t ow i = Some row \<and> cursor_of row < cur}"

definition newest_first :: "UserConversationRow list \<Rightarrow> bool" where
  "newest_first = sorted_wrt (\<lambda>a b. cursor_of b < cursor_of a)"

definition ListUserConversations_spec ::
  "string \<Rightarrow> ListCursor \<Rightarrow> int \<Rightarrow> UserConversationRow list spec" where [spec_defs]:
  "ListUserConversations_spec ow cur lim t r t' \<longleftrightarrow> t' = t \<and>
     (\<exists>rows. newest_first rows \<and> set rows = rows_after t ow cur \<and> r = Inr (take (nat lim) rows))"

definition UpsertOnlineConn_spec :: "OnlineConn \<Rightarrow> unit spec" where [spec_defs]:
  "UpsertOnlineConn_spec c t r t' \<longleftrightarrow> r = Inr () \<and> t' = t\<lparr>conns := (conns t)(oc_ConnId c \<mapsto> c)\<rparr>"

definition DeleteOnlineConn_spec :: "string \<Rightarrow> unit spec" where [spec_defs]:
  "DeleteOnlineConn_spec i t r t' \<longleftrightarrow> r = Inr () \<and> t' = t\<lparr>conns := (conns t)(i := None)\<rparr>"

definition renew_conn :: "string \<Rightarrow> string list \<Rightarrow> time \<Rightarrow> OnlineConn \<Rightarrow> OnlineConn" where
  "renew_conn node ids now c = (if oc_NodeId c = node \<and> oc_ConnId c \<in> set ids
     then c\<lparr>oc_HeartbeatAt := now\<rparr> else c)"

definition RenewOnlineConns_spec :: "string \<Rightarrow> string list \<Rightarrow> time \<Rightarrow> unit spec" where [spec_defs]:
  "RenewOnlineConns_spec node ids now t r t' \<longleftrightarrow> r = Inr () \<and>
     t' = t\<lparr>conns := (\<lambda>k. map_option (renew_conn node ids now) (conns t k))\<rparr>"

definition ListOnlineConns_spec :: "string list \<Rightarrow> time \<Rightarrow> OnlineConn list spec" where [spec_defs]:
  "ListOnlineConns_spec us since t r t' \<longleftrightarrow> t' = t \<and>
     (\<exists>cs. r = Inr cs \<and> distinct cs \<and>
        set cs = {c \<in> ran (conns t). oc_UserId c \<in> set us \<and> since < oc_HeartbeatAt c})"

definition DeleteOnlineConnsByNode_spec :: "string \<Rightarrow> unit spec" where [spec_defs]:
  "DeleteOnlineConnsByNode_spec node t r t' \<longleftrightarrow> r = Inr () \<and>
     t' = t\<lparr>conns := (\<lambda>k. case conns t k of None \<Rightarrow> None
       | Some c \<Rightarrow> if oc_NodeId c = node then None else Some c)\<rparr>"

end
