(* ===== verification/StoreContract.thy ===== *)
theory StoreContract
  imports StoreSpec
begin

text \<open>
  The contract between a store and the services: a law per method over its relation in
  \<^verbatim>\<open>StoreSpec\<close>, the law of \<^verbatim>\<open>WithTx\<close>, and the proof rules the services use. \<^verbatim>\<open>I\<close> is the store's
  own invariant, \<^verbatim>\<open>T\<close> reads its tables, and \<^verbatim>\<open>H\<close> says that it is healthy: no call on it
  reports a driver error. \<^verbatim>\<open>Rl\<close> is what other requests may do to the tables between two calls of
  this one; inside a transaction it is equality.
\<close>

section \<open>Driver errors and outcomes\<close>

definition driver_error :: "go_error \<Rightarrow> bool" where
  "driver_error e \<longleftrightarrow> as_errcode e = None \<and> \<not> is_not_found e \<and> \<not> is_duplicate e \<and>
     \<not> errors_Is e (Sentinel message_errRollback)"

definition outcome :: "sentinel + 'a \<Rightarrow> 'a result" where
  "outcome r = (case r of Inl s \<Rightarrow> Inl (Sentinel s) | Inr x \<Rightarrow> Inr x)"

lemma outcome_simps [simp]: "outcome (Inl s) = Inl (Sentinel s)" "outcome (Inr x) = Inr x"
  by (simp_all add: outcome_def)

lemma outcome_found [simp]:
  "outcome (found None) = Inl (Sentinel store_ErrNotFound)" "outcome (found (Some x)) = Inr x"
  by (simp_all add: found_def)

section \<open>Running an action from given tables\<close>

definition wp :: "('s \<Rightarrow> bool) \<Rightarrow> ('s \<Rightarrow> 't) \<Rightarrow> ('s \<Rightarrow> bool) \<Rightarrow> bool \<Rightarrow> ('s, 'r) state \<Rightarrow>
    ('r \<Rightarrow> 't \<Rightarrow> bool) \<Rightarrow> 't \<Rightarrow> bool" where
  "wp I T H b m Q t \<longleftrightarrow>
     (\<forall>s. I s \<longrightarrow> (b \<longrightarrow> H s) \<longrightarrow> T s = t \<longrightarrow>
        (case run_state m s of (r, s') \<Rightarrow> I s' \<and> (b \<longrightarrow> H s') \<and> Q r (T s')))"

lemma wpI:
  assumes "\<And>s r s'. I s \<Longrightarrow> (b \<Longrightarrow> H s) \<Longrightarrow> T s = t \<Longrightarrow> run_state m s = (r, s') \<Longrightarrow>
    I s' \<and> (b \<longrightarrow> H s') \<and> Q r (T s')"
  shows "wp I T H b m Q t"
  unfolding wp_def
proof (intro allI impI)
  fix s
  assume s: "I s" "b \<longrightarrow> H s" "T s = t"
  obtain r s' where run: "run_state m s = (r, s')"
    by (cases "run_state m s") simp
  have "I s' \<and> (b \<longrightarrow> H s') \<and> Q r (T s')"
    using s by (intro assms [OF _ _ _ run]) simp_all
  then show "case run_state m s of (r, s') \<Rightarrow> I s' \<and> (b \<longrightarrow> H s') \<and> Q r (T s')"
    by (simp add: run)
qed

lemma wpD:
  assumes "wp I T H b m Q t" "I s" "b \<Longrightarrow> H s" "T s = t" "run_state m s = (r, s')"
  shows "I s'" "b \<Longrightarrow> H s'" "Q r (T s')"
proof -
  have "case run_state m s of (r, s') \<Rightarrow> I s' \<and> (b \<longrightarrow> H s') \<and> Q r (T s')"
    using assms(1) [unfolded wp_def, THEN spec, THEN mp, THEN mp, THEN mp, OF assms(2) impI [OF assms(3)]
        assms(4)] .
  then show "I s'" "b \<Longrightarrow> H s'" "Q r (T s')"
    by (simp_all add: assms(5))
qed

lemma wp_return: "Q x t \<Longrightarrow> wp I T H b (State_Monad.return x) Q t"
  by (auto simp: wp_def State_Monad.return_def)

lemma run_state_bind [simp]:
  "run_state (State_Monad.bind m f) s = (case run_state m s of (r, s') \<Rightarrow> run_state (f r) s')"
  by (simp add: State_Monad.bind_def)

lemma run_state_return [simp]: "run_state (State_Monad.return x) s = (x, s)"
  by (simp add: State_Monad.return_def)

lemma wp_bind:
  assumes "wp I T H b m (\<lambda>r t'. wp I T H b (f r) Q t') t"
  shows "wp I T H b (State_Monad.bind m f) Q t"
proof (rule wpI)
  fix s r s'
  assume s: "I s" "b \<Longrightarrow> H s" "T s = t" and run: "run_state (State_Monad.bind m f) s = (r, s')"
  obtain r1 s1 where m: "run_state m s = (r1, s1)"
    by (cases "run_state m s") simp
  with run have f: "run_state (f r1) s1 = (r, s')"
    by simp
  note 1 = wpD [OF assms s m]
  show "I s' \<and> (b \<longrightarrow> H s') \<and> Q r (T s')"
    using wpD [OF 1(3) 1(1) 1(2) refl f] by blast
qed

lemma wp_mono: "wp I T H b m Q t \<Longrightarrow> (\<And>r t'. Q r t' \<Longrightarrow> Q' r t') \<Longrightarrow> wp I T H b m Q' t"
  by (auto simp: wp_def split: prod.splits)

text \<open>A store beside the service's own state: the actions of each run on its component.\<close>

definition on_db :: "('db, 'r) state \<Rightarrow> ('db \<times> 'w, 'r) state" where
  "on_db m = State (\<lambda>(d, w). case run_state m d of (r, d') \<Rightarrow> (r, (d', w)))"

definition on_svc :: "('w, 'r) state \<Rightarrow> ('db \<times> 'w, 'r) state" where
  "on_svc m = State (\<lambda>(d, w). case run_state m w of (r, w') \<Rightarrow> (r, (d, w')))"

lemma run_on_db [simp]:
  "run_state (on_db m) (d, w) = (case run_state m d of (r, d') \<Rightarrow> (r, (d', w)))"
  by (simp add: on_db_def)

lemma run_on_svc [simp]:
  "run_state (on_svc m) (d, w) = (case run_state m w of (r, w') \<Rightarrow> (r, (d, w')))"
  by (simp add: on_svc_def)

definition wp2 :: "('db \<Rightarrow> bool) \<Rightarrow> ('db \<Rightarrow> 't) \<Rightarrow> ('db \<Rightarrow> bool) \<Rightarrow> bool \<Rightarrow> ('db \<times> 'w, 'r) state \<Rightarrow>
    ('r \<Rightarrow> 't \<Rightarrow> 'w \<Rightarrow> bool) \<Rightarrow> 't \<Rightarrow> 'w \<Rightarrow> bool" where
  "wp2 I T H b m Q t w \<longleftrightarrow>
     wp (\<lambda>s. I (fst s)) (\<lambda>s. (T (fst s), snd s)) (\<lambda>s. H (fst s)) b m (\<lambda>r tw. Q r (fst tw) (snd tw)) (t, w)"

lemma wp2_return: "Q x t w \<Longrightarrow> wp2 I T H b (State_Monad.return x) Q t w"
  by (simp add: wp2_def wp_return)

lemma wp2_bind:
  "wp2 I T H b m (\<lambda>r t' w'. wp2 I T H b (f r) Q t' w') t w \<Longrightarrow>
     wp2 I T H b (State_Monad.bind m f) Q t w"
  unfolding wp2_def by (rule wp_bind) simp

lemma wp2_if:
  "(c \<Longrightarrow> wp2 I T H b m Q t w) \<Longrightarrow> (\<not> c \<Longrightarrow> wp2 I T H b m' Q t w) \<Longrightarrow> wp2 I T H b (if c then m else m') Q t w"
  by simp

lemma wp2_on_db:
  assumes "wp I T H b m (\<lambda>r t'. Q r t' w) t"
  shows "wp2 I T H b (on_db m) Q t w"
  unfolding wp2_def
proof (rule wpI)
  fix s r s'
  assume s: "I (fst s)" "b \<Longrightarrow> H (fst s)" "(T (fst s), snd s) = (t, w)"
    and run: "run_state (on_db m) s = (r, s')"
  obtain r1 d1 where m: "run_state m (fst s) = (r1, d1)"
    by (cases "run_state m (fst s)") simp
  have "r = r1" "s' = (d1, snd s)"
    using run m by (cases s; simp)+
  moreover have "T (fst s) = t" "snd s = w"
    using s(3) by simp_all
  ultimately show "I (fst s') \<and> (b \<longrightarrow> H (fst s')) \<and> Q r (fst (T (fst s'), snd s')) (snd (T (fst s'), snd s'))"
    using wpD [OF assms s(1,2) \<open>T (fst s) = t\<close> m] by simp
qed

lemma wp2_on_svc:
  assumes "case run_state m w of (r, w') \<Rightarrow> Q r t w'"
  shows "wp2 I T H b (on_svc m) Q t w"
  unfolding wp2_def
proof (rule wpI)
  fix s r s'
  assume s: "I (fst s)" "b \<Longrightarrow> H (fst s)" "(T (fst s), snd s) = (t, w)"
    and run: "run_state (on_svc m) s = (r, s')"
  obtain r1 w1 where m: "run_state m (snd s) = (r1, w1)"
    by (cases "run_state m (snd s)") simp
  have "r = r1" "s' = (fst s, w1)"
    using run m by (cases s; simp)+
  then show "I (fst s') \<and> (b \<longrightarrow> H (fst s')) \<and> Q r (fst (T (fst s'), snd s')) (snd (T (fst s'), snd s'))"
    using assms s m by simp
qed

lemma wp2D:
  assumes "wp2 I T H b m Q t w" "I d" "b \<Longrightarrow> H d" "T d = t" "run_state m (d, w) = (r, (d', w'))"
  shows "I d'" "b \<Longrightarrow> H d'" "Q r (T d') w'"
  using wpD [OF assms(1) [unfolded wp2_def] _ _ _ assms(5)] assms(2-4) by simp_all

section \<open>Laws\<close>

definition op_ok :: "('db \<Rightarrow> bool) \<Rightarrow> ('db \<Rightarrow> Tables) \<Rightarrow> ('db \<Rightarrow> bool) \<Rightarrow> (Tables \<Rightarrow> Tables \<Rightarrow> bool) \<Rightarrow>
    ('db, 'a result) state \<Rightarrow> 'a spec \<Rightarrow> bool" where
  "op_ok I T H Rl m R \<longleftrightarrow>
     (\<forall>d r d'. I d \<longrightarrow> run_state m d = (r, d') \<longrightarrow>
        I d' \<and> (H d \<longrightarrow> H d') \<and>
        (\<exists>t. Rl (T d) t \<and>
          ((\<exists>s. r = outcome s \<and> R t s (T d')) \<or>
           (\<not> H d \<and> (\<exists>e. r = Inl e \<and> driver_error e) \<and> (T d' = t \<or> (\<exists>s. R t s (T d')))))))"

text \<open>A method of several statements: nothing is said of the tables after an error.\<close>

definition op_ok_tx :: "('db \<Rightarrow> bool) \<Rightarrow> ('db \<Rightarrow> Tables) \<Rightarrow> ('db \<Rightarrow> bool) \<Rightarrow> (Tables \<Rightarrow> Tables \<Rightarrow> bool) \<Rightarrow>
    ('db, 'a result) state \<Rightarrow> 'a spec \<Rightarrow> bool" where
  "op_ok_tx I T H Rl m R \<longleftrightarrow>
     (\<forall>d r d'. I d \<longrightarrow> run_state m d = (r, d') \<longrightarrow>
        I d' \<and> (H d \<longrightarrow> H d') \<and>
        (\<exists>t. Rl (T d) t \<and>
          ((\<exists>s. r = outcome s \<and> R t s (T d')) \<or>
           (\<not> H d \<and> (\<exists>e. r = Inl e \<and> driver_error e)))))"

definition tx_ok :: "('db \<Rightarrow> bool) \<Rightarrow> ('db \<Rightarrow> Tables) \<Rightarrow> ('db \<Rightarrow> bool) \<Rightarrow> (Tables \<Rightarrow> Tables \<Rightarrow> bool) \<Rightarrow>
    ('db, unit result \<times> 'c) state \<Rightarrow> 'c \<Rightarrow> ('db, unit result \<times> 'c) state \<Rightarrow> bool" where
  "tx_ok I T H Rl fn c m \<longleftrightarrow>
     (\<forall>d r c' d'. I d \<longrightarrow>
        (\<forall>d0. I d0 \<longrightarrow> (H d \<longrightarrow> H d0) \<longrightarrow> Rl (T d) (T d0) \<longrightarrow>
           I (snd (run_state fn d0)) \<and> (H d0 \<longrightarrow> H (snd (run_state fn d0)))) \<longrightarrow>
        run_state m d = ((r, c'), d') \<longrightarrow>
        I d' \<and> (H d \<longrightarrow> H d') \<and>
        (\<exists>t. Rl (T d) t \<and>
          ((\<not> H d \<and> (\<exists>e. r = Inl e \<and> driver_error e) \<and> c' = c \<and> T d' = t) \<or>
           (\<exists>d0 r0 d1. I d0 \<and> (H d \<longrightarrow> H d0) \<and> T d0 = t \<and> run_state fn d0 = ((r0, c'), d1) \<and>
              (case r0 of
                 Inl e \<Rightarrow> r = Inl e \<and> T d' = t
               | Inr _ \<Rightarrow> (r = Inr () \<and> T d' = T d1) \<or>
                   (\<not> H d \<and> (\<exists>e. r = Inl e \<and> driver_error e) \<and> (T d' = t \<or> T d' = T d1)))))))"

text \<open>The laws where nothing interferes.\<close>

lemma op_ok_plain:
  "op_ok I T H (=) m R \<longleftrightarrow>
     (\<forall>d r d'. I d \<longrightarrow> run_state m d = (r, d') \<longrightarrow>
        I d' \<and> (H d \<longrightarrow> H d') \<and>
        ((\<exists>s. r = outcome s \<and> R (T d) s (T d')) \<or>
         (\<not> H d \<and> (\<exists>e. r = Inl e \<and> driver_error e) \<and> (T d' = T d \<or> (\<exists>s. R (T d) s (T d'))))))"
  by (simp add: op_ok_def)

lemma op_ok_tx_plain:
  "op_ok_tx I T H (=) m R \<longleftrightarrow>
     (\<forall>d r d'. I d \<longrightarrow> run_state m d = (r, d') \<longrightarrow>
        I d' \<and> (H d \<longrightarrow> H d') \<and>
        ((\<exists>s. r = outcome s \<and> R (T d) s (T d')) \<or> (\<not> H d \<and> (\<exists>e. r = Inl e \<and> driver_error e))))"
  by (simp add: op_ok_tx_def)

lemma tx_ok_plain:
  "tx_ok I T H (=) fn c m \<longleftrightarrow>
     (\<forall>d r c' d'. I d \<longrightarrow>
        (\<forall>d0. I d0 \<longrightarrow> (H d \<longrightarrow> H d0) \<longrightarrow> T d = T d0 \<longrightarrow>
           I (snd (run_state fn d0)) \<and> (H d0 \<longrightarrow> H (snd (run_state fn d0)))) \<longrightarrow>
        run_state m d = ((r, c'), d') \<longrightarrow>
        I d' \<and> (H d \<longrightarrow> H d') \<and>
        ((\<not> H d \<and> (\<exists>e. r = Inl e \<and> driver_error e) \<and> c' = c \<and> T d' = T d) \<or>
         (\<exists>d0 r0 d1. I d0 \<and> (H d \<longrightarrow> H d0) \<and> T d0 = T d \<and> run_state fn d0 = ((r0, c'), d1) \<and>
            (case r0 of
               Inl e \<Rightarrow> r = Inl e \<and> T d' = T d
             | Inr _ \<Rightarrow> (r = Inr () \<and> T d' = T d1) \<or>
                 (\<not> H d \<and> (\<exists>e. r = Inl e \<and> driver_error e) \<and> (T d' = T d \<or> T d' = T d1))))))"
  by (simp add: tx_ok_def)

lemma op_okD:
  assumes "op_ok I T H Rl m R" "I d" "run_state m d = (r, d')"
  shows "I d'" "H d \<Longrightarrow> H d'"
    and "\<exists>t. Rl (T d) t \<and> ((\<exists>s. r = outcome s \<and> R t s (T d')) \<or>
      (\<not> H d \<and> (\<exists>e. r = Inl e \<and> driver_error e) \<and> (T d' = t \<or> (\<exists>s. R t s (T d')))))"
proof -
  note law = assms(1) [unfolded op_ok_def, THEN spec, THEN spec, THEN spec, THEN mp, THEN mp,
      OF assms(2,3)]
  show "I d'" "H d \<Longrightarrow> H d'"
    and "\<exists>t. Rl (T d) t \<and> ((\<exists>s. r = outcome s \<and> R t s (T d')) \<or>
      (\<not> H d \<and> (\<exists>e. r = Inl e \<and> driver_error e) \<and> (T d' = t \<or> (\<exists>s. R t s (T d')))))"
    using law by blast+
qed

lemma op_ok_plainD:
  assumes "op_ok I T H (=) m R" "I d" "run_state m d = (r, d')"
  shows "I d'" "H d \<Longrightarrow> H d'"
    and "(\<exists>s. r = outcome s \<and> R (T d) s (T d')) \<or>
      (\<not> H d \<and> (\<exists>e. r = Inl e \<and> driver_error e) \<and> (T d' = T d \<or> (\<exists>s. R (T d) s (T d'))))"
  using op_okD [OF assms] by simp_all

lemma wp_op:
  assumes ok: "op_ok I T H Rl m R"
    and finished: "\<And>t1 s t'. Rl t t1 \<Longrightarrow> R t1 s t' \<Longrightarrow> Q (outcome s) t'"
    and fails: "\<And>t1 e t'. Rl t t1 \<Longrightarrow> \<not> b \<Longrightarrow> driver_error e \<Longrightarrow> t' = t1 \<or> (\<exists>s. R t1 s t') \<Longrightarrow> Q (Inl e) t'"
  shows "wp I T H b m Q t"
proof (rule wpI)
  fix s r s'
  assume s: "I s" "b \<Longrightarrow> H s" "T s = t" "run_state m s = (r, s')"
  note law = op_okD [OF ok s(1) s(4)]
  from law(3) obtain t1 where t1: "Rl t t1"
    and cases: "(\<exists>x. r = outcome x \<and> R t1 x (T s')) \<or>
      (\<not> H s \<and> (\<exists>e. r = Inl e \<and> driver_error e) \<and> (T s' = t1 \<or> (\<exists>x. R t1 x (T s'))))"
    using s(3) by blast
  have "Q r (T s')"
  proof (cases "\<exists>x. r = outcome x \<and> R t1 x (T s')")
    case True
    then show ?thesis
      using finished t1 by auto
  next
    case False
    then obtain e where "\<not> b" "r = Inl e" "driver_error e" "T s' = t1 \<or> (\<exists>x. R t1 x (T s'))"
      using cases s(2) by auto
    then show ?thesis
      using fails t1 by simp
  qed
  then show "I s' \<and> (b \<longrightarrow> H s') \<and> Q r (T s')"
    using law(1,2) s(2) by simp
qed

lemma wp_op_tx:
  assumes ok: "op_ok_tx I T H Rl m R"
    and finished: "\<And>t1 s t'. Rl t t1 \<Longrightarrow> R t1 s t' \<Longrightarrow> Q (outcome s) t'"
    and fails: "\<And>e t'. \<not> b \<Longrightarrow> driver_error e \<Longrightarrow> Q (Inl e) t'"
  shows "wp I T H b m Q t"
proof (rule wpI)
  fix s r s'
  assume s: "I s" "b \<Longrightarrow> H s" "T s = t" "run_state m s = (r, s')"
  have law: "I s' \<and> (H s \<longrightarrow> H s') \<and>
        (\<exists>t1. Rl (T s) t1 \<and> ((\<exists>x. r = outcome x \<and> R t1 x (T s')) \<or>
          (\<not> H s \<and> (\<exists>e. r = Inl e \<and> driver_error e))))"
    by (rule ok [unfolded op_ok_tx_def, THEN spec, THEN spec, THEN spec, THEN mp, THEN mp,
          OF s(1) s(4)])
  then obtain t1 where t1: "Rl t t1"
    and cases: "(\<exists>x. r = outcome x \<and> R t1 x (T s')) \<or> (\<not> H s \<and> (\<exists>e. r = Inl e \<and> driver_error e))"
    using s(3) by blast
  have "Q r (T s')"
  proof (cases "\<exists>x. r = outcome x \<and> R t1 x (T s')")
    case True
    then show ?thesis
      using finished t1 by auto
  next
    case False
    then obtain e where "\<not> b" "r = Inl e" "driver_error e"
      using cases s(2) by auto
    then show ?thesis
      using fails by simp
  qed
  then show "I s' \<and> (b \<longrightarrow> H s') \<and> Q r (T s')"
    using law s(2) by simp
qed

text \<open>The postcondition the callback of a transaction has to reach, for \<^verbatim>\<open>Q\<close> to hold after it.\<close>

definition tx_post :: "bool \<Rightarrow> (unit result \<times> 'c \<Rightarrow> 't \<Rightarrow> bool) \<Rightarrow> 't \<Rightarrow> unit result \<times> 'c \<Rightarrow> 't \<Rightarrow> bool" where
  "tx_post b Q t rc t' \<longleftrightarrow>
     (case fst rc of
        Inl e \<Rightarrow> Q (Inl e, snd rc) t
      | Inr _ \<Rightarrow> Q (Inr (), snd rc) t' \<and>
          (\<not> b \<longrightarrow> (\<forall>e. driver_error e \<longrightarrow> Q (Inl e, snd rc) t \<and> Q (Inl e, snd rc) t')))"

lemma tx_post_simps [simp]:
  "tx_post b Q t (Inl e, c) t' = Q (Inl e, c) t"
  "tx_post b Q t (Inr u, c) t' \<longleftrightarrow> Q (Inr (), c) t' \<and>
     (\<not> b \<longrightarrow> (\<forall>e. driver_error e \<longrightarrow> Q (Inl e, c) t \<and> Q (Inl e, c) t'))"
  by (simp_all add: tx_post_def)

lemma wp_tx:
  assumes ok: "tx_ok I T H Rl fn c m"
    and body: "\<And>t1 b'. Rl t t1 \<Longrightarrow> (b \<Longrightarrow> b') \<Longrightarrow> wp I T H b' fn (tx_post b Q t1) t1"
    and begin_fails: "\<And>t1 e. Rl t t1 \<Longrightarrow> \<not> b \<Longrightarrow> driver_error e \<Longrightarrow> Q (Inl e, c) t1"
  shows "wp I T H b m Q t"
proof (rule wpI)
  fix s rc s'
  assume s: "I s" "b \<Longrightarrow> H s" "T s = t" "run_state m s = (rc, s')"
  obtain r c' where rc: "rc = (r, c')"
    by (cases rc) simp
  have bH: "b \<longrightarrow> H s"
    using s(2) by (rule impI)
  have bodyD: "I d1 \<and> (H d0 \<longrightarrow> H d1) \<and> tx_post b Q (T d0) rc1 (T d1)"
    if "I d0" "H s \<longrightarrow> H d0" "Rl t (T d0)" "run_state fn d0 = (rc1, d1)" for d0 rc1 d1
  proof -
    have "b \<Longrightarrow> H d0"
      using that(2) bH by blast
    then have w: "wp I T H (H d0) fn (tx_post b Q (T d0)) (T d0)"
      by (rule body [OF that(3)])
    have h: "H d0 \<Longrightarrow> H d0" .
    show ?thesis
      using wpD [OF w that(1) h refl that(4)] by (intro conjI impI)
  qed
  have pres: "\<forall>d0. I d0 \<longrightarrow> (H s \<longrightarrow> H d0) \<longrightarrow> Rl (T s) (T d0) \<longrightarrow>
      I (snd (run_state fn d0)) \<and> (H d0 \<longrightarrow> H (snd (run_state fn d0)))"
  proof (intro allI impI)
    fix d0
    assume d0: "I d0" "H s \<longrightarrow> H d0" "Rl (T s) (T d0)"
    obtain rc1 d1 where run: "run_state fn d0 = (rc1, d1)"
      by (cases "run_state fn d0") simp
    from bodyD [OF d0(1,2) _ run] d0(3) s(3)
    show "I (snd (run_state fn d0)) \<and> (H d0 \<longrightarrow> H (snd (run_state fn d0)))"
      by (simp add: run)
  qed
  note law = ok [unfolded tx_ok_def, THEN spec, THEN spec, THEN spec, THEN spec, THEN mp, THEN mp,
        THEN mp, OF s(1) pres s(4) [unfolded rc]]
  then obtain t1 where t1: "Rl t t1"
    and cases: "(\<not> H s \<and> (\<exists>e. r = Inl e \<and> driver_error e) \<and> c' = c \<and> T s' = t1) \<or>
         (\<exists>d0 r0 d1. I d0 \<and> (H s \<longrightarrow> H d0) \<and> T d0 = t1 \<and> run_state fn d0 = ((r0, c'), d1) \<and>
            (case r0 of
               Inl e \<Rightarrow> r = Inl e \<and> T s' = t1
             | Inr _ \<Rightarrow> (r = Inr () \<and> T s' = T d1) \<or>
                 (\<not> H s \<and> (\<exists>e. r = Inl e \<and> driver_error e) \<and> (T s' = t1 \<or> T s' = T d1))))"
    using s(3) by blast
  from cases have "Q rc (T s')"
  proof (elim conjE disjE exE)
    assume a: "\<not> H s" "c' = c" "T s' = t1"
    fix e assume e: "r = Inl e" "driver_error e"
    have "\<not> b"
      using a(1) bH by blast
    then show ?thesis
      using begin_fails [OF t1 _ e(2)] a(2,3) e(1) rc by simp
  next
    fix d0 r0 d1
    assume a: "I d0" "H s \<longrightarrow> H d0" "T d0 = t1" "run_state fn d0 = ((r0, c'), d1)"
      "case r0 of
         Inl e \<Rightarrow> r = Inl e \<and> T s' = t1
       | Inr _ \<Rightarrow> (r = Inr () \<and> T s' = T d1) \<or>
           (\<not> H s \<and> (\<exists>e. r = Inl e \<and> driver_error e) \<and> (T s' = t1 \<or> T s' = T d1))"
    have "Rl t (T d0)"
      using a(3) t1 by simp
    then have post: "tx_post b Q t1 (r0, c') (T d1)"
      using bodyD [OF a(1,2) _ a(4)] a(3) by simp
    show ?thesis
    proof (cases r0)
      case (Inl e)
      then show ?thesis
        using post a(5) rc by simp
    next
      case (Inr u)
      then show ?thesis
        using post a(5) rc bH by auto
    qed
  qed
  then show "I s' \<and> (b \<longrightarrow> H s') \<and> Q rc (T s')"
    using law bH by blast
qed

text \<open>A read that finds a row or not, and a write that always applies.\<close>

lemma wp_found:
  assumes ok: "op_ok I T H Rl m R" and R: "\<And>t1 s t'. R t1 s t' \<longleftrightarrow> t' = t1 \<and> s = found (x t1)"
    and "\<And>t1 v. Rl t t1 \<Longrightarrow> x t1 = Some v \<Longrightarrow> Q (Inr v) t1"
    and "\<And>t1. Rl t t1 \<Longrightarrow> x t1 = None \<Longrightarrow> Q (Inl (Sentinel store_ErrNotFound)) t1"
    and "\<And>t1 e. Rl t t1 \<Longrightarrow> \<not> b \<Longrightarrow> driver_error e \<Longrightarrow> Q (Inl e) t1"
  shows "wp I T H b m Q t"
proof (rule ok [THEN wp_op])
  fix t1 s t' assume "Rl t t1" "R t1 s t'"
  then show "Q (outcome s) t'"
    using assms(3,4) by (cases "x t1") (simp_all add: R)
next
  fix t1 e t' assume "Rl t t1" "\<not> b" "driver_error e" "t' = t1 \<or> (\<exists>s. R t1 s t')"
  then show "Q (Inl e) t'"
    using assms(5) by (auto simp: R)
qed

lemma wp_applied:
  assumes ok: "op_ok I T H Rl m R" and R: "\<And>t1 s t'. R t1 s t' \<longleftrightarrow> s = Inr (x t1) \<and> t' = f t1"
    and "\<And>t1. Rl t t1 \<Longrightarrow> Q (Inr (x t1)) (f t1)"
    and "\<And>t1 e t'. Rl t t1 \<Longrightarrow> \<not> b \<Longrightarrow> driver_error e \<Longrightarrow> t' = t1 \<or> t' = f t1 \<Longrightarrow> Q (Inl e) t'"
  shows "wp I T H b m Q t"
proof (rule ok [THEN wp_op])
  fix t1 s t' assume "Rl t t1" "R t1 s t'"
  then show "Q (outcome s) t'"
    using assms(3) by (simp add: R)
next
  fix t1 e t' assume "Rl t t1" "\<not> b" "driver_error e" "t' = t1 \<or> (\<exists>s. R t1 s t')"
  then show "Q (Inl e) t'"
    using assms(4) by (auto simp: R)
qed

section \<open>The interface as locales\<close>

locale store_statements =
  fixes st :: "('db, 'z) StoreOps_scheme"
    and I :: "'db \<Rightarrow> bool"
    and T :: "'db \<Rightarrow> Tables"
    and H :: "'db \<Rightarrow> bool"
    and Rl :: "Tables \<Rightarrow> Tables \<Rightarrow> bool"
  assumes keyed_T: "\<And>d. I d \<Longrightarrow> keyed (T d)"
    and GetUser_ok: "\<And>i. op_ok I T H Rl (GetUser st i) (GetUser_spec i)"
    and GetUsers_ok: "\<And>ids. op_ok I T H Rl (GetUsers st ids) (GetUsers_spec ids)"
    and GetUserByUsername_ok: "\<And>n. op_ok I T H Rl (GetUserByUsername st n) (GetUserByUsername_spec n)"
    and CreateUser_ok: "\<And>u. op_ok I T H Rl (CreateUser st u) (CreateUser_spec u)"
    and UpsertUser_ok: "\<And>u. op_ok I T H Rl (UpsertUser st u) (UpsertUser_spec u)"
    and UpdateUserProfile_ok: "\<And>i a b c n. op_ok I T H Rl (UpdateUserProfile st i a b c n) (UpdateUserProfile_spec i a b c n)"
    and GetGroup_ok: "\<And>i. op_ok I T H Rl (GetGroup st i) (GetGroup_spec i)"
    and AddGroupMember_ok: "\<And>m. op_ok I T H Rl (AddGroupMember st m) (AddGroupMember_spec m)"
    and RemoveGroupMember_ok: "\<And>g u. op_ok I T H Rl (RemoveGroupMember st g u) (RemoveGroupMember_spec g u)"
    and GetGroupMember_ok: "\<And>g u. op_ok I T H Rl (GetGroupMember st g u) (GetGroupMember_spec g u)"
    and ListGroupMembers_ok: "\<And>g. op_ok I T H Rl (ListGroupMembers st g) (ListGroupMembers_spec g)"
    and CountGroupMembers_ok: "\<And>g. op_ok I T H Rl (CountGroupMembers st g) (CountGroupMembers_spec g)"
    and ListUserGroupIds_ok: "\<And>u. op_ok I T H Rl (ListUserGroupIds st u) (ListUserGroupIds_spec u)"
    and LockConversation_ok: "\<And>i ty g n. op_ok I T H Rl (LockConversation st i ty g n) (LockConversation_spec i ty g n)"
    and GetConversation_ok: "\<And>i. op_ok I T H Rl (GetConversation st i) (GetConversation_spec i)"
    and GetUserConversation_ok: "\<And>ow i. op_ok I T H Rl (GetUserConversation st ow i) (GetUserConversation_spec ow i)"
    and GetUserConversationRow_ok: "\<And>ow i. op_ok I T H Rl (GetUserConversationRow st ow i) (GetUserConversationRow_spec ow i)"
    and UpsertUserConversation_ok: "\<And>uc. op_ok I T H Rl (UpsertUserConversation st uc) (UpsertUserConversation_spec uc)"
    and CreateUserConversations_ok: "\<And>ucs. op_ok I T H Rl (CreateUserConversations st ucs) (CreateUserConversations_spec ucs)"
    and SetUserConversationMaxSeq_ok: "\<And>ow i s. op_ok I T H Rl (SetUserConversationMaxSeq st ow i s) (SetUserConversationMaxSeq_spec ow i s)"
    and DeleteUserConversation_ok: "\<And>ow i. op_ok I T H Rl (DeleteUserConversation st ow i) (DeleteUserConversation_spec ow i)"
    and SetUserConversationOpt_ok: "\<And>ow i a b. op_ok I T H Rl (SetUserConversationOpt st ow i a b) (SetUserConversationOpt_spec ow i a b)"
    and VisibleOwners_ok: "\<And>i ows s. op_ok I T H Rl (VisibleOwners st i ows s) (VisibleOwners_spec i ows s)"
    and MutedOwners_ok: "\<And>i ows. op_ok I T H Rl (MutedOwners st i ows) (MutedOwners_spec i ows)"
    and GetMessageByClientId_ok: "\<And>i sn cm. op_ok I T H Rl (GetMessageByClientId st i sn cm) (GetMessageByClientId_spec i sn cm)"
    and InsertMessage_ok: "\<And>m. op_ok I T H Rl (InsertMessage st m) (InsertMessage_spec m)"
    and SetConversationMaxSeq_ok: "\<And>i s n. op_ok I T H Rl (SetConversationMaxSeq st i s n) (SetConversationMaxSeq_spec i s n)"
    and GetMessages_ok: "\<And>ks. op_ok I T H Rl (GetMessages st ks) (GetMessages_spec ks)"
    and TouchUserConversation_ok: "\<And>uc s. op_ok I T H Rl (TouchUserConversation st uc s) (TouchUserConversation_spec uc s)"
    and TouchConversationMembers_ok: "\<And>i n. op_ok I T H Rl (TouchConversationMembers st i n) (TouchConversationMembers_spec i n)"
    and AdvanceReadSeq_ok: "\<And>ow i s. op_ok I T H Rl (AdvanceReadSeq st ow i s) (AdvanceReadSeq_spec ow i s)"
    and UpsertOnlineConn_ok: "\<And>oc. op_ok I T H Rl (UpsertOnlineConn st oc) (UpsertOnlineConn_spec oc)"
    and DeleteOnlineConn_ok: "\<And>i. op_ok I T H Rl (DeleteOnlineConn st i) (DeleteOnlineConn_spec i)"
    and RenewOnlineConns_ok: "\<And>nd is n. op_ok I T H Rl (RenewOnlineConns st nd is n) (RenewOnlineConns_spec nd is n)"
    and ListOnlineConns_ok: "\<And>us n. op_ok I T H Rl (ListOnlineConns st us n) (ListOnlineConns_spec us n)"
    and DeleteOnlineConnsByNode_ok: "\<And>nd. op_ok I T H Rl (DeleteOnlineConnsByNode st nd) (DeleteOnlineConnsByNode_spec nd)"
    and CreateGroup_ok: "\<And>g ms. op_ok_tx I T H Rl (CreateGroup st g ms) (CreateGroup_spec g ms)"
    and ListMessages_ok: "\<And>i b e lim. 0 \<le> lim \<Longrightarrow> lim < 2 ^ 31 \<Longrightarrow>
          op_ok I T H Rl (ListMessages st i b e lim) (ListMessages_spec i b e lim)"
    and ListUserConversations_ok: "\<And>ow cur lim. 0 \<le> lim \<Longrightarrow> lim < 2 ^ 31 \<Longrightarrow>
          op_ok I T H Rl (ListUserConversations st ow cur lim) (ListUserConversations_spec ow cur lim)"
begin

lemma wp_keyed:
  assumes "keyed t \<Longrightarrow> wp I T H b m Q t"
  shows "wp I T H b m Q t"
proof (cases "keyed t")
  case True
  then show ?thesis
    by (rule assms)
next
  case False
  then have "\<not> (I s \<and> T s = t)" for s
    using keyed_T by blast
  then show ?thesis
    by (auto simp: wp_def)
qed

lemmas wp_GetUser = GetUser_ok [THEN wp_found, OF GetUser_spec_def]
lemmas wp_GetGroup = GetGroup_ok [THEN wp_found, OF GetGroup_spec_def]
lemmas wp_GetGroupMember = GetGroupMember_ok [THEN wp_found, OF GetGroupMember_spec_def]
lemmas wp_GetConversation = GetConversation_ok [THEN wp_found, OF GetConversation_spec_def]
lemmas wp_GetUserConversation = GetUserConversation_ok [THEN wp_found, OF GetUserConversation_spec_def]
lemmas wp_GetUserConversationRow =
  GetUserConversationRow_ok [THEN wp_found, OF GetUserConversationRow_spec_def]

lemmas wp_UpsertUser = UpsertUser_ok [THEN wp_applied, OF UpsertUser_spec_def]
lemmas wp_RemoveGroupMember = RemoveGroupMember_ok [THEN wp_applied, OF RemoveGroupMember_spec_def]
lemmas wp_UpsertUserConversation =
  UpsertUserConversation_ok [THEN wp_applied, OF UpsertUserConversation_spec_def]
lemmas wp_SetUserConversationMaxSeq =
  SetUserConversationMaxSeq_ok [THEN wp_applied, OF SetUserConversationMaxSeq_spec_def]
lemmas wp_DeleteUserConversation =
  DeleteUserConversation_ok [THEN wp_applied, OF DeleteUserConversation_spec_def]
lemmas wp_SetConversationMaxSeq =
  SetConversationMaxSeq_ok [THEN wp_applied, OF SetConversationMaxSeq_spec_def]
lemmas wp_TouchUserConversation =
  TouchUserConversation_ok [THEN wp_applied, OF TouchUserConversation_spec_def]
lemmas wp_TouchConversationMembers =
  TouchConversationMembers_ok [THEN wp_applied, OF TouchConversationMembers_spec_def]
lemmas wp_AdvanceReadSeq = AdvanceReadSeq_ok [THEN wp_applied, OF AdvanceReadSeq_spec_def]

lemma wp_LockConversation:
  assumes "\<And>t1 c. Rl t t1 \<Longrightarrow> convs t1 i = Some c \<Longrightarrow> Q (Inr c) t1"
    and "\<And>t1. Rl t t1 \<Longrightarrow> convs t1 i = None \<Longrightarrow> Q (Inr (new_conversation i ty g n))
           (t1\<lparr>convs := (convs t1)(i \<mapsto> new_conversation i ty g n)\<rparr>)"
    and "\<And>e t'. \<not> b \<Longrightarrow> driver_error e \<Longrightarrow> Q (Inl e) t'"
  shows "wp I T H b (LockConversation st i ty g n) Q t"
proof (rule LockConversation_ok [THEN wp_op])
  fix t1 s t' assume "Rl t t1" "LockConversation_spec i ty g n t1 s t'"
  then show "Q (outcome s) t'"
    using assms(1,2) by (cases "convs t1 i") (simp_all add: LockConversation_spec_def)
qed (rule assms(3))

lemma wp_InsertMessage:
  assumes "\<And>t1. Rl t t1 \<Longrightarrow> message_conflict m t1 \<Longrightarrow> Q (Inr False) t1"
    and "\<And>t1. Rl t t1 \<Longrightarrow> \<not> message_conflict m t1 \<Longrightarrow> Q (Inr True) (t1\<lparr>msgs := (msgs t1)(msgKey m \<mapsto> m)\<rparr>)"
    and "\<And>e t'. \<not> b \<Longrightarrow> driver_error e \<Longrightarrow> Q (Inl e) t'"
  shows "wp I T H b (InsertMessage st m) Q t"
proof (rule InsertMessage_ok [THEN wp_op])
  fix t1 s t' assume "Rl t t1" "InsertMessage_spec m t1 s t'"
  then show "Q (outcome s) t'"
    using assms(1,2) by (cases "message_conflict m t1") (simp_all add: InsertMessage_spec_def)
qed (rule assms(3))

lemma wp_GetMessageByClientId:
  assumes "\<And>t1 m. Rl t t1 \<Longrightarrow> m \<in> ran (msgs t1) \<Longrightarrow> clientKey m = (i, sn, cm) \<Longrightarrow> Q (Inr m) t1"
    and "\<And>t1. Rl t t1 \<Longrightarrow> (\<forall>m \<in> ran (msgs t1). clientKey m \<noteq> (i, sn, cm)) \<Longrightarrow>
           Q (Inl (Sentinel store_ErrNotFound)) t1"
    and "\<And>t1 e. Rl t t1 \<Longrightarrow> \<not> b \<Longrightarrow> driver_error e \<Longrightarrow> Q (Inl e) t1"
  shows "wp I T H b (GetMessageByClientId st i sn cm) Q t"
proof (rule GetMessageByClientId_ok [THEN wp_op])
  fix t1 s t' assume "Rl t t1" "GetMessageByClientId_spec i sn cm t1 s t'"
  then show "Q (outcome s) t'"
    using assms(1,2) by (cases s) (auto simp: GetMessageByClientId_spec_def)
next
  fix t1 e t' assume "Rl t t1" "\<not> b" "driver_error e" "t' = t1 \<or> (\<exists>s. GetMessageByClientId_spec i sn cm t1 s t')"
  then show "Q (Inl e) t'"
    using assms(3) by (auto simp: GetMessageByClientId_spec_def)
qed

end

text \<open>A store has the methods for use outside a transaction, where other requests interfere, and
  the methods it hands to a transaction's callback, where they do not.\<close>

locale store_snapshot = store_statements st I T H "(=)"
  for st :: "('db, 'x) StoreOps_scheme" and I T H

locale store_tx = store_statements st I T H Rl + tx: store_snapshot tx I T H
  for st :: "('db, 'c) StoreTx" and tx :: "'db StoreOps" and I T H Rl +
  assumes WithTx_ok: "\<And>fn c. tx_ok I T H Rl (fn tx) c (WithTx st fn c)"
begin

lemmas wp_WithTx = WithTx_ok [THEN wp_tx]

end

end
