(* ===== verification/Conv.thy ===== *)
theory Conv
  imports Identity Base64 StoreContract
begin

text \<open>
  \<^verbatim>\<open>internal/service/conv\<close>: conversation ids, the paging cursor, the range of seqs a
  member may see, and the page loop shared by the conversation and message services. The lemmas
  show that a single-chat id determines its two members, that single and group ids never
  clash, that a cursor survives its encoding, and what a page holds.
\<close>

section \<open>convid.go\<close>

definition Single :: "string \<Rightarrow> string \<Rightarrow> string" where
  "Single a b = (let (a, b) = (if a > b then (b, a) else (a, b)) in ''si_'' @ a @ '':'' @ b)"

definition GroupConv :: "string \<Rightarrow> string" where
  "GroupConv groupId = ''sg_'' @ groupId"

lemma Single_eq: "Single a b = ''si_'' @ min a b @ '':'' @ max a b"
  by (cases "b < a")
    (auto simp: Single_def min_absorb1 min_absorb2 max_absorb1 max_absorb2 not_less less_imp_le dest: leD)

lemma Single_sym: "Single a b = Single b a"
  by (simp add: Single_eq min.commute max.commute)

lemma colon_split:
  assumes "x @ '':'' @ y = u @ '':'' @ v" "CHR '':'' \<notin> set x" "CHR '':'' \<notin> set u"
  shows "x = u" "y = v"
proof -
  have "Cut (x @ '':'' @ y) (CHR '':'') = (x, y, True)" "Cut (u @ '':'' @ v) (CHR '':'') = (u, v, True)"
    using assms(2,3) by simp_all
  then have "(x, y, True) = (u, v, True)"
    unfolding assms(1) by metis
  then show "x = u" "y = v"
    by simp_all
qed

lemma Single_inj:
  assumes "CHR '':'' \<notin> set a" "CHR '':'' \<notin> set b" "CHR '':'' \<notin> set c" "CHR '':'' \<notin> set d"
    and "Single a b = Single c d"
  shows "(a = c \<and> b = d) \<or> (a = d \<and> b = c)"
proof -
  have "CHR '':'' \<notin> set (min a b)" "CHR '':'' \<notin> set (min c d)"
    using assms(1-4) by (simp_all add: min_def)
  moreover have "min a b @ '':'' @ max a b = min c d @ '':'' @ max c d"
    using assms(5) by (simp add: Single_eq)
  ultimately have "min a b = min c d" "max a b = max c d"
    using colon_split by blast+
  then show ?thesis
    by (auto simp: min_def max_def split: if_splits)
qed

lemma Single_not_Group [simp]: "Single a b \<noteq> GroupConv g" "GroupConv g \<noteq> Single a b"
  by (simp_all add: Single_eq GroupConv_def)

lemma GroupConv_inj [simp]: "GroupConv g = GroupConv h \<longleftrightarrow> g = h"
  by (simp add: GroupConv_def)

section \<open>cursor.go\<close>

definition EncodeCursor :: "ListCursor \<Rightarrow> string" where
  "EncodeCursor c = EncodeToString (FormatInt (UnixMilli (cur_UpdatedAt c)) @ '':'' @ cur_ConversationId c)"

definition DecodeCursor :: "string \<Rightarrow> ListCursor option" where
  "DecodeCursor s =
     (if s = [] then Some FirstPage
      else case DecodeString s of
             None \<Rightarrow> None
           | Some raw \<Rightarrow>
               (case Cut raw (CHR '':'') of (ms, i, ok) \<Rightarrow>
                  if \<not> ok \<or> i = [] then None
                  else case ParseInt ms of
                         None \<Rightarrow> None
                       | Some n \<Rightarrow> Some (ListCursor (time_UnixMilli n) i)))"

definition VisibleMax :: "'a UserConversation_scheme \<Rightarrow> int64 \<Rightarrow> int64" where
  "VisibleMax uc convMax = (if uc_MaxSeq uc > 0 then min (uc_MaxSeq uc) convMax else convMax)"

definition VisibleRange :: "'a UserConversation_scheme \<Rightarrow> int64 \<Rightarrow> int64 \<Rightarrow> int64 \<Rightarrow> int64 \<times> int64" where
  "VisibleRange uc convMax begin end = (max begin (uc_MinSeq uc), min end (VisibleMax uc convMax))"

text \<open>The wire cursor keeps milliseconds, so it is exact on the times the services store.\<close>

lemma DecodeCursor_EncodeCursor:
  assumes "cur_ConversationId c \<noteq> []" "in_i64 (UnixMilli (cur_UpdatedAt c))"
  shows "DecodeCursor (EncodeCursor c) =
    Some (ListCursor (truncate_ms (cur_UpdatedAt c)) (cur_ConversationId c))"
  using assms
  by (simp add: DecodeCursor_def EncodeCursor_def Cut_append [OF FormatInt_no_colon]
      time_UnixMilli_truncate)

lemma EncodeCursor_nonempty [simp]: "EncodeCursor c \<noteq> []"
  by (simp add: EncodeCursor_def)

lemma DecodeCursor_empty [simp]: "DecodeCursor [] = Some FirstPage"
  by (simp add: DecodeCursor_def)

lemma covers_VisibleRange:
  assumes "1 \<le> s" "s \<le> convMax" "0 \<le> uc_MaxSeq uc" "VisibleRange uc convMax b e = (b', e')"
  shows "b' \<le> s \<and> s \<le> e' \<longleftrightarrow> b \<le> s \<and> s \<le> e \<and> covers uc s"
  using assms by (cases "0 < uc_MaxSeq uc") (auto simp: VisibleRange_def VisibleMax_def covers_def)

section \<open>page.go\<close>

text \<open>The effective page size: a limit that is absent or too large is the maximum, at least 1.\<close>

definition page_limit :: "int \<Rightarrow> int \<Rightarrow> int" where
  "page_limit limit pageMax = (let pageMax = max pageMax 1 in
     if limit \<le> 0 \<or> limit > pageMax then pageMax else limit)"

lemma page_limit_bounds: "1 \<le> page_limit limit pageMax" "page_limit limit pageMax \<le> max pageMax 1"
  by (auto simp: page_limit_def Let_def)

definition ListPage :: "('db, 'z) StoreOps_scheme \<Rightarrow> string \<Rightarrow> string \<Rightarrow> int \<Rightarrow> int \<Rightarrow>
    ('db, (UserConversationRow list \<times> string \<times> bool) result) state" where
  "ListPage st userId cursor limit pageMax =
     (case DecodeCursor cursor of
        None \<Rightarrow> State_Monad.return (fail (WithMessage ErrInvalidParam ''bad cursor''))
      | Some cur \<Rightarrow>
          let limit = page_limit limit pageMax in
          do {
            r \<leftarrow> ListUserConversations st userId cur (i64 (limit + 1));
            State_Monad.return
              (case r of
                 Inl e \<Rightarrow> Inl (store_failed e)
               | Inr rows \<Rightarrow>
                   if int (length rows) \<le> limit then Inr (rows, [], False)
                   else let rows = take (nat limit) rows; l = last rows in
                        Inr (rows, EncodeCursor (ListCursor (uc_UpdatedAt l) (uc_ConversationId l)), True))
          })"

end
