(* ===== verification/Dto.thy ===== *)
theory Dto
  imports Store
begin

text \<open>\<^verbatim>\<open>internal/service/dto/message.go\<close>: the message as clients see it and the send request.\<close>

record DtoMessage =
  dm_ServerMsgId :: string
  dm_ClientMsgId :: string
  dm_ConversationId :: string
  dm_Seq :: int64
  dm_SessionType :: int32
  dm_SenderId :: string
  dm_RecvId :: string
  dm_GroupId :: string
  dm_ContentType :: int32
  dm_Content :: string
  dm_SendTime :: int64

definition MessageFromStore :: "Message \<Rightarrow> DtoMessage" where
  "MessageFromStore m =
     \<lparr>dm_ServerMsgId = msg_ServerMsgId m, dm_ClientMsgId = msg_ClientMsgId m,
      dm_ConversationId = msg_ConversationId m, dm_Seq = msg_Seq m,
      dm_SessionType = msg_SessionType m, dm_SenderId = msg_SenderId m, dm_RecvId = msg_RecvId m,
      dm_GroupId = msg_GroupId m, dm_ContentType = msg_ContentType m, dm_Content = msg_Content m,
      dm_SendTime = UnixMilli (msg_SendTime m)\<rparr>"

record SendRequest =
  sr_ClientMsgId :: string
  sr_SessionType :: int32
  sr_RecvId :: string
  sr_GroupId :: string
  sr_ContentType :: int32
  sr_Content :: string
  sr_SenderRead :: "bool option"

definition SenderReadFor :: "SendRequest \<Rightarrow> bool \<Rightarrow> bool" where
  "SenderReadFor r internal = (case sr_SenderRead r of Some b \<Rightarrow> b | None \<Rightarrow> \<not> internal)"

end
