(* ===== verification/Msgbody.thy ===== *)
theory Msgbody
  imports Errcode
begin

text \<open>\<^verbatim>\<open>msgbody/msgbody.go\<close>: the content types a message may have.\<close>

definition Text :: int32 where "Text = 1"
definition Image :: int32 where "Image = 2"
definition Video :: int32 where "Video = 3"
definition Audio :: int32 where "Audio = 4"
definition File :: int32 where "File = 5"
definition Custom :: int32 where "Custom = 100"

definition ValidType :: "int32 \<Rightarrow> bool" where
  "ValidType t \<longleftrightarrow> t = Text \<or> t = Image \<or> t = Video \<or> t = Audio \<or> t = File \<or> t = Custom"

lemmas content_types = Text_def Image_def Video_def Audio_def File_def Custom_def

end
