(* ===== verification/Ratelimit.thy ===== *)
theory Ratelimit
  imports Prelude Complex_Main "HOL-Library.AList"
begin

text \<open>
  \<^verbatim>\<open>internal/ratelimit/keyed.go\<close>: one token bucket per key with a cap on the keys tracked.
  The bucket itself is \<^verbatim>\<open>golang.org/x/time/rate\<close>, so it is a parameter: \<^verbatim>\<open>NewLimiter\<close> and
  \<^verbatim>\<open>AllowN\<close>, which returns its verdict and the bucket after it. The map of entries is an
  association list with distinct keys.
\<close>

record 'lim LimiterOps =
  NewLimiter :: "rat \<Rightarrow> int \<Rightarrow> 'lim"
  AllowN :: "'lim \<Rightarrow> time \<Rightarrow> int \<Rightarrow> bool \<times> 'lim"

definition IdleTtl :: duration where "IdleTtl = 300 * second"

record 'lim entry =
  en_lim :: 'lim
  en_seen :: time

record 'lim Keyed =
  k_rate :: rat
  k_burst :: int
  k_max :: int
  k_entries :: "(string \<times> 'lim entry) list"
  k_overflow :: 'lim
  k_swept :: time

definition NewKeyed :: "'lim LimiterOps \<Rightarrow> rat \<Rightarrow> int \<Rightarrow> int \<Rightarrow> time \<Rightarrow> 'lim Keyed" where
  "NewKeyed ops perSec burst mx now =
     \<lparr>k_rate = perSec, k_burst = burst, k_max = mx, k_entries = [],
      k_overflow = NewLimiter ops perSec burst, k_swept = now\<rparr>"

definition sweep :: "time \<Rightarrow> 'lim Keyed \<Rightarrow> 'lim Keyed" where
  "sweep now k = k\<lparr>k_entries := filter (\<lambda>(_, e). \<not> (now - en_seen e > IdleTtl)) (k_entries k),
                   k_swept := now\<rparr>"

text \<open>Which bucket a call uses: the key's own, or the shared one. \<^verbatim>\<open>limiterFor\<close> returns a pointer
  into the map, so the model names the bucket and reads and writes it through that name.\<close>

datatype which = Own string | Overflow

definition limiterFor :: "'lim LimiterOps \<Rightarrow> string \<Rightarrow> time \<Rightarrow> 'lim Keyed \<Rightarrow> which \<times> 'lim Keyed" where
  "limiterFor ops key now k =
     (case map_of (k_entries k) key of
        Some e \<Rightarrow> (Own key, k\<lparr>k_entries := AList.update key (e\<lparr>en_seen := now\<rparr>) (k_entries k)\<rparr>)
      | None \<Rightarrow>
          if int (length (k_entries k)) \<ge> k_max k then (Overflow, k)
          else (Own key, k\<lparr>k_entries := AList.update key
                  \<lparr>en_lim = NewLimiter ops (k_rate k) (k_burst k), en_seen = now\<rparr> (k_entries k)\<rparr>))"

definition lim_allow :: "'lim LimiterOps \<Rightarrow> which \<Rightarrow> time \<Rightarrow> 'lim Keyed \<Rightarrow> bool \<times> 'lim Keyed" where
  "lim_allow ops w now k =
     (case w of
        Overflow \<Rightarrow> (case AllowN ops (k_overflow k) now 1 of (b, l) \<Rightarrow> (b, k\<lparr>k_overflow := l\<rparr>))
      | Own key \<Rightarrow>
          (case map_of (k_entries k) key of
             None \<Rightarrow> (False, k)
           | Some e \<Rightarrow> (case AllowN ops (en_lim e) now 1 of (b, l) \<Rightarrow>
               (b, k\<lparr>k_entries := AList.update key (e\<lparr>en_lim := l\<rparr>) (k_entries k)\<rparr>))))"

definition Allow :: "'lim LimiterOps \<Rightarrow> string \<Rightarrow> time \<Rightarrow> 'lim Keyed \<Rightarrow> bool \<times> 'lim Keyed" where
  "Allow ops key now k =
     (if k_rate k \<le> 0 then (True, k)
      else let k = (if now - k_swept k > IdleTtl then sweep now k else k) in
           case limiterFor ops key now k of (w, k) \<Rightarrow> lim_allow ops w now k)"

section \<open>The map is bounded, and a call touches one bucket\<close>

definition keyed_inv :: "'lim Keyed \<Rightarrow> bool" where
  "keyed_inv k \<longleftrightarrow> distinct (map fst (k_entries k)) \<and> int (length (k_entries k)) \<le> max 0 (k_max k)"

lemma length_update:
  "length (AList.update k v al) = (if k \<in> fst ` set al then length al else Suc (length al))"
  by (induction al) auto

lemma distinct_fst_filter: "distinct (map fst xs) \<Longrightarrow> distinct (map fst (filter P xs))"
  by (induction xs) auto

lemma keyed_inv_sweep: "keyed_inv k \<Longrightarrow> keyed_inv (sweep now k)"
proof -
  assume k: "keyed_inv k"
  have "int (length (k_entries (sweep now k))) \<le> int (length (k_entries k))"
    by (simp add: sweep_def)
  also have "\<dots> \<le> max 0 (k_max k)"
    using k by (simp add: keyed_inv_def)
  finally show ?thesis
    using k by (simp add: keyed_inv_def sweep_def distinct_fst_filter)
qed

lemma keyed_inv_limiterFor: "keyed_inv k \<Longrightarrow> keyed_inv (snd (limiterFor ops key now k))"
  by (auto simp: keyed_inv_def limiterFor_def length_update distinct_update map_of_eq_None_iff
      dest: map_of_SomeD split: option.split)
    (force dest: map_of_SomeD)+

lemma keyed_inv_lim_allow: "keyed_inv k \<Longrightarrow> keyed_inv (snd (lim_allow ops w now k))"
  by (auto simp: keyed_inv_def lim_allow_def length_update distinct_update
      split: which.split option.split prod.split) (force dest: map_of_SomeD)+

lemma keyed_inv_Allow: "keyed_inv k \<Longrightarrow> keyed_inv (snd (Allow ops key now k))"
proof -
  assume k: "keyed_inv k"
  define k1 where "k1 = (if now - k_swept k > IdleTtl then sweep now k else k)"
  have "keyed_inv k1"
    using k by (simp add: k1_def keyed_inv_sweep)
  then have "keyed_inv (snd (limiterFor ops key now k1))"
    by (rule keyed_inv_limiterFor)
  then show ?thesis
    using k keyed_inv_lim_allow [of "snd (limiterFor ops key now k1)" ops "fst (limiterFor ops key now k1)" now]
    by (simp add: Allow_def Let_def k1_def case_prod_unfold)
qed

text \<open>A sender over the limit does not spend another sender's tokens.\<close>

lemma Allow_other_key:
  assumes "\<not> now - k_swept k > IdleTtl" "other \<noteq> key"
  shows "map_of (k_entries (snd (Allow ops key now k))) other = map_of (k_entries k) other"
  using assms
  by (auto simp: Allow_def Let_def limiterFor_def lim_allow_def map_of_Cons_code update_conv'
      split: prod.split option.split which.split)

lemma sweep_keeps_active:
  assumes "map_of (k_entries k) key = Some e" "distinct (map fst (k_entries k))" "now - en_seen e \<le> IdleTtl"
  shows "map_of (k_entries (sweep now k)) key = Some e"
proof -
  have "(key, e) \<in> set (k_entries (sweep now k))"
    using assms(1,3) by (auto simp: sweep_def dest: map_of_SomeD)
  moreover have "distinct (map fst (k_entries (sweep now k)))"
    using assms(2) by (simp add: sweep_def distinct_fst_filter)
  ultimately show ?thesis
    by simp
qed

end
