(* ===== verification/MemberCache.thy ===== *)
theory MemberCache
  imports Prelude "HOL-Library.AList"
begin

text \<open>
  \<^verbatim>\<open>internal/service/message/members.go\<close>: the per-node cache of group rosters. Every read of
  the clock is an argument. The cache never holds more than \<^verbatim>\<open>memberCacheMax\<close> rosters, serves
  only entries that have not expired, and forgets a group when it is invalidated.
\<close>

definition memberCacheMax :: nat where "memberCacheMax = 10000"

record memberEntry =
  me_ids :: "string list"
  me_expires :: time

record memberCache =
  mc_ttl :: duration
  mc_entries :: "(string \<times> memberEntry) list"

definition newMemberCache :: "duration \<Rightarrow> memberCache" where
  "newMemberCache ttl = \<lparr>mc_ttl = ttl, mc_entries = []\<rparr>"

definition mc_get :: "string \<Rightarrow> time \<Rightarrow> memberCache \<Rightarrow> string list option \<times> memberCache" where
  "mc_get groupId now c =
     (if mc_ttl c \<le> 0 then (None, c)
      else case map_of (mc_entries c) groupId of
             None \<Rightarrow> (None, c\<lparr>mc_entries := AList.delete groupId (mc_entries c)\<rparr>)
           | Some e \<Rightarrow>
               if now > me_expires e then (None, c\<lparr>mc_entries := AList.delete groupId (mc_entries c)\<rparr>)
               else (Some (me_ids e), c))"

definition mc_set :: "string \<Rightarrow> string list \<Rightarrow> time \<Rightarrow> time \<Rightarrow> memberCache \<Rightarrow> memberCache" where
  "mc_set groupId ids now1 now2 c =
     (if mc_ttl c \<le> 0 then c
      else
        let es = mc_entries c;
            es = (if length es \<ge> memberCacheMax then
                    let live = filter (\<lambda>(_, e). \<not> now1 > me_expires e) es in
                    if length live \<ge> memberCacheMax then [] else live
                  else es)
        in c\<lparr>mc_entries := AList.update groupId \<lparr>me_ids = ids, me_expires = now2 + mc_ttl c\<rparr> es\<rparr>)"

definition mc_invalidate :: "string \<Rightarrow> memberCache \<Rightarrow> memberCache" where
  "mc_invalidate groupId c = c\<lparr>mc_entries := AList.delete groupId (mc_entries c)\<rparr>"

definition mc_inv :: "memberCache \<Rightarrow> bool" where
  "mc_inv c \<longleftrightarrow> distinct (map fst (mc_entries c)) \<and> length (mc_entries c) \<le> memberCacheMax"

lemma length_update_le: "length (AList.update k v al) \<le> Suc (length al)"
  by (induction al) auto

lemma distinct_fst_filter': "distinct (map fst xs) \<Longrightarrow> distinct (map fst (filter P xs))"
  by (induction xs) auto

lemma mc_inv_new: "mc_inv (newMemberCache ttl)"
  by (simp add: mc_inv_def newMemberCache_def)

lemma length_delete_le: "length (AList.delete k al) \<le> length al"
  by (simp add: AList.delete_eq)

lemma mc_inv_get: "mc_inv c \<Longrightarrow> mc_inv (snd (mc_get g now c))"
  by (auto simp: mc_inv_def mc_get_def distinct_delete intro: le_trans [OF length_delete_le]
      split: option.split)

lemma mc_inv_invalidate: "mc_inv c \<Longrightarrow> mc_inv (mc_invalidate g c)"
  by (auto simp: mc_inv_def mc_invalidate_def distinct_delete intro: le_trans [OF length_delete_le])

lemma mc_inv_set: "mc_inv c \<Longrightarrow> mc_inv (mc_set g ids n1 n2 c)"
proof -
  assume c: "mc_inv c"
  define es where "es = (if length (mc_entries c) \<ge> memberCacheMax then
      let live = filter (\<lambda>(_, e). \<not> n1 > me_expires e) (mc_entries c) in
      if length live \<ge> memberCacheMax then [] else live else mc_entries c)"
  have "length es < memberCacheMax" "distinct (map fst es)"
    using c by (auto simp: es_def Let_def mc_inv_def memberCacheMax_def distinct_fst_filter')
  then have "length (AList.update g v es) \<le> memberCacheMax" "distinct (map fst (AList.update g v es))" for v
    using length_update_le [of g v es] by (auto simp: distinct_update)
  then show ?thesis
    using c by (simp add: mc_set_def es_def [symmetric] Let_def mc_inv_def)
qed

lemma mc_get_fresh:
  assumes "mc_get g now c = (Some ids, c')"
  shows "c' = c" "\<exists>e. map_of (mc_entries c) g = Some e \<and> me_ids e = ids \<and> now \<le> me_expires e"
  using assms by (auto simp: mc_get_def split: if_splits option.splits)

lemma mc_get_set:
  assumes "0 < mc_ttl c" "now \<le> n2 + mc_ttl c"
  shows "fst (mc_get g now (mc_set g ids n1 n2 c)) = Some ids"
  using assms by (simp add: mc_get_def mc_set_def Let_def update_conv')

lemma mc_get_invalidate: "fst (mc_get g now (mc_invalidate g c)) = None"
  by (simp add: mc_get_def mc_invalidate_def delete_conv')

end
