(* ===== verification/MessageService.thy ===== *)
theory MessageService
  imports Conv Dto Msgbody Ratelimit MemberCache
begin

text \<open>
  \<^verbatim>\<open>internal/service/message\<close>: sending, pulling, the sync baseline, the recipients of a push and
  the offline push. The service's mutable fields are the record \<^verbatim>\<open>MsgState\<close>; it stands beside
  the database state, and an action on the pair runs store calls with \<^verbatim>\<open>on_db\<close>. The Publisher
  and the Pusher are interfaces: what is handed to them is recorded in order. The clock and the
  fresh uuid are arguments, JSON validity and the token bucket are parameters of the service.
\<close>

section \<open>Types\<close>

record PushEvent =
  pe_ConversationId :: string
  pe_SessionType :: int32
  pe_SenderId :: string
  pe_SenderConnId :: string
  pe_RecvId :: string
  pe_GroupId :: string
  pe_Message :: DtoMessage

record Ack =
  ack_ServerMsgId :: string
  ack_ConversationId :: string
  ack_Seq :: int64
  ack_SendTime :: int64

record SendInput =
  in_SenderId :: string
  in_SenderConnId :: string
  in_ClientMsgId :: string
  in_SessionType :: int32
  in_RecvId :: string
  in_GroupId :: string
  in_ContentType :: int32
  in_Content :: string
  in_SenderRead :: bool
  in_Unlimited :: bool

record Notification =
  no_ConversationId :: string
  no_Seq :: int64
  no_SessionType :: int32
  no_SenderId :: string
  no_GroupId :: string
  no_ContentType :: int32
  no_Content :: string
  no_SendTime :: int64

text \<open>What a service is built with, and what it mutates.\<close>

record ('db, 'lim) MsgService =
  s_store :: "('db, Message \<times> bool) StoreTx"
  s_maxContent :: int
  s_jsonValid :: "string \<Rightarrow> bool"
  s_limiter :: "'lim LimiterOps"
  s_online :: "(string list \<Rightarrow> (string \<Rightarrow> int32 list) result) option"
  s_pusher :: bool

record 'lim MsgState =
  m_sendLimit :: "'lim Keyed"
  m_members :: memberCache
  m_published :: "PushEvent list"
  m_republished :: int64
  m_pushBusy :: nat
  m_pushStarted :: "PushEvent list"
  m_pushDropped :: int64
  m_pushed :: "(string list \<times> Notification) list"

definition offlinePushWorkers :: nat where "offlinePushWorkers = 64"
definition maxTrackedSenders :: int where "maxTrackedSenders = 100000"

definition NewMsgState :: "'lim LimiterOps \<Rightarrow> duration \<Rightarrow> int \<Rightarrow> time \<Rightarrow> 'lim MsgState" where
  "NewMsgState ops memberCacheTtl sendPerMin now =
     \<lparr>m_sendLimit = NewKeyed ops (of_int sendPerMin / 60) sendPerMin maxTrackedSenders now,
      m_members = newMemberCache memberCacheTtl, m_published = [], m_republished = 0,
      m_pushBusy = 0, m_pushStarted = [], m_pushDropped = 0, m_pushed = []\<rparr>"

section \<open>Validation\<close>

text \<open>\<^verbatim>\<open>strings.TrimRightFunc(s, unicode.IsSpace) != s\<close>: the last rune is white space. The runes
  \<^verbatim>\<open>unicode.IsSpace\<close> accepts, as the bytes a UTF-8 string ends with.\<close>

definition space_suffixes :: "int list list" where
  "space_suffixes =
     [[9], [10], [11], [12], [13], [32], [0xC2, 0x85], [0xC2, 0xA0], [0xE1, 0x9A, 0x80],
      [0xE2, 0x80, 0x80], [0xE2, 0x80, 0x81], [0xE2, 0x80, 0x82], [0xE2, 0x80, 0x83],
      [0xE2, 0x80, 0x84], [0xE2, 0x80, 0x85], [0xE2, 0x80, 0x86], [0xE2, 0x80, 0x87],
      [0xE2, 0x80, 0x88], [0xE2, 0x80, 0x89], [0xE2, 0x80, 0x8A], [0xE2, 0x80, 0xA8],
      [0xE2, 0x80, 0xA9], [0xE2, 0x80, 0xAF], [0xE2, 0x81, 0x9F], [0xE3, 0x80, 0x80]]"

definition ends_in_space :: "string \<Rightarrow> bool" where
  "ends_in_space s \<longleftrightarrow>
     list_ex (\<lambda>suf. length suf \<le> length s \<and> drop (length s - length suf) (map of_char s) = suf) space_suffixes"

definition validate :: "('db, 'lim) MsgService \<Rightarrow> SendInput \<Rightarrow> Error option" where
  "validate s inp =
     (if in_ClientMsgId inp = [] \<or> length (in_ClientMsgId inp) > 64 then
        Some (WithMessage ErrInvalidParam ''client_msg_id: 1-64 bytes'')
      else if ends_in_space (in_ClientMsgId inp) then
        Some (WithMessage ErrInvalidParam ''client_msg_id must not end in whitespace'')
      else if in_SessionType inp = ConversationSingle \<and> \<not> Valid (in_RecvId inp) then
        Some (WithMessage ErrInvalidParam ''recv_id is required for single chat'')
      else if in_SessionType inp = ConversationSingle \<and> in_RecvId inp = in_SenderId inp then
        Some (WithMessage ErrInvalidParam ''cannot message yourself'')
      else if in_SessionType inp = ConversationGroup \<and> in_GroupId inp = [] then
        Some (WithMessage ErrInvalidParam ''group_id is required for group chat'')
      else if in_SessionType inp \<noteq> ConversationSingle \<and> in_SessionType inp \<noteq> ConversationGroup then
        Some (WithMessage ErrInvalidParam ''session_type must be 1 or 2'')
      else if \<not> ValidType (in_ContentType inp) then
        Some (WithMessage ErrInvalidParam ''unknown content_type'')
      else if int (length (in_Content inp)) > s_maxContent s then
        Some ErrMessageContentTooLong
      else if \<not> s_jsonValid s (in_Content inp) then
        Some (WithMessage ErrInvalidParam ''content must be a JSON value'')
      else None)"

section \<open>Send\<close>

text \<open>The destination as stored, with the group row of a group chat and the input whose other
  destination field is cleared.\<close>

definition normalizeDestination :: "('db, 'z) StoreOps_scheme \<Rightarrow> SendInput \<Rightarrow>
    ('db, (string \<times> Group option \<times> SendInput) result) state" where
  "normalizeDestination st inp =
     (if in_SessionType inp = ConversationSingle then do {
        r \<leftarrow> GetUser st (in_RecvId inp);
        State_Monad.return (case r of
          Inl e \<Rightarrow> if is_not_found e then fail ErrUserNotFound else Inl (store_failed e)
        | Inr u \<Rightarrow>
            let inp = inp\<lparr>in_RecvId := user_Id u, in_GroupId := []\<rparr> in
            Inr (Single (in_SenderId inp) (in_RecvId inp), None, inp))
      } else do {
        r \<leftarrow> GetGroup st (in_GroupId inp);
        State_Monad.return (case r of
          Inl e \<Rightarrow> if is_not_found e then fail ErrGroupNotFound else Inl (store_failed e)
        | Inr g \<Rightarrow>
            let inp = inp\<lparr>in_GroupId := group_Id g, in_RecvId := []\<rparr> in
            Inr (GroupConv (in_GroupId inp), Some g, inp))
      })"

definition checkGroupSend :: "('db, 'z) StoreOps_scheme \<Rightarrow> Group \<Rightarrow> string \<Rightarrow>
    ('db, unit result) state" where
  "checkGroupSend tx g userId =
     (if group_Status g = GroupStatusDismissed then State_Monad.return (fail ErrGroupDismissed)
      else do {
        r \<leftarrow> GetGroupMember tx (group_Id g) userId;
        State_Monad.return (case r of
          Inl e \<Rightarrow> if is_not_found e then fail ErrNotGroupMember else Inl e
        | Inr _ \<Rightarrow> Inr ())
      })"

definition checkMembership :: "('db, 'z) StoreOps_scheme \<Rightarrow> string \<Rightarrow> string \<Rightarrow>
    ('db, unit result) state" where
  "checkMembership tx groupId userId = do {
     r \<leftarrow> GetGroup tx groupId;
     (case r of
        Inl e \<Rightarrow> State_Monad.return (Inl e)
      | Inr g \<Rightarrow> checkGroupSend tx g userId)
   }"

text \<open>Every error of the check denies the republish; the cases only differ in what is logged.\<close>

definition republishAllowed :: "('db, 'z) StoreOps_scheme \<Rightarrow> SendInput \<Rightarrow> Group option \<Rightarrow>
    ('db, bool) state" where
  "republishAllowed st inp g =
     (if in_SessionType inp \<noteq> ConversationGroup then State_Monad.return True
      else case g of
        None \<Rightarrow> State_Monad.return False
      | Some g \<Rightarrow> do {
          r \<leftarrow> checkGroupSend st g (in_SenderId inp);
          State_Monad.return (case r of Inr _ \<Rightarrow> True | Inl _ \<Rightarrow> False)
        })"

definition empty_uc :: "string \<Rightarrow> string \<Rightarrow> int32 \<Rightarrow> string \<Rightarrow> string \<Rightarrow> time \<Rightarrow> UserConversation" where
  "empty_uc owner convId typ peer groupId now =
     \<lparr>uc_OwnerId = owner, uc_ConversationId = convId, uc_Type = typ, uc_PeerUserId = peer,
      uc_GroupId = groupId, uc_MinSeq = 0, uc_MaxSeq = 0, uc_ReadSeq = 0, uc_RecvMsgOpt = 0,
      uc_IsPinned = False, uc_Extra = [], uc_UpdatedAt = now, uc_CreatedAt = time_zero\<rparr>"

definition touchConversations :: "('db, 'z) StoreOps_scheme \<Rightarrow> SendInput \<Rightarrow> string \<Rightarrow> int64 \<Rightarrow> time \<Rightarrow>
    ('db, unit result) state" where
  "touchConversations tx inp convId seq now =
     (let senderRead = (if in_SenderRead inp then seq else 0) in
      if in_SessionType inp = ConversationSingle then do {
        r \<leftarrow> TouchUserConversation tx
               (empty_uc (in_SenderId inp) convId (in_SessionType inp) (in_RecvId inp) [] now) senderRead;
        (case r of
           Inl e \<Rightarrow> State_Monad.return (Inl e)
         | Inr _ \<Rightarrow> TouchUserConversation tx
               (empty_uc (in_RecvId inp) convId (in_SessionType inp) (in_SenderId inp) [] now) 0)
      } else do {
        r \<leftarrow> TouchConversationMembers tx convId now;
        (case r of
           Inl e \<Rightarrow> State_Monad.return (Inl e)
         | Inr _ \<Rightarrow> if senderRead = 0 then State_Monad.return (Inr ())
                   else AdvanceReadSeq tx (in_SenderId inp) convId senderRead)
      })"

definition new_message :: "SendInput \<Rightarrow> string \<Rightarrow> string \<Rightarrow> Message" where
  "new_message inp convId uuid =
     \<lparr>msg_ConversationId = convId, msg_Seq = 0, msg_ServerMsgId = uuid,
      msg_ClientMsgId = in_ClientMsgId inp, msg_SenderId = in_SenderId inp, msg_RecvId = in_RecvId inp,
      msg_GroupId = in_GroupId inp, msg_SessionType = in_SessionType inp,
      msg_ContentType = in_ContentType inp, msg_Content = in_Content inp,
      msg_SendTime = time_zero, msg_CreatedAt = time_zero\<rparr>"

text \<open>The transaction of \<^verbatim>\<open>Send\<close>. The captured variables are \<^verbatim>\<open>msg\<close> and \<^verbatim>\<open>duplicate\<close>.\<close>

definition Send_tx :: "SendInput \<Rightarrow> string \<Rightarrow> Message \<Rightarrow> time \<Rightarrow> ('db, 'z) StoreOps_scheme \<Rightarrow>
    ('db, unit result \<times> (Message \<times> bool)) state" where
  "Send_tx inp convId msg now tx = do {
     c \<leftarrow> LockConversation tx convId (in_SessionType inp) (in_GroupId inp) now;
     (case c of
        Inl e \<Rightarrow> State_Monad.return (Inl e, (msg, False))
      | Inr c \<Rightarrow> do {
          m \<leftarrow> (if in_SessionType inp = ConversationGroup
                then checkMembership tx (in_GroupId inp) (in_SenderId inp)
                else State_Monad.return (Inr ()));
          (case m of
             Inl e \<Rightarrow> State_Monad.return (Inl e, (msg, False))
           | Inr _ \<Rightarrow>
               let now = (if conv_UpdatedAt c > now then conv_UpdatedAt c else now);
                   msg = msg\<lparr>msg_SendTime := now, msg_CreatedAt := now,
                             msg_Seq := i64 (conv_MaxSeq c + 1)\<rparr>
               in do {
                 ins \<leftarrow> InsertMessage tx msg;
                 (case ins of
                    Inl e \<Rightarrow> State_Monad.return (Inl e, (msg, False))
                  | Inr False \<Rightarrow> State_Monad.return (Inl (Sentinel message_errRollback), (msg, True))
                  | Inr True \<Rightarrow> do {
                      r \<leftarrow> SetConversationMaxSeq tx convId (msg_Seq msg) now;
                      (case r of
                         Inl e \<Rightarrow> State_Monad.return (Inl e, (msg, False))
                       | Inr _ \<Rightarrow> do {
                           r \<leftarrow> touchConversations tx inp convId (msg_Seq msg) now;
                           State_Monad.return (r, (msg, False))
                         })
                    })
               })
        })
   }"

definition ack :: "Message \<Rightarrow> Ack" where
  "ack m = \<lparr>ack_ServerMsgId = msg_ServerMsgId m, ack_ConversationId = msg_ConversationId m,
            ack_Seq = msg_Seq m, ack_SendTime = UnixMilli (msg_SendTime m)\<rparr>"

definition push_event :: "Message \<Rightarrow> string \<Rightarrow> PushEvent" where
  "push_event msg senderConnId =
     \<lparr>pe_ConversationId = msg_ConversationId msg, pe_SessionType = msg_SessionType msg,
      pe_SenderId = msg_SenderId msg, pe_SenderConnId = senderConnId, pe_RecvId = msg_RecvId msg,
      pe_GroupId = msg_GroupId msg, pe_Message = MessageFromStore msg\<rparr>"

definition publish :: "Message \<Rightarrow> string \<Rightarrow> ('lim MsgState, PushEvent) state" where
  "publish msg senderConnId = State (\<lambda>w.
     let ev = push_event msg senderConnId in (ev, w\<lparr>m_published := m_published w @ [ev]\<rparr>))"

definition republish :: "Message \<Rightarrow> string \<Rightarrow> ('lim MsgState, unit) state" where
  "republish msg senderConnId = do {
     _ \<leftarrow> State (\<lambda>w. ((), w\<lparr>m_republished := i64 (m_republished w + 1)\<rparr>));
     _ \<leftarrow> publish msg senderConnId;
     State_Monad.return ()
   }"

definition sendLimit_Allow :: "('db, 'lim) MsgService \<Rightarrow> string \<Rightarrow> time \<Rightarrow> ('lim MsgState, bool) state" where
  "sendLimit_Allow s key now = State (\<lambda>w.
     case Allow (s_limiter s) key now (m_sendLimit w) of (b, k) \<Rightarrow> (b, w\<lparr>m_sendLimit := k\<rparr>))"

text \<open>The channel \<^verbatim>\<open>pushSem\<close> holds one token per running push.\<close>

definition spawnOfflinePush :: "PushEvent \<Rightarrow> ('lim MsgState, unit) state" where
  "spawnOfflinePush ev = State (\<lambda>w.
     ((), if m_pushBusy w < offlinePushWorkers
          then w\<lparr>m_pushBusy := m_pushBusy w + 1, m_pushStarted := m_pushStarted w @ [ev]\<rparr>
          else w\<lparr>m_pushDropped := i64 (m_pushDropped w + 1)\<rparr>))"

text \<open>A retry: the committed ACK, and the republish when it is authorized and within the quota.\<close>

definition Send_retry :: "('db, 'lim) MsgService \<Rightarrow> SendInput \<Rightarrow> Group option \<Rightarrow> Message \<Rightarrow> time \<Rightarrow>
    ('db \<times> 'lim MsgState, Ack result) state" where
  "Send_retry s inp g m now = do {
     ok \<leftarrow> on_db (republishAllowed (s_store s) inp g);
     _ \<leftarrow> (if ok then do {
             allowed \<leftarrow> (if in_Unlimited inp then State_Monad.return True
                        else on_svc (sendLimit_Allow s (in_SenderId inp) now));
             (if allowed then on_svc (republish m (in_SenderConnId inp)) else State_Monad.return ())
           } else State_Monad.return ());
     State_Monad.return (Inr (ack m))
   }"

text \<open>After the transaction.\<close>

definition Send_duplicate :: "('db, 'lim) MsgService \<Rightarrow> SendInput \<Rightarrow> string \<Rightarrow>
    ('db \<times> 'lim MsgState, Ack result) state" where
  "Send_duplicate s inp convId = do {
     m \<leftarrow> on_db (GetMessageByClientId (s_store s) convId (in_SenderId inp) (in_ClientMsgId inp));
     (case m of
        Inl e \<Rightarrow> State_Monad.return
          (if is_not_found e then fail (Wrap ErrSeqAllocFailed (Some e)) else Inl (store_failed e))
      | Inr m \<Rightarrow> do {
          _ \<leftarrow> on_svc (republish m (in_SenderConnId inp));
          State_Monad.return (Inr (ack m))
        })
   }"

definition Send_committed :: "('db, 'lim) MsgService \<Rightarrow> SendInput \<Rightarrow> Message \<Rightarrow>
    ('db \<times> 'lim MsgState, Ack result) state" where
  "Send_committed s inp msg = do {
     ev \<leftarrow> on_svc (publish msg (in_SenderConnId inp));
     _ \<leftarrow> (if s_pusher s then on_svc (spawnOfflinePush ev) else State_Monad.return ());
     State_Monad.return (Inr (ack msg))
   }"

definition Send_new :: "('db, 'lim) MsgService \<Rightarrow> SendInput \<Rightarrow> string \<Rightarrow> time \<Rightarrow> string \<Rightarrow>
    ('db \<times> 'lim MsgState, Ack result) state" where
  "Send_new s inp convId now uuid = do {
     allowed \<leftarrow> (if in_Unlimited inp then State_Monad.return True
                else on_svc (sendLimit_Allow s (in_SenderId inp) now));
     (if \<not> allowed then
        State_Monad.return (fail (WithMessage ErrTooManyRequests ''message send rate limit''))
      else do {
        tx \<leftarrow> on_db (WithTx (s_store s) (Send_tx inp convId (new_message inp convId uuid) now)
                        (new_message inp convId uuid, False));
        (case tx of (err, msg, duplicate) \<Rightarrow>
           if duplicate then Send_duplicate s inp convId
           else (case err of
             Inl e \<Rightarrow> State_Monad.return (Inl (Or e ErrMessageSendFailed))
           | Inr _ \<Rightarrow> Send_committed s inp msg))
      })
   }"

definition Send :: "('db, 'lim) MsgService \<Rightarrow> SendInput \<Rightarrow> time \<Rightarrow> string \<Rightarrow>
    ('db \<times> 'lim MsgState, Ack result) state" where
  "Send s inp now uuid =
     (case validate s inp of
        Some e \<Rightarrow> State_Monad.return (fail e)
      | None \<Rightarrow> do {
          dst \<leftarrow> on_db (normalizeDestination (s_store s) inp);
          (case dst of
             Inl e \<Rightarrow> State_Monad.return (Inl e)
           | Inr (convId, g, inp) \<Rightarrow> do {
               prior \<leftarrow> on_db (GetMessageByClientId (s_store s) convId (in_SenderId inp) (in_ClientMsgId inp));
               (case prior of
                  Inr m \<Rightarrow> Send_retry s inp g m now
                | Inl e \<Rightarrow>
                    if \<not> is_not_found e then State_Monad.return (Inl (store_failed e))
                    else Send_new s inp convId now uuid)
             })
        })"

section \<open>Pull and the sync baseline\<close>

record PullInput =
  pl_UserId :: string
  pl_ConversationId :: string
  pl_BeginSeq :: int64
  pl_EndSeq :: int64
  pl_Limit :: int

record PullResult =
  pr_Messages :: "DtoMessage list"
  pr_HasMore :: bool

definition Pull :: "('db, 'z) StoreOps_scheme \<Rightarrow> PullInput \<Rightarrow> int \<Rightarrow> ('db, PullResult result) state" where
  "Pull st inp pageMax =
     (if pl_BeginSeq inp < 1 \<or> pl_EndSeq inp < pl_BeginSeq inp then
        State_Monad.return (fail (WithMessage ErrInvalidParam ''need 1 <= begin_seq <= end_seq''))
      else
        let limit = page_limit (pl_Limit inp) pageMax in
        do {
          uc \<leftarrow> GetUserConversationRow st (pl_UserId inp) (pl_ConversationId inp);
          (case uc of
             Inl e \<Rightarrow> State_Monad.return
                 (if is_not_found e then fail ErrNoPermission else Inl (store_failed e))
           | Inr uc \<Rightarrow>
               (case VisibleRange uc (row_ConvMaxSeq uc) (pl_BeginSeq inp) (pl_EndSeq inp) of (b, e) \<Rightarrow>
                  if b > e then State_Monad.return (Inr \<lparr>pr_Messages = [], pr_HasMore = False\<rparr>)
                  else do {
                    rows \<leftarrow> ListMessages st (pl_ConversationId inp) b e (i64 (limit + 1));
                    State_Monad.return (case rows of
                      Inl er \<Rightarrow> fail (Wrap ErrMessagePullFailed (Some er))
                    | Inr rows \<Rightarrow>
                        Inr \<lparr>pr_Messages = map MessageFromStore (take (nat (min (int (length rows)) limit)) rows),
                             pr_HasMore = int (length rows) > limit\<rparr>)
                  }))
        })"

record MaxSeqItem =
  ms_ConversationId :: string
  ms_MaxSeq :: int64
  ms_MinSeq :: int64
  ms_ReadSeq :: int64

record MaxSeqsResult =
  mr_Items :: "MaxSeqItem list"
  mr_NextCursor :: string
  mr_HasMore :: bool

definition MaxSeqs :: "('db, 'z) StoreOps_scheme \<Rightarrow> string \<Rightarrow> string \<Rightarrow> int \<Rightarrow> int \<Rightarrow>
    ('db, MaxSeqsResult result) state" where
  "MaxSeqs st userId cursor limit pageMax = do {
     r \<leftarrow> ListPage st userId cursor limit pageMax;
     State_Monad.return (case r of
       Inl e \<Rightarrow> Inl e
     | Inr (rows, next, hasMore) \<Rightarrow>
         Inr \<lparr>mr_Items = map (\<lambda>r. \<lparr>ms_ConversationId = uc_ConversationId r,
                 ms_MaxSeq = VisibleMax r (row_ConvMaxSeq r), ms_MinSeq = uc_MinSeq r,
                 ms_ReadSeq = uc_ReadSeq r\<rparr>) rows,
              mr_NextCursor = next, mr_HasMore = hasMore\<rparr>)
   }"

section \<open>Recipients and offline push\<close>

text \<open>The three clock arguments are the reads of the roster cache: one in its \<^verbatim>\<open>get\<close>, two in its
  \<^verbatim>\<open>set\<close>.\<close>

definition Recipients :: "('db, 'z) StoreOps_scheme \<Rightarrow> PushEvent \<Rightarrow> time \<Rightarrow> time \<Rightarrow> time \<Rightarrow>
    ('db \<times> 'lim MsgState, string list result) state" where
  "Recipients st ev now1 now2 now3 =
     (if pe_SessionType ev = ConversationSingle then
        State_Monad.return (Inr [pe_SenderId ev, pe_RecvId ev])
      else do {
        cached \<leftarrow> on_svc (State (\<lambda>w. case mc_get (pe_GroupId ev) now1 (m_members w) of
                    (ids, c) \<Rightarrow> (ids, w\<lparr>m_members := c\<rparr>)));
        (case cached of
           Some ids \<Rightarrow> State_Monad.return (Inr ids)
         | None \<Rightarrow> do {
             ms \<leftarrow> on_db (ListGroupMembers st (pe_GroupId ev));
             (case ms of
                Inl e \<Rightarrow> State_Monad.return (Inl (store_failed e))
              | Inr ms \<Rightarrow> do {
                  _ \<leftarrow> on_svc (State (\<lambda>w. ((), w\<lparr>m_members :=
                         mc_set (pe_GroupId ev) (map gm_UserId ms) now2 now3 (m_members w)\<rparr>)));
                  State_Monad.return (Inr (map gm_UserId ms))
                })
           })
      })"

definition InvalidateGroup :: "string \<Rightarrow> ('lim MsgState, unit) state" where
  "InvalidateGroup groupId = State (\<lambda>w. ((), w\<lparr>m_members := mc_invalidate groupId (m_members w)\<rparr>))"

definition VisibleTo :: "('db, 'z) StoreOps_scheme \<Rightarrow> string \<Rightarrow> string list \<Rightarrow> int64 \<Rightarrow>
    ('db, string list result) state" where
  "VisibleTo st convId userIds seq = do {
     r \<leftarrow> VisibleOwners st convId userIds seq;
     State_Monad.return (case r of Inl e \<Rightarrow> Inl (store_failed e) | Inr ids \<Rightarrow> Inr ids)
   }"

definition notification :: "PushEvent \<Rightarrow> Notification" where
  "notification ev =
     \<lparr>no_ConversationId = pe_ConversationId ev, no_Seq = dm_Seq (pe_Message ev),
      no_SessionType = pe_SessionType ev, no_SenderId = pe_SenderId ev, no_GroupId = pe_GroupId ev,
      no_ContentType = dm_ContentType (pe_Message ev), no_Content = dm_Content (pe_Message ev),
      no_SendTime = dm_SendTime (pe_Message ev)\<rparr>"

text \<open>One background push, with the semaphore it releases when it ends. What the Pusher is handed
  is appended to \<^verbatim>\<open>m_pushed\<close>; its own error is only logged.\<close>

definition offline_targets :: "('db, 'lim) MsgService \<Rightarrow> PushEvent \<Rightarrow> time \<Rightarrow> time \<Rightarrow> time \<Rightarrow>
    ('db \<times> 'lim MsgState, string list) state" where
  "offline_targets s ev now1 now2 now3 =
     (let st = s_store s in do {
        rs \<leftarrow> Recipients st ev now1 now2 now3;
        (case rs of
           Inl e \<Rightarrow> State_Monad.return []
         | Inr rs \<Rightarrow>
             let targets = filter (\<lambda>i. i \<noteq> pe_SenderId ev) rs in
             if targets = [] then State_Monad.return []
             else do {
               muted \<leftarrow> on_db (MutedOwners st (pe_ConversationId ev) targets);
               (case muted of
                  Inl e \<Rightarrow> State_Monad.return []
                | Inr muted \<Rightarrow>
                    let targets = filter (\<lambda>i. i \<notin> set muted) targets in
                    if targets = [] then State_Monad.return []
                    else do {
                      vis \<leftarrow> on_db (VisibleTo st (pe_ConversationId ev) targets (dm_Seq (pe_Message ev)));
                      State_Monad.return (case vis of
                        Inl e \<Rightarrow> []
                      | Inr targets \<Rightarrow>
                          if targets = [] then []
                          else (case s_online s of
                            None \<Rightarrow> targets
                          | Some online \<Rightarrow>
                              (case online targets of
                                 Inl e \<Rightarrow> []
                               | Inr platforms \<Rightarrow> filter (\<lambda>i. platforms i = []) targets)))
                    })
             })
      })"

definition offlinePush :: "('db, 'lim) MsgService \<Rightarrow> PushEvent \<Rightarrow> time \<Rightarrow> time \<Rightarrow> time \<Rightarrow>
    ('db \<times> 'lim MsgState, unit) state" where
  "offlinePush s ev now1 now2 now3 =
     (if \<not> s_pusher s then State_Monad.return ()
      else do {
        offline \<leftarrow> offline_targets s ev now1 now2 now3;
        (if offline = [] then State_Monad.return ()
         else on_svc (State (\<lambda>w. ((), w\<lparr>m_pushed := m_pushed w @ [(offline, notification ev)]\<rparr>))))
      })"

definition run_offlinePush :: "('db, 'lim) MsgService \<Rightarrow> PushEvent \<Rightarrow> time \<Rightarrow> time \<Rightarrow> time \<Rightarrow>
    ('db \<times> 'lim MsgState, unit) state" where
  "run_offlinePush s ev now1 now2 now3 = do {
     _ \<leftarrow> offlinePush s ev now1 now2 now3;
     on_svc (State (\<lambda>w. ((), w\<lparr>m_pushBusy := m_pushBusy w - 1\<rparr>)))
   }"

section \<open>The push on the bus\<close>

record PushPayload =
  pp_ConversationId :: string
  pp_Seq :: int64
  pp_SessionType :: int32
  pp_SenderId :: string
  pp_SenderConnId :: string
  pp_RecvId :: string
  pp_GroupId :: string
  pp_Ref :: bool
  pp_Msg :: "DtoMessage option"

definition MaxPayloadBytes :: nat where "MaxPayloadBytes = 7500"

text \<open>\<^verbatim>\<open>busPublisher.Publish\<close> up to the bus call; \<^verbatim>\<open>marshal\<close> is the JSON encoder, \<^verbatim>\<open>None\<close> its error.\<close>

definition push_payload :: "(PushPayload \<Rightarrow> string option) \<Rightarrow> PushEvent \<Rightarrow> string option" where
  "push_payload marshal ev =
     (let payload = \<lparr>pp_ConversationId = pe_ConversationId ev, pp_Seq = dm_Seq (pe_Message ev),
                      pp_SessionType = pe_SessionType ev, pp_SenderId = pe_SenderId ev,
                      pp_SenderConnId = pe_SenderConnId ev, pp_RecvId = pe_RecvId ev,
                      pp_GroupId = pe_GroupId ev, pp_Ref = False, pp_Msg = Some (pe_Message ev)\<rparr>
      in case marshal payload of
           None \<Rightarrow> None
         | Some raw \<Rightarrow>
             if length raw > MaxPayloadBytes then marshal (payload\<lparr>pp_Ref := True, pp_Msg := None\<rparr>)
             else Some raw)"

definition ResolvePush :: "('db, 'z) StoreOps_scheme \<Rightarrow> PushPayload \<Rightarrow> ('db, PushEvent result) state" where
  "ResolvePush st p =
     (let out = (\<lambda>m. \<lparr>pe_ConversationId = pp_ConversationId p, pe_SessionType = pp_SessionType p,
                     pe_SenderId = pp_SenderId p, pe_SenderConnId = pp_SenderConnId p,
                     pe_RecvId = pp_RecvId p, pe_GroupId = pp_GroupId p, pe_Message = m\<rparr>)
      in case pp_Msg p of
           Some m \<Rightarrow> State_Monad.return (Inr (out m))
         | None \<Rightarrow> do {
             r \<leftarrow> GetMessages st [(pp_ConversationId p, pp_Seq p)];
             State_Monad.return (case r of
               Inl e \<Rightarrow> Inl (store_failed e)
             | Inr [] \<Rightarrow> fail (Wrap ErrMessageNotFound (Some (Foreign ''push ref not found'')))
             | Inr (m # _) \<Rightarrow> Inr (out (MessageFromStore m)))
           })"

end
