(* ===== verification/MessageTx.thy ===== *)
theory MessageTx
  imports MessageService
begin

text \<open>
  What the transaction of \<^verbatim>\<open>Send\<close> does to the tables, on any store that keeps the contract. The
  effect of a committed send is the function \<^verbatim>\<open>send_effect\<close>; \<^verbatim>\<open>Send_tx_post\<close> lists the outcomes of
  the callback with the reason for each.
\<close>

section \<open>The effect of a committed send\<close>

definition locked :: "string \<Rightarrow> int32 \<Rightarrow> string \<Rightarrow> time \<Rightarrow> Tables \<Rightarrow> Conversation" where
  "locked i typ gid now t =
     (case convs t i of Some c \<Rightarrow> c | None \<Rightarrow> new_conversation i typ gid now)"

definition touched :: "SendInput \<Rightarrow> string \<Rightarrow> int64 \<Rightarrow> time \<Rightarrow> (string \<times> string \<rightharpoonup> UserConversation) \<Rightarrow>
    (string \<times> string \<rightharpoonup> UserConversation)" where
  "touched inp i seq now m =
     (let rd = (if in_SenderRead inp then seq else 0) in
      if in_SessionType inp = ConversationSingle then
        touch_uc (empty_uc (in_RecvId inp) i (in_SessionType inp) (in_SenderId inp) [] now) 0
          (touch_uc (empty_uc (in_SenderId inp) i (in_SessionType inp) (in_RecvId inp) [] now) rd m)
      else
        let m = touch_members i now m in
        if rd = 0 then m else advance_read (in_SenderId inp) i rd m)"

text \<open>The message as it is inserted: the next seq, and a time that never goes back.\<close>

definition sent_message :: "SendInput \<Rightarrow> string \<Rightarrow> Message \<Rightarrow> time \<Rightarrow> Tables \<Rightarrow> Message" where
  "sent_message inp i msg now t =
     (let c = locked i (in_SessionType inp) (in_GroupId inp) now t;
          now' = (if conv_UpdatedAt c > now then conv_UpdatedAt c else now)
      in msg\<lparr>msg_SendTime := now', msg_CreatedAt := now', msg_Seq := i64 (conv_MaxSeq c + 1)\<rparr>)"

definition send_effect :: "SendInput \<Rightarrow> string \<Rightarrow> Message \<Rightarrow> time \<Rightarrow> Tables \<Rightarrow> Tables" where
  "send_effect inp i msg now t =
     (let m = sent_message inp i msg now t;
          c = locked i (in_SessionType inp) (in_GroupId inp) now t
      in t\<lparr>convs := (convs t)(i \<mapsto> c\<lparr>conv_MaxSeq := msg_Seq m, conv_UpdatedAt := msg_SendTime m\<rparr>),
           uconvs := touched inp i (msg_Seq m) (msg_SendTime m) (uconvs t),
           msgs := (msgs t)(msgKey m \<mapsto> m)\<rparr>)"

section \<open>Who may send\<close>

definition may_send :: "SendInput \<Rightarrow> Tables \<Rightarrow> bool" where
  "may_send inp t \<longleftrightarrow>
     (in_SessionType inp = ConversationGroup \<longrightarrow>
        (\<exists>g. groups t (in_GroupId inp) = Some g \<and> group_Status g \<noteq> GroupStatusDismissed) \<and>
        members t (in_GroupId inp, in_SenderId inp) \<noteq> None)"

text \<open>The errors a refused sender gets from the callback, and why.\<close>

definition send_refused :: "SendInput \<Rightarrow> Tables \<Rightarrow> go_error \<Rightarrow> bool" where
  "send_refused inp t e \<longleftrightarrow> in_SessionType inp = ConversationGroup \<and>
     (case groups t (in_GroupId inp) of
        None \<Rightarrow> e = Sentinel store_ErrNotFound
      | Some g \<Rightarrow>
          if group_Status g = GroupStatusDismissed then e = Of_errcode ErrGroupDismissed
          else members t (in_GroupId inp, in_SenderId inp) = None \<and> e = Of_errcode ErrNotGroupMember)"

definition Send_tx_post :: "bool \<Rightarrow> SendInput \<Rightarrow> string \<Rightarrow> Message \<Rightarrow> time \<Rightarrow> Tables \<Rightarrow>
    unit result \<times> (Message \<times> bool) \<Rightarrow> Tables \<Rightarrow> bool" where
  "Send_tx_post b inp i msg now t rc t' \<longleftrightarrow>
     (case rc of
        (Inr _, m, dup) \<Rightarrow> \<not> dup \<and> may_send inp t \<and> m = sent_message inp i msg now t \<and>
            \<not> message_conflict m t \<and> t' = send_effect inp i msg now t
      | (Inl e, m, True) \<Rightarrow> may_send inp t \<and> m = sent_message inp i msg now t \<and> message_conflict m t \<and>
            e = Sentinel message_errRollback
      | (Inl e, m, False) \<Rightarrow> send_refused inp t e \<or> (\<not> b \<and> driver_error e))"

section \<open>Proof rules of the pieces\<close>

context store_snapshot
begin

lemma wp_checkGroupSend:
  assumes "keyed t" "groups t gid = Some g"
    and "group_Status g = GroupStatusDismissed \<Longrightarrow> Q (fail ErrGroupDismissed) t"
    and "group_Status g \<noteq> GroupStatusDismissed \<Longrightarrow> members t (gid, u) = None \<Longrightarrow> Q (fail ErrNotGroupMember) t"
    and "group_Status g \<noteq> GroupStatusDismissed \<Longrightarrow> members t (gid, u) \<noteq> None \<Longrightarrow> Q (Inr ()) t"
    and "\<And>e. \<not> b \<Longrightarrow> driver_error e \<Longrightarrow> Q (Inl e) t"
  shows "wp I T H b (checkGroupSend st g u) Q t"
proof -
  have gid: "group_Id g = gid"
    using assms(1,2) by (simp add: keyed_def)
  show ?thesis
    unfolding checkGroupSend_def gid
    using assms(3-6)
    by (auto simp: driver_error_def intro!: wp_bind wp_GetGroupMember wp_return)
qed

lemma wp_checkMembership:
  assumes "keyed t"
    and "groups t gid = None \<Longrightarrow> Q (Inl (Sentinel store_ErrNotFound)) t"
    and "\<And>g. groups t gid = Some g \<Longrightarrow> group_Status g = GroupStatusDismissed \<Longrightarrow> Q (fail ErrGroupDismissed) t"
    and "\<And>g. groups t gid = Some g \<Longrightarrow> group_Status g \<noteq> GroupStatusDismissed \<Longrightarrow>
           members t (gid, u) = None \<Longrightarrow> Q (fail ErrNotGroupMember) t"
    and "\<And>g. groups t gid = Some g \<Longrightarrow> group_Status g \<noteq> GroupStatusDismissed \<Longrightarrow>
           members t (gid, u) \<noteq> None \<Longrightarrow> Q (Inr ()) t"
    and "\<And>e. \<not> b \<Longrightarrow> driver_error e \<Longrightarrow> Q (Inl e) t"
  shows "wp I T H b (checkMembership st gid u) Q t"
  unfolding checkMembership_def
  using assms(2-6)
  by (intro wp_bind wp_GetGroup) (auto intro!: wp_return wp_checkGroupSend [OF assms(1)])

lemma wp_touchConversations:
  assumes "Q (Inr ()) (t\<lparr>uconvs := touched inp i seq now (uconvs t)\<rparr>)"
    and "\<And>e t'. \<not> b \<Longrightarrow> driver_error e \<Longrightarrow> Q (Inl e) t'"
  shows "wp I T H b (touchConversations st inp i seq now) Q t"
proof (cases "in_SessionType inp = ConversationSingle")
  case True
  then show ?thesis
    using assms
    by (auto simp: touchConversations_def touched_def Let_def
        intro!: wp_bind wp_TouchUserConversation wp_return)
next
  case False
  then show ?thesis
    using assms
    by (auto simp: touchConversations_def touched_def Let_def
        intro!: wp_bind wp_TouchConversationMembers wp_AdvanceReadSeq wp_return)
qed

text \<open>The conversation row is there once it is locked, and nothing else has changed.\<close>

lemma wp_Send_tx:
  assumes "keyed t"
  shows "wp I T H b (Send_tx inp i msg now st) (Send_tx_post b inp i msg now t) t"
proof -
  define c where "c = locked i (in_SessionType inp) (in_GroupId inp) now t"
  define t1 where "t1 = t\<lparr>convs := (convs t)(i \<mapsto> c)\<rparr>"
  define m where "m = sent_message inp i msg now t"
  have lock: "wp I T H b (LockConversation st i (in_SessionType inp) (in_GroupId inp) now) Q t"
    if "Q (Inr c) t1" "\<And>e t'. \<not> b \<Longrightarrow> driver_error e \<Longrightarrow> Q (Inl e) t'" for Q
    using that
    by (intro wp_LockConversation) (auto simp: c_def t1_def locked_def fun_upd_idem)
  have t1: "keyed t1" "groups t1 = groups t" "members t1 = members t" "convs t1 i = Some c" "msgs t1 = msgs t"
      "uconvs t1 = uconvs t"
    using assms by (auto simp: keyed_def t1_def c_def locked_def new_conversation_def split: option.splits)
  have conflict: "message_conflict m t1 = message_conflict m t"
    by (simp add: message_conflict_def t1)
  have check: "wp I T H b (if in_SessionType inp = ConversationGroup
        then checkMembership st (in_GroupId inp) (in_SenderId inp) else State_Monad.return (Inr ())) Q t1"
    if "may_send inp t \<Longrightarrow> Q (Inr ()) t1" "\<And>e. send_refused inp t e \<Longrightarrow> Q (Inl e) t1"
      "\<And>e. \<not> b \<Longrightarrow> driver_error e \<Longrightarrow> Q (Inl e) t1" for Q
    using that
    by (auto simp: may_send_def send_refused_def t1(2,3) intro!: wp_return wp_checkMembership [OF t1(1)])
  have now': "(if conv_UpdatedAt c > now then conv_UpdatedAt c else now) = msg_SendTime m"
    and m_eq: "msg\<lparr>msg_SendTime := msg_SendTime m, msg_CreatedAt := msg_SendTime m,
        msg_Seq := i64 (conv_MaxSeq c + 1)\<rparr> = m"
    by (simp_all add: m_def sent_message_def c_def Let_def)
  have final: "t1\<lparr>msgs := (msgs t1)(msgKey m \<mapsto> m),
        convs := alter i (\<lambda>c. c\<lparr>conv_MaxSeq := msg_Seq m, conv_UpdatedAt := msg_SendTime m\<rparr>) (convs t1),
        uconvs := touched inp i (msg_Seq m) (msg_SendTime m) (uconvs t1)\<rparr> = send_effect inp i msg now t"
    by (simp add: send_effect_def Let_def m_def [symmetric] c_def [symmetric] t1(4,5,6) alter_def)
      (simp add: t1_def)
  let ?post = "Send_tx_post b inp i msg now t"
  have failed: "Send_tx_post b' inp i msg now t (Inl e, m', False) t'" if "\<not> b'" "driver_error e" for b' e m' t'
    using that by (simp add: Send_tx_post_def)
  have refused: "?post (Inl e, msg, False) t1" if "send_refused inp t e" for e
    using that by (simp add: Send_tx_post_def)
  have dup: "?post (Inl (Sentinel message_errRollback), m, True) t1"
    if "may_send inp t" "message_conflict m t1"
    using that conflict by (simp add: Send_tx_post_def m_def)
  have sent: "?post (Inr (), m, False) (send_effect inp i msg now t)"
    if "may_send inp t" "\<not> message_conflict m t1"
    using that conflict by (simp add: Send_tx_post_def m_def)
  show ?thesis
    unfolding Send_tx_def
  proof (intro wp_bind lock, simp_all only: sum.case)
    show "wp I T H b ((if in_SessionType inp = ConversationGroup
          then checkMembership st (in_GroupId inp) (in_SenderId inp) else State_Monad.return (Inr ())) \<bind>
        (\<lambda>x. case x of Inl e \<Rightarrow> State_Monad.return (Inl e, msg, False)
          | Inr _ \<Rightarrow> let now = if conv_UpdatedAt c > now then conv_UpdatedAt c else now;
                msg = msg\<lparr>msg_SendTime := now, msg_CreatedAt := now, msg_Seq := i64 (conv_MaxSeq c + 1)\<rparr>
              in InsertMessage st msg \<bind> (\<lambda>ins. case ins of
                   Inl e \<Rightarrow> State_Monad.return (Inl e, msg, False)
                 | Inr True \<Rightarrow> SetConversationMaxSeq st i (msg_Seq msg) now \<bind> (\<lambda>r. case r of
                       Inl e \<Rightarrow> State_Monad.return (Inl e, msg, False)
                     | Inr _ \<Rightarrow> touchConversations st inp i (msg_Seq msg) now \<bind>
                         (\<lambda>r. State_Monad.return (r, msg, False)))
                 | Inr False \<Rightarrow> State_Monad.return (Inl (Sentinel message_errRollback), msg, True)))) ?post t1"
      unfolding Let_def now' m_eq
      by (intro wp_bind check)
        (auto simp: final [symmetric] intro!: wp_return wp_bind wp_InsertMessage wp_SetConversationMaxSeq
          wp_touchConversations failed refused dup sent [unfolded final [symmetric]])
  qed (auto intro!: wp_return failed)
qed

end

end
