(* ===== verification/GroupService.thy ===== *)
theory GroupService
  imports Conv
begin

text \<open>
  \<^verbatim>\<open>internal/service/group\<close>: creating, joining, leaving and reading groups. The Notifier is an
  interface: the group ids handed to it after a commit are recorded in order. The clock, and
  the ten random bytes of a new group id, are arguments.
\<close>

section \<open>Types and limits\<close>

record Info =
  info_Id :: string
  info_Name :: string
  info_Avatar :: string
  info_Introduction :: string
  info_OwnerId :: string
  info_Status :: int32
  info_Extra :: string
  info_MemberCount :: int64
  info_CreatedAt :: int64
  info_UpdatedAt :: int64

record Member =
  mb_UserId :: string
  mb_Role :: int32
  mb_Nickname :: string
  mb_InviterUserId :: string
  mb_JoinedAt :: int64

record CreateInput =
  ci_Name :: string
  ci_Avatar :: string
  ci_Introduction :: string
  ci_Extra :: string
  ci_MemberIds :: "string list"

record 'db GroupSvc =
  g_store :: "('db, unit) StoreTx"
  g_maxMembers :: int

record GroupState =
  g_notified :: "string list"

definition maxName :: int where "maxName = 255"
definition maxAvatar :: int where "maxAvatar = 1024"
definition maxIntroduction :: int where "maxIntroduction = 1024"

definition notifyChanged :: "string \<Rightarrow> (GroupState, unit) state" where
  "notifyChanged groupId = State (\<lambda>w. ((), w\<lparr>g_notified := g_notified w @ [groupId]\<rparr>))"

definition toInfo :: "Group \<Rightarrow> int64 \<Rightarrow> Info" where
  "toInfo g n =
     \<lparr>info_Id = group_Id g, info_Name = group_Name g, info_Avatar = group_Avatar g,
      info_Introduction = group_Introduction g, info_OwnerId = group_OwnerId g,
      info_Status = group_Status g, info_Extra = group_Extra g, info_MemberCount = n,
      info_CreatedAt = UnixMilli (group_CreatedAt g), info_UpdatedAt = UnixMilli (group_UpdatedAt g)\<rparr>"

text \<open>\<^verbatim>\<open>base32Lower.EncodeToString\<close> on whole blocks of five bytes, which ten bytes are.\<close>

definition base32_char :: "int \<Rightarrow> char" where
  "base32_char v = ''abcdefghijklmnopqrstuvwxyz234567'' ! nat v"

definition base32_block :: "int list \<Rightarrow> string" where
  "base32_block bs =
     (let v = foldl (\<lambda>v b. v * 256 + b) 0 bs in
      map (\<lambda>k. base32_char (v div 32 ^ k mod 32)) [7, 6, 5, 4, 3, 2, 1, 0])"

definition shortId :: "int list \<Rightarrow> string" where
  "shortId bs = base32_block (take 5 bs) @ base32_block (drop 5 bs)"

section \<open>Reads\<close>

definition find_group :: "('db, 'z) StoreOps_scheme \<Rightarrow> string \<Rightarrow> ('db, Group result) state" where
  "find_group st groupId = do {
     r \<leftarrow> GetGroup st groupId;
     State_Monad.return (case r of
       Inl e \<Rightarrow> if is_not_found e then fail ErrGroupNotFound else Inl (store_failed e)
     | Inr g \<Rightarrow> Inr g)
   }"

definition activeGroup :: "('db, 'z) StoreOps_scheme \<Rightarrow> string \<Rightarrow> ('db, Group result) state" where
  "activeGroup st groupId = do {
     r \<leftarrow> find_group st groupId;
     State_Monad.return (case r of
       Inl e \<Rightarrow> Inl e
     | Inr g \<Rightarrow> if group_Status g = GroupStatusDismissed then fail ErrGroupDismissed else Inr g)
   }"

definition find_member :: "('db, 'z) StoreOps_scheme \<Rightarrow> string \<Rightarrow> string \<Rightarrow> ('db, GroupMember result) state" where
  "find_member st groupId userId = do {
     r \<leftarrow> GetGroupMember st groupId userId;
     State_Monad.return (case r of
       Inl e \<Rightarrow> if is_not_found e then fail ErrNotGroupMember else Inl (store_failed e)
     | Inr m \<Rightarrow> Inr m)
   }"

text \<open>Both reads are for members only.\<close>

definition Get_group :: "('db, 'z) StoreOps_scheme \<Rightarrow> string \<Rightarrow> string \<Rightarrow> ('db, Info result) state" where
  "Get_group st groupId userId = do {
     r \<leftarrow> find_group st groupId;
     (case r of
        Inl e \<Rightarrow> State_Monad.return (Inl e)
      | Inr g \<Rightarrow> do {
          m \<leftarrow> find_member st (group_Id g) userId;
          (case m of
             Inl e \<Rightarrow> State_Monad.return (Inl e)
           | Inr _ \<Rightarrow> do {
               n \<leftarrow> CountGroupMembers st (group_Id g);
               State_Monad.return (case n of
                 Inl e \<Rightarrow> Inl (store_failed e)
               | Inr n \<Rightarrow> Inr (toInfo g n))
             })
        })
   }"

definition toMember :: "GroupMember \<Rightarrow> Member" where
  "toMember m =
     \<lparr>mb_UserId = gm_UserId m, mb_Role = gm_Role m, mb_Nickname = gm_Nickname m,
      mb_InviterUserId = gm_InviterUserId m, mb_JoinedAt = UnixMilli (gm_JoinedAt m)\<rparr>"

definition Members :: "('db, 'z) StoreOps_scheme \<Rightarrow> string \<Rightarrow> string \<Rightarrow> ('db, Member list result) state" where
  "Members st groupId userId = do {
     r \<leftarrow> find_group st groupId;
     (case r of
        Inl e \<Rightarrow> State_Monad.return (Inl e)
      | Inr g \<Rightarrow> do {
          m \<leftarrow> find_member st (group_Id g) userId;
          (case m of
             Inl e \<Rightarrow> State_Monad.return (Inl e)
           | Inr _ \<Rightarrow> do {
               ms \<leftarrow> ListGroupMembers st (group_Id g);
               State_Monad.return (case ms of
                 Inl e \<Rightarrow> Inl (store_failed e)
               | Inr ms \<Rightarrow> Inr (map toMember ms))
             })
        })
   }"

section \<open>Create\<close>

text \<open>\<^verbatim>\<open>lo.Uniq\<close> keeps the first of equal elements.\<close>

definition Uniq :: "'a list \<Rightarrow> 'a list" where
  "Uniq xs = rev (remdups (rev xs))"

definition create_error :: "CreateInput \<Rightarrow> Error option" where
  "create_error inp =
     (if ci_Name inp = [] then Some (WithMessage ErrInvalidParam ''name is required'')
      else if int (length (ci_Name inp)) > maxName then
        Some (WithMessage ErrInvalidParam ''name: at most 255 bytes'')
      else if int (length (ci_Avatar inp)) > maxAvatar then
        Some (WithMessage ErrInvalidParam ''avatar: at most 1024 bytes'')
      else if int (length (ci_Introduction inp)) > maxIntroduction then
        Some (WithMessage ErrInvalidParam ''introduction: at most 1024 bytes'')
      else if int (length (ci_Extra inp)) > MaxExtraBytes then
        Some (WithMessage ErrInvalidParam ''extra: at most 65535 bytes'')
      else None)"

definition new_group :: "string \<Rightarrow> string \<Rightarrow> CreateInput \<Rightarrow> time \<Rightarrow> Group" where
  "new_group gid ownerId inp now =
     \<lparr>group_Id = gid, group_Name = ci_Name inp, group_Avatar = ci_Avatar inp,
      group_Introduction = ci_Introduction inp, group_OwnerId = ownerId, group_Status = 0,
      group_Extra = ci_Extra inp, group_CreatedAt = now, group_UpdatedAt = now\<rparr>"

definition first_member :: "string \<Rightarrow> string \<Rightarrow> time \<Rightarrow> string \<Rightarrow> GroupMember" where
  "first_member gid ownerId now i =
     \<lparr>gm_GroupId = gid, gm_UserId = i, gm_Role = (if i = ownerId then RoleOwner else RoleMember),
      gm_Nickname = [], gm_InviterUserId = (if i = ownerId then [] else ownerId), gm_JoinedAt = now\<rparr>"

definition first_uc :: "string \<Rightarrow> time \<Rightarrow> string \<Rightarrow> UserConversation" where
  "first_uc gid now i =
     \<lparr>uc_OwnerId = i, uc_ConversationId = GroupConv gid, uc_Type = ConversationGroup,
      uc_PeerUserId = [], uc_GroupId = gid, uc_MinSeq = 1, uc_MaxSeq = 0, uc_ReadSeq = 0,
      uc_RecvMsgOpt = 0, uc_IsPinned = False, uc_Extra = [], uc_UpdatedAt = now, uc_CreatedAt = time_zero\<rparr>"

definition Create_tx :: "Group \<Rightarrow> string list \<Rightarrow> time \<Rightarrow> ('db, 'z) StoreOps_scheme \<Rightarrow>
    ('db, unit result \<times> unit) state" where
  "Create_tx g ids now tx = do {
     r \<leftarrow> CreateGroup tx g (map (first_member (group_Id g) (group_OwnerId g) now) ids);
     (case r of
        Inl e \<Rightarrow> State_Monad.return (Inl e, ())
      | Inr _ \<Rightarrow> do {
          c \<leftarrow> LockConversation tx (GroupConv (group_Id g)) ConversationGroup (group_Id g) now;
          (case c of
             Inl e \<Rightarrow> State_Monad.return (Inl e, ())
           | Inr _ \<Rightarrow> do {
               r \<leftarrow> CreateUserConversations tx (map (first_uc (group_Id g) now) ids);
               State_Monad.return (r, ())
             })
        })
   }"

definition Create :: "'db GroupSvc \<Rightarrow> string \<Rightarrow> CreateInput \<Rightarrow> time \<Rightarrow> int list \<Rightarrow>
    ('db \<times> GroupState, Info result) state" where
  "Create s ownerId inp now rnd =
     (case create_error inp of
        Some e \<Rightarrow> State_Monad.return (fail e)
      | None \<Rightarrow>
          let ids = Uniq (ownerId # ci_MemberIds inp) in
          if \<not> list_all Valid ids then
            State_Monad.return (fail (WithMessage ErrInvalidParam ''invalid member id''))
          else if int (length ids) > g_maxMembers s then State_Monad.return (fail ErrGroupFull)
          else do {
            existing \<leftarrow> on_db (GetUsers (g_store s) ids);
            (case existing of
               Inl e \<Rightarrow> State_Monad.return (Inl (store_failed e))
             | Inr existing \<Rightarrow>
                 if length existing \<noteq> length ids then State_Monad.return (fail ErrUserNotFound)
                 else
                   let g = new_group (shortId rnd) ownerId inp now in
                   do {
                     tx \<leftarrow> on_db (WithTx (g_store s) (Create_tx g ids now) ());
                     (case fst tx of
                        Inl e \<Rightarrow> State_Monad.return (Inl (store_failed e))
                      | Inr _ \<Rightarrow> do {
                          _ \<leftarrow> on_svc (notifyChanged (group_Id g));
                          State_Monad.return (Inr (toInfo g (int (length ids))))
                        })
                   })
          })"

section \<open>Join\<close>

definition joined_member :: "string \<Rightarrow> string \<Rightarrow> time \<Rightarrow> GroupMember" where
  "joined_member gid userId now =
     \<lparr>gm_GroupId = gid, gm_UserId = userId, gm_Role = RoleMember, gm_Nickname = [],
      gm_InviterUserId = [], gm_JoinedAt = now\<rparr>"

definition joined_uc :: "string \<Rightarrow> string \<Rightarrow> int64 \<Rightarrow> time \<Rightarrow> UserConversation" where
  "joined_uc gid userId maxSeq now =
     \<lparr>uc_OwnerId = userId, uc_ConversationId = GroupConv gid, uc_Type = ConversationGroup,
      uc_PeerUserId = [], uc_GroupId = gid, uc_MinSeq = i64 (maxSeq + 1), uc_MaxSeq = 0,
      uc_ReadSeq = maxSeq, uc_RecvMsgOpt = 0, uc_IsPinned = False, uc_Extra = [],
      uc_UpdatedAt = now, uc_CreatedAt = time_zero\<rparr>"

definition Join_tx :: "string \<Rightarrow> string \<Rightarrow> int \<Rightarrow> time \<Rightarrow> ('db, 'z) StoreOps_scheme \<Rightarrow>
    ('db, unit result \<times> unit) state" where
  "Join_tx gid userId maxMembers now tx = do {
     c \<leftarrow> LockConversation tx (GroupConv gid) ConversationGroup gid now;
     (case c of
        Inl e \<Rightarrow> State_Monad.return (Inl e, ())
      | Inr c \<Rightarrow> do {
          m \<leftarrow> GetGroupMember tx gid userId;
          (case m of
             Inr _ \<Rightarrow> State_Monad.return (fail ErrAlreadyGroupMember, ())
           | Inl e \<Rightarrow>
               if \<not> is_not_found e then State_Monad.return (Inl e, ())
               else do {
                 n \<leftarrow> CountGroupMembers tx gid;
                 (case n of
                    Inl e \<Rightarrow> State_Monad.return (Inl e, ())
                  | Inr n \<Rightarrow>
                      if n \<ge> maxMembers then State_Monad.return (fail ErrGroupFull, ())
                      else do {
                        a \<leftarrow> AddGroupMember tx (joined_member gid userId now);
                        (case a of
                           Inl e \<Rightarrow> State_Monad.return (Inl e, ())
                         | Inr _ \<Rightarrow> do {
                             r \<leftarrow> UpsertUserConversation tx (joined_uc gid userId (conv_MaxSeq c) now);
                             State_Monad.return (r, ())
                           })
                      })
               })
        })
   }"

definition Join :: "'db GroupSvc \<Rightarrow> string \<Rightarrow> string \<Rightarrow> time \<Rightarrow> ('db \<times> GroupState, unit result) state" where
  "Join s groupId userId now = do {
     g \<leftarrow> on_db (activeGroup (g_store s) groupId);
     (case g of
        Inl e \<Rightarrow> State_Monad.return (Inl e)
      | Inr g \<Rightarrow> do {
          u \<leftarrow> on_db (GetUser (g_store s) userId);
          (case u of
             Inl e \<Rightarrow> State_Monad.return (if is_not_found e then fail ErrUserNotFound else Inl (store_failed e))
           | Inr _ \<Rightarrow> do {
               tx \<leftarrow> on_db (WithTx (g_store s) (Join_tx (group_Id g) userId (g_maxMembers s) now) ());
               (case fst tx of
                  Inl e \<Rightarrow> State_Monad.return (Inl (Or e ErrStoreFailed))
                | Inr _ \<Rightarrow> do {
                    _ \<leftarrow> on_svc (notifyChanged (group_Id g));
                    State_Monad.return (Inr ())
                  })
             })
        })
   }"

section \<open>Quit and Kick\<close>

text \<open>The authorization of a kick: the operator's role, then the target's row. The result is the
  target's id as its row spells it.\<close>

definition kick_target :: "Group \<Rightarrow> string \<Rightarrow> string \<Rightarrow> ('db, 'z) StoreOps_scheme \<Rightarrow>
    ('db, string result) state" where
  "kick_target g operatorId userId tx = do {
     op \<leftarrow> find_member tx (group_Id g) operatorId;
     (case op of
        Inl e \<Rightarrow> State_Monad.return (Inl e)
      | Inr op \<Rightarrow>
          if gm_Role op < RoleAdmin then State_Monad.return (fail ErrNotGroupAdmin)
          else do {
            target \<leftarrow> find_member tx (group_Id g) userId;
            State_Monad.return (case target of
              Inl e \<Rightarrow> Inl e
            | Inr target \<Rightarrow>
                if gm_UserId target = group_OwnerId g then fail ErrCannotKickOwner
                else if gm_Role op = RoleAdmin \<and> gm_Role target \<ge> RoleAdmin then fail ErrNoPermission
                else Inr (gm_UserId target))
          })
   }"

definition remove_tx :: "Group \<Rightarrow> string \<Rightarrow> string \<Rightarrow> time \<Rightarrow> ('db, 'z) StoreOps_scheme \<Rightarrow>
    ('db, unit result \<times> unit) state" where
  "remove_tx g operatorId userId now tx = do {
     c \<leftarrow> LockConversation tx (GroupConv (group_Id g)) ConversationGroup (group_Id g) now;
     (case c of
        Inl e \<Rightarrow> State_Monad.return (Inl e, ())
      | Inr c \<Rightarrow> do {
          target \<leftarrow> (if operatorId \<noteq> userId then kick_target g operatorId userId tx
                     else State_Monad.return (Inr userId));
          (case target of
             Inl e \<Rightarrow> State_Monad.return (Inl e, ())
           | Inr userId \<Rightarrow> do {
               removed \<leftarrow> RemoveGroupMember tx (group_Id g) userId;
               (case removed of
                  Inl e \<Rightarrow> State_Monad.return (Inl e, ())
                | Inr removed \<Rightarrow>
                    if \<not> removed then State_Monad.return (fail ErrNotGroupMember, ())
                    else do {
                      r \<leftarrow> (if conv_MaxSeq c = 0
                            then DeleteUserConversation tx userId (GroupConv (group_Id g))
                            else SetUserConversationMaxSeq tx userId (GroupConv (group_Id g)) (conv_MaxSeq c));
                      State_Monad.return (r, ())
                    })
             })
        })
   }"

definition remove_member :: "'db GroupSvc \<Rightarrow> Group \<Rightarrow> string \<Rightarrow> string \<Rightarrow> time \<Rightarrow>
    ('db \<times> GroupState, unit result) state" where
  "remove_member s g operatorId userId now = do {
     tx \<leftarrow> on_db (WithTx (g_store s) (remove_tx g operatorId userId now) ());
     (case fst tx of
        Inl e \<Rightarrow> State_Monad.return (Inl (Or e ErrStoreFailed))
      | Inr _ \<Rightarrow> do {
          _ \<leftarrow> on_svc (notifyChanged (group_Id g));
          State_Monad.return (Inr ())
        })
   }"

definition Quit :: "'db GroupSvc \<Rightarrow> string \<Rightarrow> string \<Rightarrow> time \<Rightarrow> ('db \<times> GroupState, unit result) state" where
  "Quit s groupId userId now = do {
     g \<leftarrow> on_db (activeGroup (g_store s) groupId);
     (case g of
        Inl e \<Rightarrow> State_Monad.return (Inl e)
      | Inr g \<Rightarrow>
          if group_OwnerId g = userId then
            State_Monad.return (fail (WithMessage ErrInvalidParam ''owner cannot quit the group''))
          else remove_member s g userId userId now)
   }"

definition Kick_member :: "'db GroupSvc \<Rightarrow> string \<Rightarrow> string \<Rightarrow> string \<Rightarrow> time \<Rightarrow>
    ('db \<times> GroupState, unit result) state" where
  "Kick_member s groupId operatorId targetId now = do {
     g \<leftarrow> on_db (activeGroup (g_store s) groupId);
     (case g of
        Inl e \<Rightarrow> State_Monad.return (Inl e)
      | Inr g \<Rightarrow>
          if \<not> Valid targetId then
            State_Monad.return (fail (WithMessage ErrInvalidParam (''invalid user id: '' @ targetId)))
          else if targetId = group_OwnerId g then State_Monad.return (fail ErrCannotKickOwner)
          else if operatorId = targetId then
            State_Monad.return (fail (WithMessage ErrInvalidParam ''use quit to leave the group''))
          else remove_member s g operatorId targetId now)
   }"

end
