(* ===== verification/ConversationService.thy ===== *)
theory ConversationService
  imports Conv Dto
begin

text \<open>
  \<^verbatim>\<open>internal/service/conversation\<close>: read cursors, one conversation, the conversation list and the
  per-conversation options. The Notifier is an interface: what is handed to it is recorded in
  order.
\<close>

record ReadEvent =
  re_UserId :: string
  re_ReaderConnId :: string
  re_ConversationId :: string
  re_ReadSeq :: int64

record ConvState =
  c_notified :: "ReadEvent list"

section \<open>MarkRead\<close>

definition MarkRead :: "('db, 'z) StoreOps_scheme \<Rightarrow> string \<Rightarrow> string \<Rightarrow> string \<Rightarrow> int64 \<Rightarrow>
    ('db \<times> ConvState, int64 result) state" where
  "MarkRead st userId readerConnId conversationId readSeq =
     (if readSeq < 1 then
        State_Monad.return (fail (WithMessage ErrInvalidParam ''read_seq must be >= 1''))
      else do {
        row \<leftarrow> on_db (GetUserConversationRow st userId conversationId);
        (case row of
           Inl e \<Rightarrow> State_Monad.return (if is_not_found e then fail ErrNoPermission else Inl (store_failed e))
         | Inr row \<Rightarrow>
             let conversationId = uc_ConversationId row;
                 target = min readSeq (VisibleMax row (row_ConvMaxSeq row))
             in if target \<le> uc_ReadSeq row then State_Monad.return (Inr (uc_ReadSeq row))
                else do {
                  r \<leftarrow> on_db (AdvanceReadSeq st userId conversationId target);
                  (case r of
                     Inl e \<Rightarrow> State_Monad.return (Inl (store_failed e))
                   | Inr _ \<Rightarrow> do {
                       _ \<leftarrow> on_svc (State (\<lambda>w. ((), w\<lparr>c_notified := c_notified w @
                              [\<lparr>re_UserId = userId, re_ReaderConnId = readerConnId,
                                re_ConversationId = conversationId, re_ReadSeq = target\<rparr>]\<rparr>)));
                       State_Monad.return (Inr target)
                     })
                })
      })"

section \<open>Items\<close>

record Item =
  it_ConversationId :: string
  it_Type :: int32
  it_PeerUserId :: string
  it_GroupId :: string
  it_MinSeq :: int64
  it_MaxSeq :: int64
  it_ReadSeq :: int64
  it_Unread :: int64
  it_RecvMsgOpt :: int32
  it_IsPinned :: bool
  it_Extra :: string
  it_UpdatedAt :: int64
  it_LastMessage :: "DtoMessage option"

record ListResult =
  lr_Conversations :: "Item list"
  lr_NextCursor :: string
  lr_HasMore :: bool

definition itemFromRow :: "UserConversationRow \<Rightarrow> Item" where
  "itemFromRow r =
     (let visibleMax = VisibleMax r (row_ConvMaxSeq r) in
      \<lparr>it_ConversationId = uc_ConversationId r, it_Type = uc_Type r, it_PeerUserId = uc_PeerUserId r,
       it_GroupId = uc_GroupId r, it_MinSeq = uc_MinSeq r, it_MaxSeq = visibleMax,
       it_ReadSeq = uc_ReadSeq r, it_Unread = max (i64 (visibleMax - uc_ReadSeq r)) 0,
       it_RecvMsgOpt = uc_RecvMsgOpt r, it_IsPinned = uc_IsPinned r, it_Extra = uc_Extra r,
       it_UpdatedAt = UnixMilli (uc_UpdatedAt r), it_LastMessage = None\<rparr>)"

definition lastMessageKey :: "Item \<Rightarrow> MessageKey option" where
  "lastMessageKey i = (if it_MaxSeq i < it_MinSeq i then None else Some (it_ConversationId i, it_MaxSeq i))"

section \<open>Get\<close>

record GetKey =
  gk_ConversationId :: string
  gk_PeerUserId :: string
  gk_GroupId :: string

definition resolve :: "GetKey \<Rightarrow> string \<Rightarrow> string result" where
  "resolve k userId =
     (if length (filter id [gk_ConversationId k \<noteq> [], gk_PeerUserId k \<noteq> [], gk_GroupId k \<noteq> []]) \<noteq> 1 then
        fail (WithMessage ErrInvalidParam
          ''exactly one of conversation_id, peer_user_id or group_id is required'')
      else if gk_ConversationId k \<noteq> [] then Inr (gk_ConversationId k)
      else if gk_GroupId k \<noteq> [] then Inr (GroupConv (gk_GroupId k))
      else if gk_PeerUserId k = userId then
        fail (WithMessage ErrInvalidParam ''peer_user_id must not be the caller'')
      else Inr (Single userId (gk_PeerUserId k)))"

definition Get_conversation :: "('db, 'z) StoreOps_scheme \<Rightarrow> string \<Rightarrow> GetKey \<Rightarrow> bool \<Rightarrow>
    ('db, Item result) state" where
  "Get_conversation st userId key withLastMessage =
     (case resolve key userId of
        Inl e \<Rightarrow> State_Monad.return (Inl e)
      | Inr conversationId \<Rightarrow> do {
          row \<leftarrow> GetUserConversationRow st userId conversationId;
          (case row of
             Inl e \<Rightarrow> State_Monad.return
                 (if is_not_found e then fail ErrConversationNotFound else Inl (store_failed e))
           | Inr row \<Rightarrow>
               let item = itemFromRow row in
               (case (withLastMessage, lastMessageKey item) of
                  (True, Some k) \<Rightarrow> do {
                    ms \<leftarrow> GetMessages st [k];
                    State_Monad.return (case ms of
                      Inl e \<Rightarrow> Inl (store_failed e)
                    | Inr [] \<Rightarrow> Inr item
                    | Inr (m # _) \<Rightarrow> Inr (item\<lparr>it_LastMessage := Some (MessageFromStore m)\<rparr>))
                  }
                | _ \<Rightarrow> State_Monad.return (Inr item)))
        })"

section \<open>List\<close>

text \<open>\<^verbatim>\<open>lo.SliceToMap\<close> keyed by conversation id: a later message replaces an earlier one.\<close>

definition byConv :: "Message list \<Rightarrow> string \<Rightarrow> Message option" where
  "byConv ms = map_of (rev (map (\<lambda>m. (msg_ConversationId m, m)) ms))"

definition with_last :: "Message list \<Rightarrow> Item \<Rightarrow> Item" where
  "with_last ms item =
     (case byConv ms (it_ConversationId item) of
        None \<Rightarrow> item
      | Some m \<Rightarrow> item\<lparr>it_LastMessage := Some (MessageFromStore m)\<rparr>)"

definition List_conversations :: "('db, 'z) StoreOps_scheme \<Rightarrow> string \<Rightarrow> string \<Rightarrow> int \<Rightarrow> int \<Rightarrow> bool \<Rightarrow>
    ('db, ListResult result) state" where
  "List_conversations st userId cursor limit pageMax withLastMessage = do {
     page \<leftarrow> ListPage st userId cursor limit pageMax;
     (case page of
        Inl e \<Rightarrow> State_Monad.return (Inl e)
      | Inr (rows, next, hasMore) \<Rightarrow>
          let items = map itemFromRow rows;
              out = (\<lambda>items. \<lparr>lr_Conversations = items, lr_NextCursor = next, lr_HasMore = hasMore\<rparr>);
              keys = (if withLastMessage then List.map_filter lastMessageKey items else [])
          in if keys = [] then State_Monad.return (Inr (out items))
             else do {
               ms \<leftarrow> GetMessages st keys;
               State_Monad.return (case ms of
                 Inl e \<Rightarrow> Inl (store_failed e)
               | Inr ms \<Rightarrow> Inr (out (map (with_last ms) items)))
             })
   }"

section \<open>SetOpt\<close>

record Opt =
  opt_RecvMsgOpt :: "int32 option"
  opt_IsPinned :: "bool option"

definition SetOpt :: "('db, 'z) StoreOps_scheme \<Rightarrow> string \<Rightarrow> string \<Rightarrow> Opt \<Rightarrow> ('db, unit result) state" where
  "SetOpt st userId conversationId inp =
     (if (case opt_RecvMsgOpt inp of None \<Rightarrow> False | Some v \<Rightarrow> v \<noteq> 0 \<and> v \<noteq> 1) then
        State_Monad.return (fail (WithMessage ErrInvalidParam ''recv_msg_opt must be 0 or 1''))
      else do {
        r \<leftarrow> SetUserConversationOpt st userId conversationId (opt_RecvMsgOpt inp) (opt_IsPinned inp);
        State_Monad.return (case r of
          Inl e \<Rightarrow> if is_not_found e then fail ErrNoPermission else Inl (store_failed e)
        | Inr _ \<Rightarrow> Inr ())
      })"

end
