(* ===== verification/System.thy ===== *)
theory System
  imports MessageTx GroupService ConversationService
begin

text \<open>
  The tables as one transition system. \<^verbatim>\<open>nexo_step\<close> has a rule for each committed change the
  services make, with what the code checks before it as premises; it is at once what a request
  guarantees to the others and what it may rely on from them. \<^verbatim>\<open>nexo_inv\<close> is the invariant of
  the system, one definition per aspect, and every step keeps it.
\<close>

section \<open>Effects of the group operations\<close>

definition create_effect :: "Group \<Rightarrow> string list \<Rightarrow> time \<Rightarrow> Tables \<Rightarrow> Tables" where
  "create_effect g ids now t =
     t\<lparr>groups := (groups t)(group_Id g \<mapsto> g),
       members := members t ++
         map_of (map (\<lambda>m. (memKey m, m)) (map (first_member (group_Id g) (group_OwnerId g) now) ids)),
       convs := (convs t)(GroupConv (group_Id g) \<mapsto>
         locked (GroupConv (group_Id g)) ConversationGroup (group_Id g) now t),
       uconvs := uconvs t ++
         map_of (map (\<lambda>uc. (ucKey uc, stamp_created uc)) (map (first_uc (group_Id g) now) ids))\<rparr>"

definition join_effect :: "string \<Rightarrow> string \<Rightarrow> time \<Rightarrow> Tables \<Rightarrow> Tables" where
  "join_effect gid u now t =
     (let c = locked (GroupConv gid) ConversationGroup gid now t in
      t\<lparr>convs := (convs t)(GroupConv gid \<mapsto> c),
        members := (members t)((gid, u) \<mapsto> joined_member gid u now),
        uconvs := upsert_uc (joined_uc gid u (conv_MaxSeq c) now) (uconvs t)\<rparr>)"

definition remove_effect :: "string \<Rightarrow> string \<Rightarrow> time \<Rightarrow> Tables \<Rightarrow> Tables" where
  "remove_effect gid u now t =
     (let i = GroupConv gid; c = locked i ConversationGroup gid now t in
      t\<lparr>convs := (convs t)(i \<mapsto> c),
        members := (members t)((gid, u) := None),
        uconvs := (if conv_MaxSeq c = 0 then (uconvs t)((u, i) := None)
                   else alter (u, i) (\<lambda>uc. uc\<lparr>uc_MaxSeq := conv_MaxSeq c\<rparr>) (uconvs t))\<rparr>)"

section \<open>Steps\<close>

text \<open>An input whose destination is normalized to the conversation \<^verbatim>\<open>i\<close>.\<close>

definition routable :: "SendInput \<Rightarrow> string \<Rightarrow> Tables \<Rightarrow> bool" where
  "routable inp i t \<longleftrightarrow>
     (in_SessionType inp = ConversationSingle \<and> i = Single (in_SenderId inp) (in_RecvId inp) \<and>
        in_GroupId inp = [] \<and> in_SenderId inp \<noteq> in_RecvId inp \<and> users t (in_RecvId inp) \<noteq> None) \<or>
     (in_SessionType inp = ConversationGroup \<and> i = GroupConv (in_GroupId inp) \<and> in_RecvId inp = [])"

text \<open>A conversation whose seq counter still has a successor in 64 bits.\<close>

definition has_room :: "int64 \<Rightarrow> bool" where
  "has_room s \<longleftrightarrow> s < 2 ^ 63 - 1"

inductive nexo_step :: "int \<Rightarrow> Tables \<Rightarrow> Tables \<Rightarrow> bool" for mm where
  send: "routable inp i t \<Longrightarrow> may_send inp t \<Longrightarrow>
      \<not> message_conflict (sent_message inp i (new_message inp i uuid) now t) t \<Longrightarrow>
      has_room (conv_MaxSeq (locked i (in_SessionType inp) (in_GroupId inp) now t)) \<Longrightarrow>
      nexo_step mm t (send_effect inp i (new_message inp i uuid) now t)"
| create: "groups t (group_Id g) = None \<Longrightarrow> group_OwnerId g \<in> set ids \<Longrightarrow> distinct ids \<Longrightarrow>
      int (length ids) \<le> mm \<Longrightarrow> nexo_step mm t (create_effect g ids now t)"
| join: "groups t gid \<noteq> None \<Longrightarrow> members t (gid, u) = None \<Longrightarrow> int (card (roster t gid)) < mm \<Longrightarrow>
      has_room (conv_MaxSeq (locked (GroupConv gid) ConversationGroup gid now t)) \<Longrightarrow>
      nexo_step mm t (join_effect gid u now t)"
| remove: "groups t gid = Some g \<Longrightarrow> members t (gid, u) \<noteq> None \<Longrightarrow> u \<noteq> group_OwnerId g \<Longrightarrow>
      nexo_step mm t (remove_effect gid u now t)"
| read: "uconvs t (ow, i) = Some uc \<Longrightarrow> convs t i = Some c \<Longrightarrow> rd \<le> VisibleMax uc (conv_MaxSeq c) \<Longrightarrow>
      nexo_step mm t (t\<lparr>uconvs := advance_read ow i rd (uconvs t)\<rparr>)"
| opt: "uconvs t (ow, i) = Some uc \<Longrightarrow>
      nexo_step mm t (t\<lparr>uconvs := (uconvs t)((ow, i) \<mapsto> uc\<lparr>uc_RecvMsgOpt := a, uc_IsPinned := p\<rparr>)\<rparr>)"
| users: "(\<forall>k. users t k \<noteq> None \<longrightarrow> us k \<noteq> None) \<Longrightarrow> (\<forall>k u. us k = Some u \<longrightarrow> user_Id u = k) \<Longrightarrow>
      nexo_step mm t (t\<lparr>users := us\<rparr>)"
| conns: "(\<forall>k c. cs k = Some c \<longrightarrow> oc_ConnId c = k) \<Longrightarrow> nexo_step mm t (t\<lparr>conns := cs\<rparr>)"

section \<open>The invariant\<close>

text \<open>Each conversation's messages have exactly the seqs 1 to its max_seq.\<close>

definition seq_inv :: "Tables \<Rightarrow> bool" where
  "seq_inv t \<longleftrightarrow>
     (\<forall>i c. convs t i = Some c \<longrightarrow> 0 \<le> conv_MaxSeq c \<and> conv_MaxSeq c < 2 ^ 63) \<and>
     (\<forall>i s. msgs t (i, s) \<noteq> None \<longleftrightarrow> (\<exists>c. convs t i = Some c \<and> 1 \<le> s \<and> s \<le> conv_MaxSeq c))"

definition unique_inv :: "Tables \<Rightarrow> bool" where
  "unique_inv t \<longleftrightarrow> inj_on clientKey (ran (msgs t)) \<and> inj_on msg_ServerMsgId (ran (msgs t))"

text \<open>Send times follow the seqs, and none is past the conversation's.\<close>

definition time_inv :: "Tables \<Rightarrow> bool" where
  "time_inv t \<longleftrightarrow>
     (\<forall>i s s' m m'. msgs t (i, s) = Some m \<longrightarrow> msgs t (i, s') = Some m' \<longrightarrow> s \<le> s' \<longrightarrow>
        msg_SendTime m \<le> msg_SendTime m') \<and>
     (\<forall>i s m c. msgs t (i, s) = Some m \<longrightarrow> convs t i = Some c \<longrightarrow> msg_SendTime m \<le> conv_UpdatedAt c)"

text \<open>A message carries the destination its conversation id was made from.\<close>

definition routed :: "Message \<Rightarrow> string \<Rightarrow> bool" where
  "routed m i \<longleftrightarrow>
     (msg_SessionType m = ConversationSingle \<and> i = Single (msg_SenderId m) (msg_RecvId m) \<and>
        msg_GroupId m = [] \<and> msg_SenderId m \<noteq> msg_RecvId m) \<or>
     (msg_SessionType m = ConversationGroup \<and> i = GroupConv (msg_GroupId m) \<and> msg_RecvId m = [])"

definition route_inv :: "Tables \<Rightarrow> bool" where
  "route_inv t \<longleftrightarrow> (\<forall>i s m. msgs t (i, s) = Some m \<longrightarrow> routed m i)"

text \<open>The bounds of one member's view of a conversation with the given max_seq.\<close>

definition range_ok :: "UserConversation \<Rightarrow> int64 \<Rightarrow> bool" where
  "range_ok uc mx \<longleftrightarrow> 1 \<le> uc_MinSeq uc \<and> 0 \<le> uc_MaxSeq uc \<and> uc_MaxSeq uc \<le> mx \<and>
     uc_MinSeq uc - 1 \<le> uc_ReadSeq uc \<and> uc_ReadSeq uc \<le> VisibleMax uc mx"

definition range_inv :: "Tables \<Rightarrow> bool" where
  "range_inv t \<longleftrightarrow>
     (\<forall>ow i uc. uconvs t (ow, i) = Some uc \<longrightarrow>
        (\<exists>c. convs t i = Some c \<and> range_ok uc (conv_MaxSeq c)) \<and>
        (uc_MaxSeq uc \<noteq> 0 \<longrightarrow> (\<exists>g. i = GroupConv g)))"

text \<open>The members of a group are those whose view of its conversation is open-ended.\<close>

definition member_inv :: "Tables \<Rightarrow> bool" where
  "member_inv t \<longleftrightarrow>
     (\<forall>g u. members t (g, u) \<noteq> None \<longleftrightarrow> (\<exists>uc. uconvs t (u, GroupConv g) = Some uc \<and> uc_MaxSeq uc = 0))"

definition group_inv :: "Tables \<Rightarrow> bool" where
  "group_inv t \<longleftrightarrow> (\<forall>g. convs t (GroupConv g) \<noteq> None \<longleftrightarrow> groups t g \<noteq> None)"

text \<open>The owner is a member, the only one with the owner's role.\<close>

definition owner_inv :: "Tables \<Rightarrow> bool" where
  "owner_inv t \<longleftrightarrow>
     (\<forall>g r. groups t g = Some r \<longrightarrow>
        (\<exists>m. members t (g, group_OwnerId r) = Some m \<and> gm_Role m = RoleOwner) \<and>
        (\<forall>u m. members t (g, u) = Some m \<longrightarrow> u \<noteq> group_OwnerId r \<longrightarrow> gm_Role m = RoleMember))"

definition size_inv :: "int \<Rightarrow> Tables \<Rightarrow> bool" where
  "size_inv mm t \<longleftrightarrow>
     (\<forall>g. finite (roster t g) \<and> (groups t g \<noteq> None \<longrightarrow> int (card (roster t g)) \<le> mm))"

definition nexo_inv :: "int \<Rightarrow> Tables \<Rightarrow> bool" where
  "nexo_inv mm t \<longleftrightarrow> keyed t \<and> seq_inv t \<and> unique_inv t \<and> time_inv t \<and> route_inv t \<and> range_inv t \<and>
     member_inv t \<and> group_inv t \<and> owner_inv t \<and> size_inv mm t"

end
