(* ===== verification/SystemInv.thy ===== *)
theory SystemInv
  imports System
begin

text \<open>Every step of the system keeps its invariant.\<close>

section \<open>The locked row\<close>

lemma i64_below: "- (2 ^ 63) \<le> n \<Longrightarrow> n < 2 ^ 63 \<Longrightarrow> i64 n = n"
  by (simp add: i64_def)

lemma locked_Some: "convs t i = Some c \<Longrightarrow> locked i ty g now t = c"
  by (simp add: locked_def)

lemma locked_bounds:
  assumes "seq_inv t"
  shows "0 \<le> conv_MaxSeq (locked i ty g now t)" "conv_MaxSeq (locked i ty g now t) < 2 ^ 63"
  using assms by (auto simp: locked_def seq_inv_def new_conversation_def split: option.splits)

lemma locked_key: "keyed t \<Longrightarrow> conv_ConversationId (locked i ty g now t) = i"
  by (auto simp: locked_def keyed_def new_conversation_def split: option.splits)

lemma locked_msgs:
  assumes "seq_inv t"
  shows "msgs t (i, s) \<noteq> None \<longleftrightarrow> 1 \<le> s \<and> s \<le> conv_MaxSeq (locked i ty g now t)"
  using assms by (cases "convs t i") (auto simp: locked_def seq_inv_def new_conversation_def)

lemma locked_time:
  assumes "seq_inv t" "time_inv t" "msgs t (i, s) = Some m"
  shows "msg_SendTime m \<le> conv_UpdatedAt (locked i ty g now t)"
proof -
  obtain c where "convs t i = Some c"
    using assms(1,3) unfolding seq_inv_def by (metis option.distinct(1))
  then show ?thesis
    using assms(2,3) by (simp add: time_inv_def locked_def)
qed

lemma locked_range:
  assumes "range_inv t" "uconvs t (ow, i) = Some uc"
  shows "range_ok uc (conv_MaxSeq (locked i ty g now t))"
  using assms by (force simp: range_inv_def locked_def)

section \<open>A committed send\<close>

lemma sent_message_simps [simp]:
  "msg_ConversationId (sent_message inp i msg now t) = msg_ConversationId msg"
  "msg_ServerMsgId (sent_message inp i msg now t) = msg_ServerMsgId msg"
  "msg_ClientMsgId (sent_message inp i msg now t) = msg_ClientMsgId msg"
  "msg_SenderId (sent_message inp i msg now t) = msg_SenderId msg"
  "msg_RecvId (sent_message inp i msg now t) = msg_RecvId msg"
  "msg_GroupId (sent_message inp i msg now t) = msg_GroupId msg"
  "msg_SessionType (sent_message inp i msg now t) = msg_SessionType msg"
  "msg_ContentType (sent_message inp i msg now t) = msg_ContentType msg"
  "msg_Content (sent_message inp i msg now t) = msg_Content msg"
  by (simp_all add: sent_message_def Let_def)

lemma new_message_simps [simp]:
  "msg_ConversationId (new_message inp i uuid) = i"
  "msg_ServerMsgId (new_message inp i uuid) = uuid"
  "msg_ClientMsgId (new_message inp i uuid) = in_ClientMsgId inp"
  "msg_SenderId (new_message inp i uuid) = in_SenderId inp"
  "msg_RecvId (new_message inp i uuid) = in_RecvId inp"
  "msg_GroupId (new_message inp i uuid) = in_GroupId inp"
  "msg_SessionType (new_message inp i uuid) = in_SessionType inp"
  "msg_ContentType (new_message inp i uuid) = in_ContentType inp"
  "msg_Content (new_message inp i uuid) = in_Content inp"
  by (simp_all add: new_message_def)

lemma sent_message_seq:
  assumes "seq_inv t" "has_room (conv_MaxSeq (locked i (in_SessionType inp) (in_GroupId inp) now t))"
  shows "msg_Seq (sent_message inp i msg now t) = conv_MaxSeq (locked i (in_SessionType inp) (in_GroupId inp) now t) + 1"
  using assms(2) locked_bounds [OF assms(1), of i "in_SessionType inp" "in_GroupId inp" now]
  by (simp add: sent_message_def Let_def has_room_def i64_below)

lemma sent_message_time:
  "conv_UpdatedAt (locked i (in_SessionType inp) (in_GroupId inp) now t) \<le> msg_SendTime (sent_message inp i msg now t)"
  by (simp add: sent_message_def Let_def)

lemma send_effect_simps [simp]:
  "users (send_effect inp i msg now t) = users t"
  "groups (send_effect inp i msg now t) = groups t"
  "members (send_effect inp i msg now t) = members t"
  "conns (send_effect inp i msg now t) = conns t"
  "convs (send_effect inp i msg now t) = (convs t)(i \<mapsto> (locked i (in_SessionType inp) (in_GroupId inp) now t)
     \<lparr>conv_MaxSeq := msg_Seq (sent_message inp i msg now t),
      conv_UpdatedAt := msg_SendTime (sent_message inp i msg now t)\<rparr>)"
  "uconvs (send_effect inp i msg now t) = touched inp i (msg_Seq (sent_message inp i msg now t))
     (msg_SendTime (sent_message inp i msg now t)) (uconvs t)"
  "msgs (send_effect inp i msg now t) = (msgs t)
     ((msg_ConversationId msg, msg_Seq (sent_message inp i msg now t)) \<mapsto> sent_message inp i msg now t)"
  by (simp_all add: send_effect_def Let_def msgKey_def)

text \<open>What a send does to the members' rows: it may create the two rows of a single chat, and it
  moves at most the sender's read cursor, to the new seq.\<close>

definition row_kept :: "UserConversation option \<Rightarrow> UserConversation \<Rightarrow> bool" where
  "row_kept old uc' \<longleftrightarrow> (\<exists>uc. old = Some uc \<and> ucKey uc' = ucKey uc \<and> uc_MinSeq uc' = uc_MinSeq uc \<and>
     uc_MaxSeq uc' = uc_MaxSeq uc \<and> uc_ReadSeq uc \<le> uc_ReadSeq uc')"

definition row_new :: "UserConversation option \<Rightarrow> string \<Rightarrow> string \<Rightarrow> UserConversation \<Rightarrow> bool" where
  "row_new old ow i uc' \<longleftrightarrow> old = None \<and> ucKey uc' = (ow, i) \<and> uc_MinSeq uc' = 1 \<and> uc_MaxSeq uc' = 0"

lemma touch_uc_row:
  assumes "touch_uc (empty_uc ow i ty peer g now) rd m k = Some uc'"
  shows "(k \<noteq> (ow, i) \<and> m k = Some uc') \<or>
    (k = (ow, i) \<and>
      ((row_kept (m k) uc' \<and> (\<forall>uc. m k = Some uc \<longrightarrow> uc_ReadSeq uc' = max (uc_ReadSeq uc) rd)) \<or>
       (row_new (m k) ow i uc' \<and> uc_ReadSeq uc' = rd)))"
  using assms
  by (cases "k = (ow, i)"; cases "m k")
    (simp_all add: touch_uc_def empty_uc_def ucKey_def row_kept_def row_new_def, auto simp: ucKey_def)

lemma touch_members_row:
  assumes "touch_members i now m k = Some uc'"
  shows "row_kept (m k) uc'" "\<exists>uc. m k = Some uc \<and> uc_ReadSeq uc' = uc_ReadSeq uc"
  using assms by (auto simp: touch_members_def touch_member_def row_kept_def ucKey_def)

lemma advance_read_row:
  assumes "advance_read ow i rd m k = Some uc'"
  shows "row_kept (m k) uc'"
    "\<exists>uc. m k = Some uc \<and> uc_ReadSeq uc' = (if k = (ow, i) then max (uc_ReadSeq uc) rd else uc_ReadSeq uc)"
  using assms by (auto simp: advance_read_def alter_def row_kept_def ucKey_def split: option.splits if_splits)

lemma row_kept_trans: "row_kept y uc'' \<Longrightarrow> y = Some uc' \<Longrightarrow> row_kept x uc' \<Longrightarrow> row_kept x uc''"
  by (auto simp: row_kept_def)

lemma touched_row:
  assumes "touched inp i seq now m k = Some uc'"
    and "in_SessionType inp = ConversationSingle \<longrightarrow> in_SenderId inp \<noteq> in_RecvId inp"
  shows "(row_kept (m k) uc' \<and> (\<exists>uc. m k = Some uc \<and>
            (uc_ReadSeq uc' = uc_ReadSeq uc \<or> uc_ReadSeq uc' = max (uc_ReadSeq uc) 0 \<or>
             k = (in_SenderId inp, i) \<and> uc_ReadSeq uc' = max (uc_ReadSeq uc) seq))) \<or>
         (in_SessionType inp = ConversationSingle \<and>
            (\<exists>ow. k = (ow, i) \<and> row_new (m k) ow i uc' \<and> (uc_ReadSeq uc' = 0 \<or> uc_ReadSeq uc' = seq)))"
proof (cases "in_SessionType inp = ConversationSingle")
  case True
  define rd where "rd = (if in_SenderRead inp then seq else 0)"
  define m1 where "m1 = touch_uc (empty_uc (in_SenderId inp) i (in_SessionType inp) (in_RecvId inp) [] now) rd m"
  have m1: "touch_uc (empty_uc (in_RecvId inp) i (in_SessionType inp) (in_SenderId inp) [] now) 0 m1 k = Some uc'"
    using assms(1) True by (simp add: touched_def rd_def m1_def Let_def)
  have rd: "rd = seq \<or> rd = 0"
    by (simp add: rd_def)
  show ?thesis
  proof (cases "k = (in_RecvId inp, i)")
    case k: True
    have "m1 k = m k"
      using k assms(2) True by (simp add: m1_def touch_uc_def empty_uc_def ucKey_def)
    then show ?thesis
      using touch_uc_row [OF m1] k True by (auto simp: row_kept_def)
  next
    case False
    then have "m1 k = Some uc'"
      using touch_uc_row [OF m1] by auto
    then have "touch_uc (empty_uc (in_SenderId inp) i (in_SessionType inp) (in_RecvId inp) [] now) rd m k = Some uc'"
      by (simp add: m1_def)
    from touch_uc_row [OF this] show ?thesis
      using rd True by (auto simp: row_kept_def)
  qed
next
  case False
  define m1 where "m1 = touch_members i now m"
  have "m1 k = Some uc' \<or> advance_read (in_SenderId inp) i seq m1 k = Some uc'"
    using assms(1) False by (auto simp: touched_def Let_def m1_def split: if_splits)
  then show ?thesis
  proof
    assume "m1 k = Some uc'"
    then show ?thesis
      using touch_members_row [of i now m k uc'] unfolding m1_def by auto
  next
    assume a: "advance_read (in_SenderId inp) i seq m1 k = Some uc'"
    from advance_read_row(2) [OF a] obtain uc1 where uc1: "m1 k = Some uc1"
      "uc_ReadSeq uc' = (if k = (in_SenderId inp, i) then max (uc_ReadSeq uc1) seq else uc_ReadSeq uc1)"
      by blast
    have "row_kept (m k) uc'"
      using row_kept_trans [OF advance_read_row(1) [OF a] uc1(1)] touch_members_row(1) [of i now m k uc1]
        uc1(1) unfolding m1_def by simp
    then show ?thesis
      using touch_members_row(2) [of i now m k uc1] uc1 unfolding m1_def by (auto split: if_splits)
  qed
qed

lemma touched_dom:
  assumes "m k = Some uc"
  shows "touched inp i seq now m k \<noteq> None"
proof -
  have "touch_uc uc rd m' k \<noteq> None" "alter k' f m' k \<noteq> None" if "m' k \<noteq> None" for uc rd m' k' f
    using that by (auto simp: touch_uc_def alter_def split: option.split)
  then show ?thesis
    using assms by (simp add: touched_def Let_def touch_members_def advance_read_def)
qed

lemma keyedD:
  assumes "keyed t"
  shows "users t i = Some u \<Longrightarrow> user_Id u = i" "groups t i = Some g \<Longrightarrow> group_Id g = i"
    "members t k = Some mb \<Longrightarrow> memKey mb = k" "convs t i = Some c \<Longrightarrow> conv_ConversationId c = i"
    "uconvs t k = Some uc \<Longrightarrow> ucKey uc = k" "msgs t mk = Some m \<Longrightarrow> msgKey m = mk"
    "conns t i = Some oc \<Longrightarrow> oc_ConnId oc = i"
  using assms unfolding keyed_def by blast+

lemma send_keyed:
  assumes "keyed t" "routable inp i t"
  shows "keyed (send_effect inp i (new_message inp i uuid) now t)"
proof -
  let ?t = "send_effect inp i (new_message inp i uuid) now t"
  have uc: "ucKey uc' = k" if "uconvs ?t k = Some uc'" for k uc'
  proof -
    have ne: "in_SessionType inp = ConversationSingle \<longrightarrow> in_SenderId inp \<noteq> in_RecvId inp"
      using assms(2) by (auto simp: routable_def store_consts)
    have "ucKey uc = k" if "uconvs t k = Some uc" for uc
      using assms(1) that by (rule keyedD)
    then show ?thesis
      using touched_row [OF that [unfolded send_effect_simps] ne] by (auto simp: row_kept_def row_new_def)
  qed
  have c: "conv_ConversationId c = k" if "convs ?t k = Some c" for k c
  proof (cases "k = i")
    case True
    then show ?thesis
      using that locked_key [OF assms(1), of i] by auto
  next
    case False
    then show ?thesis
      using that keyedD(4) [OF assms(1), of k c] by simp
  qed
  have m: "msgKey m = k" if "msgs ?t k = Some m" for k m
  proof (cases "k = (i, msg_Seq (sent_message inp i (new_message inp i uuid) now t))")
    case True
    then show ?thesis
      using that by (auto simp: msgKey_def)
  next
    case False
    then show ?thesis
      using that keyedD(6) [OF assms(1), of k m] by simp
  qed
  show ?thesis
    unfolding keyed_def send_effect_simps(1-4)
    using uc c m keyedD(1,2,3,7) [OF assms(1)] by (intro conjI allI impI) blast+
qed

lemma send_seq:
  assumes "seq_inv t" "has_room (conv_MaxSeq (locked i (in_SessionType inp) (in_GroupId inp) now t))"
  shows "seq_inv (send_effect inp i (new_message inp i uuid) now t)"
proof -
  let ?c = "locked i (in_SessionType inp) (in_GroupId inp) now t"
  note seq = sent_message_seq [OF assms, of "new_message inp i uuid"]
  note bounds = locked_bounds [OF assms(1), of i "in_SessionType inp" "in_GroupId inp" now]
  note old = locked_msgs [OF assms(1), of i _ "in_SessionType inp" "in_GroupId inp" now]
  have here: "((msgs t)((i, conv_MaxSeq ?c + 1) \<mapsto> m)) (i, s) \<noteq> None \<longleftrightarrow> 1 \<le> s \<and> s \<le> conv_MaxSeq ?c + 1" for m s
    using old [of s] bounds(1) by auto
  have other: "msgs t (j, s) \<noteq> None \<longleftrightarrow> (\<exists>c. convs t j = Some c \<and> 1 \<le> s \<and> s \<le> conv_MaxSeq c)" for j s
    using assms(1) by (simp add: seq_inv_def)
  have all: "0 \<le> conv_MaxSeq c \<and> conv_MaxSeq c < 2 ^ 63" if "convs t j = Some c" for j c
    using assms(1) that by (simp add: seq_inv_def)
  show ?thesis
    unfolding seq_inv_def send_effect_simps seq new_message_simps
  proof (intro conjI allI impI)
    fix j c
    assume "((convs t)(i \<mapsto> ?c\<lparr>conv_MaxSeq := conv_MaxSeq ?c + 1,
        conv_UpdatedAt := msg_SendTime (sent_message inp i (new_message inp i uuid) now t)\<rparr>)) j = Some c"
    then show "0 \<le> conv_MaxSeq c" "conv_MaxSeq c < 2 ^ 63"
      using bounds(1) assms(2) all [of j c] by (auto simp: has_room_def split: if_splits)
  next
    fix j s
    show "((msgs t)((i, conv_MaxSeq ?c + 1) \<mapsto> sent_message inp i (new_message inp i uuid) now t)) (j, s) \<noteq> None \<longleftrightarrow>
      (\<exists>c. ((convs t)(i \<mapsto> ?c\<lparr>conv_MaxSeq := conv_MaxSeq ?c + 1,
        conv_UpdatedAt := msg_SendTime (sent_message inp i (new_message inp i uuid) now t)\<rparr>)) j = Some c \<and>
        1 \<le> s \<and> s \<le> conv_MaxSeq c)"
      using here [of _ s] other [of j s] by (cases "j = i") simp_all
  qed
qed

text \<open>The message's own key is free: no old message is replaced.\<close>

lemma sent_message_fresh:
  assumes "seq_inv t" "has_room (conv_MaxSeq (locked i (in_SessionType inp) (in_GroupId inp) now t))"
  shows "msgs t (i, msg_Seq (sent_message inp i msg now t)) = None"
  using locked_msgs [OF assms(1), of i "msg_Seq (sent_message inp i msg now t)" "in_SessionType inp" "in_GroupId inp" now]
  by (simp add: sent_message_seq [OF assms])

lemma send_unique:
  assumes "seq_inv t" "has_room (conv_MaxSeq (locked i (in_SessionType inp) (in_GroupId inp) now t))"
    and "unique_inv t" "\<not> message_conflict (sent_message inp i (new_message inp i uuid) now t) t"
  shows "unique_inv (send_effect inp i (new_message inp i uuid) now t)"
proof -
  let ?m = "sent_message inp i (new_message inp i uuid) now t"
  have "ran (msgs (send_effect inp i (new_message inp i uuid) now t)) = insert ?m (ran (msgs t))"
    using sent_message_fresh [OF assms(1,2), of "new_message inp i uuid"] by (simp add: ran_map_upd)
  then show ?thesis
    using assms(3,4) unfolding unique_inv_def message_conflict_def by (auto simp: inj_on_insert)
qed

lemma send_time:
  assumes "seq_inv t" "has_room (conv_MaxSeq (locked i (in_SessionType inp) (in_GroupId inp) now t))"
    and "time_inv t"
  shows "time_inv (send_effect inp i (new_message inp i uuid) now t)"
proof -
  let ?m = "sent_message inp i (new_message inp i uuid) now t"
  let ?c = "locked i (in_SessionType inp) (in_GroupId inp) now t"
  let ?t = "send_effect inp i (new_message inp i uuid) now t"
  note seq = sent_message_seq [OF assms(1,2), of "new_message inp i uuid"]
  have le: "msg_SendTime m \<le> msg_SendTime ?m" if "msgs t (i, s) = Some m" for s m
    using locked_time [OF assms(1,3) that, of "in_SessionType inp" "in_GroupId inp" now]
      sent_message_time [of i inp now t "new_message inp i uuid"] by linarith
  have less: "s < conv_MaxSeq ?c + 1" if "msgs t (i, s) = Some m" for s m
    using locked_msgs [OF assms(1), of i s "in_SessionType inp" "in_GroupId inp" now] that by simp
  have old: "msg_SendTime m \<le> msg_SendTime m'"
    if "msgs t (j, s) = Some m" "msgs t (j, s') = Some m'" "s \<le> s'" for j s s' m m'
    using assms(3) that unfolding time_inv_def by blast
  have oldc: "msg_SendTime m \<le> conv_UpdatedAt c" if "msgs t (j, s) = Some m" "convs t j = Some c" for j s m c
    using assms(3) that unfolding time_inv_def by blast
  have msg: "(j = i \<and> s = conv_MaxSeq ?c + 1 \<and> m = ?m) \<or> msgs t (j, s) = Some m"
    if "msgs ?t (j, s) = Some m" for j s m
    using that by (auto simp: seq split: if_splits)
  show ?thesis
    unfolding time_inv_def
  proof (intro conjI allI impI)
    fix j s s' m m'
    assume a: "msgs ?t (j, s) = Some m" "msgs ?t (j, s') = Some m'" "s \<le> s'"
    show "msg_SendTime m \<le> msg_SendTime m'"
      using msg [OF a(1)] msg [OF a(2)] a(3) le less old [of j s m s' m'] by (elim disjE conjE) fastforce+
  next
    fix j s m c
    assume a: "msgs ?t (j, s) = Some m" "convs ?t j = Some c"
    show "msg_SendTime m \<le> conv_UpdatedAt c"
    proof (cases "j = i")
      case True
      then have "conv_UpdatedAt c = msg_SendTime ?m"
        using a(2) by auto
      then show ?thesis
        using msg [OF a(1)] True le by auto
    next
      case False
      then show ?thesis
        using msg [OF a(1)] a(2) oldc [of j s m c] by simp
    qed
  qed
qed

lemma send_route:
  assumes "route_inv t" "routable inp i t"
  shows "route_inv (send_effect inp i (new_message inp i uuid) now t)"
  unfolding route_inv_def
proof (intro allI impI)
  fix j s m
  assume "msgs (send_effect inp i (new_message inp i uuid) now t) (j, s) = Some m"
  then have "(j = i \<and> m = sent_message inp i (new_message inp i uuid) now t) \<or> msgs t (j, s) = Some m"
    by (auto split: if_splits)
  then show "routed m j"
    using assms by (auto simp: route_inv_def routed_def routable_def)
qed

lemma send_range:
  assumes "seq_inv t" "has_room (conv_MaxSeq (locked i (in_SessionType inp) (in_GroupId inp) now t))"
    and "range_inv t" "member_inv t" "routable inp i t" "may_send inp t"
  shows "range_inv (send_effect inp i (new_message inp i uuid) now t)"
  unfolding range_inv_def
proof (intro allI impI)
  let ?c = "locked i (in_SessionType inp) (in_GroupId inp) now t"
  let ?t = "send_effect inp i (new_message inp i uuid) now t"
  fix ow j uc'
  assume a: "uconvs ?t (ow, j) = Some uc'"
  note seq = sent_message_seq [OF assms(1,2), of "new_message inp i uuid"]
  note bounds = locked_bounds [OF assms(1), of i "in_SessionType inp" "in_GroupId inp" now]
  have ne: "in_SessionType inp = ConversationSingle \<longrightarrow> in_SenderId inp \<noteq> in_RecvId inp"
    using assms(5) by (auto simp: routable_def store_consts)
  note row = touched_row [OF a [unfolded send_effect_simps seq] ne]
  have old: "(\<exists>c. convs t j = Some c \<and> range_ok uc (conv_MaxSeq c)) \<and> (uc_MaxSeq uc \<noteq> 0 \<longrightarrow> (\<exists>g. j = GroupConv g))"
    if "uconvs t (ow, j) = Some uc" for uc
    using assms(3) that unfolding range_inv_def by blast
  have open_end: "uc_MaxSeq uc = 0" if "uconvs t (in_SenderId inp, i) = Some uc" for uc
  proof (cases "in_SessionType inp = ConversationGroup")
    case True
    then have i: "i = GroupConv (in_GroupId inp)"
      using assms(5) by (auto simp: routable_def store_consts)
    have "members t (in_GroupId inp, in_SenderId inp) \<noteq> None"
      using assms(6) True by (simp add: may_send_def)
    then show ?thesis
      using assms(4) that i unfolding member_inv_def by force
  next
    case False
    then have "i = Single (in_SenderId inp) (in_RecvId inp)"
      using assms(5) by (auto simp: routable_def)
    then show ?thesis
      using assms(3) that Single_not_Group(1) unfolding range_inv_def by metis
  qed
  show "(\<exists>c. convs ?t j = Some c \<and> range_ok uc' (conv_MaxSeq c)) \<and> (uc_MaxSeq uc' \<noteq> 0 \<longrightarrow> (\<exists>g. j = GroupConv g))"
  proof (cases "j = i")
    case False
    then obtain uc where uc: "uconvs t (ow, j) = Some uc" "row_kept (Some uc) uc'"
      "uc_ReadSeq uc' = uc_ReadSeq uc \<or> uc_ReadSeq uc' = max (uc_ReadSeq uc) 0"
      using row by auto
    then show ?thesis
      using old [OF uc(1)] False by (auto simp: row_kept_def range_ok_def VisibleMax_def)
  next
    case True
    have "range_ok uc' (conv_MaxSeq ?c + 1) \<and> (uc_MaxSeq uc' \<noteq> 0 \<longrightarrow> (\<exists>g. j = GroupConv g))"
      using row
    proof (elim disjE conjE exE)
      fix uc
      assume uc: "row_kept (uconvs t (ow, j)) uc'" "uconvs t (ow, j) = Some uc"
      have "range_ok uc (conv_MaxSeq ?c)"
        using old [OF uc(2)] True by (auto simp: locked_Some)
      moreover assume "uc_ReadSeq uc' = uc_ReadSeq uc"
      ultimately show ?thesis
        using uc old [OF uc(2)] by (auto simp: row_kept_def range_ok_def VisibleMax_def)
    next
      fix uc
      assume uc: "row_kept (uconvs t (ow, j)) uc'" "uconvs t (ow, j) = Some uc"
      have "range_ok uc (conv_MaxSeq ?c)"
        using old [OF uc(2)] True by (auto simp: locked_Some)
      moreover assume "uc_ReadSeq uc' = max (uc_ReadSeq uc) 0"
      ultimately show ?thesis
        using uc old [OF uc(2)] by (auto simp: row_kept_def range_ok_def VisibleMax_def)
    next
      fix uc
      assume uc: "row_kept (uconvs t (ow, j)) uc'" "uconvs t (ow, j) = Some uc" "(ow, j) = (in_SenderId inp, i)"
        "uc_ReadSeq uc' = max (uc_ReadSeq uc) (conv_MaxSeq ?c + 1)"
      have "range_ok uc (conv_MaxSeq ?c)"
        using old [OF uc(2)] True by (auto simp: locked_Some)
      then show ?thesis
        using uc open_end [of uc] by (auto simp: row_kept_def range_ok_def VisibleMax_def)
    next
      fix ow'
      assume uc: "row_new (uconvs t (ow, j)) ow' i uc'" "uc_ReadSeq uc' = 0"
      then show ?thesis
        using bounds(1) by (simp add: row_new_def range_ok_def VisibleMax_def)
    next
      fix ow'
      assume uc: "row_new (uconvs t (ow, j)) ow' i uc'" "uc_ReadSeq uc' = conv_MaxSeq ?c + 1"
      then show ?thesis
        using bounds(1) by (simp add: row_new_def range_ok_def VisibleMax_def)
    qed
    then show ?thesis
      using True by (simp add: seq)
  qed
qed

lemma send_member:
  assumes "member_inv t" "routable inp i t"
  shows "member_inv (send_effect inp i (new_message inp i uuid) now t)"
  unfolding member_inv_def
proof (intro allI)
  let ?t = "send_effect inp i (new_message inp i uuid) now t"
  fix g u
  have ne: "in_SessionType inp = ConversationSingle \<longrightarrow> in_SenderId inp \<noteq> in_RecvId inp"
    using assms(2) by (auto simp: routable_def store_consts)
  have new: "\<not> row_new x u (GroupConv g) uc" if "in_SessionType inp = ConversationSingle" "i = GroupConv g" for x uc
    using assms(2) that by (auto simp: routable_def store_consts)
  have "(\<exists>uc. uconvs ?t (u, GroupConv g) = Some uc \<and> uc_MaxSeq uc = 0) \<longleftrightarrow>
      (\<exists>uc. uconvs t (u, GroupConv g) = Some uc \<and> uc_MaxSeq uc = 0)"
  proof
    assume "\<exists>uc. uconvs ?t (u, GroupConv g) = Some uc \<and> uc_MaxSeq uc = 0"
    then obtain uc where uc: "uconvs ?t (u, GroupConv g) = Some uc" "uc_MaxSeq uc = 0"
      by blast
    show "\<exists>uc. uconvs t (u, GroupConv g) = Some uc \<and> uc_MaxSeq uc = 0"
      using touched_row [OF uc(1) [unfolded send_effect_simps] ne] uc(2) new by (auto simp: row_kept_def)
  next
    assume "\<exists>uc. uconvs t (u, GroupConv g) = Some uc \<and> uc_MaxSeq uc = 0"
    then obtain uc where uc: "uconvs t (u, GroupConv g) = Some uc" "uc_MaxSeq uc = 0"
      by blast
    then obtain uc' where uc': "uconvs ?t (u, GroupConv g) = Some uc'"
      using touched_dom [of "uconvs t" "(u, GroupConv g)" uc inp i] by (auto simp: option.expand)
    then show "\<exists>uc. uconvs ?t (u, GroupConv g) = Some uc \<and> uc_MaxSeq uc = 0"
      using touched_row [OF uc' [unfolded send_effect_simps] ne] uc new by (auto simp: row_kept_def row_new_def)
  qed
  then show "members ?t (g, u) \<noteq> None \<longleftrightarrow> (\<exists>uc. uconvs ?t (u, GroupConv g) = Some uc \<and> uc_MaxSeq uc = 0)"
    using assms(1) by (simp add: member_inv_def)
qed

lemma send_group:
  assumes "group_inv t" "routable inp i t" "may_send inp t"
  shows "group_inv (send_effect inp i (new_message inp i uuid) now t)"
proof -
  have "i = GroupConv g \<Longrightarrow> groups t g \<noteq> None" for g
    using assms(2,3) by (auto simp: routable_def may_send_def)
  then show ?thesis
    using assms(1) by (auto simp: group_inv_def)
qed

theorem send_inv:
  assumes "nexo_inv mm t" "routable inp i t" "may_send inp t"
    and "\<not> message_conflict (sent_message inp i (new_message inp i uuid) now t) t"
    and "has_room (conv_MaxSeq (locked i (in_SessionType inp) (in_GroupId inp) now t))"
  shows "nexo_inv mm (send_effect inp i (new_message inp i uuid) now t)"
proof -
  have "owner_inv (send_effect inp i (new_message inp i uuid) now t)"
    "size_inv mm (send_effect inp i (new_message inp i uuid) now t)"
    using assms(1) unfolding nexo_inv_def owner_inv_def size_inv_def roster_def send_effect_simps(2,3)
    by simp_all
  then show ?thesis
    using assms by (auto simp: nexo_inv_def intro: send_keyed send_seq send_unique send_time send_route
        send_range send_member send_group)
qed

section \<open>Creating a group\<close>

lemma first_members_map:
  "map_of (map (\<lambda>m. (memKey m, m)) (map (first_member gid ow now) ids)) (g, u) =
     (if g = gid \<and> u \<in> set ids then Some (first_member gid ow now u) else None)"
  by (induction ids) (auto simp: memKey_def first_member_def)

lemma first_ucs_map:
  "map_of (map (\<lambda>uc. (ucKey uc, stamp_created uc)) (map (first_uc gid now) ids)) (ow, i) =
     (if i = GroupConv gid \<and> ow \<in> set ids then Some (stamp_created (first_uc gid now ow)) else None)"
  by (induction ids) (auto simp: ucKey_def first_uc_def)

lemma create_effect_simps [simp]:
  "users (create_effect g ids now t) = users t" "conns (create_effect g ids now t) = conns t"
  "msgs (create_effect g ids now t) = msgs t"
  "groups (create_effect g ids now t) = (groups t)(group_Id g \<mapsto> g)"
  "members (create_effect g ids now t) (h, u) =
     (if h = group_Id g \<and> u \<in> set ids then Some (first_member (group_Id g) (group_OwnerId g) now u)
      else members t (h, u))"
  "uconvs (create_effect g ids now t) (ow, i) =
     (if i = GroupConv (group_Id g) \<and> ow \<in> set ids then Some (stamp_created (first_uc (group_Id g) now ow))
      else uconvs t (ow, i))"
  "convs (create_effect g ids now t) = (convs t)(GroupConv (group_Id g) \<mapsto>
     locked (GroupConv (group_Id g)) ConversationGroup (group_Id g) now t)"
  by (simp_all add: create_effect_def map_add_def first_members_map first_ucs_map del: map_map)

text \<open>Nothing is stored under the id of a group that does not exist.\<close>

lemma no_group:
  assumes "nexo_inv mm t" "groups t gid = None"
  shows "convs t (GroupConv gid) = None" "uconvs t (ow, GroupConv gid) = None" "members t (gid, u) = None"
    "msgs t (GroupConv gid, s) = None"
proof -
  show c: "convs t (GroupConv gid) = None"
    using assms unfolding nexo_inv_def group_inv_def by blast
  show uc: "uconvs t (ow, GroupConv gid) = None" for ow
    using assms(1) c unfolding nexo_inv_def range_inv_def by (metis option.exhaust option.distinct(1))
  show "members t (gid, u) = None"
    using assms(1) uc unfolding nexo_inv_def member_inv_def by (metis option.distinct(1))
  show "msgs t (GroupConv gid, s) = None"
    using assms(1) c unfolding nexo_inv_def seq_inv_def by (metis option.distinct(1))
qed

lemma create_inv:
  assumes inv: "nexo_inv mm t"
    and g: "groups t (group_Id g) = None" "group_OwnerId g \<in> set ids" "distinct ids" "int (length ids) \<le> mm"
  shows "nexo_inv mm (create_effect g ids now t)"
proof -
  let ?t = "create_effect g ids now t"
  let ?i = "GroupConv (group_Id g)"
  note none = no_group [OF inv g(1)]
  have c: "locked ?i ConversationGroup (group_Id g) now t = new_conversation ?i ConversationGroup (group_Id g) now"
    using none(1) by (simp add: locked_def)
  have k: "keyed t"
    using inv by (simp add: nexo_inv_def)
  have "keyed ?t"
    unfolding keyed_def
  proof (intro conjI allI impI)
    fix k m assume "members ?t k = Some m"
    then show "memKey m = k"
      using keyedD(3) [OF k, of k m] by (cases k) (auto simp: memKey_def first_member_def split: if_splits)
  next
    fix k uc assume "uconvs ?t k = Some uc"
    then show "ucKey uc = k"
      using keyedD(5) [OF k, of k uc]
      by (cases k) (auto simp: ucKey_def first_uc_def stamp_created_def split: if_splits)
  next
    fix k r assume "groups ?t k = Some r"
    then show "group_Id r = k"
      using keyedD(2) [OF k, of k r] by (auto split: if_splits)
  next
    fix k r assume "convs ?t k = Some r"
    then show "conv_ConversationId r = k"
      using keyedD(4) [OF k, of k r] by (auto simp: c new_conversation_def split: if_splits)
  next
    fix k r assume "users ?t k = Some r"
    then show "user_Id r = k"
      using keyedD(1) [OF k, of k r] by simp
  next
    fix k r assume "msgs ?t k = Some r"
    then show "msgKey r = k"
      using keyedD(6) [OF k, of k r] by simp
  next
    fix k r assume "conns ?t k = Some r"
    then show "oc_ConnId r = k"
      using keyedD(7) [OF k, of k r] by simp
  qed
  moreover have "seq_inv ?t"
  proof -
    have "(\<exists>r. convs ?t i = Some r \<and> 1 \<le> s \<and> s \<le> conv_MaxSeq r) \<longleftrightarrow>
        (\<exists>r. convs t i = Some r \<and> 1 \<le> s \<and> s \<le> conv_MaxSeq r)" for i s
      using none(1) by (simp add: c new_conversation_def)
    moreover have "0 \<le> conv_MaxSeq r \<and> conv_MaxSeq r < 2 ^ 63" if "convs ?t i = Some r" for i r
      using inv that by (auto simp: nexo_inv_def seq_inv_def c new_conversation_def split: if_splits)
    ultimately show ?thesis
      using inv unfolding seq_inv_def create_effect_simps(3) nexo_inv_def by blast
  qed
  moreover have "unique_inv ?t" "route_inv ?t"
    using inv by (simp_all add: nexo_inv_def unique_inv_def route_inv_def)
  moreover have "time_inv ?t"
  proof -
    have "convs t i = Some r" if "msgs t (i, s) = Some m" "convs ?t i = Some r" for i s m r
      using that none(4) by (auto split: if_splits)
    then show ?thesis
      using inv unfolding time_inv_def create_effect_simps(3) nexo_inv_def by blast
  qed
  moreover have "range_inv ?t"
    unfolding range_inv_def
  proof (intro allI impI)
    fix ow i uc
    assume uc: "uconvs ?t (ow, i) = Some uc"
    show "(\<exists>c. convs ?t i = Some c \<and> range_ok uc (conv_MaxSeq c)) \<and> (uc_MaxSeq uc \<noteq> 0 \<longrightarrow> (\<exists>g. i = GroupConv g))"
    proof (cases "i = ?i")
      case True
      then show ?thesis
        using uc none(2) [of ow]
        by (auto simp: c new_conversation_def stamp_created_def first_uc_def range_ok_def VisibleMax_def
            split: if_splits)
    next
      case False
      then have "uconvs t (ow, i) = Some uc" "convs ?t i = convs t i"
        using uc by simp_all
      then show ?thesis
        using inv unfolding nexo_inv_def range_inv_def by simp
    qed
  qed
  moreover have "member_inv ?t"
    unfolding member_inv_def
  proof (intro allI)
    fix h u
    show "members ?t (h, u) \<noteq> None \<longleftrightarrow> (\<exists>uc. uconvs ?t (u, GroupConv h) = Some uc \<and> uc_MaxSeq uc = 0)"
    proof (cases "h = group_Id g")
      case True
      then show ?thesis
        using none(2,3) [of u] by (simp add: stamp_created_def first_uc_def)
    next
      case False
      then show ?thesis
        using inv unfolding nexo_inv_def member_inv_def by simp
    qed
  qed
  moreover have "group_inv ?t"
    using inv by (simp add: nexo_inv_def group_inv_def)
  moreover have "owner_inv ?t"
    using inv g(2) none(3) unfolding nexo_inv_def owner_inv_def
    by (auto simp: first_member_def)
  moreover have "size_inv mm ?t"
  proof -
    have new: "roster ?t (group_Id g) = set ids"
      using none(3) by (auto simp: roster_def)
    have old: "roster ?t h = roster t h" if "h \<noteq> group_Id g" for h
      using that by (simp add: roster_def)
    have "card (set ids) = length ids"
      using g(3) by (rule distinct_card)
    then show ?thesis
      using inv new old g(4) unfolding nexo_inv_def size_inv_def create_effect_simps by (metis List.finite_set fun_upd_apply)
  qed
  ultimately show ?thesis
    by (simp add: nexo_inv_def)
qed

section \<open>Joining and leaving\<close>

lemma group_conv:
  assumes "nexo_inv mm t" "groups t gid \<noteq> None"
  obtains c where "convs t (GroupConv gid) = Some c" "locked (GroupConv gid) ty g now t = c"
    "0 \<le> conv_MaxSeq c" "conv_MaxSeq c < 2 ^ 63"
proof -
  obtain c where c: "convs t (GroupConv gid) = Some c"
    using assms unfolding nexo_inv_def group_inv_def by blast
  moreover have "0 \<le> conv_MaxSeq c" "conv_MaxSeq c < 2 ^ 63"
    using assms(1) c unfolding nexo_inv_def seq_inv_def by blast+
  ultimately show ?thesis
    using that by (simp add: locked_Some)
qed

text \<open>A change of membership and of the rows of one group conversation.\<close>

lemma membership_inv:
  assumes inv: "nexo_inv mm t"
    and t': "t' = t\<lparr>members := (members t)((gid, u) := mb), uconvs := (uconvs t)((u, GroupConv gid) := row)\<rparr>"
    and c: "convs t (GroupConv gid) = Some c"
    and row: "\<And>uc. row = Some uc \<Longrightarrow> ucKey uc = (u, GroupConv gid) \<and> range_ok uc (conv_MaxSeq c)"
    and mb: "\<And>m. mb = Some m \<Longrightarrow> memKey m = (gid, u) \<and> gm_Role m = RoleMember"
    and iff: "mb \<noteq> None \<longleftrightarrow> (\<exists>uc. row = Some uc \<and> uc_MaxSeq uc = 0)"
    and g: "groups t gid = Some g" "u \<noteq> group_OwnerId g"
    and size: "mb \<noteq> None \<Longrightarrow> int (card (insert u (roster t gid))) \<le> mm"
  shows "nexo_inv mm t'"
proof -
  have k: "keyed t"
    using inv by (simp add: nexo_inv_def)
  have "keyed t'"
    unfolding keyed_def
  proof (intro conjI allI impI)
    fix k m assume "members t' k = Some m"
    then show "memKey m = k"
      using keyedD(3) [OF k, of k m] mb by (auto simp: t' split: if_splits)
  next
    fix k uc assume "uconvs t' k = Some uc"
    then show "ucKey uc = k"
      using keyedD(5) [OF k, of k uc] row by (auto simp: t' split: if_splits)
  qed (use keyedD(1,2,4,6,7) [OF k] in \<open>simp_all add: t'\<close>)
  moreover have "seq_inv t'" "unique_inv t'" "time_inv t'" "route_inv t'" "group_inv t'"
    using inv unfolding nexo_inv_def seq_inv_def unique_inv_def time_inv_def route_inv_def group_inv_def
    by (simp_all add: t')
  moreover have "range_inv t'"
    unfolding range_inv_def
  proof (intro allI impI)
    fix ow i uc
    assume uc: "uconvs t' (ow, i) = Some uc"
    show "(\<exists>c. convs t' i = Some c \<and> range_ok uc (conv_MaxSeq c)) \<and> (uc_MaxSeq uc \<noteq> 0 \<longrightarrow> (\<exists>g. i = GroupConv g))"
    proof (cases "(ow, i) = (u, GroupConv gid)")
      case True
      then show ?thesis
        using uc row [of uc] c by (auto simp: t')
    next
      case False
      then have "uconvs t (ow, i) = Some uc"
        using uc by (auto simp: t')
      then show ?thesis
        using inv unfolding nexo_inv_def range_inv_def by (simp add: t')
    qed
  qed
  moreover have "member_inv t'"
    unfolding member_inv_def
  proof (intro allI)
    fix h v
    show "members t' (h, v) \<noteq> None \<longleftrightarrow> (\<exists>uc. uconvs t' (v, GroupConv h) = Some uc \<and> uc_MaxSeq uc = 0)"
    proof (cases "h = gid \<and> v = u")
      case True
      then show ?thesis
        using iff by (simp add: t')
    next
      case False
      then show ?thesis
        using inv unfolding nexo_inv_def member_inv_def by (auto simp: t')
    qed
  qed
  moreover have "owner_inv t'"
    using inv mb g unfolding nexo_inv_def owner_inv_def by (auto simp: t')
  moreover have "size_inv mm t'"
    unfolding size_inv_def
  proof (intro allI)
    fix h
    have old: "finite (roster t h) \<and> (groups t h \<noteq> None \<longrightarrow> int (card (roster t h)) \<le> mm)"
      using inv unfolding nexo_inv_def size_inv_def by blast
    have "roster t' h = (if h = gid then (if mb = None then roster t h - {u} else insert u (roster t h)) else roster t h)"
      by (auto simp: t' roster_def)
    moreover have "card (roster t h - {u}) \<le> card (roster t h)"
      by (rule card_Diff1_le)
    ultimately show "finite (roster t' h) \<and> (groups t' h \<noteq> None \<longrightarrow> int (card (roster t' h)) \<le> mm)"
      using old size by (auto simp: t')
  qed
  ultimately show ?thesis
    by (simp add: nexo_inv_def)
qed

lemma joined_uc_simps:
  "upsert_uc (joined_uc gid u mx now) m = m((u, GroupConv gid) \<mapsto>
     (case m (u, GroupConv gid) of
        None \<Rightarrow> stamp_created (joined_uc gid u mx now)
      | Some old \<Rightarrow> old\<lparr>uc_MinSeq := i64 (mx + 1), uc_MaxSeq := 0, uc_ReadSeq := mx, uc_UpdatedAt := now\<rparr>))"
  by (cases "m (u, GroupConv gid)") (simp_all add: upsert_uc_def joined_uc_def ucKey_def stamp_created_def)

lemma join_inv:
  assumes inv: "nexo_inv mm t"
    and g: "groups t gid \<noteq> None" "members t (gid, u) = None" "int (card (roster t gid)) < mm"
    and room: "has_room (conv_MaxSeq (locked (GroupConv gid) ConversationGroup gid now t))"
  shows "nexo_inv mm (join_effect gid u now t)"
proof -
  obtain c where c: "convs t (GroupConv gid) = Some c" "locked (GroupConv gid) ConversationGroup gid now t = c"
      "0 \<le> conv_MaxSeq c" "conv_MaxSeq c < 2 ^ 63"
    by (rule group_conv [OF inv g(1)])
  obtain r where r: "groups t gid = Some r"
    using g(1) by blast
  have "members t (gid, group_OwnerId r) \<noteq> None"
    using inv r unfolding nexo_inv_def owner_inv_def by blast
  then have owner: "u \<noteq> group_OwnerId r"
    using g(2) by auto
  define row where "row = (case uconvs t (u, GroupConv gid) of
      None \<Rightarrow> stamp_created (joined_uc gid u (conv_MaxSeq c) now)
    | Some old \<Rightarrow> old\<lparr>uc_MinSeq := i64 (conv_MaxSeq c + 1), uc_MaxSeq := 0, uc_ReadSeq := conv_MaxSeq c,
        uc_UpdatedAt := now\<rparr>)"
  have k: "keyed t"
    using inv by (simp add: nexo_inv_def)
  have key: "ucKey row = (u, GroupConv gid)"
  proof (cases "uconvs t (u, GroupConv gid)")
    case None
    then show ?thesis
      by (simp add: row_def ucKey_def stamp_created_def joined_uc_def)
  next
    case (Some old)
    then show ?thesis
      using keyedD(5) [OF k Some] by (simp add: row_def ucKey_def)
  qed
  have "uc_MinSeq row = conv_MaxSeq c + 1" "uc_MaxSeq row = 0" "uc_ReadSeq row = conv_MaxSeq c"
    using c(3) room
    by (simp_all add: row_def stamp_created_def joined_uc_def has_room_def c(2) i64_below split: option.split)
  then have range: "range_ok row (conv_MaxSeq c)" "uc_MaxSeq row = 0"
    using c(3) by (simp_all add: range_ok_def VisibleMax_def)
  have card: "int (card (insert u (roster t gid))) \<le> mm"
    using g(3) card_insert_le_m1 [of "card (roster t gid) + 1" "roster t gid" u] by simp
  have eff: "join_effect gid u now t = t\<lparr>members := (members t)((gid, u) := Some (joined_member gid u now)),
        uconvs := (uconvs t)((u, GroupConv gid) := Some row)\<rparr>"
    using c(1) by (simp add: join_effect_def Let_def c(2) joined_uc_simps row_def fun_upd_idem)
  show ?thesis
    by (rule membership_inv [OF inv eff c(1) _ _ _ r owner])
      (use key range card in \<open>simp_all add: joined_member_def memKey_def\<close>)
qed

lemma remove_inv:
  assumes inv: "nexo_inv mm t"
    and g: "groups t gid = Some r" "members t (gid, u) \<noteq> None" "u \<noteq> group_OwnerId r"
  shows "nexo_inv mm (remove_effect gid u now t)"
proof -
  have "groups t gid \<noteq> None"
    using g(1) by simp
  then obtain c where c: "convs t (GroupConv gid) = Some c" "locked (GroupConv gid) ConversationGroup gid now t = c"
      "0 \<le> conv_MaxSeq c" "conv_MaxSeq c < 2 ^ 63"
    by (rule group_conv [OF inv])
  obtain uc where uc: "uconvs t (u, GroupConv gid) = Some uc" "uc_MaxSeq uc = 0"
    using inv g(2) unfolding nexo_inv_def member_inv_def by blast
  then have range: "range_ok uc (conv_MaxSeq c)"
    using inv c(1) unfolding nexo_inv_def range_inv_def by force
  have k: "keyed t"
    using inv by (simp add: nexo_inv_def)
  let ?row = "if conv_MaxSeq c = 0 then None else Some (uc\<lparr>uc_MaxSeq := conv_MaxSeq c\<rparr>)"
  show ?thesis
  proof (rule membership_inv [where gid = gid and u = u and g = r and mb = None and row = ?row, OF inv _ c(1)])
    show "remove_effect gid u now t = t\<lparr>members := (members t)((gid, u) := None),
        uconvs := (uconvs t)((u, GroupConv gid) := ?row)\<rparr>"
      using c(1) uc by (simp add: remove_effect_def Let_def c(2) fun_upd_idem alter_def)
    show "\<And>x. ?row = Some x \<Longrightarrow> ucKey x = (u, GroupConv gid) \<and> range_ok x (conv_MaxSeq c)"
      using keyedD(5) [OF k uc(1)] range uc(2) c(3)
      by (auto simp: ucKey_def range_ok_def VisibleMax_def split: if_splits)
  qed (use g c(3) in \<open>auto split: if_splits\<close>)
qed

section \<open>Read cursors, options and the other tables\<close>

lemma row_inv:
  assumes inv: "nexo_inv mm t" and uc: "uconvs t (ow, i) = Some uc" "convs t i = Some c"
    and row: "ucKey uc' = ucKey uc" "range_ok uc' (conv_MaxSeq c)" "uc_MaxSeq uc' = uc_MaxSeq uc"
  shows "nexo_inv mm (t\<lparr>uconvs := (uconvs t)((ow, i) \<mapsto> uc')\<rparr>)"
proof -
  let ?t = "t\<lparr>uconvs := (uconvs t)((ow, i) \<mapsto> uc')\<rparr>"
  have k: "keyed t"
    using inv by (simp add: nexo_inv_def)
  have "keyed ?t"
    unfolding keyed_def
  proof (intro conjI allI impI)
    fix k r assume "uconvs ?t k = Some r"
    then show "ucKey r = k"
      using keyedD(5) [OF k, of k r] keyedD(5) [OF k uc(1)] row(1) by (auto split: if_splits)
  qed (use keyedD(1,2,3,4,6,7) [OF k] in simp_all)
  moreover have "range_inv ?t"
    unfolding range_inv_def
  proof (intro allI impI)
    fix ow' j r
    assume r: "uconvs ?t (ow', j) = Some r"
    show "(\<exists>c. convs ?t j = Some c \<and> range_ok r (conv_MaxSeq c)) \<and> (uc_MaxSeq r \<noteq> 0 \<longrightarrow> (\<exists>g. j = GroupConv g))"
    proof (cases "(ow', j) = (ow, i)")
      case True
      moreover have "uc_MaxSeq uc \<noteq> 0 \<longrightarrow> (\<exists>g. i = GroupConv g)"
        using inv uc(1) unfolding nexo_inv_def range_inv_def by blast
      ultimately show ?thesis
        using r uc(2) row by auto
    next
      case False
      then have "uconvs t (ow', j) = Some r"
        using r by auto
      then show ?thesis
        using inv unfolding nexo_inv_def range_inv_def by simp
    qed
  qed
  moreover have "member_inv ?t"
    unfolding member_inv_def
  proof (intro allI)
    fix h v
    show "members ?t (h, v) \<noteq> None \<longleftrightarrow> (\<exists>r. uconvs ?t (v, GroupConv h) = Some r \<and> uc_MaxSeq r = 0)"
    proof (cases "(v, GroupConv h) = (ow, i)")
      case True
      then show ?thesis
        using inv uc(1) row(3) unfolding nexo_inv_def member_inv_def by auto
    next
      case False
      then show ?thesis
        using inv unfolding nexo_inv_def member_inv_def by auto
    qed
  qed
  moreover have "seq_inv ?t" "unique_inv ?t" "time_inv ?t" "route_inv ?t" "group_inv ?t" "owner_inv ?t" "size_inv mm ?t"
    using inv unfolding nexo_inv_def seq_inv_def unique_inv_def time_inv_def route_inv_def group_inv_def
      owner_inv_def size_inv_def roster_def by simp_all
  ultimately show ?thesis
    by (simp add: nexo_inv_def)
qed

lemma other_tables_frame:
  "seq_inv (t\<lparr>users := us\<rparr>) = seq_inv t" "seq_inv (t\<lparr>conns := cs\<rparr>) = seq_inv t"
  "unique_inv (t\<lparr>users := us\<rparr>) = unique_inv t" "unique_inv (t\<lparr>conns := cs\<rparr>) = unique_inv t"
  "time_inv (t\<lparr>users := us\<rparr>) = time_inv t" "time_inv (t\<lparr>conns := cs\<rparr>) = time_inv t"
  "route_inv (t\<lparr>users := us\<rparr>) = route_inv t" "route_inv (t\<lparr>conns := cs\<rparr>) = route_inv t"
  "range_inv (t\<lparr>users := us\<rparr>) = range_inv t" "range_inv (t\<lparr>conns := cs\<rparr>) = range_inv t"
  "member_inv (t\<lparr>users := us\<rparr>) = member_inv t" "member_inv (t\<lparr>conns := cs\<rparr>) = member_inv t"
  "group_inv (t\<lparr>users := us\<rparr>) = group_inv t" "group_inv (t\<lparr>conns := cs\<rparr>) = group_inv t"
  "owner_inv (t\<lparr>users := us\<rparr>) = owner_inv t" "owner_inv (t\<lparr>conns := cs\<rparr>) = owner_inv t"
  "size_inv mm (t\<lparr>users := us\<rparr>) = size_inv mm t" "size_inv mm (t\<lparr>conns := cs\<rparr>) = size_inv mm t"
  by (simp_all add: seq_inv_def unique_inv_def time_inv_def route_inv_def range_inv_def member_inv_def
      group_inv_def owner_inv_def size_inv_def roster_def)

lemma users_inv:
  assumes "nexo_inv mm t" "\<forall>k u. us k = Some u \<longrightarrow> user_Id u = k"
  shows "nexo_inv mm (t\<lparr>users := us\<rparr>)"
proof -
  have "keyed t"
    using assms(1) by (simp add: nexo_inv_def)
  then have "keyed (t\<lparr>users := us\<rparr>)"
    using assms(2) by (simp add: keyed_def)
  then show ?thesis
    using assms(1) by (simp add: nexo_inv_def other_tables_frame)
qed

lemma conns_inv:
  assumes "nexo_inv mm t" "\<forall>k c. cs k = Some c \<longrightarrow> oc_ConnId c = k"
  shows "nexo_inv mm (t\<lparr>conns := cs\<rparr>)"
proof -
  have "keyed t"
    using assms(1) by (simp add: nexo_inv_def)
  then have "keyed (t\<lparr>conns := cs\<rparr>)"
    using assms(2) by (simp add: keyed_def)
  then show ?thesis
    using assms(1) by (simp add: nexo_inv_def other_tables_frame)
qed

lemma read_inv:
  assumes "nexo_inv mm t" "uconvs t (ow, i) = Some uc" "convs t i = Some c" "rd \<le> VisibleMax uc (conv_MaxSeq c)"
  shows "nexo_inv mm (t\<lparr>uconvs := advance_read ow i rd (uconvs t)\<rparr>)"
proof -
  have "range_ok uc (conv_MaxSeq c)"
    using assms(1-3) unfolding nexo_inv_def range_inv_def by force
  then have "range_ok (uc\<lparr>uc_ReadSeq := max (uc_ReadSeq uc) rd\<rparr>) (conv_MaxSeq c)"
    using assms(4) by (auto simp: range_ok_def VisibleMax_def)
  then have "nexo_inv mm (t\<lparr>uconvs := (uconvs t)((ow, i) \<mapsto> uc\<lparr>uc_ReadSeq := max (uc_ReadSeq uc) rd\<rparr>)\<rparr>)"
    by (intro row_inv [OF assms(1-3)]) (simp_all add: ucKey_def)
  then show ?thesis
    using assms(2) by (simp add: advance_read_def alter_def)
qed

lemma opt_inv:
  assumes "nexo_inv mm t" "uconvs t (ow, i) = Some uc"
  shows "nexo_inv mm (t\<lparr>uconvs := (uconvs t)((ow, i) \<mapsto> uc\<lparr>uc_RecvMsgOpt := a, uc_IsPinned := p\<rparr>)\<rparr>)"
proof -
  obtain c where c: "convs t i = Some c" "range_ok uc (conv_MaxSeq c)"
    using assms unfolding nexo_inv_def range_inv_def by blast
  then have "range_ok (uc\<lparr>uc_RecvMsgOpt := a, uc_IsPinned := p\<rparr>) (conv_MaxSeq c)"
    by (auto simp: range_ok_def VisibleMax_def)
  then show ?thesis
    by (intro row_inv [OF assms c(1)]) (simp_all add: ucKey_def)
qed

theorem nexo_step_inv:
  assumes "nexo_step mm t t'" "nexo_inv mm t"
  shows "nexo_inv mm t'"
  using assms(1)
proof (cases rule: nexo_step.cases)
  case send
  then show ?thesis
    by (simp only:) (rule send_inv [OF assms(2)])
next
  case create
  then show ?thesis
    by (simp only:) (rule create_inv [OF assms(2)])
next
  case join
  then show ?thesis
    by (simp only:) (rule join_inv [OF assms(2)])
next
  case remove
  then show ?thesis
    by (simp only:) (rule remove_inv [OF assms(2)])
next
  case read
  then show ?thesis
    by (simp only:) (rule read_inv [OF assms(2)])
next
  case opt
  then show ?thesis
    by (simp only:) (rule opt_inv [OF assms(2)])
next
  case users
  then show ?thesis
    by (simp only:) (rule users_inv [OF assms(2)])
next
  case conns
  then show ?thesis
    by (simp only:) (rule conns_inv [OF assms(2)])
qed

end
