(* ===== verification/SystemRely.thy ===== *)
theory SystemRely
  imports SystemInv
begin

text \<open>
  What a request may rely on while it runs: the others take steps of \<^verbatim>\<open>nexo_step\<close>, and no
  conversation comes to the end of its 64-bit seqs. The lemmas give what is stable under that:
  the invariant, the rows of groups, the existence of users, every message, and the part of a
  conversation a member has already seen.
\<close>

definition roomy :: "Tables \<Rightarrow> bool" where
  "roomy t \<longleftrightarrow> (\<forall>i c. convs t i = Some c \<longrightarrow> has_room (conv_MaxSeq c))"

definition nexo_rely :: "int \<Rightarrow> Tables \<Rightarrow> Tables \<Rightarrow> bool" where
  "nexo_rely mm = (\<lambda>t t'. nexo_step mm t t' \<and> roomy t')\<^sup>*\<^sup>*"

text \<open>The state a request starts in.\<close>

definition nexo_ok :: "int \<Rightarrow> Tables \<Rightarrow> bool" where
  "nexo_ok mm t \<longleftrightarrow> nexo_inv mm t \<and> roomy t"

lemma nexo_rely_refl [simp]: "nexo_rely mm t t"
  by (simp add: nexo_rely_def)

lemma nexo_rely_trans [trans]: "nexo_rely mm t t' \<Longrightarrow> nexo_rely mm t' t'' \<Longrightarrow> nexo_rely mm t t''"
  unfolding nexo_rely_def by (rule rtranclp_trans)

lemma nexo_rely_reflclp: "(nexo_rely mm)\<^sup>=\<^sup>= = nexo_rely mm"
  by (auto simp: fun_eq_iff)

lemma nexo_rely_steps: "nexo_rely mm t t' \<Longrightarrow> (nexo_step mm)\<^sup>*\<^sup>* t t'"
  unfolding nexo_rely_def by (erule rtranclp_mono [THEN predicate2D, rotated]) auto

lemma nexo_steps_inv: "(nexo_step mm)\<^sup>*\<^sup>* t t' \<Longrightarrow> nexo_inv mm t \<Longrightarrow> nexo_inv mm t'"
  by (induction rule: rtranclp_induct) (auto intro: nexo_step_inv)

lemma nexo_rely_ok: "nexo_rely mm t t' \<Longrightarrow> nexo_ok mm t \<Longrightarrow> nexo_ok mm t'"
  unfolding nexo_rely_def nexo_ok_def
  by (induction rule: rtranclp_induct) (auto intro: nexo_step_inv)

lemma roomy_locked: "roomy t \<Longrightarrow> has_room (conv_MaxSeq (locked i ty g now t))"
  by (auto simp: roomy_def locked_def new_conversation_def has_room_def split: option.split)

section \<open>What one step keeps\<close>

text \<open>A group's row, and a user's existence.\<close>

lemma nexo_step_groups: "nexo_step mm t t' \<Longrightarrow> groups t g = Some r \<Longrightarrow> groups t' g = Some r"
  by (erule nexo_step.cases) (auto simp: join_effect_def remove_effect_def Let_def)

lemma nexo_step_users: "nexo_step mm t t' \<Longrightarrow> users t u \<noteq> None \<Longrightarrow> users t' u \<noteq> None"
  by (erule nexo_step.cases) (auto simp: join_effect_def remove_effect_def Let_def)

text \<open>Messages are never changed or removed.\<close>

lemma nexo_step_msgs:
  assumes "nexo_step mm t t'" "nexo_inv mm t" "msgs t k = Some m"
  shows "msgs t' k = Some m"
  using assms(1)
proof (cases rule: nexo_step.cases)
  case (send inp i uuid now)
  have "seq_inv t"
    using assms(2) by (simp add: nexo_inv_def)
  then have "msgs t (i, msg_Seq (sent_message inp i (new_message inp i uuid) now t)) = None"
    using send(5) by (rule sent_message_fresh)
  then show ?thesis
    using assms(3) send(1) by (auto simp: fun_upd_apply)
qed (use assms(3) in \<open>auto simp: join_effect_def remove_effect_def Let_def\<close>)

text \<open>A conversation's max_seq and time never go back.\<close>

lemma locked_le:
  assumes "convs t i = Some c" "c' = locked j ty g now t"
  shows "\<exists>d. ((convs t)(j \<mapsto> c')) i = Some d \<and> conv_MaxSeq c \<le> conv_MaxSeq d \<and> conv_UpdatedAt c \<le> conv_UpdatedAt d"
  using assms by (cases "i = j") (auto simp: locked_Some)

lemma nexo_step_convs:
  assumes "nexo_step mm t t'" "nexo_inv mm t" "convs t i = Some c"
  shows "\<exists>c'. convs t' i = Some c' \<and> conv_MaxSeq c \<le> conv_MaxSeq c' \<and> conv_UpdatedAt c \<le> conv_UpdatedAt c'"
  using assms(1)
proof (cases rule: nexo_step.cases)
  case (send inp j uuid now)
  have inv: "seq_inv t"
    using assms(2) by (simp add: nexo_inv_def)
  note seq = sent_message_seq [OF inv send(5), of "new_message inp j uuid"]
  show ?thesis
    using assms(3) sent_message_time [of j inp now t "new_message inp j uuid"]
    by (cases "i = j") (auto simp: send(1) seq locked_Some)
next
  case create
  then show ?thesis
    using locked_le [OF assms(3)] by auto
next
  case join
  then show ?thesis
    using locked_le [OF assms(3)] by (auto simp: join_effect_def Let_def)
next
  case remove
  then show ?thesis
    using locked_le [OF assms(3)] by (auto simp: remove_effect_def Let_def)
qed (use assms(3) in auto)

text \<open>What is in a member's sight stays at or below the end of the view: the view is frozen only
  at the current max_seq, and a row goes away only when there is no message.\<close>

definition sees_up_to :: "Tables \<Rightarrow> string \<Rightarrow> string \<Rightarrow> int64 \<Rightarrow> bool" where
  "sees_up_to t ow i s \<longleftrightarrow>
     (\<exists>uc c. uconvs t (ow, i) = Some uc \<and> convs t i = Some c \<and> s \<le> VisibleMax uc (conv_MaxSeq c))"

lemma nexo_step_sees:
  assumes step: "nexo_step mm t t'" and inv: "nexo_inv mm t" and s: "sees_up_to t ow i s" "1 \<le> s"
  shows "sees_up_to t' ow i s"
proof -
  obtain uc c where uc: "uconvs t (ow, i) = Some uc" "convs t i = Some c" "s \<le> VisibleMax uc (conv_MaxSeq c)"
    using s(1) by (auto simp: sees_up_to_def)
  have "range_ok uc (conv_MaxSeq c)"
    using inv uc(1,2) unfolding nexo_inv_def range_inv_def by force
  then have mx: "s \<le> conv_MaxSeq c" "0 \<le> uc_MaxSeq uc" "uc_MaxSeq uc \<noteq> 0 \<Longrightarrow> s \<le> uc_MaxSeq uc"
    using uc(3) by (auto simp: range_ok_def VisibleMax_def split: if_splits)
  obtain c' where c': "convs t' i = Some c'" "conv_MaxSeq c \<le> conv_MaxSeq c'"
    using nexo_step_convs [OF step inv uc(2)] by blast
  have "\<exists>uc'. uconvs t' (ow, i) = Some uc' \<and> (uc_MaxSeq uc' = uc_MaxSeq uc \<or> uc_MaxSeq uc' = 0 \<or> s \<le> uc_MaxSeq uc')"
    using step
  proof (cases rule: nexo_step.cases)
    case (send inp j uuid now)
    have ne: "in_SessionType inp = ConversationSingle \<longrightarrow> in_SenderId inp \<noteq> in_RecvId inp"
      using send(2) by (auto simp: routable_def store_consts)
    have "uconvs t' (ow, i) \<noteq> None"
      unfolding send(1) send_effect_simps by (rule touched_dom [of "uconvs t" "(ow, i)" uc, OF uc(1)])
    then obtain uc' where uc': "uconvs t' (ow, i) = Some uc'"
      by blast
    show ?thesis
      using touched_row [OF uc' [unfolded send(1) send_effect_simps] ne] uc(1) uc'
      by (auto simp: row_kept_def row_new_def)
  next
    case (create g ids now)
    then show ?thesis
      using no_group(2) [OF inv create(2), of ow] uc(1) by auto
  next
    case (join gid u now)
    then show ?thesis
      using uc(1) by (cases "(ow, i) = (u, GroupConv gid)") (auto simp: join_effect_def Let_def joined_uc_simps)
  next
    case (remove gid g u now)
    show ?thesis
    proof (cases "(ow, i) = (u, GroupConv gid)")
      case True
      then show ?thesis
        using uc mx(1) s(2) by (auto simp: remove(1) remove_effect_def Let_def alter_def locked_Some)
    next
      case False
      then have "uconvs t' (ow, i) = Some uc"
        using uc(1) by (auto simp: remove(1) remove_effect_def Let_def alter_def split: option.split)
      then show ?thesis
        by simp
    qed
  next
    case (read ow' j uc1 c1 rd)
    then show ?thesis
      using uc(1) by (cases "(ow, i) = (ow', j)") (auto simp: advance_read_def alter_def)
  next
    case (opt ow' j uc1 a p)
    then show ?thesis
      using uc(1) by auto
  next
    case users
    then show ?thesis
      using uc(1) by simp
  next
    case conns
    then show ?thesis
      using uc(1) by simp
  qed
  then obtain uc' where "uconvs t' (ow, i) = Some uc'" "uc_MaxSeq uc' = uc_MaxSeq uc \<or> uc_MaxSeq uc' = 0 \<or> s \<le> uc_MaxSeq uc'"
    by blast
  moreover from this have "s \<le> VisibleMax uc' (conv_MaxSeq c')"
    using mx c'(2) by (auto simp: VisibleMax_def)
  ultimately show ?thesis
    using c'(1) by (auto simp: sees_up_to_def)
qed

section \<open>What any number of steps keeps\<close>

lemma nexo_rely_groups: "nexo_rely mm t t' \<Longrightarrow> groups t g = Some r \<Longrightarrow> groups t' g = Some r"
  unfolding nexo_rely_def by (induction rule: rtranclp_induct) (auto intro: nexo_step_groups)

lemma nexo_rely_users: "nexo_rely mm t t' \<Longrightarrow> users t u \<noteq> None \<Longrightarrow> users t' u \<noteq> None"
  unfolding nexo_rely_def by (induction rule: rtranclp_induct) (auto dest: nexo_step_users)

lemma nexo_rely_msgs:
  assumes "nexo_rely mm t t'" "nexo_ok mm t" "msgs t k = Some m"
  shows "msgs t' k = Some m"
  using assms(1)
  unfolding nexo_rely_def
proof (induction rule: rtranclp_induct)
  case (step t1 t2)
  then have "nexo_inv mm t1"
    using nexo_rely_ok [unfolded nexo_rely_def, OF step(1) assms(2)] by (simp add: nexo_ok_def)
  then show ?case
    using step nexo_step_msgs by blast
qed (rule assms(3))

lemma nexo_rely_ran:
  assumes "nexo_rely mm t t'" "nexo_ok mm t" "m \<in> ran (msgs t)"
  shows "m \<in> ran (msgs t')"
  using assms(3) nexo_rely_msgs [OF assms(1,2)] unfolding ran_def by blast

lemma nexo_rely_sees:
  assumes "nexo_rely mm t t'" "nexo_ok mm t" "sees_up_to t ow i s" "1 \<le> s"
  shows "sees_up_to t' ow i s"
  using assms(1)
  unfolding nexo_rely_def
proof (induction rule: rtranclp_induct)
  case (step t1 t2)
  then have "nexo_inv mm t1"
    using nexo_rely_ok [unfolded nexo_rely_def, OF step(1) assms(2)] by (simp add: nexo_ok_def)
  then show ?case
    using step nexo_step_sees assms(4) by blast
qed (rule assms(3))

end
