(* ===== verification/MessageProofs.thy ===== *)
theory MessageProofs
  imports SystemRely
begin

text \<open>
  What a call of \<^verbatim>\<open>Send\<close> does while other requests run, on any store that keeps the contract.
  \<^verbatim>\<open>Send_outcome\<close> lists the ways it ends, each with its result, the tables and the service's
  state; the locale \<^verbatim>\<open>msg_store\<close> proves that there are no others.
\<close>

section \<open>How a send ends\<close>

definition normalized :: "SendInput \<Rightarrow> SendInput" where
  "normalized inp = (if in_SessionType inp = ConversationSingle then inp\<lparr>in_GroupId := []\<rparr>
     else inp\<lparr>in_RecvId := []\<rparr>)"

definition dest :: "SendInput \<Rightarrow> string" where
  "dest inp = (if in_SessionType inp = ConversationSingle then Single (in_SenderId inp) (in_RecvId inp)
     else GroupConv (in_GroupId inp))"

lemma normalized_simps [simp]:
  "in_SenderId (normalized inp) = in_SenderId inp" "in_SenderConnId (normalized inp) = in_SenderConnId inp"
  "in_ClientMsgId (normalized inp) = in_ClientMsgId inp" "in_SessionType (normalized inp) = in_SessionType inp"
  "in_ContentType (normalized inp) = in_ContentType inp" "in_Content (normalized inp) = in_Content inp"
  "in_SenderRead (normalized inp) = in_SenderRead inp" "in_Unlimited (normalized inp) = in_Unlimited inp"
  by (simp_all add: normalized_def)

text \<open>The request's idempotency key.\<close>

definition send_key :: "SendInput \<Rightarrow> string \<times> string \<times> string" where
  "send_key inp = (dest inp, in_SenderId inp, in_ClientMsgId inp)"

text \<open>The service's state after the limiter was asked, after a republish, and after a commit.\<close>

definition charged :: "('db, 'lim) MsgService \<Rightarrow> SendInput \<Rightarrow> time \<Rightarrow> 'lim MsgState \<Rightarrow> 'lim MsgState" where
  "charged s inp now w = (if in_Unlimited inp then w
     else w\<lparr>m_sendLimit := snd (Allow (s_limiter s) (in_SenderId inp) now (m_sendLimit w))\<rparr>)"

definition within_limit :: "('db, 'lim) MsgService \<Rightarrow> SendInput \<Rightarrow> time \<Rightarrow> 'lim MsgState \<Rightarrow> bool" where
  "within_limit s inp now w \<longleftrightarrow>
     in_Unlimited inp \<or> fst (Allow (s_limiter s) (in_SenderId inp) now (m_sendLimit w))"

definition republished :: "Message \<Rightarrow> SendInput \<Rightarrow> 'lim MsgState \<Rightarrow> 'lim MsgState" where
  "republished m inp w = w\<lparr>m_republished := i64 (m_republished w + 1),
     m_published := m_published w @ [push_event m (in_SenderConnId inp)]\<rparr>"

definition after_commit :: "('db, 'lim) MsgService \<Rightarrow> Message \<Rightarrow> SendInput \<Rightarrow> 'lim MsgState \<Rightarrow> 'lim MsgState" where
  "after_commit s m inp w =
     (let ev = push_event m (in_SenderConnId inp); w = w\<lparr>m_published := m_published w @ [ev]\<rparr>
      in if s_pusher s then snd (run_state (spawnOfflinePush ev) w) else w)"

text \<open>The tables \<^verbatim>\<open>t\<close> let the request commit its message.\<close>

definition can_commit :: "SendInput \<Rightarrow> time \<Rightarrow> string \<Rightarrow> Tables \<Rightarrow> bool" where
  "can_commit inp now uuid t \<longleftrightarrow> routable (normalized inp) (dest inp) t \<and> may_send (normalized inp) t \<and>
     \<not> message_conflict (sent_message (normalized inp) (dest inp) (new_message (normalized inp) (dest inp) uuid) now t) t"

abbreviation committed_message :: "SendInput \<Rightarrow> time \<Rightarrow> string \<Rightarrow> Tables \<Rightarrow> Message" where
  "committed_message inp now uuid t \<equiv>
     sent_message (normalized inp) (dest inp) (new_message (normalized inp) (dest inp) uuid) now t"

abbreviation committed_tables :: "SendInput \<Rightarrow> time \<Rightarrow> string \<Rightarrow> Tables \<Rightarrow> Tables" where
  "committed_tables inp now uuid t \<equiv>
     send_effect (normalized inp) (dest inp) (new_message (normalized inp) (dest inp) uuid) now t"

inductive Send_outcome :: "(Tables \<Rightarrow> Tables \<Rightarrow> bool) \<Rightarrow> bool \<Rightarrow> ('db, 'lim) MsgService \<Rightarrow> SendInput \<Rightarrow> time \<Rightarrow> string \<Rightarrow> Tables \<Rightarrow>
    'lim MsgState \<Rightarrow> Ack result \<Rightarrow> Tables \<Rightarrow> 'lim MsgState \<Rightarrow> bool"
  for Rl b s inp now uuid t w where
  invalid: "validate s inp = Some e \<Longrightarrow> Send_outcome Rl b s inp now uuid t w (fail e) t w"
| no_user: "validate s inp = None \<Longrightarrow> in_SessionType inp = ConversationSingle \<Longrightarrow> Rl t t' \<Longrightarrow>
    users t' (in_RecvId inp) = None \<Longrightarrow> Send_outcome Rl b s inp now uuid t w (fail ErrUserNotFound) t' w"
| no_group: "validate s inp = None \<Longrightarrow> in_SessionType inp \<noteq> ConversationSingle \<Longrightarrow> Rl t t' \<Longrightarrow>
    groups t' (in_GroupId inp) = None \<Longrightarrow> Send_outcome Rl b s inp now uuid t w (fail ErrGroupNotFound) t' w"
| unreadable: "validate s inp = None \<Longrightarrow> \<not> b \<Longrightarrow> Rl t t' \<Longrightarrow> driver_error e \<Longrightarrow>
    w' = w \<or> w' = charged s inp now w \<Longrightarrow> Send_outcome Rl b s inp now uuid t w (Inl (store_failed e)) t' w'"
| retry: "validate s inp = None \<Longrightarrow> Rl t t' \<Longrightarrow> m \<in> ran (msgs t') \<Longrightarrow> clientKey m = send_key inp \<Longrightarrow>
    w' = w \<or> w' = charged s inp now w \<or>
      w' = republished m inp (charged s inp now w) \<and> may_send (normalized inp) t' \<and> within_limit s inp now w \<Longrightarrow>
    Send_outcome Rl b s inp now uuid t w (Inr (ack m)) t' w'"
| limited: "validate s inp = None \<Longrightarrow> Rl t t' \<Longrightarrow> \<not> within_limit s inp now w \<Longrightarrow>
    Send_outcome Rl b s inp now uuid t w (fail (WithMessage ErrTooManyRequests ''message send rate limit''))
      t' (charged s inp now w)"
| committed: "validate s inp = None \<Longrightarrow> within_limit s inp now w \<Longrightarrow> Rl t t1 \<Longrightarrow>
    can_commit inp now uuid t1 \<Longrightarrow>
    Send_outcome Rl b s inp now uuid t w (Inr (ack (committed_message inp now uuid t1)))
      (committed_tables inp now uuid t1)
      (after_commit s (committed_message inp now uuid t1) inp (charged s inp now w))"
| refused: "validate s inp = None \<Longrightarrow> within_limit s inp now w \<Longrightarrow> Rl t t' \<Longrightarrow>
    send_refused (normalized inp) t' e \<Longrightarrow>
    Send_outcome Rl b s inp now uuid t w (Inl (Or e ErrMessageSendFailed)) t' (charged s inp now w)"
| duplicate: "validate s inp = None \<Longrightarrow> within_limit s inp now w \<Longrightarrow> Rl t t1 \<Longrightarrow>
    may_send (normalized inp) t1 \<Longrightarrow> Rl t1 t' \<Longrightarrow> m \<in> ran (msgs t') \<Longrightarrow> clientKey m = send_key inp \<Longrightarrow>
    Send_outcome Rl b s inp now uuid t w (Inr (ack m)) t' (republished m inp (charged s inp now w))"
| collided: "validate s inp = None \<Longrightarrow> within_limit s inp now w \<Longrightarrow> Rl t t' \<Longrightarrow>
    \<forall>m \<in> ran (msgs t'). clientKey m \<noteq> send_key inp \<Longrightarrow> m \<in> ran (msgs t') \<Longrightarrow> msg_ServerMsgId m = uuid \<Longrightarrow>
    Send_outcome Rl b s inp now uuid t w
      (fail (Wrap ErrSeqAllocFailed (Some (Sentinel store_ErrNotFound)))) t' (charged s inp now w)"
| failed: "validate s inp = None \<Longrightarrow> within_limit s inp now w \<Longrightarrow> \<not> b \<Longrightarrow> driver_error e \<Longrightarrow>
    Rl t t1 \<Longrightarrow> t' = t1 \<or> can_commit inp now uuid t1 \<and> t' = committed_tables inp now uuid t1 \<Longrightarrow>
    Send_outcome Rl b s inp now uuid t w (Inl (Or e ErrMessageSendFailed)) t' (charged s inp now w)"

section \<open>The proof\<close>

text \<open>The other requests: what they commit between two statements is a run of steps.\<close>

locale nexo_store = store_tx st tx I T H Rl
  for st :: "('db, 'c) StoreTx" and tx :: "'db StoreOps" and I T H Rl +
  fixes mm :: int
  assumes Rl_rely: "Rl t t' \<Longrightarrow> nexo_rely mm t t'"
    and Rl_refl [simp]: "Rl t t"
    and Rl_trans: "Rl t t' \<Longrightarrow> Rl t' t'' \<Longrightarrow> Rl t t''"
begin

lemmas Rl_ok = nexo_rely_ok [OF Rl_rely]
  and Rl_groups = nexo_rely_groups [OF Rl_rely]
  and Rl_users = nexo_rely_users [OF Rl_rely]
  and Rl_msgs = nexo_rely_msgs [OF Rl_rely]
  and Rl_ran = nexo_rely_ran [OF Rl_rely]
  and Rl_sees = nexo_rely_sees [OF Rl_rely]

end

locale msg_store = nexo_store "st :: ('db, Message \<times> bool) StoreTx" tx I T H Rl mm
  for st tx I T H Rl mm

lemma driver_error_not_found: "driver_error e \<Longrightarrow> \<not> is_not_found e"
  by (simp add: driver_error_def)

lemma driver_error_rollback: "driver_error e \<Longrightarrow> e \<noteq> Sentinel message_errRollback"
  by (auto simp: driver_error_def)

lemma validate_None:
  assumes "validate s inp = None"
  shows "in_SessionType inp = ConversationSingle \<or> in_SessionType inp = ConversationGroup"
    "in_SessionType inp = ConversationSingle \<Longrightarrow> in_SenderId inp \<noteq> in_RecvId inp \<and> Valid (in_RecvId inp)"
    "in_SessionType inp = ConversationGroup \<Longrightarrow> in_GroupId inp \<noteq> []"
    "ValidType (in_ContentType inp)" "int (length (in_Content inp)) \<le> s_maxContent s" "s_jsonValid s (in_Content inp)"
    "in_ClientMsgId inp \<noteq> []" "length (in_ClientMsgId inp) \<le> 64"
  using assms by (auto simp: validate_def store_consts split: if_splits)

context nexo_store
begin

lemma ok_keyed: "nexo_ok mm t \<Longrightarrow> Rl t t1 \<Longrightarrow> keyed t1"
  using Rl_ok by (auto simp: nexo_ok_def nexo_inv_def)

lemma wp_normalizeDestination:
  assumes "nexo_ok mm t"
    and "\<And>t1. Rl t t1 \<Longrightarrow> in_SessionType inp = ConversationSingle \<Longrightarrow> users t1 (in_RecvId inp) \<noteq> None \<Longrightarrow>
      Q (Inr (dest inp, None, normalized inp)) t1"
    and "\<And>t1 g. Rl t t1 \<Longrightarrow> in_SessionType inp \<noteq> ConversationSingle \<Longrightarrow> groups t1 (in_GroupId inp) = Some g \<Longrightarrow>
      Q (Inr (dest inp, Some g, normalized inp)) t1"
    and "\<And>t1. Rl t t1 \<Longrightarrow> in_SessionType inp = ConversationSingle \<Longrightarrow> users t1 (in_RecvId inp) = None \<Longrightarrow>
      Q (fail ErrUserNotFound) t1"
    and "\<And>t1. Rl t t1 \<Longrightarrow> in_SessionType inp \<noteq> ConversationSingle \<Longrightarrow> groups t1 (in_GroupId inp) = None \<Longrightarrow>
      Q (fail ErrGroupNotFound) t1"
    and "\<And>t1 e. Rl t t1 \<Longrightarrow> \<not> b \<Longrightarrow> driver_error e \<Longrightarrow> Q (Inl (store_failed e)) t1"
  shows "wp I T H b (normalizeDestination st inp) Q t"
proof (cases "in_SessionType inp = ConversationSingle")
  case True
  have "Q (Inr (Single (in_SenderId inp) (user_Id u), None, inp\<lparr>in_RecvId := user_Id u, in_GroupId := []\<rparr>)) t1"
    if "Rl t t1" "users t1 (in_RecvId inp) = Some u" for t1 u
  proof -
    have "user_Id u = in_RecvId inp"
      using keyedD(1) [OF ok_keyed [OF assms(1) that(1)] that(2)] .
    then show ?thesis
      using assms(2) [OF that(1) True] that(2) True by (simp add: dest_def normalized_def)
  qed
  then show ?thesis
    using True assms(4,6)
    by (auto simp: normalizeDestination_def Let_def driver_error_not_found intro!: wp_bind wp_GetUser wp_return)
next
  case False
  have "Q (Inr (GroupConv (group_Id g), Some g, inp\<lparr>in_GroupId := group_Id g, in_RecvId := []\<rparr>)) t1"
    if "Rl t t1" "groups t1 (in_GroupId inp) = Some g" for t1 g
  proof -
    have "group_Id g = in_GroupId inp"
      using keyedD(2) [OF ok_keyed [OF assms(1) that(1)] that(2)] .
    then show ?thesis
      using assms(3) [OF that(1) False that(2)] False by (simp add: dest_def normalized_def)
  qed
  then show ?thesis
    using False assms(5,6)
    by (auto simp: normalizeDestination_def Let_def driver_error_not_found intro!: wp_bind wp_GetGroup wp_return)
qed

lemma wp_republishAllowed:
  assumes "nexo_ok mm t" "groups t (in_GroupId inp) = g"
    and "in_SessionType inp = ConversationGroup \<Longrightarrow> g \<noteq> None"
    and "\<And>t1. Rl t t1 \<Longrightarrow> may_send inp t1 \<Longrightarrow> Q True t1" "\<And>t1. Rl t t1 \<Longrightarrow> Q False t1"
  shows "wp I T H b (republishAllowed st inp g) Q t"
proof (cases "in_SessionType inp = ConversationGroup")
  case True
  then obtain r where r: "g = Some r"
    using assms(3) by blast
  have key: "group_Id r = in_GroupId inp"
    using keyedD(2) [OF ok_keyed [OF assms(1) Rl_refl]] assms(2) r by simp
  have "may_send inp t1"
    if "Rl t t1" "members t1 (in_GroupId inp, in_SenderId inp) = Some x"
      "group_Status r \<noteq> GroupStatusDismissed" for t1 x
    using that Rl_groups [OF that(1), of "in_GroupId inp" r] assms(2) r by (simp add: may_send_def)
  then show ?thesis
    using True assms(4,5)
    by (auto simp: republishAllowed_def r checkGroupSend_def key intro!: wp_bind wp_GetGroupMember wp_return)
next
  case False
  then show ?thesis
    using assms(4) [OF Rl_refl] by (auto simp: republishAllowed_def may_send_def intro!: wp_return)
qed

end

text \<open>What the service's own actions return and leave.\<close>

lemma run_sendLimit_Allow:
  "run_state (if in_Unlimited inp then State_Monad.return True else sendLimit_Allow s (in_SenderId inp) now) w =
     (within_limit s inp now w, charged s inp now w)"
  by (simp add: sendLimit_Allow_def within_limit_def charged_def split: prod.split)

lemma run_republish: "run_state (republish m (in_SenderConnId inp)) w = ((), republished m inp w)"
  by (simp add: republish_def publish_def republished_def Let_def)

lemma wp2_on_svc_limit:
  assumes "Q (within_limit s inp now w) t (charged s inp now w)"
  shows "wp2 I T H b (if in_Unlimited inp then State_Monad.return True
      else on_svc (sendLimit_Allow s (in_SenderId inp) now)) Q t w"
  using assms
  by (auto simp: sendLimit_Allow_def within_limit_def charged_def split: prod.splits
      intro!: wp2_return wp2_on_svc)

context msg_store
begin

lemma wp2_Send_retry:
  assumes "s_store s = st" "validate s inp = None" "nexo_ok mm t" "Rl t t1"
    and "in_SessionType inp = ConversationGroup \<Longrightarrow> g \<noteq> None \<and> groups t1 (in_GroupId inp) = g"
    and m: "m \<in> ran (msgs t1)" "clientKey m = send_key inp"
  shows "wp2 I T H b (Send_retry s (normalized inp) g m now) (Send_outcome Rl b s inp now uuid t w) t1 w"
proof -
  have ok: "nexo_ok mm t1"
    using assms(3,4) Rl_ok by blast
  have stays: "m \<in> ran (msgs t2)" if "Rl t1 t2" for t2
    using Rl_ran [OF that ok m(1)] .
  have fin: "Send_outcome Rl b s inp now uuid t w (Inr (ack m)) t2 w'"
    if "Rl t1 t2" "w' = w \<or> w' = charged s inp now w \<or>
      w' = republished m inp (charged s inp now w) \<and> may_send (normalized inp) t2 \<and> within_limit s inp now w" for t2 w'
    using Send_outcome.retry [where Rl = Rl, OF assms(2) Rl_trans [OF assms(4) that(1)] stays [OF that(1)] m(2) that(2)] .
  have allowed: "wp I T H b (republishAllowed st (normalized inp) g) Q t1"
    if "\<And>t2. Rl t1 t2 \<Longrightarrow> may_send (normalized inp) t2 \<Longrightarrow> Q True t2" "\<And>t2. Rl t1 t2 \<Longrightarrow> Q False t2" for Q
  proof (cases "in_SessionType inp = ConversationGroup")
    case True
    then have "in_GroupId (normalized inp) = in_GroupId inp"
      by (simp add: normalized_def store_consts)
    then show ?thesis
      using wp_republishAllowed [OF ok, of "normalized inp" g Q b] assms(5) True that by simp
  next
    case False
    then show ?thesis
      using that(1) [OF Rl_refl] by (auto simp: republishAllowed_def may_send_def intro!: wp_return)
  qed
  show ?thesis
    unfolding Send_retry_def assms(1) normalized_simps
  proof (intro wp2_bind wp2_on_db allowed)
    fix t2
    assume t2: "Rl t1 t2" "may_send (normalized inp) t2"
    then show "wp2 I T H b (if True then (if in_Unlimited inp then State_Monad.return True
          else on_svc (sendLimit_Allow s (in_SenderId inp) now)) \<bind> (\<lambda>allowed. if allowed
            then on_svc (republish m (in_SenderConnId inp)) else State_Monad.return ())
        else State_Monad.return ())
      (\<lambda>r t' w'. wp2 I T H b (State_Monad.return (Inr (ack m))) (Send_outcome Rl b s inp now uuid t w) t' w') t2 w"
      by (simp only: if_True, intro wp2_bind wp2_on_svc_limit)
        (auto simp: run_republish intro!: wp2_return wp2_on_svc fin)
  next
    fix t2
    assume t2: "Rl t1 t2"
    then show "wp2 I T H b (if False then (if in_Unlimited inp then State_Monad.return True
          else on_svc (sendLimit_Allow s (in_SenderId inp) now)) \<bind> (\<lambda>allowed. if allowed
            then on_svc (republish m (in_SenderConnId inp)) else State_Monad.return ())
        else State_Monad.return ())
      (\<lambda>r t' w'. wp2 I T H b (State_Monad.return (Inr (ack m))) (Send_outcome Rl b s inp now uuid t w) t' w') t2 w"
      by (auto intro!: wp2_return fin)
  qed
qed

end

context msg_store
begin

text \<open>A conflict that is not the request's own key is one of server ids.\<close>

lemma conflict_cases:
  assumes "nexo_ok mm t" "message_conflict (committed_message inp now uuid t) t"
  shows "(\<exists>m \<in> ran (msgs t). clientKey m = send_key inp) \<or> (\<exists>m \<in> ran (msgs t). msg_ServerMsgId m = uuid)"
proof -
  let ?m = "committed_message inp now uuid t"
  obtain old where old: "old \<in> ran (msgs t)"
      "msgKey old = msgKey ?m \<or> msg_ServerMsgId old = msg_ServerMsgId ?m \<or> clientKey old = clientKey ?m"
    using assms(2) by (auto simp: message_conflict_def)
  have inv: "keyed t" "seq_inv t" and room: "has_room (conv_MaxSeq (locked i ty g now t))" for i ty g
    using assms(1) by (simp_all add: nexo_ok_def nexo_inv_def roomy_locked)
  have "msgs t (msgKey ?m) = None"
    using sent_message_fresh [OF inv(2) room, of "dest inp" "normalized inp"] by (simp add: msgKey_def)
  moreover obtain k where "msgs t k = Some old"
    using old(1) unfolding ran_def by blast
  moreover from this have "msgKey old = k"
    by (rule keyedD(6) [OF inv(1)])
  ultimately have "msgKey old \<noteq> msgKey ?m"
    by auto
  then show ?thesis
    using old by (auto simp: clientKey_def send_key_def)
qed

lemma wp2_Send_duplicate:
  assumes "s_store s = st" "validate s inp = None" "nexo_ok mm t" "Rl t t1" "within_limit s inp now w"
    and "may_send (normalized inp) t1" "message_conflict (committed_message inp now uuid t1) t1"
  shows "wp2 I T H b (Send_duplicate s (normalized inp) (dest inp)) (Send_outcome Rl b s inp now uuid t w) t1
    (charged s inp now w)"
proof -
  have ok: "nexo_ok mm t1"
    using assms(3,4) Rl_ok by blast
  have collided: "Send_outcome Rl b s inp now uuid t w
      (fail (Wrap ErrSeqAllocFailed (Some (Sentinel store_ErrNotFound)))) t2 (charged s inp now w)"
    if t2: "Rl t1 t2" and none: "\<forall>m \<in> ran (msgs t2). clientKey m \<noteq> send_key inp" for t2
  proof -
    obtain m where "m \<in> ran (msgs t2)" "msg_ServerMsgId m = uuid"
      using conflict_cases [OF ok assms(7)] Rl_ran [OF t2 ok] none by blast
    then show ?thesis
      using Send_outcome.collided [where Rl = Rl, OF assms(2,5) Rl_trans [OF assms(4) t2] none] by blast
  qed
  have unread: "Send_outcome Rl b' s inp now uuid t w (Inl (store_failed e)) t2 (charged s inp now w)"
    if "Rl t1 t2" "\<not> b'" "driver_error e" for t2 e b'
    using Send_outcome.unreadable [where Rl = Rl, OF assms(2) that(2) Rl_trans [OF assms(4) that(1)] that(3)] by blast
  have dup: "Send_outcome Rl b s inp now uuid t w (Inr (ack m)) t2 (republished m inp (charged s inp now w))"
    if "Rl t1 t2" "m \<in> ran (msgs t2)" "clientKey m = send_key inp" for t2 m
    using Send_outcome.duplicate [where Rl = Rl, OF assms(2,5,4,6) that] .
  show ?thesis
    unfolding Send_duplicate_def assms(1) normalized_simps send_key_def [symmetric]
  proof (intro wp2_bind wp2_on_db wp_GetMessageByClientId)
  qed (auto simp: run_republish driver_error_not_found send_key_def [symmetric]
      intro!: wp2_bind wp2_return wp2_on_svc collided dup unread)
qed

end

context msg_store
begin

lemma wp2_Send_committed:
  assumes "Q (Inr (ack m)) t (after_commit s m inp w)"
  shows "wp2 I T H b (Send_committed s (normalized inp) m) Q t w"
  unfolding Send_committed_def normalized_simps
  by (intro wp2_bind wp2_on_svc)
    (use assms in \<open>auto simp: publish_def after_commit_def Let_def case_prod_beta intro!: wp2_bind wp2_return wp2_on_svc\<close>)

text \<open>The transaction, seen from outside it.\<close>

lemma wp_Send_WithTx:
  assumes "nexo_ok mm t"
    and committed: "\<And>t1. Rl t t1 \<Longrightarrow> may_send (normalized inp) t1 \<Longrightarrow>
      \<not> message_conflict (committed_message inp now uuid t1) t1 \<Longrightarrow>
      Q (Inr (), committed_message inp now uuid t1, False) (committed_tables inp now uuid t1)"
    and duplicate: "\<And>t1 e. Rl t t1 \<Longrightarrow> may_send (normalized inp) t1 \<Longrightarrow>
      message_conflict (committed_message inp now uuid t1) t1 \<Longrightarrow>
      Q (Inl e, committed_message inp now uuid t1, True) t1"
    and refused: "\<And>t1 e m. Rl t t1 \<Longrightarrow> send_refused (normalized inp) t1 e \<Longrightarrow> Q (Inl e, m, False) t1"
    and failed: "\<And>t1 e m t'. Rl t t1 \<Longrightarrow> \<not> b \<Longrightarrow> driver_error e \<Longrightarrow>
      t' = t1 \<or> may_send (normalized inp) t1 \<and> \<not> message_conflict (committed_message inp now uuid t1) t1 \<and>
        t' = committed_tables inp now uuid t1 \<Longrightarrow> Q (Inl e, m, False) t'"
  shows "wp I T H b (WithTx st (Send_tx (normalized inp) (dest inp) (new_message (normalized inp) (dest inp) uuid) now) 
    (new_message (normalized inp) (dest inp) uuid, False)) Q t"
proof (rule wp_WithTx)
  fix t1 b'
  assume t1: "Rl t t1" "b \<Longrightarrow> b'"
  have k: "keyed t1"
    using ok_keyed [OF assms(1) t1(1)] .
  show "wp I T H b' (Send_tx (normalized inp) (dest inp) (new_message (normalized inp) (dest inp) uuid) now tx)
      (tx_post b Q t1) t1"
  proof (rule wp_mono [OF tx.wp_Send_tx [OF k]])
    fix rc t'
    assume post: "Send_tx_post b' (normalized inp) (dest inp) (new_message (normalized inp) (dest inp) uuid) now t1 rc t'"
    obtain r m dup where rc: "rc = (r, m, dup)"
      by (cases rc) auto
    show "tx_post b Q t1 rc t'"
    proof (cases r)
      case (Inr u)
      then show ?thesis
        using post rc committed [OF t1(1)] failed [OF t1(1)] by (auto simp: Send_tx_post_def)
    next
      case (Inl e)
      show ?thesis
      proof (cases dup)
        case True
        then show ?thesis
          using post rc Inl duplicate [OF t1(1)] by (auto simp: Send_tx_post_def)
      next
        case False
        then have "send_refused (normalized inp) t1 e \<or> \<not> b' \<and> driver_error e"
          using post rc Inl by (simp add: Send_tx_post_def)
        then have "Q (Inl e, m, False) t1"
          using refused [OF t1(1)] failed [OF t1(1), of e t1 m] t1(2) by blast
        then show ?thesis
          using rc Inl False by simp
      qed
    qed
  qed
next
  fix t1 e
  assume "Rl t t1" "\<not> b" "driver_error e"
  then show "Q (Inl e, new_message (normalized inp) (dest inp) uuid, False) t1"
    using failed by blast
qed

lemma routable_rely:
  assumes "validate s inp = None" "Rl t t1"
    and "in_SessionType inp = ConversationSingle \<Longrightarrow> users t (in_RecvId inp) \<noteq> None"
  shows "routable (normalized inp) (dest inp) t1"
  using validate_None(1,2) [OF assms(1)] Rl_users [OF assms(2)] assms(3)
  by (auto simp: routable_def normalized_def dest_def store_consts)

lemma wp2_Send_new:
  assumes "s_store s = st" "validate s inp = None" "nexo_ok mm t" "Rl t t1"
    and "in_SessionType inp = ConversationSingle \<Longrightarrow> users t1 (in_RecvId inp) \<noteq> None"
  shows "wp2 I T H b (Send_new s (normalized inp) (dest inp) now uuid) (Send_outcome Rl b s inp now uuid t w) t1 w"
proof -
  have ok: "nexo_ok mm t1"
    using assms(3,4) Rl_ok by blast
  have route: "routable (normalized inp) (dest inp) t2" if "Rl t1 t2" for t2
    using routable_rely [OF assms(2) that assms(5)] .
  show ?thesis
    unfolding Send_new_def assms(1) normalized_simps
  proof (intro wp2_bind wp2_on_svc_limit, cases "within_limit s inp now w")
    case False
    then show "wp2 I T H b (if \<not> within_limit s inp now w
        then State_Monad.return (fail (WithMessage ErrTooManyRequests ''message send rate limit''))
        else on_db (WithTx st (Send_tx (normalized inp) (dest inp) (new_message (normalized inp) (dest inp) uuid) now)
            (new_message (normalized inp) (dest inp) uuid, False)) \<bind>
          (\<lambda>(err, msg, duplicate). if duplicate then Send_duplicate s (normalized inp) (dest inp)
             else case err of Inl e \<Rightarrow> State_Monad.return (Inl (Or e ErrMessageSendFailed))
               | Inr _ \<Rightarrow> Send_committed s (normalized inp) msg))
      (Send_outcome Rl b s inp now uuid t w) t1 (charged s inp now w)"
      using Send_outcome.limited [where Rl = Rl, OF assms(2,4)] by (auto intro!: wp2_return)
  next
    case True
    have "wp2 I T H b (on_db (WithTx st (Send_tx (normalized inp) (dest inp) (new_message (normalized inp) (dest inp) uuid) now)
            (new_message (normalized inp) (dest inp) uuid, False)) \<bind>
          (\<lambda>(err, msg, duplicate). if duplicate then Send_duplicate s (normalized inp) (dest inp)
             else case err of Inl e \<Rightarrow> State_Monad.return (Inl (Or e ErrMessageSendFailed))
               | Inr _ \<Rightarrow> Send_committed s (normalized inp) msg))
      (Send_outcome Rl b s inp now uuid t w) t1 (charged s inp now w)"
    proof (intro wp2_bind wp2_on_db wp_Send_WithTx [OF ok], simp_all (no_asm) only: prod.case if_True if_False sum.case)
      fix t2
      assume t2: "Rl t1 t2" "may_send (normalized inp) t2"
        "\<not> message_conflict (committed_message inp now uuid t2) t2"
      then have "can_commit inp now uuid t2"
        using route by (simp add: can_commit_def)
      then show "wp2 I T H b (Send_committed s (normalized inp) (committed_message inp now uuid t2))
          (Send_outcome Rl b s inp now uuid t w) (committed_tables inp now uuid t2) (charged s inp now w)"
        using Send_outcome.committed [where Rl = Rl, OF assms(2) True Rl_trans [OF assms(4) t2(1)]]
        by (intro wp2_Send_committed) blast
    next
      fix t2
      assume t2: "Rl t1 t2" "may_send (normalized inp) t2"
        "message_conflict (committed_message inp now uuid t2) t2"
      then show "wp2 I T H b (Send_duplicate s (normalized inp) (dest inp))
          (Send_outcome Rl b s inp now uuid t w) t2 (charged s inp now w)"
        by (intro wp2_Send_duplicate [OF assms(1,2,3) Rl_trans [OF assms(4) t2(1)] True])
    next
      fix t2 e
      assume "Rl t1 t2" "send_refused (normalized inp) t2 e"
      then show "wp2 I T H b (State_Monad.return (Inl (Or e ErrMessageSendFailed)))
          (Send_outcome Rl b s inp now uuid t w) t2 (charged s inp now w)"
        using Send_outcome.refused [where Rl = Rl, OF assms(2) True Rl_trans [OF assms(4)]] by (intro wp2_return) blast
    next
      fix t2 e t'
      assume a: "Rl t1 t2" "\<not> b" "driver_error e" "t' = t2 \<or> may_send (normalized inp) t2 \<and>
        \<not> message_conflict (committed_message inp now uuid t2) t2 \<and> t' = committed_tables inp now uuid t2"
      then have "t' = t2 \<or> can_commit inp now uuid t2 \<and> t' = committed_tables inp now uuid t2"
        using route [OF a(1)] by (auto simp: can_commit_def)
      then show "wp2 I T H b (State_Monad.return (Inl (Or e ErrMessageSendFailed)))
          (Send_outcome Rl b s inp now uuid t w) t' (charged s inp now w)"
        using Send_outcome.failed [where Rl = Rl, OF assms(2) True a(2,3) Rl_trans [OF assms(4) a(1)]] by (intro wp2_return) blast
    qed
    then show "wp2 I T H b (if \<not> within_limit s inp now w
        then State_Monad.return (fail (WithMessage ErrTooManyRequests ''message send rate limit''))
        else on_db (WithTx st (Send_tx (normalized inp) (dest inp) (new_message (normalized inp) (dest inp) uuid) now)
            (new_message (normalized inp) (dest inp) uuid, False)) \<bind>
          (\<lambda>(err, msg, duplicate). if duplicate then Send_duplicate s (normalized inp) (dest inp)
             else case err of Inl e \<Rightarrow> State_Monad.return (Inl (Or e ErrMessageSendFailed))
               | Inr _ \<Rightarrow> Send_committed s (normalized inp) msg))
      (Send_outcome Rl b s inp now uuid t w) t1 (charged s inp now w)"
      using True by simp
  qed
qed

theorem wp2_Send:
  assumes "s_store s = st" "nexo_ok mm t"
  shows "wp2 I T H b (Send s inp now uuid) (Send_outcome Rl b s inp now uuid t w) t w"
proof (cases "validate s inp")
  case (Some e)
  then show ?thesis
    by (auto simp: Send_def intro!: wp2_return Send_outcome.invalid)
next
  case None
  have prior: "wp2 I T H b (on_db (GetMessageByClientId st (dest inp) (in_SenderId inp) (in_ClientMsgId inp)) \<bind>
      (\<lambda>prior. case prior of
          Inl e \<Rightarrow> if \<not> is_not_found e then State_Monad.return (Inl (store_failed e))
             else Send_new s (normalized inp) (dest inp) now uuid
        | Inr m \<Rightarrow> Send_retry s (normalized inp) g m now)) (Send_outcome Rl b s inp now uuid t w) t1 w"
    if t1: "Rl t t1" and u: "in_SessionType inp = ConversationSingle \<Longrightarrow> users t1 (in_RecvId inp) \<noteq> None"
      and g: "in_SessionType inp = ConversationGroup \<Longrightarrow> g \<noteq> None \<and> groups t1 (in_GroupId inp) = g" for t1 g
  proof (intro wp2_bind wp2_on_db wp_GetMessageByClientId, simp_all (no_asm) only: sum.case)
    fix t2 m
    assume t2: "Rl t1 t2" and m: "m \<in> ran (msgs t2)" "clientKey m = (dest inp, in_SenderId inp, in_ClientMsgId inp)"
    have "g \<noteq> None \<and> groups t2 (in_GroupId inp) = g" if "in_SessionType inp = ConversationGroup"
      using g [OF that] Rl_groups [OF t2] by auto
    then show "wp2 I T H b (Send_retry s (normalized inp) g m now) (Send_outcome Rl b s inp now uuid t w) t2 w"
      using m by (intro wp2_Send_retry [OF assms(1) None assms(2) Rl_trans [OF t1 t2]]) (simp_all add: send_key_def)
  next
    fix t2
    assume t2: "Rl t1 t2"
    show "wp2 I T H b (if \<not> is_not_found (Sentinel store_ErrNotFound)
        then State_Monad.return (Inl (store_failed (Sentinel store_ErrNotFound)))
        else Send_new s (normalized inp) (dest inp) now uuid) (Send_outcome Rl b s inp now uuid t w) t2 w"
      using wp2_Send_new [OF assms(1) None assms(2) Rl_trans [OF t1 t2]] Rl_users [OF t2] u by simp
  next
    fix t2 e
    assume "Rl t1 t2" "\<not> b" "driver_error e"
    then show "wp2 I T H b (if \<not> is_not_found e then State_Monad.return (Inl (store_failed e))
        else Send_new s (normalized inp) (dest inp) now uuid) (Send_outcome Rl b s inp now uuid t w) t2 w"
      using Send_outcome.unreadable [where Rl = Rl, OF None _ Rl_trans [OF t1]]
      by (simp add: driver_error_not_found wp2_return)
  qed
  have unread: "Send_outcome Rl b' s inp now uuid t w (Inl (store_failed e)) t1 w"
    if "Rl t t1" "\<not> b'" "driver_error e" for t1 e b'
    using Send_outcome.unreadable [where Rl = Rl, OF None that(2,1,3)] by blast
  show ?thesis
    unfolding Send_def assms(1) None option.case
    by (intro wp2_bind wp2_on_db wp_normalizeDestination [OF assms(2)])
      (auto simp: store_consts intro!: wp2_return unread prior Send_outcome.no_user [where Rl = Rl, OF None] Send_outcome.no_group [where Rl = Rl, OF None])
qed

end

end
