(* ===== verification/GroupProofs.thy ===== *)
theory GroupProofs
  imports MessageProofs
begin

text \<open>
  What the calls of the group service do while other requests run: the ways each ends, with its
  result, the tables and the notifications, and the proof that there are no others.
\<close>

section \<open>Rules of the statements used here\<close>

context store_statements
begin

lemma wp_CountGroupMembers:
  assumes "\<And>t1. Rl t t1 \<Longrightarrow> finite (roster t1 g) \<Longrightarrow> Q (Inr (int (card (roster t1 g)))) t1"
    and "\<And>t1 e. Rl t t1 \<Longrightarrow> \<not> b \<Longrightarrow> driver_error e \<Longrightarrow> Q (Inl e) t1"
  shows "wp I T H b (CountGroupMembers st g) Q t"
  using assms by (intro CountGroupMembers_ok [THEN wp_op]) (auto simp: CountGroupMembers_spec_def)

lemma wp_GetUsers:
  assumes "\<And>t1 us. Rl t t1 \<Longrightarrow> distinct us \<Longrightarrow> set us = {u. \<exists>i \<in> set ids. users t1 i = Some u} \<Longrightarrow> Q (Inr us) t1"
    and "\<And>t1 e. Rl t t1 \<Longrightarrow> \<not> b \<Longrightarrow> driver_error e \<Longrightarrow> Q (Inl e) t1"
  shows "wp I T H b (GetUsers st ids) Q t"
  using assms by (intro GetUsers_ok [THEN wp_op]) (auto simp: GetUsers_spec_def)

lemma wp_AddGroupMember:
  assumes "\<And>t1. Rl t t1 \<Longrightarrow> members t1 (memKey m) = None \<Longrightarrow> Q (Inr ()) (t1\<lparr>members := (members t1)(memKey m \<mapsto> m)\<rparr>)"
    and "\<And>t1. Rl t t1 \<Longrightarrow> members t1 (memKey m) \<noteq> None \<Longrightarrow> Q (Inl (Sentinel store_ErrDuplicate)) t1"
    and "\<And>e t'. \<not> b \<Longrightarrow> driver_error e \<Longrightarrow> Q (Inl e) t'"
  shows "wp I T H b (AddGroupMember st m) Q t"
proof (rule AddGroupMember_ok [THEN wp_op])
  fix t1 s t' assume "Rl t t1" "AddGroupMember_spec m t1 s t'"
  then show "Q (outcome s) t'"
    using assms(1,2) by (auto simp: AddGroupMember_spec_def split: if_splits)
qed (rule assms(3))

lemma wp_CreateGroup:
  assumes "\<And>t1. Rl t t1 \<Longrightarrow> groups t1 (group_Id g) = None \<Longrightarrow> distinct (map memKey ms) \<Longrightarrow>
      \<forall>m \<in> set ms. members t1 (memKey m) = None \<Longrightarrow>
      Q (Inr ()) (t1\<lparr>groups := (groups t1)(group_Id g \<mapsto> g),
                    members := members t1 ++ map_of (map (\<lambda>m. (memKey m, m)) ms)\<rparr>)"
    and "\<And>t1 t'. Rl t t1 \<Longrightarrow> \<not> (groups t1 (group_Id g) = None \<and> distinct (map memKey ms) \<and>
      (\<forall>m \<in> set ms. members t1 (memKey m) = None)) \<Longrightarrow> Q (Inl (Sentinel store_ErrDuplicate)) t'"
    and "\<And>e t'. \<not> b \<Longrightarrow> driver_error e \<Longrightarrow> Q (Inl e) t'"
  shows "wp I T H b (CreateGroup st g ms) Q t"
proof (rule CreateGroup_ok [THEN wp_op_tx])
  fix t1 s t' assume "Rl t t1" "CreateGroup_spec g ms t1 s t'"
  then show "Q (outcome s) t'"
    using assms(1,2) by (cases s) (auto simp: CreateGroup_spec_def)
qed (rule assms(3))

lemma wp_CreateUserConversations:
  assumes "\<And>t1. Rl t t1 \<Longrightarrow> distinct (map ucKey ucs) \<Longrightarrow> \<forall>uc \<in> set ucs. uconvs t1 (ucKey uc) = None \<Longrightarrow>
      Q (Inr ()) (t1\<lparr>uconvs := uconvs t1 ++ map_of (map (\<lambda>uc. (ucKey uc, stamp_created uc)) ucs)\<rparr>)"
    and "\<And>t1. Rl t t1 \<Longrightarrow> \<not> (distinct (map ucKey ucs) \<and> (\<forall>uc \<in> set ucs. uconvs t1 (ucKey uc) = None)) \<Longrightarrow>
      Q (Inl (Sentinel store_ErrDuplicate)) t1"
    and "\<And>e t'. \<not> b \<Longrightarrow> driver_error e \<Longrightarrow> Q (Inl e) t'"
  shows "wp I T H b (CreateUserConversations st ucs) Q t"
proof (rule CreateUserConversations_ok [THEN wp_op])
  fix t1 s t' assume "Rl t t1" "CreateUserConversations_spec ucs t1 s t'"
  then show "Q (outcome s) t'"
    using assms(1,2) by (auto simp: CreateUserConversations_spec_def split: if_splits)
qed (rule assms(3))

end

section \<open>The transactions\<close>

definition Join_tx_post :: "bool \<Rightarrow> string \<Rightarrow> string \<Rightarrow> int \<Rightarrow> time \<Rightarrow> Tables \<Rightarrow> unit result \<times> unit \<Rightarrow> Tables \<Rightarrow> bool" where
  "Join_tx_post b gid u mx now t rc t' \<longleftrightarrow>
     (case fst rc of
        Inr _ \<Rightarrow> members t (gid, u) = None \<and> int (card (roster t gid)) < mx \<and> t' = join_effect gid u now t
      | Inl e \<Rightarrow> (e = Of_errcode ErrAlreadyGroupMember \<and> members t (gid, u) \<noteq> None) \<or>
          (e = Of_errcode ErrGroupFull \<and> members t (gid, u) = None \<and> mx \<le> int (card (roster t gid))) \<or>
          (\<not> b \<and> driver_error e))"

text \<open>Why a removal is refused.\<close>

definition remove_refused :: "Group \<Rightarrow> string \<Rightarrow> string \<Rightarrow> Tables \<Rightarrow> Error \<Rightarrow> bool" where
  "remove_refused g op u t e \<longleftrightarrow>
     (let gid = group_Id g in
      if op = u then members t (gid, u) = None \<and> e = ErrNotGroupMember
      else (case members t (gid, op) of
          None \<Rightarrow> e = ErrNotGroupMember
        | Some om \<Rightarrow>
            if gm_Role om < RoleAdmin then e = ErrNotGroupAdmin
            else (case members t (gid, u) of
                None \<Rightarrow> e = ErrNotGroupMember
              | Some tm \<Rightarrow>
                  (u = group_OwnerId g \<and> e = ErrCannotKickOwner) \<or>
                  (u \<noteq> group_OwnerId g \<and> gm_Role om = RoleAdmin \<and> RoleAdmin \<le> gm_Role tm \<and> e = ErrNoPermission))))"

text \<open>The authority of a kick: an owner over anyone, an admin over plain members.\<close>

definition may_kick :: "Group \<Rightarrow> string \<Rightarrow> string \<Rightarrow> Tables \<Rightarrow> bool" where
  "may_kick g op u t \<longleftrightarrow>
     (\<exists>om tm. members t (group_Id g, op) = Some om \<and> RoleAdmin \<le> gm_Role om \<and>
        members t (group_Id g, u) = Some tm \<and> u \<noteq> group_OwnerId g \<and>
        \<not> (gm_Role om = RoleAdmin \<and> RoleAdmin \<le> gm_Role tm))"

definition remove_tx_post :: "bool \<Rightarrow> Group \<Rightarrow> string \<Rightarrow> string \<Rightarrow> time \<Rightarrow> Tables \<Rightarrow> unit result \<times> unit \<Rightarrow> Tables \<Rightarrow> bool" where
  "remove_tx_post b g op u now t rc t' \<longleftrightarrow>
     (case fst rc of
        Inr _ \<Rightarrow> members t (group_Id g, u) \<noteq> None \<and> (op \<noteq> u \<longrightarrow> may_kick g op u t) \<and>
               t' = remove_effect (group_Id g) u now t
      | Inl e \<Rightarrow> (\<exists>x. e = Of_errcode x \<and> remove_refused g op u t x) \<or>
               (\<not> b \<and> (driver_error e \<or> (\<exists>d. driver_error d \<and> e = store_failed d))))"

definition Create_tx_post :: "bool \<Rightarrow> Group \<Rightarrow> string list \<Rightarrow> time \<Rightarrow> Tables \<Rightarrow> unit result \<times> unit \<Rightarrow> Tables \<Rightarrow> bool" where
  "Create_tx_post b g ids now t rc t' \<longleftrightarrow>
     (case fst rc of
        Inr _ \<Rightarrow> groups t (group_Id g) = None \<and> t' = create_effect g ids now t
      | Inl e \<Rightarrow> (e = Sentinel store_ErrDuplicate \<and> groups t (group_Id g) \<noteq> None) \<or> (\<not> b \<and> driver_error e))"

context store_snapshot
begin

lemma wp_lock:
  assumes "Q (Inr (locked i ty g now t)) (t\<lparr>convs := (convs t)(i \<mapsto> locked i ty g now t)\<rparr>)"
    and "\<And>e t'. \<not> b \<Longrightarrow> driver_error e \<Longrightarrow> Q (Inl e) t'"
  shows "wp I T H b (LockConversation st i ty g now) Q t"
  using assms by (intro wp_LockConversation) (auto simp: locked_def fun_upd_idem)

lemma wp_Join_tx: "wp I T H b (Join_tx gid u mx now st) (Join_tx_post b gid u mx now t) t"
proof -
  have eff: "join_effect gid u now t = t\<lparr>convs := (convs t)(GroupConv gid \<mapsto> locked (GroupConv gid) ConversationGroup gid now t),
      members := (members t)(memKey (joined_member gid u now) \<mapsto> joined_member gid u now),
      uconvs := upsert_uc (joined_uc gid u (conv_MaxSeq (locked (GroupConv gid) ConversationGroup gid now t)) now) (uconvs t)\<rparr>"
    by (simp add: join_effect_def Let_def joined_member_def memKey_def)
  have key: "memKey (joined_member gid u now) = (gid, u)"
    by (simp add: joined_member_def memKey_def)
  have roster: "roster (t\<lparr>convs := c\<rparr>) = roster t" for c
    by (simp add: roster_def fun_eq_iff)
  show ?thesis
    unfolding Join_tx_def
    by (intro wp_bind wp_lock)
      (auto simp: key roster driver_error_not_found Join_tx_post_def eff intro!: wp_return wp_bind wp_GetGroupMember
        wp_CountGroupMembers wp_AddGroupMember wp_UpsertUserConversation)
qed

lemma wp_find_member:
  assumes "\<And>m. members t (gid, u) = Some m \<Longrightarrow> Q (Inr m) t"
    and "members t (gid, u) = None \<Longrightarrow> Q (fail ErrNotGroupMember) t"
    and "\<And>e. \<not> b \<Longrightarrow> driver_error e \<Longrightarrow> Q (Inl (store_failed e)) t"
  shows "wp I T H b (find_member st gid u) Q t"
  unfolding find_member_def
  using assms by (auto simp: driver_error_not_found intro!: wp_bind wp_GetGroupMember wp_return)

lemma wp_kick_target:
  assumes "keyed t" "op \<noteq> u"
    and "may_kick g op u t \<Longrightarrow> Q (Inr u) t"
    and "\<And>e. remove_refused g op u t e \<Longrightarrow> Q (fail e) t"
    and "\<And>e. \<not> b \<Longrightarrow> driver_error e \<Longrightarrow> Q (Inl (store_failed e)) t"
  shows "wp I T H b (kick_target g op u st) Q t"
proof -
  have "gm_UserId tm = u" if "members t (group_Id g, u) = Some tm" for tm
    using keyedD(3) [OF assms(1) that] by (simp add: memKey_def)
  then show ?thesis
    unfolding kick_target_def
    using assms(2-5)
    by (auto simp: may_kick_def remove_refused_def Let_def intro!: wp_bind wp_find_member wp_return)
qed

end

context store_snapshot
begin

lemma wp_remove_tx:
  assumes "keyed t"
  shows "wp I T H b (remove_tx g op u now st) (remove_tx_post b g op u now t) t"
proof -
  let ?gid = "group_Id g"
  let ?i = "GroupConv ?gid"
  define c where "c = locked ?i ConversationGroup ?gid now t"
  define t1 where "t1 = t\<lparr>convs := (convs t)(?i \<mapsto> c)\<rparr>"
  have t1: "keyed t1" "members t1 = members t" "uconvs t1 = uconvs t"
    using assms locked_key [OF assms, of ?i] by (auto simp: keyed_def t1_def c_def)
  have frame: "may_kick g op u t1 = may_kick g op u t" "remove_refused g op u t1 e = remove_refused g op u t e" for e
    unfolding may_kick_def remove_refused_def t1(2) by (rule refl)+
  have post: "remove_tx_post b g op u now t (Inr (), ())
        (t1\<lparr>members := (members t)((?gid, u) := None),
            uconvs := (if conv_MaxSeq c = 0 then (uconvs t)((u, ?i) := None)
                       else alter (u, ?i) (\<lambda>uc. uc\<lparr>uc_MaxSeq := conv_MaxSeq c\<rparr>) (uconvs t))\<rparr>)"
    if "members t (?gid, u) \<noteq> None" "op \<noteq> u \<longrightarrow> may_kick g op u t"
    using that by (simp add: remove_tx_post_def remove_effect_def Let_def c_def t1_def)
  have failed: "remove_tx_post b' g op u now t (Inl e, ()) t'"
    if "\<not> b'" "driver_error e \<or> (\<exists>d. driver_error d \<and> e = store_failed d)" for b' e t'
    using that by (simp add: remove_tx_post_def)
  have refused: "remove_tx_post b g op u now t (fail e, ()) t'" if "remove_refused g op u t e" for e t'
    using that by (simp add: remove_tx_post_def)
  have target: "wp I T H b (if op \<noteq> u then kick_target g op u st else State_Monad.return (Inr u)) Q t1"
    if "op \<noteq> u \<longrightarrow> may_kick g op u t \<Longrightarrow> Q (Inr u) t1" "\<And>e. op \<noteq> u \<Longrightarrow> remove_refused g op u t e \<Longrightarrow> Q (fail e) t1"
      "\<And>e. \<not> b \<Longrightarrow> driver_error e \<Longrightarrow> Q (Inl (store_failed e)) t1" for Q
    using that by (auto simp: frame intro!: wp_return wp_kick_target [OF t1(1)])
  have remove: "wp I T H b (RemoveGroupMember st ?gid u \<bind> (\<lambda>removed. case removed of
        Inl e \<Rightarrow> State_Monad.return (Inl e, ())
      | Inr removed \<Rightarrow> if \<not> removed then State_Monad.return (fail ErrNotGroupMember, ())
          else (if conv_MaxSeq c = 0 then DeleteUserConversation st u ?i
                else SetUserConversationMaxSeq st u ?i (conv_MaxSeq c)) \<bind>
               (\<lambda>r. State_Monad.return (r, ())))) (remove_tx_post b g op u now t) t1"
    if "op \<noteq> u \<longrightarrow> may_kick g op u t"
  proof (intro wp_bind wp_RemoveGroupMember)
    fix t2 assume t2: "t1 = t2"
    have "remove_refused g op u t ErrNotGroupMember" if "members t (?gid, u) = None"
      using that \<open>op \<noteq> u \<longrightarrow> may_kick g op u t\<close> by (auto simp: remove_refused_def may_kick_def)
    then show "wp I T H b (case Inr (members t2 (?gid, u) \<noteq> None) of
        Inl e \<Rightarrow> State_Monad.return (Inl e, ())
      | Inr removed \<Rightarrow> if \<not> removed then State_Monad.return (fail ErrNotGroupMember, ())
          else (if conv_MaxSeq c = 0 then DeleteUserConversation st u ?i
                else SetUserConversationMaxSeq st u ?i (conv_MaxSeq c)) \<bind>
               (\<lambda>r. State_Monad.return (r, ()))) (remove_tx_post b g op u now t)
        (t2\<lparr>members := (members t2)((?gid, u) := None)\<rparr>)"
      using post [OF _ \<open>op \<noteq> u \<longrightarrow> may_kick g op u t\<close>]
      by (auto simp: t2 [symmetric] t1(2,3) intro!: wp_return wp_bind wp_DeleteUserConversation
          wp_SetUserConversationMaxSeq refused failed)
  qed (auto intro!: wp_return failed)
  show ?thesis
    unfolding remove_tx_def
  proof (intro wp_bind wp_lock, simp_all (no_asm) only: sum.case c_def [symmetric] t1_def [symmetric])
    show "wp I T H b ((if op \<noteq> u then kick_target g op u st else State_Monad.return (Inr u)) \<bind>
        (\<lambda>target. case target of Inl e \<Rightarrow> State_Monad.return (Inl e, ())
          | Inr userId \<Rightarrow> RemoveGroupMember st ?gid userId \<bind> (\<lambda>removed. case removed of
              Inl e \<Rightarrow> State_Monad.return (Inl e, ())
            | Inr removed \<Rightarrow> if \<not> removed then State_Monad.return (fail ErrNotGroupMember, ())
                else (if conv_MaxSeq c = 0 then DeleteUserConversation st userId ?i
                      else SetUserConversationMaxSeq st userId ?i (conv_MaxSeq c)) \<bind>
                     (\<lambda>r. State_Monad.return (r, ()))))) (remove_tx_post b g op u now t) t1"
      by (intro wp_bind target, simp_all (no_asm) only: sum.case)
        ((rule remove, assumption) | (rule wp_return, (rule refused failed, assumption | blast)) | blast)+
  qed (auto intro!: wp_return failed)
qed

lemma wp_Create_tx:
  assumes inv: "nexo_inv mm t" and ids: "distinct ids"
  shows "wp I T H b (Create_tx g ids now st) (Create_tx_post b g ids now t) t"
proof -
  let ?gid = "group_Id g"
  let ?i = "GroupConv ?gid"
  have keys: "distinct (map memKey (map (first_member ?gid (group_OwnerId g) now) ids))"
    "distinct (map ucKey (map (first_uc ?gid now) ids))"
    using ids by (auto simp: distinct_map inj_on_def memKey_def ucKey_def first_member_def first_uc_def)
  have free: "uconvs t (ucKey uc) = None" if "groups t ?gid = None" "uc \<in> set (map (first_uc ?gid now) ids)" for uc
    using that SystemInv.no_group(2) [OF inv that(1)] by (auto simp: ucKey_def first_uc_def)
  have free_members: "members t (memKey m) = None"
    if "groups t ?gid = None" "m \<in> set (map (first_member ?gid (group_OwnerId g) now) ids)" for m
    using that SystemInv.no_group(3) [OF inv that(1)] by (auto simp: memKey_def first_member_def)
  have lock: "locked ?i ConversationGroup ?gid now (t\<lparr>groups := gs, members := ms\<rparr>) = locked ?i ConversationGroup ?gid now t"
    for gs ms by (simp add: locked_def)
  show ?thesis
    unfolding Create_tx_def
    using keys free free_members
    by (auto simp: Create_tx_post_def create_effect_def lock intro!: wp_bind wp_CreateGroup wp_lock wp_CreateUserConversations wp_return)
qed

end

section \<open>How the calls end\<close>

definition can_join :: "int \<Rightarrow> string \<Rightarrow> string \<Rightarrow> Tables \<Rightarrow> bool" where
  "can_join mm gid u t \<longleftrightarrow> (\<exists>g. groups t gid = Some g \<and> group_Status g \<noteq> GroupStatusDismissed) \<and>
     users t u \<noteq> None \<and> members t (gid, u) = None \<and> int (card (roster t gid)) < mm"

definition notified :: "string \<Rightarrow> GroupState \<Rightarrow> GroupState" where
  "notified gid w = w\<lparr>g_notified := g_notified w @ [gid]\<rparr>"

inductive Join_outcome :: "(Tables \<Rightarrow> Tables \<Rightarrow> bool) \<Rightarrow> int \<Rightarrow> bool \<Rightarrow> string \<Rightarrow> string \<Rightarrow> time \<Rightarrow> Tables \<Rightarrow> GroupState \<Rightarrow>
    unit result \<Rightarrow> Tables \<Rightarrow> GroupState \<Rightarrow> bool"
  for Rl mm b gid u now t w where
  group_missing: "Rl t t' \<Longrightarrow> groups t' gid = None \<Longrightarrow>
    Join_outcome Rl mm b gid u now t w (fail ErrGroupNotFound) t' w"
| group_dismissed: "Rl t t' \<Longrightarrow> groups t' gid = Some g \<Longrightarrow> group_Status g = GroupStatusDismissed \<Longrightarrow>
    Join_outcome Rl mm b gid u now t w (fail ErrGroupDismissed) t' w"
| user_missing: "Rl t t' \<Longrightarrow> users t' u = None \<Longrightarrow>
    Join_outcome Rl mm b gid u now t w (fail ErrUserNotFound) t' w"
| already: "Rl t t' \<Longrightarrow> members t' (gid, u) \<noteq> None \<Longrightarrow>
    Join_outcome Rl mm b gid u now t w (fail ErrAlreadyGroupMember) t' w"
| full: "Rl t t' \<Longrightarrow> members t' (gid, u) = None \<Longrightarrow> mm \<le> int (card (roster t' gid)) \<Longrightarrow>
    Join_outcome Rl mm b gid u now t w (fail ErrGroupFull) t' w"
| joined: "Rl t t1 \<Longrightarrow> can_join mm gid u t1 \<Longrightarrow>
    Join_outcome Rl mm b gid u now t w (Inr ()) (join_effect gid u now t1) (notified gid w)"
| join_failed: "\<not> b \<Longrightarrow> driver_error e \<Longrightarrow> Rl t t1 \<Longrightarrow>
    t' = t1 \<or> can_join mm gid u t1 \<and> t' = join_effect gid u now t1 \<Longrightarrow>
    Join_outcome Rl mm b gid u now t w (Inl (store_failed e)) t' w"

text \<open>A removal by \<^verbatim>\<open>op\<close> of \<^verbatim>\<open>u\<close>, who is not the owner; \<^verbatim>\<open>op = u\<close> is quitting.\<close>

definition can_remove :: "string \<Rightarrow> string \<Rightarrow> string \<Rightarrow> Tables \<Rightarrow> bool" where
  "can_remove gid op u t \<longleftrightarrow>
     (\<exists>g. groups t gid = Some g \<and> group_Status g \<noteq> GroupStatusDismissed \<and> u \<noteq> group_OwnerId g \<and>
        members t (gid, u) \<noteq> None \<and> (op \<noteq> u \<longrightarrow> may_kick g op u t))"

inductive remove_outcome :: "(Tables \<Rightarrow> Tables \<Rightarrow> bool) \<Rightarrow> bool \<Rightarrow> string \<Rightarrow> string \<Rightarrow> string \<Rightarrow> time \<Rightarrow> Tables \<Rightarrow> GroupState \<Rightarrow>
    unit result \<Rightarrow> Tables \<Rightarrow> GroupState \<Rightarrow> bool"
  for Rl b gid op u now t w where
  rm_missing: "Rl t t' \<Longrightarrow> groups t' gid = None \<Longrightarrow>
    remove_outcome Rl b gid op u now t w (fail ErrGroupNotFound) t' w"
| rm_dismissed: "Rl t t' \<Longrightarrow> groups t' gid = Some g \<Longrightarrow> group_Status g = GroupStatusDismissed \<Longrightarrow>
    remove_outcome Rl b gid op u now t w (fail ErrGroupDismissed) t' w"
| rm_owner: "Rl t t' \<Longrightarrow> groups t' gid = Some g \<Longrightarrow> u = group_OwnerId g \<Longrightarrow>
    e = ErrCannotKickOwner \<or> Code e = Code ErrInvalidParam \<Longrightarrow> remove_outcome Rl b gid op u now t w (fail e) t' w"
| rm_invalid: "Rl t t' \<Longrightarrow> op = u \<or> \<not> Valid u \<Longrightarrow> Code e = Code ErrInvalidParam \<Longrightarrow>
    remove_outcome Rl b gid op u now t w (fail e) t' w"
| rm_refused: "Rl t t' \<Longrightarrow> groups t' gid = Some g \<Longrightarrow> remove_refused g op u t' e \<Longrightarrow>
    remove_outcome Rl b gid op u now t w (fail e) t' w"
| removed: "Rl t t1 \<Longrightarrow> can_remove gid op u t1 \<Longrightarrow>
    remove_outcome Rl b gid op u now t w (Inr ()) (remove_effect gid u now t1) (notified gid w)"
| rm_failed: "\<not> b \<Longrightarrow> driver_error e \<Longrightarrow> Rl t t1 \<Longrightarrow>
    t' = t1 \<or> can_remove gid op u t1 \<and> t' = remove_effect gid u now t1 \<Longrightarrow>
    remove_outcome Rl b gid op u now t w (Inl (store_failed e)) t' w"

definition create_ids :: "string \<Rightarrow> CreateInput \<Rightarrow> string list" where
  "create_ids ow inp = Uniq (ow # ci_MemberIds inp)"

inductive Create_outcome :: "(Tables \<Rightarrow> Tables \<Rightarrow> bool) \<Rightarrow> int \<Rightarrow> bool \<Rightarrow> string \<Rightarrow> CreateInput \<Rightarrow> time \<Rightarrow> int list \<Rightarrow> Tables \<Rightarrow> GroupState \<Rightarrow>
    Info result \<Rightarrow> Tables \<Rightarrow> GroupState \<Rightarrow> bool"
  for Rl mm b ow inp now rnd t w where
  cr_invalid: "create_error inp = Some e \<or> \<not> list_all Valid (create_ids ow inp) \<and> Code e = Code ErrInvalidParam \<Longrightarrow>
    Create_outcome Rl mm b ow inp now rnd t w (fail e) t w"
| cr_full: "mm < int (length (create_ids ow inp)) \<Longrightarrow> Create_outcome Rl mm b ow inp now rnd t w (fail ErrGroupFull) t w"
| cr_missing: "Rl t t' \<Longrightarrow> i \<in> set (create_ids ow inp) \<Longrightarrow> users t' i = None \<Longrightarrow>
    Create_outcome Rl mm b ow inp now rnd t w (fail ErrUserNotFound) t' w"
| cr_taken: "Rl t t' \<Longrightarrow> groups t' (shortId rnd) \<noteq> None \<Longrightarrow>
    Create_outcome Rl mm b ow inp now rnd t w (Inl (store_failed (Sentinel store_ErrDuplicate))) t' w"
| created: "Rl t t1 \<Longrightarrow> groups t1 (shortId rnd) = None \<Longrightarrow> create_error inp = None \<Longrightarrow>
    \<forall>i \<in> set (create_ids ow inp). users t1 i \<noteq> None \<and> Valid i \<Longrightarrow> int (length (create_ids ow inp)) \<le> mm \<Longrightarrow>
    g = new_group (shortId rnd) ow inp now \<Longrightarrow>
    Create_outcome Rl mm b ow inp now rnd t w (Inr (toInfo g (int (length (create_ids ow inp)))))
      (create_effect g (create_ids ow inp) now t1) (notified (shortId rnd) w)"
| cr_failed: "\<not> b \<Longrightarrow> driver_error e \<Longrightarrow> Rl t t1 \<Longrightarrow>
    t' = t1 \<or> groups t1 (shortId rnd) = None \<and> int (length (create_ids ow inp)) \<le> mm \<and>
      t' = create_effect (new_group (shortId rnd) ow inp now) (create_ids ow inp) now t1 \<Longrightarrow>
    Create_outcome Rl mm b ow inp now rnd t w (Inl (store_failed e)) t' w"

section \<open>The proofs\<close>

lemma Or_driver: "driver_error e \<Longrightarrow> Or e ErrStoreFailed = store_failed e"
  by (simp add: driver_error_def Or_def)

lemma Or_errcode [simp]: "Or (Of_errcode e) f = Of_errcode e"
  by (simp add: Or_def)

locale group_store = nexo_store "st :: ('db, unit) StoreTx" tx I T H Rl mm
  for st tx I T H Rl mm
begin

lemma wp_activeGroup:
  assumes "nexo_ok mm t"
    and "\<And>t1 g. Rl t t1 \<Longrightarrow> groups t1 gid = Some g \<Longrightarrow> group_Id g = gid \<Longrightarrow>
      group_Status g \<noteq> GroupStatusDismissed \<Longrightarrow> Q (Inr g) t1"
    and "\<And>t1. Rl t t1 \<Longrightarrow> groups t1 gid = None \<Longrightarrow> Q (fail ErrGroupNotFound) t1"
    and "\<And>t1 g. Rl t t1 \<Longrightarrow> groups t1 gid = Some g \<Longrightarrow> group_Status g = GroupStatusDismissed \<Longrightarrow>
      Q (fail ErrGroupDismissed) t1"
    and "\<And>t1 e. Rl t t1 \<Longrightarrow> \<not> b \<Longrightarrow> driver_error e \<Longrightarrow> Q (Inl (store_failed e)) t1"
  shows "wp I T H b (activeGroup st gid) Q t"
proof -
  have key: "group_Id g = gid" if "Rl t t1" "groups t1 gid = Some g" for t1 g
    using keyedD(2) [OF ok_keyed [OF assms(1) that(1)] that(2)] .
  show ?thesis
    unfolding activeGroup_def find_group_def
    using assms(2-5) key
    by (auto simp: driver_error_not_found intro!: wp_bind wp_GetGroup wp_return)
qed

text \<open>A transaction whose callback captures nothing.\<close>

lemma wp2_WithTx:
  assumes "\<And>t1 b'. Rl t t1 \<Longrightarrow> (b \<Longrightarrow> b') \<Longrightarrow> wp I T H b' (fn tx) (P b' t1) t1"
    and "\<And>t1 b' t'. Rl t t1 \<Longrightarrow> (b \<longrightarrow> b') \<Longrightarrow> P b' t1 (Inr (), ()) t' \<Longrightarrow> Q (Inr (), ()) t' w"
    and "\<And>t1 b' t' e. Rl t t1 \<Longrightarrow> (b \<longrightarrow> b') \<Longrightarrow> P b' t1 (Inl e, ()) t' \<Longrightarrow> Q (Inl e, ()) t1 w"
    and "\<And>t1 e. Rl t t1 \<Longrightarrow> \<not> b \<Longrightarrow> driver_error e \<Longrightarrow> Q (Inl e, ()) t1 w"
    and "\<And>t1 b' t' e. Rl t t1 \<Longrightarrow> \<not> b \<Longrightarrow> driver_error e \<Longrightarrow> P b' t1 (Inr (), ()) t' \<Longrightarrow> Q (Inl e, ()) t' w"
  shows "wp2 I T H b (on_db (WithTx st fn ())) Q t w"
proof (intro wp2_on_db wp_WithTx)
  fix t1 b'
  assume t1: "Rl t t1" "b \<Longrightarrow> b'"
  show "wp I T H b' (fn tx) (tx_post b (\<lambda>r t'. Q r t' w) t1) t1"
  proof (rule wp_mono [OF assms(1) [OF t1]])
    fix rc t'
    assume P: "P b' t1 rc t'"
    obtain r where rc: "rc = (r, ())"
      by (cases rc) simp
    show "tx_post b (\<lambda>r t'. Q r t' w) t1 rc t'"
      using P t1(2) unfolding rc
      by (cases r) (auto intro: assms(2-5) [OF t1(1)])
  qed
qed (rule assms(4))

lemma wp2_notify:
  assumes "Q (Inr x) t (notified gid w)"
  shows "wp2 I T H b (on_svc (notifyChanged gid) \<bind> (\<lambda>_. State_Monad.return (Inr x))) Q t w"
  using assms by (auto simp: notifyChanged_def notified_def intro!: wp2_bind wp2_on_svc wp2_return)

end

context group_store
begin

text \<open>A transaction, and the notification when it committed.\<close>

lemma wp2_commit:
  assumes "\<And>t1 b'. Rl t t1 \<Longrightarrow> (b \<Longrightarrow> b') \<Longrightarrow> wp I T H b' (fn tx) (P b' t1) t1"
    and "\<And>t1 b' t'. Rl t t1 \<Longrightarrow> P b' t1 (Inr (), ()) t' \<Longrightarrow> Q (Inr x) t' (notified gid w)"
    and "\<And>t1 b' t' e. Rl t t1 \<Longrightarrow> (b \<longrightarrow> b') \<Longrightarrow> P b' t1 (Inl e, ()) t' \<Longrightarrow> Q (Inl (f e)) t1 w"
    and "\<And>t1 e. Rl t t1 \<Longrightarrow> \<not> b \<Longrightarrow> driver_error e \<Longrightarrow> Q (Inl (f e)) t1 w"
    and "\<And>t1 b' t' e. Rl t t1 \<Longrightarrow> \<not> b \<Longrightarrow> driver_error e \<Longrightarrow> P b' t1 (Inr (), ()) t' \<Longrightarrow> Q (Inl (f e)) t' w"
  shows "wp2 I T H b (on_db (WithTx st fn ()) \<bind> (\<lambda>tx. case fst tx of
      Inl e \<Rightarrow> State_Monad.return (Inl (f e))
    | Inr _ \<Rightarrow> on_svc (notifyChanged gid) \<bind> (\<lambda>_. State_Monad.return (Inr x)))) Q t w"
proof (intro wp2_bind wp2_WithTx [where P = P], simp_all (no_asm) only: fst_conv sum.case)
  fix t1 b' assume "Rl t t1" "b \<Longrightarrow> b'"
  then show "wp I T H b' (fn tx) (P b' t1) t1"
    by (rule assms(1))
qed (rule wp2_return wp2_notify, rule assms(2-5), assumption+)+

lemma wp2_Join_transaction:
  assumes t1: "Rl t t1" and g: "groups t1 gid = Some g" "group_Status g \<noteq> GroupStatusDismissed"
    and u: "users t1 u \<noteq> None"
  shows "wp2 I T H b (on_db (WithTx st (Join_tx gid u mm now) ()) \<bind> (\<lambda>tx. case fst tx of
      Inl e \<Rightarrow> State_Monad.return (Inl (Or e ErrStoreFailed))
    | Inr _ \<Rightarrow> on_svc (notifyChanged gid) \<bind> (\<lambda>_. State_Monad.return (Inr ()))))
    (Join_outcome Rl mm b gid u now t w) t1 w"
proof -
  have can: "can_join mm gid u t2 \<and> t' = join_effect gid u now t2"
    if "Rl t1 t2" "Join_tx_post b' gid u mm now t2 (Inr (), ()) t'" for t2 t' b'
    using that Rl_groups [OF that(1) g(1)] g(2) Rl_users [OF that(1) u]
    by (auto simp: can_join_def Join_tx_post_def)
  note trans = Rl_trans [OF t1]
  show ?thesis
  proof (rule wp2_commit [where P = "\<lambda>b' t1. Join_tx_post b' gid u mm now t1"])
    fix t2 b' t'
    assume "Rl t1 t2" "Join_tx_post b' gid u mm now t2 (Inr (), ()) t'"
    then show "Join_outcome Rl mm b gid u now t w (Inr ()) t' (notified gid w)"
      using can Join_outcome.joined [where Rl = Rl, OF trans] by blast
  next
    fix t2 b' t' e
    assume t2: "Rl t1 t2" and post: "b \<longrightarrow> b'" "Join_tx_post b' gid u mm now t2 (Inl e, ()) t'"
    show "Join_outcome Rl mm b gid u now t w (Inl (Or e ErrStoreFailed)) t2 w"
      using post Join_outcome.already [where Rl = Rl, OF trans [OF t2]] Join_outcome.full [where Rl = Rl, OF trans [OF t2]]
        Join_outcome.join_failed [where Rl = Rl, OF _ _ trans [OF t2]]
      by (fastforce simp: Join_tx_post_def Or_driver)
  next
    fix t2 e
    assume "Rl t1 t2" "\<not> b" "driver_error e"
    then show "Join_outcome Rl mm b gid u now t w (Inl (Or e ErrStoreFailed)) t2 w"
      using Join_outcome.join_failed [where Rl = Rl, OF _ _ trans] by (simp add: Or_driver)
  next
    fix t2 b' t' e
    assume "Rl t1 t2" "\<not> b" "driver_error e" "Join_tx_post b' gid u mm now t2 (Inr (), ()) t'"
    then show "Join_outcome Rl mm b gid u now t w (Inl (Or e ErrStoreFailed)) t' w"
      using can Join_outcome.join_failed [where Rl = Rl, OF _ _ trans] by (simp add: Or_driver)
  qed (rule tx.wp_Join_tx)
qed

theorem wp2_Join:
  assumes "g_store s = st" "g_maxMembers s = mm" "nexo_ok mm t"
  shows "wp2 I T H b (Join s gid u now) (Join_outcome Rl mm b gid u now t w) t w"
proof -
  have failed: "Join_outcome Rl mm b' gid u now t w (Inl (store_failed e)) t1 w"
    if "Rl t t1" "\<not> b'" "driver_error e" for t1 e b'
    using Join_outcome.join_failed [where Rl = Rl, OF that(2,3,1)] by blast
  show ?thesis
    unfolding Join_def assms(1,2)
  proof (intro wp2_bind wp2_on_db wp_activeGroup [OF assms(3)], simp_all (no_asm) only: sum.case)
    fix t1 g
    assume t1: "Rl t t1" and g: "groups t1 gid = Some g" "group_Id g = gid"
      "group_Status g \<noteq> GroupStatusDismissed"
    note trans = Rl_trans [OF t1]
    show "wp2 I T H b (on_db (GetUser st u) \<bind> (\<lambda>x. case x of
        Inl e \<Rightarrow> State_Monad.return (if is_not_found e then fail ErrUserNotFound else Inl (store_failed e))
      | Inr _ \<Rightarrow> on_db (WithTx st (Join_tx (group_Id g) u mm now) ()) \<bind> (\<lambda>tx. case fst tx of
            Inl e \<Rightarrow> State_Monad.return (Inl (Or e ErrStoreFailed))
          | Inr _ \<Rightarrow> on_svc (notifyChanged (group_Id g)) \<bind> (\<lambda>_. State_Monad.return (Inr ())))))
      (Join_outcome Rl mm b gid u now t w) t1 w"
      unfolding g(2)
      by (intro wp2_bind wp2_on_db wp_GetUser, simp_all (no_asm) only: sum.case)
        (auto simp: driver_error_not_found Rl_groups [OF _ g(1)]
          intro!: wp2_return failed trans Join_outcome.user_missing wp2_Join_transaction [OF _ _ g(3)])
  qed (auto intro!: wp2_return failed Join_outcome.group_missing Join_outcome.group_dismissed)
qed

end

context group_store
begin

lemma wp2_remove_member:
  assumes "g_store s = st" "nexo_ok mm t" and t1: "Rl t t1"
    and g: "groups t1 gid = Some g" "group_Id g = gid" "group_Status g \<noteq> GroupStatusDismissed" "u \<noteq> group_OwnerId g"
  shows "wp2 I T H b (remove_member s g op u now) (remove_outcome Rl b gid op u now t w) t1 w"
proof -
  note trans = Rl_trans [OF t1]
  have can: "can_remove gid op u t2 \<and> t' = remove_effect gid u now t2"
    if "Rl t1 t2" "remove_tx_post b' g op u now t2 (Inr (), ()) t'" for t2 t' b'
    using that Rl_groups [OF that(1) g(1)] g(2-4) by (auto simp: can_remove_def remove_tx_post_def)
  show ?thesis
    unfolding remove_member_def assms(1) g(2)
  proof (rule wp2_commit [where P = "\<lambda>b' t1. remove_tx_post b' g op u now t1"])
    fix t2 b'
    assume "Rl t1 t2"
    then show "wp I T H b' (remove_tx g op u now tx) (remove_tx_post b' g op u now t2) t2"
      using ok_keyed [OF assms(2) trans] by (intro tx.wp_remove_tx)
  next
    fix t2 b' t'
    assume "Rl t1 t2" "remove_tx_post b' g op u now t2 (Inr (), ()) t'"
    then show "remove_outcome Rl b gid op u now t w (Inr ()) t' (notified gid w)"
      using can remove_outcome.removed [where Rl = Rl, OF trans] by blast
  next
    fix t2 b' t' e
    assume t2: "Rl t1 t2" and post: "b \<longrightarrow> b'" "remove_tx_post b' g op u now t2 (Inl e, ()) t'"
    show "remove_outcome Rl b gid op u now t w (Inl (Or e ErrStoreFailed)) t2 w"
      using post remove_outcome.rm_refused [where Rl = Rl, OF trans [OF t2] Rl_groups [OF t2 g(1)]]
        remove_outcome.rm_failed [where Rl = Rl, OF _ _ trans [OF t2]]
      by (fastforce simp: remove_tx_post_def Or_driver)
  next
    fix t2 e
    assume "Rl t1 t2" "\<not> b" "driver_error e"
    then show "remove_outcome Rl b gid op u now t w (Inl (Or e ErrStoreFailed)) t2 w"
      using remove_outcome.rm_failed [where Rl = Rl, OF _ _ trans] by (simp add: Or_driver)
  next
    fix t2 b' t' e
    assume "Rl t1 t2" "\<not> b" "driver_error e" "remove_tx_post b' g op u now t2 (Inr (), ()) t'"
    then show "remove_outcome Rl b gid op u now t w (Inl (Or e ErrStoreFailed)) t' w"
      using can remove_outcome.rm_failed [where Rl = Rl, OF _ _ trans] by (simp add: Or_driver)
  qed
qed

theorem wp2_Quit:
  assumes "g_store s = st" "nexo_ok mm t"
  shows "wp2 I T H b (Quit s gid u now) (remove_outcome Rl b gid u u now t w) t w"
proof -
  have failed: "remove_outcome Rl b' gid u u now t w (Inl (store_failed e)) t1 w"
    if "Rl t t1" "\<not> b'" "driver_error e" for t1 e b'
    using remove_outcome.rm_failed [where Rl = Rl, OF that(2,3,1)] by blast
  have owner: "remove_outcome Rl b gid u u now t w (fail (WithMessage ErrInvalidParam m)) t1 w"
    if "Rl t t1" for t1 m
    using remove_outcome.rm_invalid [where Rl = Rl, OF that] by simp
  show ?thesis
    unfolding Quit_def assms(1)
  proof (intro wp2_bind wp2_on_db wp_activeGroup [OF assms(2)], simp_all (no_asm) only: sum.case)
    fix t1 g
    assume t1: "Rl t t1" and g: "groups t1 gid = Some g" "group_Id g = gid"
      "group_Status g \<noteq> GroupStatusDismissed"
    show "wp2 I T H b (if group_OwnerId g = u
        then State_Monad.return (fail (WithMessage ErrInvalidParam ''owner cannot quit the group''))
        else remove_member s g u u now) (remove_outcome Rl b gid u u now t w) t1 w"
      by (rule wp2_if, rule wp2_return, rule owner [OF t1], rule wp2_remove_member [OF assms t1 g]) simp
  qed (auto intro!: wp2_return failed remove_outcome.rm_missing remove_outcome.rm_dismissed)
qed

theorem wp2_Kick:
  assumes "g_store s = st" "nexo_ok mm t"
  shows "wp2 I T H b (Kick_member s gid op u now) (remove_outcome Rl b gid op u now t w) t w"
proof -
  have failed: "remove_outcome Rl b' gid op u now t w (Inl (store_failed e)) t1 w"
    if "Rl t t1" "\<not> b'" "driver_error e" for t1 e b'
    using remove_outcome.rm_failed [where Rl = Rl, OF that(2,3,1)] by blast
  have invalid: "remove_outcome Rl b gid op u now t w (fail (WithMessage ErrInvalidParam m)) t1 w"
    if "Rl t t1" "op = u \<or> \<not> Valid u" for t1 m
    using remove_outcome.rm_invalid [where Rl = Rl, OF that] by simp
  have owner: "remove_outcome Rl b gid op u now t w (fail ErrCannotKickOwner) t1 w"
    if "Rl t t1" "groups t1 gid = Some g" "u = group_OwnerId g" for t1 g
    using remove_outcome.rm_owner [where Rl = Rl, OF that] by blast
  show ?thesis
    unfolding Kick_member_def assms(1)
  proof (intro wp2_bind wp2_on_db wp_activeGroup [OF assms(2)], simp_all (no_asm) only: sum.case)
    fix t1 g
    assume t1: "Rl t t1" and g: "groups t1 gid = Some g" "group_Id g = gid"
      "group_Status g \<noteq> GroupStatusDismissed"
    show "wp2 I T H b (if \<not> Valid u then State_Monad.return (fail (WithMessage ErrInvalidParam (''invalid user id: '' @ u)))
        else if u = group_OwnerId g then State_Monad.return (fail ErrCannotKickOwner)
        else if op = u then State_Monad.return (fail (WithMessage ErrInvalidParam ''use quit to leave the group''))
        else remove_member s g op u now) (remove_outcome Rl b gid op u now t w) t1 w"
      by (intro wp2_if wp2_return invalid [OF t1] owner [OF t1 g(1)] wp2_remove_member [OF assms t1 g]) simp_all
  qed (auto intro!: wp2_return failed remove_outcome.rm_missing remove_outcome.rm_dismissed)
qed

end

lemma Uniq_simps [simp]: "distinct (Uniq xs)" "set (Uniq xs) = set xs"
  by (simp_all add: Uniq_def)

text \<open>As many users as ids were read, so every id names a user.\<close>

lemma all_users_found:
  assumes "keyed t" "distinct us" "set us = {u. \<exists>i \<in> set ids. users t i = Some u}" "distinct ids"
  shows "length us = length ids \<longleftrightarrow> (\<forall>i \<in> set ids. users t i \<noteq> None)"
proof -
  let ?S = "{i \<in> set ids. users t i \<noteq> None}"
  have "set us = (\<lambda>i. the (users t i)) ` ?S"
    using assms(3) by force
  moreover have "inj_on (\<lambda>i. the (users t i)) ?S"
    using keyedD(1) [OF assms(1)] by (intro inj_onI) (metis (mono_tags, lifting) mem_Collect_eq option.exhaust_sel)
  ultimately have "length us = card ?S"
    using assms(2) distinct_card [of us] by (simp add: card_image)
  moreover have "length ids = card (set ids)"
    using assms(4) by (simp add: distinct_card)
  moreover have "card ?S = card (set ids) \<longleftrightarrow> ?S = set ids"
    using card_subset_eq [of "set ids" ?S] by auto
  ultimately show ?thesis
    by auto
qed

context group_store
begin

theorem wp2_Create:
  assumes "g_store s = st" "g_maxMembers s = mm" "nexo_ok mm t"
  shows "wp2 I T H b (Create s ow inp now rnd) (Create_outcome Rl mm b ow inp now rnd t w) t w"
proof -
  define ids where "ids = create_ids ow inp"
  define g where "g = new_group (shortId rnd) ow inp now"
  have g_id: "group_Id g = shortId rnd"
    by (simp add: g_def new_group_def)
  have distinct: "distinct ids"
    by (simp add: ids_def create_ids_def)
  have transaction: "wp2 I T H b (on_db (WithTx st (Create_tx g ids now) ()) \<bind> (\<lambda>tx. case fst tx of
      Inl e \<Rightarrow> State_Monad.return (Inl (store_failed e))
    | Inr _ \<Rightarrow> on_svc (notifyChanged (shortId rnd)) \<bind> (\<lambda>_. State_Monad.return (Inr (toInfo g (int (length ids)))))))
    (Create_outcome Rl mm b ow inp now rnd t w) t1 w"
    if t1: "Rl t t1" and i: "\<forall>i \<in> set ids. users t1 i \<noteq> None" "list_all Valid ids"
      "create_error inp = None" "int (length ids) \<le> mm" for t1
  proof (rule wp2_commit [where P = "\<lambda>b' t1. Create_tx_post b' g ids now t1"])
    note trans = Rl_trans [OF t1]
    {
      fix t2 b'
      assume "Rl t1 t2"
      then have "nexo_inv mm t2"
        using Rl_ok [OF trans assms(3)] by (simp add: nexo_ok_def)
      then show "wp I T H b' (Create_tx g ids now tx) (Create_tx_post b' g ids now t2) t2"
        using distinct by (intro tx.wp_Create_tx)
    next
      fix t2 b' t'
      assume t2: "Rl t1 t2" and post: "Create_tx_post b' g ids now t2 (Inr (), ()) t'"
      have "\<forall>i \<in> set ids. users t2 i \<noteq> None \<and> Valid i"
        using i(1,2) Rl_users [OF t2] by (auto simp: list_all_iff)
      then show "Create_outcome Rl mm b ow inp now rnd t w (Inr (toInfo g (int (length ids)))) t' (notified (shortId rnd) w)"
        using Create_outcome.created [where Rl = Rl, OF trans [OF t2] _ i(3), of rnd ow mm g now b w] post i(4)
        by (auto simp: Create_tx_post_def g_id g_def [symmetric] ids_def)
    next
      fix t2 b' t' e
      assume t2: "Rl t1 t2" and post: "b \<longrightarrow> b'" "Create_tx_post b' g ids now t2 (Inl e, ()) t'"
      then show "Create_outcome Rl mm b ow inp now rnd t w (Inl (store_failed e)) t2 w"
        using Create_outcome.cr_taken [where Rl = Rl, OF trans [OF t2]] Create_outcome.cr_failed [where Rl = Rl, OF _ _ trans [OF t2]]
        by (auto simp: Create_tx_post_def g_id)
    next
      fix t2 e
      assume "Rl t1 t2" "\<not> b" "driver_error e"
      then show "Create_outcome Rl mm b ow inp now rnd t w (Inl (store_failed e)) t2 w"
        using Create_outcome.cr_failed [where Rl = Rl, OF _ _ trans] by blast
    next
      fix t2 b' t' e
      assume a: "Rl t1 t2" "\<not> b" "driver_error e" "Create_tx_post b' g ids now t2 (Inr (), ()) t'"
      show "Create_outcome Rl mm b ow inp now rnd t w (Inl (store_failed e)) t' w"
        using Create_outcome.cr_failed [where Rl = Rl, OF a(2,3) trans [OF a(1)], of t' rnd ow inp mm now w] a(4) i(4)
        by (simp add: Create_tx_post_def g_id g_def [symmetric] ids_def)
    }
  qed
  have users: "length us = length ids \<longleftrightarrow> (\<forall>i \<in> set ids. users t1 i \<noteq> None)"
    if "Rl t t1" "distinct us" "set us = {u. \<exists>i \<in> set ids. users t1 i = Some u}" for t1 us
    using all_users_found [OF ok_keyed [OF assms(3) that(1)] that(2,3) distinct] .
  have missing: "Create_outcome Rl mm b ow inp now rnd t w (fail ErrUserNotFound) t1 w"
    if "Rl t t1" "\<not> (\<forall>i \<in> set ids. users t1 i \<noteq> None)" for t1
    using that Create_outcome.cr_missing [where Rl = Rl, OF that(1)] by (auto simp: ids_def)
  have failed: "Create_outcome Rl mm b' ow inp now rnd t w (Inl (store_failed e)) t1 w"
    if "Rl t t1" "\<not> b'" "driver_error e" for t1 e b'
    using Create_outcome.cr_failed [where Rl = Rl, OF that(2,3,1)] by blast
  have invalid: "Create_outcome Rl mm b ow inp now rnd t w (fail (WithMessage ErrInvalidParam m)) t w"
    if "\<not> list_all Valid ids" for m
    using that by (intro Create_outcome.cr_invalid) (simp add: ids_def)
  have lookup: "wp2 I T H b (on_db (GetUsers st ids) \<bind> (\<lambda>existing. case existing of
        Inl e \<Rightarrow> State_Monad.return (Inl (store_failed e))
      | Inr existing \<Rightarrow> if length existing \<noteq> length ids then State_Monad.return (fail ErrUserNotFound)
          else on_db (WithTx st (Create_tx g ids now) ()) \<bind> (\<lambda>tx. case fst tx of
            Inl e \<Rightarrow> State_Monad.return (Inl (store_failed e))
          | Inr _ \<Rightarrow> on_svc (notifyChanged (shortId rnd)) \<bind> (\<lambda>_. State_Monad.return (Inr (toInfo g (int (length ids))))))))
      (Create_outcome Rl mm b ow inp now rnd t w) t w"
    if "list_all Valid ids" "create_error inp = None" "int (length ids) \<le> mm"
    by (intro wp2_bind wp2_on_db wp_GetUsers, simp_all (no_asm) only: sum.case)
      (use that in \<open>auto simp: users intro!: wp2_return missing failed transaction\<close>)
  show ?thesis
  proof (cases "create_error inp")
    case (Some e)
    then show ?thesis
      using Create_outcome.cr_invalid by (auto simp: Create_def intro!: wp2_return)
  next
    case None
    show ?thesis
      unfolding Create_def None option.case create_ids_def [symmetric] ids_def [symmetric] Let_def g_def [symmetric]
        assms(1,2) g_id
      using invalid Create_outcome.cr_full [of mm ow inp Rl b now rnd t w] lookup None
      by (auto simp: ids_def [symmetric] intro!: wp2_return)
  qed
qed

end

end
