(* ===== verification/ConversationProofs.thy ===== *)
theory ConversationProofs
  imports GroupProofs
begin

text \<open>
  What the conversation service and the reads of the message service do while other requests
  run: read cursors only advance and stay in sight, a pull returns a gapless run of the messages
  the caller may see, a page is a prefix of the list after its cursor.
\<close>

section \<open>MarkRead\<close>

definition read_event :: "string \<Rightarrow> string \<Rightarrow> string \<Rightarrow> int64 \<Rightarrow> ReadEvent" where
  "read_event u conn i s = \<lparr>re_UserId = u, re_ReaderConnId = conn, re_ConversationId = i, re_ReadSeq = s\<rparr>"

definition read_target :: "UserConversationRow \<Rightarrow> int64 \<Rightarrow> int64" where
  "read_target row readSeq = min readSeq (VisibleMax row (row_ConvMaxSeq row))"

inductive MarkRead_outcome :: "(Tables \<Rightarrow> Tables \<Rightarrow> bool) \<Rightarrow> bool \<Rightarrow> string \<Rightarrow> string \<Rightarrow> string \<Rightarrow> int64 \<Rightarrow> Tables \<Rightarrow> ConvState \<Rightarrow>
    int64 result \<Rightarrow> Tables \<Rightarrow> ConvState \<Rightarrow> bool"
  for Rl b u conn i readSeq t w where
  mr_invalid: "readSeq < 1 \<Longrightarrow> Code e = Code ErrInvalidParam \<Longrightarrow>
    MarkRead_outcome Rl b u conn i readSeq t w (fail e) t w"
| mr_denied: "Rl t t' \<Longrightarrow> joined t' u i = None \<Longrightarrow>
    MarkRead_outcome Rl b u conn i readSeq t w (fail ErrNoPermission) t' w"
| mr_kept: "Rl t t' \<Longrightarrow> joined t' u i = Some row \<Longrightarrow> read_target row readSeq \<le> uc_ReadSeq row \<Longrightarrow>
    MarkRead_outcome Rl b u conn i readSeq t w (Inr (uc_ReadSeq row)) t' w"
| mr_advanced: "1 \<le> readSeq \<Longrightarrow> Rl t t1 \<Longrightarrow> joined t1 u i = Some row \<Longrightarrow> s = read_target row readSeq \<Longrightarrow>
    uc_ReadSeq row < s \<Longrightarrow> Rl t1 t2 \<Longrightarrow> sees_up_to t2 u i s \<Longrightarrow>
    MarkRead_outcome Rl b u conn i readSeq t w (Inr s) (t2\<lparr>uconvs := advance_read u i s (uconvs t2)\<rparr>)
      (w\<lparr>c_notified := c_notified w @ [read_event u conn i s]\<rparr>)"
| mr_failed: "\<not> b \<Longrightarrow> driver_error e \<Longrightarrow> Rl t t2 \<Longrightarrow>
    t' = t2 \<or> sees_up_to t2 u i s \<and> t' = t2\<lparr>uconvs := advance_read u i s (uconvs t2)\<rparr> \<Longrightarrow>
    MarkRead_outcome Rl b u conn i readSeq t w (Inl (store_failed e)) t' w"

lemma joined_row:
  assumes "joined t u i = Some row" "keyed t"
  shows "uc_ConversationId row = i" "uc_OwnerId row = u"
    "\<exists>uc c. uconvs t (u, i) = Some uc \<and> convs t i = Some c \<and> row = join_row uc c"
  using assms keyedD(5) [OF assms(2), of "(u, i)"] by (auto simp: joined_Some join_row_def ucKey_def UserConversation.defs)

lemma join_row_view [simp]:
  "uc_MinSeq (join_row uc c) = uc_MinSeq uc" "uc_MaxSeq (join_row uc c) = uc_MaxSeq uc"
  "uc_ReadSeq (join_row uc c) = uc_ReadSeq uc" "row_ConvMaxSeq (join_row uc c) = conv_MaxSeq c"
  "uc_UpdatedAt (join_row uc c) = uc_UpdatedAt uc" "uc_ConversationId (join_row uc c) = uc_ConversationId uc"
  "uc_OwnerId (join_row uc c) = uc_OwnerId uc" "VisibleMax (join_row uc c) mx = VisibleMax uc mx"
  by (simp_all add: join_row_def UserConversation.defs UserConversationRow.defs VisibleMax_def)

lemma joined_sees:
  assumes "joined t u i = Some row" "keyed t" "s \<le> VisibleMax row (row_ConvMaxSeq row)"
  shows "sees_up_to t u i s"
  using joined_row(3) [OF assms(1,2)] assms(3) by (auto simp: sees_up_to_def)

context nexo_store
begin

theorem wp2_MarkRead:
  assumes "nexo_ok mm t"
  shows "wp2 I T H b (MarkRead st u conn i readSeq) (MarkRead_outcome Rl b u conn i readSeq t w) t w"
proof (cases "readSeq < 1")
  case True
  then show ?thesis
    by (auto simp: MarkRead_def intro!: wp2_return MarkRead_outcome.mr_invalid)
next
  case False
  have failed: "MarkRead_outcome Rl b' u conn i readSeq t w (Inl (store_failed e)) t1 w"
    if "Rl t t1" "\<not> b'" "driver_error e" for t1 e b'
    using MarkRead_outcome.mr_failed [where Rl = Rl, OF that(2,3,1)] by blast
  have advance: "wp2 I T H b (on_db (AdvanceReadSeq st u i s) \<bind> (\<lambda>r. case r of
        Inl e \<Rightarrow> State_Monad.return (Inl (store_failed e))
      | Inr _ \<Rightarrow> on_svc (State (\<lambda>w. ((), w\<lparr>c_notified := c_notified w @ [read_event u conn i s]\<rparr>))) \<bind>
          (\<lambda>_. State_Monad.return (Inr s)))) (MarkRead_outcome Rl b u conn i readSeq t w) t1 w"
    if t1: "Rl t t1" and row: "joined t1 u i = Some row" "s = read_target row readSeq" "uc_ReadSeq row < s"
    for t1 row s
  proof -
    have ok: "nexo_ok mm t1" and k: "keyed t1"
      using Rl_ok [OF t1 assms] ok_keyed [OF assms t1] .
    obtain uc c where uc: "uconvs t1 (u, i) = Some uc" "convs t1 i = Some c" "row = join_row uc c"
      using joined_row(3) [OF row(1) k] by blast
    then have "range_ok uc (conv_MaxSeq c)"
      using ok unfolding nexo_ok_def nexo_inv_def range_inv_def by force
    then have "1 \<le> s"
      using row(3) uc(3) by (simp add: range_ok_def)
    moreover have "sees_up_to t1 u i s"
      using joined_sees [OF row(1) k] row(2) by (simp add: read_target_def)
    ultimately have sees: "sees_up_to t2 u i s" if "Rl t1 t2" for t2
      using Rl_sees [OF that ok] by blast
    show ?thesis
    proof (intro wp2_bind wp2_on_db wp_AdvanceReadSeq, simp_all (no_asm) only: sum.case)
      fix t2 assume t2: "Rl t1 t2"
      show "wp2 I T H b (on_svc (State (\<lambda>w. ((), w\<lparr>c_notified := c_notified w @ [read_event u conn i s]\<rparr>))) \<bind>
          (\<lambda>_. State_Monad.return (Inr s))) (MarkRead_outcome Rl b u conn i readSeq t w)
          (t2\<lparr>uconvs := advance_read u i s (uconvs t2)\<rparr>) w"
        using MarkRead_outcome.mr_advanced [where Rl = Rl, OF _ t1 row(1,2,3) t2 sees [OF t2]] False
        by (auto intro!: wp2_bind wp2_on_svc wp2_return)
    next
      fix t2 e t' assume a: "Rl t1 t2" "\<not> b" "driver_error e"
        "t' = t2 \<or> t' = t2\<lparr>uconvs := advance_read u i s (uconvs t2)\<rparr>"
      show "wp2 I T H b (State_Monad.return (Inl (store_failed e))) (MarkRead_outcome Rl b u conn i readSeq t w) t' w"
        using MarkRead_outcome.mr_failed [where Rl = Rl, OF a(2,3) Rl_trans [OF t1 a(1)]] sees [OF a(1)] a(4)
        by (intro wp2_return) blast
    qed
  qed
  show ?thesis
    unfolding MarkRead_def if_not_P [OF False] read_event_def [symmetric]
  proof (intro wp2_bind wp2_on_db wp_GetUserConversationRow, simp_all (no_asm) only: sum.case)
    fix t1 row
    assume t1: "Rl t t1" and row: "joined t1 u i = Some row"
    have key: "uc_ConversationId row = i"
      by (rule joined_row(1) [OF row ok_keyed [OF assms t1]])
    show "wp2 I T H b (let conversationId = uc_ConversationId row;
          target = min readSeq (VisibleMax row (row_ConvMaxSeq row))
        in if target \<le> uc_ReadSeq row then State_Monad.return (Inr (uc_ReadSeq row))
           else on_db (AdvanceReadSeq st u conversationId target) \<bind> (\<lambda>r. case r of
             Inl e \<Rightarrow> State_Monad.return (Inl (store_failed e))
           | Inr _ \<Rightarrow> on_svc (State (\<lambda>w. ((), w\<lparr>c_notified := c_notified w @ [read_event u conn conversationId target]\<rparr>))) \<bind>
               (\<lambda>_. State_Monad.return (Inr target)))) (MarkRead_outcome Rl b u conn i readSeq t w) t1 w"
      unfolding Let_def key read_target_def [symmetric]
      by (intro wp2_if wp2_return MarkRead_outcome.mr_kept [where Rl = Rl, OF t1 row] advance [OF t1 row]) simp_all
  qed (auto simp: driver_error_not_found intro!: wp2_return failed MarkRead_outcome.mr_denied)
qed

end

section \<open>SetOpt\<close>

definition with_opt :: "Opt \<Rightarrow> UserConversation \<Rightarrow> UserConversation" where
  "with_opt inp uc = uc\<lparr>uc_RecvMsgOpt := coalesce (opt_RecvMsgOpt inp) (uc_RecvMsgOpt uc),
     uc_IsPinned := coalesce (opt_IsPinned inp) (uc_IsPinned uc)\<rparr>"

inductive SetOpt_outcome :: "(Tables \<Rightarrow> Tables \<Rightarrow> bool) \<Rightarrow> bool \<Rightarrow> string \<Rightarrow> string \<Rightarrow> Opt \<Rightarrow> Tables \<Rightarrow>
    unit result \<Rightarrow> Tables \<Rightarrow> bool"
  for Rl b u i inp t where
  so_invalid: "opt_RecvMsgOpt inp = Some v \<Longrightarrow> v \<noteq> 0 \<Longrightarrow> v \<noteq> 1 \<Longrightarrow> Code e = Code ErrInvalidParam \<Longrightarrow>
    SetOpt_outcome Rl b u i inp t (fail e) t"
| so_denied: "Rl t t' \<Longrightarrow> uconvs t' (u, i) = None \<Longrightarrow> SetOpt_outcome Rl b u i inp t (fail ErrNoPermission) t'"
| so_set: "Rl t t1 \<Longrightarrow> uconvs t1 (u, i) = Some uc \<Longrightarrow>
    SetOpt_outcome Rl b u i inp t (Inr ()) (t1\<lparr>uconvs := (uconvs t1)((u, i) \<mapsto> with_opt inp uc)\<rparr>)"
| so_failed: "\<not> b \<Longrightarrow> driver_error e \<Longrightarrow> Rl t t1 \<Longrightarrow> t' = t1 \<or>
      (\<exists>uc. uconvs t1 (u, i) = Some uc \<and> t' = t1\<lparr>uconvs := (uconvs t1)((u, i) \<mapsto> with_opt inp uc)\<rparr>) \<Longrightarrow>
    SetOpt_outcome Rl b u i inp t (Inl (store_failed e)) t'"

context nexo_store
begin

theorem wp_SetOpt: "wp I T H b (SetOpt st u i inp) (SetOpt_outcome Rl b u i inp t) t"
proof (cases "\<exists>v. opt_RecvMsgOpt inp = Some v \<and> v \<noteq> 0 \<and> v \<noteq> 1")
  case True
  then show ?thesis
    by (auto simp: SetOpt_def intro!: wp_return SetOpt_outcome.so_invalid)
next
  case False
  have "wp I T H b (SetUserConversationOpt st u i (opt_RecvMsgOpt inp) (opt_IsPinned inp))
      (\<lambda>r t'. SetOpt_outcome Rl b u i inp t (case r of
          Inl e \<Rightarrow> if is_not_found e then fail ErrNoPermission else Inl (store_failed e)
        | Inr _ \<Rightarrow> Inr ()) t') t"
  proof (rule SetUserConversationOpt_ok [THEN wp_op])
    fix t1 s t'
    assume "Rl t t1" "SetUserConversationOpt_spec u i (opt_RecvMsgOpt inp) (opt_IsPinned inp) t1 s t'"
    then show "SetOpt_outcome Rl b u i inp t (case outcome s of
          Inl e \<Rightarrow> if is_not_found e then fail ErrNoPermission else Inl (store_failed e)
        | Inr _ \<Rightarrow> Inr ()) t'"
      using SetOpt_outcome.so_denied [of Rl t t1 u i] SetOpt_outcome.so_set [of Rl t t1 u i]
      by (cases "uconvs t1 (u, i)") (auto simp: with_opt_def SetUserConversationOpt_spec_def)
  next
    fix t1 e t'
    assume a: "Rl t t1" "\<not> b" "driver_error e"
      "t' = t1 \<or> (\<exists>s. SetUserConversationOpt_spec u i (opt_RecvMsgOpt inp) (opt_IsPinned inp) t1 s t')"
    then have "t' = t1 \<or>
        (\<exists>uc. uconvs t1 (u, i) = Some uc \<and> t' = t1\<lparr>uconvs := (uconvs t1)((u, i) \<mapsto> with_opt inp uc)\<rparr>)"
      by (cases "uconvs t1 (u, i)") (auto simp: SetUserConversationOpt_spec_def with_opt_def)
    then show "SetOpt_outcome Rl b u i inp t (case Inl e of
          Inl e \<Rightarrow> if is_not_found e then fail ErrNoPermission else Inl (store_failed e)
        | Inr _ \<Rightarrow> Inr ()) t'"
      using SetOpt_outcome.so_failed [where Rl = Rl, OF a(2,3,1)] a(3) by (simp add: driver_error_not_found)
  qed
  then show ?thesis
    using False by (auto simp: SetOpt_def intro!: wp_bind wp_return split: option.split elim!: wp_mono)
qed

end

section \<open>Pull\<close>

text \<open>The messages of a pull: the visible part of the range asked for, cut to the page.\<close>

definition pull_range :: "Tables \<Rightarrow> UserConversationRow \<Rightarrow> PullInput \<Rightarrow> Message list" where
  "pull_range t row inp =
     (case VisibleRange row (row_ConvMaxSeq row) (pl_BeginSeq inp) (pl_EndSeq inp) of (b, e) \<Rightarrow>
        messages_between t (pl_ConversationId inp) b e)"

inductive Pull_outcome :: "(Tables \<Rightarrow> Tables \<Rightarrow> bool) \<Rightarrow> bool \<Rightarrow> PullInput \<Rightarrow> int \<Rightarrow> Tables \<Rightarrow> PullResult result \<Rightarrow> Tables \<Rightarrow> bool"
  for Rl b inp pageMax t where
  pl_invalid: "pl_BeginSeq inp < 1 \<or> pl_EndSeq inp < pl_BeginSeq inp \<Longrightarrow> Code e = Code ErrInvalidParam \<Longrightarrow>
    Pull_outcome Rl b inp pageMax t (fail e) t"
| pl_denied: "Rl t t' \<Longrightarrow> joined t' (pl_UserId inp) (pl_ConversationId inp) = None \<Longrightarrow>
    Pull_outcome Rl b inp pageMax t (fail ErrNoPermission) t'"
| pulled: "1 \<le> pl_BeginSeq inp \<Longrightarrow> Rl t t1 \<Longrightarrow> joined t1 (pl_UserId inp) (pl_ConversationId inp) = Some row \<Longrightarrow>
    Rl t1 t' \<Longrightarrow>
    Pull_outcome Rl b inp pageMax t
      (Inr \<lparr>pr_Messages = map MessageFromStore (take (nat (page_limit (pl_Limit inp) pageMax)) (pull_range t1 row inp)),
            pr_HasMore = int (length (pull_range t1 row inp)) > page_limit (pl_Limit inp) pageMax\<rparr>) t'"
| pl_failed: "\<not> b \<Longrightarrow> driver_error e \<Longrightarrow> Rl t t' \<Longrightarrow>
    x = ErrStoreFailed \<or> x = ErrMessagePullFailed \<Longrightarrow>
    Pull_outcome Rl b inp pageMax t (fail (Wrap x (Some e))) t'"

lemma map_filter_same: "(\<And>x. x \<in> set xs \<Longrightarrow> f x = g x) \<Longrightarrow> List.map_filter f xs = List.map_filter g xs"
  by (induction xs) (auto simp: List.map_filter_simps split: option.split)

text \<open>The messages at or below a member's visible max are there, and stay as they are.\<close>

lemma messages_between_stable:
  assumes "nexo_ok mm t" "nexo_rely mm t t'" "convs t i = Some c" "1 \<le> b" "e \<le> conv_MaxSeq c"
  shows "messages_between t' i b e = messages_between t i b e"
proof -
  have "msgs t' (i, s) = msgs t (i, s)" if "s \<in> set [b..e]" for s
  proof -
    have "msgs t (i, s) \<noteq> None"
      using assms(1,3-5) that unfolding nexo_ok_def nexo_inv_def seq_inv_def by auto
    then show ?thesis
      using nexo_rely_msgs [OF assms(2,1)] by force
  qed
  then show ?thesis
    unfolding messages_between_def by (intro map_filter_same)
qed

context nexo_store
begin

theorem wp_Pull:
  assumes "nexo_ok mm t" "pageMax < 2 ^ 31 - 1"
  shows "wp I T H b (Pull st inp pageMax) (Pull_outcome Rl b inp pageMax t) t"
proof (cases "pl_BeginSeq inp < 1 \<or> pl_EndSeq inp < pl_BeginSeq inp")
  case True
  then show ?thesis
    by (auto simp: Pull_def intro!: wp_return Pull_outcome.pl_invalid)
next
  case False
  let ?lim = "page_limit (pl_Limit inp) pageMax"
  let ?i = "pl_ConversationId inp"
  have lim: "1 \<le> ?lim" "?lim + 1 < 2 ^ 31" "i64 (?lim + 1) = ?lim + 1"
    using page_limit_bounds [of "pl_Limit inp" pageMax] assms(2) by (auto simp: i64_def)
  have failed: "Pull_outcome Rl b' inp pageMax t (fail (Wrap x (Some e))) t1"
    if "Rl t t1" "\<not> b'" "driver_error e" "x = ErrStoreFailed \<or> x = ErrMessagePullFailed" for t1 e b' x
    using Pull_outcome.pl_failed [where Rl = Rl, OF that(2,3,1,4)] .
  have list: "wp I T H b (ListMessages st ?i bg en (i64 (?lim + 1)) \<bind> (\<lambda>rows. State_Monad.return (case rows of
        Inl er \<Rightarrow> fail (Wrap ErrMessagePullFailed (Some er))
      | Inr rows \<Rightarrow> Inr \<lparr>pr_Messages = map MessageFromStore (take (nat (min (int (length rows)) ?lim)) rows),
                       pr_HasMore = int (length rows) > ?lim\<rparr>))) (Pull_outcome Rl b inp pageMax t) t1"
    if t1: "Rl t t1" and row: "joined t1 (pl_UserId inp) ?i = Some row"
      and range: "VisibleRange row (row_ConvMaxSeq row) (pl_BeginSeq inp) (pl_EndSeq inp) = (bg, en)" for t1 row bg en
  proof -
    have ok: "nexo_ok mm t1" and k: "keyed t1"
      using Rl_ok [OF t1 assms(1)] ok_keyed [OF assms(1) t1] .
    obtain uc c where uc: "convs t1 ?i = Some c" "row = join_row uc c"
      using joined_row(3) [OF row k] by blast
    have "1 \<le> bg" "en \<le> conv_MaxSeq c"
      using range uc(2) False by (auto simp: VisibleRange_def VisibleMax_def)
    then have same: "messages_between t2 ?i bg en = pull_range t1 row inp" if "Rl t1 t2" for t2
      using messages_between_stable [OF ok Rl_rely [OF that] uc(1)] range by (simp add: pull_range_def)
    have result: "Inr \<lparr>pr_Messages = map MessageFromStore (take (nat (min (int (length (take (nat (?lim + 1)) ms))) ?lim)) (take (nat (?lim + 1)) ms)),
          pr_HasMore = int (length (take (nat (?lim + 1)) ms)) > ?lim\<rparr> =
        (Inr \<lparr>pr_Messages = map MessageFromStore (take (nat ?lim) ms), pr_HasMore = int (length ms) > ?lim\<rparr> :: PullResult result)" for ms
      using lim(1) by (auto simp: min_def)
    show ?thesis
    proof (intro wp_bind, rule ListMessages_ok [THEN wp_op])
      show "0 \<le> i64 (?lim + 1)" "i64 (?lim + 1) < 2 ^ 31"
        using lim by simp_all
    next
      fix t2 s t'
      assume t2: "Rl t1 t2" and "ListMessages_spec ?i bg en (i64 (?lim + 1)) t2 s t'"
      then have s: "outcome s = Inr (take (nat (?lim + 1)) (pull_range t1 row inp))" "t' = t2"
        by (simp_all add: ListMessages_spec_def lim(3) same)
      have "1 \<le> pl_BeginSeq inp"
        using False by simp
      then show "wp I T H b (State_Monad.return (case outcome s of
          Inl er \<Rightarrow> fail (Wrap ErrMessagePullFailed (Some er))
        | Inr rows \<Rightarrow> Inr \<lparr>pr_Messages = map MessageFromStore (take (nat (min (int (length rows)) ?lim)) rows),
                       pr_HasMore = int (length rows) > ?lim\<rparr>)) (Pull_outcome Rl b inp pageMax t) t'"
        unfolding s sum.case result by (intro wp_return Pull_outcome.pulled [where Rl = Rl, OF _ t1 row t2])
    next
      fix t2 e t'
      assume "Rl t1 t2" "\<not> b" "driver_error e"
        "t' = t2 \<or> (\<exists>s. ListMessages_spec ?i bg en (i64 (?lim + 1)) t2 s t')"
      then show "wp I T H b (State_Monad.return (case Inl e of
          Inl er \<Rightarrow> fail (Wrap ErrMessagePullFailed (Some er))
        | Inr rows \<Rightarrow> Inr \<lparr>pr_Messages = map MessageFromStore (take (nat (min (int (length rows)) ?lim)) rows),
                       pr_HasMore = int (length rows) > ?lim\<rparr>)) (Pull_outcome Rl b inp pageMax t) t'"
        using failed [OF Rl_trans [OF t1]] by (auto simp: ListMessages_spec_def intro!: wp_return)
    qed
  qed
  have empty: "Pull_outcome Rl b inp pageMax t (Inr \<lparr>pr_Messages = [], pr_HasMore = False\<rparr>) t1"
    if t1: "Rl t t1" and row: "joined t1 (pl_UserId inp) ?i = Some row"
      and range: "VisibleRange row (row_ConvMaxSeq row) (pl_BeginSeq inp) (pl_EndSeq inp) = (bg, en)" "en < bg" for t1 row bg en
  proof -
    have "pull_range t1 row inp = []"
      using range by (simp add: pull_range_def messages_between_def List.map_filter_simps)
    then show ?thesis
      using Pull_outcome.pulled [where Rl = Rl, OF _ t1 row Rl_refl, of b pageMax] False lim(1) by simp
  qed
  show ?thesis
    unfolding Pull_def if_not_P [OF False] Let_def
  proof (intro wp_bind wp_GetUserConversationRow, simp_all (no_asm) only: sum.case)
    fix t1 row
    assume t1: "Rl t t1" and row: "joined t1 (pl_UserId inp) ?i = Some row"
    obtain bg en where range: "VisibleRange row (row_ConvMaxSeq row) (pl_BeginSeq inp) (pl_EndSeq inp) = (bg, en)"
      by (cases "VisibleRange row (row_ConvMaxSeq row) (pl_BeginSeq inp) (pl_EndSeq inp)") simp
    show "wp I T H b (case VisibleRange row (row_ConvMaxSeq row) (pl_BeginSeq inp) (pl_EndSeq inp) of (bg, en) \<Rightarrow>
        if bg > en then State_Monad.return (Inr \<lparr>pr_Messages = [], pr_HasMore = False\<rparr>)
        else ListMessages st ?i bg en (i64 (?lim + 1)) \<bind> (\<lambda>rows. State_Monad.return (case rows of
            Inl er \<Rightarrow> fail (Wrap ErrMessagePullFailed (Some er))
          | Inr rows \<Rightarrow> Inr \<lparr>pr_Messages = map MessageFromStore (take (nat (min (int (length rows)) ?lim)) rows),
                           pr_HasMore = int (length rows) > ?lim\<rparr>))) (Pull_outcome Rl b inp pageMax t) t1"
      using empty [OF t1 row range] list [OF t1 row range] by (simp add: range wp_return)
  qed (auto simp: driver_error_not_found intro!: wp_return failed Pull_outcome.pl_denied)
qed

end

text \<open>What is pulled is a run of consecutive seqs.\<close>

lemma pull_range_seqs:
  assumes "nexo_ok mm t" "joined t (pl_UserId inp) (pl_ConversationId inp) = Some row" "1 \<le> pl_BeginSeq inp"
  shows "map msg_Seq (pull_range t row inp) =
    [max (pl_BeginSeq inp) (uc_MinSeq row)..min (pl_EndSeq inp) (VisibleMax row (row_ConvMaxSeq row))]"
proof -
  have inv: "keyed t" "seq_inv t"
    using assms(1) by (simp_all add: nexo_ok_def nexo_inv_def)
  obtain uc c where uc: "convs t (pl_ConversationId inp) = Some c" "row = join_row uc c"
    using joined_row(3) [OF assms(2) inv(1)] by blast
  have "msgs t (pl_ConversationId inp, s) \<noteq> None"
    if "s \<in> set [max (pl_BeginSeq inp) (uc_MinSeq row)..min (pl_EndSeq inp) (VisibleMax row (row_ConvMaxSeq row))]" for s
    using that inv(2) uc assms(3) by (auto simp: seq_inv_def VisibleMax_def split: if_splits)
  then show ?thesis
    by (simp add: pull_range_def VisibleRange_def seqs_messages_between [OF inv(1)])
qed

section \<open>Pages of the conversation list\<close>

inductive ListPage_outcome :: "(Tables \<Rightarrow> Tables \<Rightarrow> bool) \<Rightarrow> bool \<Rightarrow> string \<Rightarrow> string \<Rightarrow> int \<Rightarrow> int \<Rightarrow> Tables \<Rightarrow>
    (UserConversationRow list \<times> string \<times> bool) result \<Rightarrow> Tables \<Rightarrow> bool"
  for Rl b u cursor limit pageMax t where
  lp_invalid: "DecodeCursor cursor = None \<Longrightarrow> Code e = Code ErrInvalidParam \<Longrightarrow>
    ListPage_outcome Rl b u cursor limit pageMax t (fail e) t"
| lp_last: "DecodeCursor cursor = Some cur \<Longrightarrow> Rl t t' \<Longrightarrow> newest_first rows \<Longrightarrow> set rows = rows_after t' u cur \<Longrightarrow>
    int (length rows) \<le> page_limit limit pageMax \<Longrightarrow>
    ListPage_outcome Rl b u cursor limit pageMax t (Inr (rows, [], False)) t'"
| lp_page: "DecodeCursor cursor = Some cur \<Longrightarrow> Rl t t' \<Longrightarrow> newest_first rows \<Longrightarrow> set rows = rows_after t' u cur \<Longrightarrow>
    page_limit limit pageMax < int (length rows) \<Longrightarrow> page = take (nat (page_limit limit pageMax)) rows \<Longrightarrow>
    ListPage_outcome Rl b u cursor limit pageMax t (Inr (page, EncodeCursor (cursor_of (last page)), True)) t'"
| lp_failed: "\<not> b \<Longrightarrow> driver_error e \<Longrightarrow> Rl t t' \<Longrightarrow>
    ListPage_outcome Rl b u cursor limit pageMax t (Inl (store_failed e)) t'"

context store_statements
begin

theorem wp_ListPage:
  assumes "pageMax < 2 ^ 31 - 1"
  shows "wp I T H b (ListPage st u cursor limit pageMax) (ListPage_outcome Rl b u cursor limit pageMax t) t"
proof (cases "DecodeCursor cursor")
  case None
  then show ?thesis
    by (auto simp: ListPage_def intro!: wp_return ListPage_outcome.lp_invalid)
next
  case (Some cur)
  let ?lim = "page_limit limit pageMax"
  have lim: "1 \<le> ?lim" "?lim + 1 < 2 ^ 31" "i64 (?lim + 1) = ?lim + 1"
    using page_limit_bounds [of limit pageMax] assms by (auto simp: i64_def)
  show ?thesis
    unfolding ListPage_def Some option.case Let_def
  proof (intro wp_bind, rule ListUserConversations_ok [THEN wp_op])
    show "0 \<le> i64 (?lim + 1)" "i64 (?lim + 1) < 2 ^ 31"
      using lim by simp_all
  next
    fix t1 s t'
    assume t1: "Rl t t1" and "ListUserConversations_spec u cur (i64 (?lim + 1)) t1 s t'"
    then obtain rows where rows: "newest_first rows" "set rows = rows_after t1 u cur" "outcome s = Inr (take (nat (?lim + 1)) rows)" "t' = t1"
      by (auto simp: ListUserConversations_spec_def lim(3))
    have "ListPage_outcome Rl b u cursor limit pageMax t (if int (length (take (nat (?lim + 1)) rows)) \<le> ?lim
        then Inr (take (nat (?lim + 1)) rows, [], False)
        else Inr (take (nat ?lim) (take (nat (?lim + 1)) rows),
          EncodeCursor (ListCursor (uc_UpdatedAt (last (take (nat ?lim) (take (nat (?lim + 1)) rows))))
            (uc_ConversationId (last (take (nat ?lim) (take (nat (?lim + 1)) rows))))), True)) t1"
    proof (cases "int (length rows) \<le> ?lim")
      case True
      then have "take (nat (?lim + 1)) rows = rows"
        by simp
      then show ?thesis
        using True by (simp add: ListPage_outcome.lp_last [where Rl = Rl, OF Some t1 rows(1,2)])
    next
      case False
      then have "take (nat ?lim) (take (nat (?lim + 1)) rows) = take (nat ?lim) rows"
        using lim(1) by (simp add: min_def)
      moreover have "\<not> int (length (take (nat (?lim + 1)) rows)) \<le> ?lim"
        using False lim(1) by simp
      ultimately show ?thesis
        using ListPage_outcome.lp_page [where Rl = Rl, OF Some t1 rows(1,2) _ refl, of limit pageMax b] False
        by (simp add: cursor_of_def)
    qed
    then show "wp I T H b (State_Monad.return (case outcome s of
          Inl e \<Rightarrow> Inl (store_failed e)
        | Inr rows \<Rightarrow> if int (length rows) \<le> ?lim then Inr (rows, [], False)
            else Inr (take (nat ?lim) rows, EncodeCursor (ListCursor (uc_UpdatedAt (last (take (nat ?lim) rows)))
              (uc_ConversationId (last (take (nat ?lim) rows)))), True)))
        (ListPage_outcome Rl b u cursor limit pageMax t) t'"
      unfolding rows sum.case by (rule wp_return)
  next
    fix t1 e t'
    assume "Rl t t1" "\<not> b" "driver_error e" "t' = t1 \<or> (\<exists>s. ListUserConversations_spec u cur (i64 (?lim + 1)) t1 s t')"
    then show "wp I T H b (State_Monad.return (case Inl e of
          Inl e \<Rightarrow> Inl (store_failed e)
        | Inr rows \<Rightarrow> if int (length rows) \<le> ?lim then Inr (rows, [], False)
            else Inr (take (nat ?lim) rows, EncodeCursor (ListCursor (uc_UpdatedAt (last (take (nat ?lim) rows)))
              (uc_ConversationId (last (take (nat ?lim) rows)))), True)))
        (ListPage_outcome Rl b u cursor limit pageMax t) t'"
      using ListPage_outcome.lp_failed [of b e Rl t t1] by (auto simp: ListUserConversations_spec_def intro!: wp_return)
  qed
qed

end

end
