(* ===== verification/Cache.thy ===== *)
theory Cache
  imports Errcode "HOL-Library.State_Monad"
begin

text \<open>
  \<^verbatim>\<open>internal/cache\<close>: the interface as a record of operations, its contract as the locale
  \<^verbatim>\<open>cache_contract\<close>, and the in-process implementation \<^verbatim>\<open>internal/cache/local\<close> with its
  interpretation. Each operation takes the reading of the cache's clock at the call. The contract
  speaks of \<^verbatim>\<open>live s now k\<close>, the value a reader finds under \<^verbatim>\<open>k\<close> at the time \<^verbatim>\<open>now\<close>.
\<close>

section \<open>cache.go\<close>

definition KeyPrefix :: string where "KeyPrefix = ''nexo:''"

record 's CacheOps =
  cache_Get :: "time \<Rightarrow> string \<Rightarrow> ('s, (string \<times> bool) result) state"
  cache_Set :: "time \<Rightarrow> string \<Rightarrow> string \<Rightarrow> duration \<Rightarrow> ('s, unit result) state"
  cache_SetNX :: "time \<Rightarrow> string \<Rightarrow> string \<Rightarrow> duration \<Rightarrow> ('s, bool result) state"
  cache_DelIfValue :: "time \<Rightarrow> string \<Rightarrow> string \<Rightarrow> ('s, unit result) state"

section \<open>The contract\<close>

text \<open>How long a value written at \<^verbatim>\<open>now\<close> with \<^verbatim>\<open>ttl\<close> is there.\<close>

definition lasts :: "time \<Rightarrow> duration \<Rightarrow> time \<Rightarrow> bool" where
  "lasts now ttl t \<longleftrightarrow> ttl \<le> 0 \<or> t < now + ttl"

text \<open>From \<^verbatim>\<open>now\<close> on the key \<^verbatim>\<open>k\<close> shows \<^verbatim>\<open>f\<close> and every other key what it did.\<close>

definition shows_at :: "('s \<Rightarrow> time \<Rightarrow> string \<Rightarrow> string option) \<Rightarrow> 's \<Rightarrow> 's \<Rightarrow> time \<Rightarrow> string \<Rightarrow> (time \<Rightarrow> string option) \<Rightarrow> bool" where
  "shows_at live s s' now k f \<longleftrightarrow> (\<forall>t k'. now \<le> t \<longrightarrow> live s' t k' = (if k' = k then f t else live s t k'))"

text \<open>A failed call may or may not have taken effect. Clocks read from the epoch on.\<close>

locale cache_contract =
  fixes c :: "'s CacheOps" and live :: "'s \<Rightarrow> time \<Rightarrow> string \<Rightarrow> string option"
  assumes live_fades: "now \<le> t \<Longrightarrow> live s t k = Some v \<Longrightarrow> live s now k = Some v"
    and Get_ok: "run_state (cache_Get c now k) s = (x, s') \<Longrightarrow>
      shows_at live s s' now k (\<lambda>t. live s t k) \<and>
      (case x of Inl _ \<Rightarrow> True | Inr (v, found) \<Rightarrow> live s now k = (if found then Some v else None))"
    and Set_ok: "0 \<le> now \<Longrightarrow> run_state (cache_Set c now k v ttl) s = (y, s') \<Longrightarrow>
      shows_at live s s' now k (\<lambda>t. if lasts now ttl t then Some v else None) \<or>
      (y \<noteq> Inr () \<and> shows_at live s s' now k (\<lambda>t. live s t k))"
    and SetNX_ok: "0 \<le> now \<Longrightarrow> run_state (cache_SetNX c now k v ttl) s = (b, s') \<Longrightarrow>
      (b \<noteq> Inr False \<and> live s now k = None \<and>
         shows_at live s s' now k (\<lambda>t. if lasts now ttl t then Some v else None)) \<or>
      (b \<noteq> Inr True \<and> (b = Inr False \<longrightarrow> live s now k \<noteq> None) \<and> shows_at live s s' now k (\<lambda>t. live s t k))"
    and DelIfValue_ok: "run_state (cache_DelIfValue c now k v) s = (z, s') \<Longrightarrow>
      shows_at live s s' now k (\<lambda>t. if live s now k = Some v then None else live s t k) \<or>
      (z \<noteq> Inr () \<and> shows_at live s s' now k (\<lambda>t. live s t k))"
begin

text \<open>A key that is absent stays absent until it is written.\<close>

lemma live_gone: "now \<le> t \<Longrightarrow> live s now k = None \<Longrightarrow> live s t k = None"
  using live_fades by (cases "live s t k") force+

lemma Get_keeps:
  assumes "run_state (cache_Get c now k) s = (r, s')" "now \<le> t"
  shows "live s' t k' = live s t k'"
  using Get_ok [OF assms(1)] assms(2) by (auto simp: shows_at_def)

lemma Set_then:
  assumes "0 \<le> now" "run_state (cache_Set c now k v ttl) s = (Inr (), s')" "now \<le> t"
  shows "live s' t k = (if lasts now ttl t then Some v else None)" "k' \<noteq> k \<Longrightarrow> live s' t k' = live s t k'"
  using Set_ok [OF assms(1,2)] assms(3) by (auto simp: shows_at_def)

lemma SetNX_once:
  assumes "0 \<le> now" "run_state (cache_SetNX c now k v ttl) s = (Inr True, s')" "now \<le> t" "lasts now ttl t"
    and "run_state (cache_SetNX c t k v' ttl') s' = (r, s'')"
  shows "r \<noteq> Inr True"
proof -
  have "live s' t k = Some v"
    using SetNX_ok [OF assms(1,2)] assms(3,4) by (auto simp: shows_at_def)
  then show ?thesis
    using SetNX_ok [OF _ assms(5)] assms(1,3) by auto
qed

end

section \<open>local.go\<close>

record entry =
  e_val :: string
  e_exp :: time

definition alive :: "entry \<Rightarrow> time \<Rightarrow> bool" where
  "alive e now \<longleftrightarrow> e_exp e = time_zero \<or> e_exp e > now"

type_synonym LocalCache = "string \<rightharpoonup> entry"

definition local_New :: LocalCache where "local_New = Map.empty"

text \<open>One round of the sweeper.\<close>

definition local_sweep :: "time \<Rightarrow> LocalCache \<Rightarrow> LocalCache" where
  "local_sweep now m = (\<lambda>k. case m k of None \<Rightarrow> None | Some e \<Rightarrow> if alive e now then Some e else None)"

definition expiry :: "time \<Rightarrow> duration \<Rightarrow> time" where
  "expiry now ttl = (if ttl \<le> 0 then time_zero else now + ttl)"

definition local_get :: "time \<Rightarrow> string \<Rightarrow> LocalCache \<Rightarrow> entry option \<times> LocalCache" where
  "local_get now key m =
     (case m key of
        None \<Rightarrow> (None, m)
      | Some e \<Rightarrow> if \<not> alive e now then (None, m(key := None)) else (Some e, m))"

definition local_Get :: "time \<Rightarrow> string \<Rightarrow> (LocalCache, (string \<times> bool) result) state" where
  "local_Get now key = State (\<lambda>m. case local_get now key m of
     (None, m) \<Rightarrow> (Inr ([], False), m)
   | (Some e, m) \<Rightarrow> (Inr (e_val e, True), m))"

definition local_Set :: "time \<Rightarrow> string \<Rightarrow> string \<Rightarrow> duration \<Rightarrow> (LocalCache, unit result) state" where
  "local_Set now key val ttl = State (\<lambda>m. (Inr (), m(key \<mapsto> \<lparr>e_val = val, e_exp = expiry now ttl\<rparr>)))"

definition local_SetNX :: "time \<Rightarrow> string \<Rightarrow> string \<Rightarrow> duration \<Rightarrow> (LocalCache, bool result) state" where
  "local_SetNX now key val ttl = State (\<lambda>m. case local_get now key m of
     (Some _, m) \<Rightarrow> (Inr False, m)
   | (None, m) \<Rightarrow> (Inr True, m(key \<mapsto> \<lparr>e_val = val, e_exp = expiry now ttl\<rparr>)))"

definition local_DelIfValue :: "time \<Rightarrow> string \<Rightarrow> string \<Rightarrow> (LocalCache, unit result) state" where
  "local_DelIfValue now key expected = State (\<lambda>m. case local_get now key m of
     (Some e, m) \<Rightarrow> (Inr (), if e_val e = expected then m(key := None) else m)
   | (None, m) \<Rightarrow> (Inr (), m))"

definition local_cache :: "LocalCache CacheOps" where
  "local_cache = \<lparr>cache_Get = local_Get, cache_Set = local_Set, cache_SetNX = local_SetNX,
     cache_DelIfValue = local_DelIfValue\<rparr>"

section \<open>The local cache keeps the contract\<close>

definition local_live :: "LocalCache \<Rightarrow> time \<Rightarrow> string \<Rightarrow> string option" where
  "local_live m now k = (case m k of None \<Rightarrow> None | Some e \<Rightarrow> if alive e now then Some (e_val e) else None)"

lemma alive_fades: "now \<le> t \<Longrightarrow> alive e t \<Longrightarrow> alive e now"
  by (auto simp: alive_def)

text \<open>The zero time as an expiry means none; no clock from the epoch on makes it by accident.\<close>

lemma alive_written:
  "0 \<le> now \<Longrightarrow> alive \<lparr>e_val = v, e_exp = expiry now ttl\<rparr> t \<longleftrightarrow> lasts now ttl t"
  by (auto simp: alive_def expiry_def lasts_def time_zero_def second_def)

text \<open>Looking a key up drops it when it is dead, which no reader can tell.\<close>

definition drop_dead :: "time \<Rightarrow> string \<Rightarrow> LocalCache \<Rightarrow> LocalCache" where
  "drop_dead now k m = (if local_live m now k = None then m(k := None) else m)"

lemma drop_dead_live: "now \<le> t \<Longrightarrow> local_live (drop_dead now k m) t k' = local_live m t k'"
  using alive_fades [of now t]
  by (cases "m k") (auto simp: drop_dead_def local_live_def)

lemma run_local:
  "run_state (local_Get now k) m =
     (Inr (case local_live m now k of Some v \<Rightarrow> (v, True) | None \<Rightarrow> ([], False)), drop_dead now k m)"
  "run_state (local_SetNX now k v ttl) m =
     (if local_live m now k = None then (Inr True, m(k \<mapsto> \<lparr>e_val = v, e_exp = expiry now ttl\<rparr>)) else (Inr False, m))"
  "run_state (local_DelIfValue now k v) m =
     (Inr (), if local_live m now k = Some v then m(k := None) else drop_dead now k m)"
  by (cases "m k"; simp add: local_Get_def local_SetNX_def local_DelIfValue_def local_get_def local_live_def
      drop_dead_def fun_upd_idem)+

lemma written_live:
  "0 \<le> now \<Longrightarrow> local_live (m(k \<mapsto> \<lparr>e_val = v, e_exp = expiry now ttl\<rparr>)) t k' =
     (if k' = k then if lasts now ttl t then Some v else None else local_live m t k')"
  by (simp add: local_live_def alive_written)

lemma removed_live: "local_live (m(k := None)) t k' = (if k' = k then None else local_live m t k')"
  by (simp add: local_live_def)

interpretation local: cache_contract local_cache local_live
proof
  fix now t s k v
  assume "now \<le> t" "local_live s t k = Some v"
  then show "local_live s now k = Some v"
    using alive_fades [of now t] by (auto simp: local_live_def split: option.splits if_splits)
next
  fix now k s r s'
  assume "run_state (cache_Get local_cache now k) s = (r, s')"
  then show "shows_at local_live s s' now k (\<lambda>t. local_live s t k) \<and>
      (case r of Inl _ \<Rightarrow> True | Inr (v, found) \<Rightarrow> local_live s now k = (if found then Some v else None))"
    by (auto simp: local_cache_def run_local shows_at_def drop_dead_live split: option.split)
next
  fix now k v ttl s r s'
  assume "(0 :: int) \<le> now" "run_state (cache_Set local_cache now k v ttl) s = (r, s')"
  then show "shows_at local_live s s' now k (\<lambda>t. if lasts now ttl t then Some v else None) \<or>
      (r \<noteq> Inr () \<and> shows_at local_live s s' now k (\<lambda>t. local_live s t k))"
    by (auto simp: local_cache_def local_Set_def shows_at_def written_live)
next
  fix now k v ttl s r s'
  assume "(0 :: int) \<le> now" "run_state (cache_SetNX local_cache now k v ttl) s = (r, s')"
  then show "(r \<noteq> Inr False \<and> local_live s now k = None \<and>
         shows_at local_live s s' now k (\<lambda>t. if lasts now ttl t then Some v else None)) \<or>
      (r \<noteq> Inr True \<and> (r = Inr False \<longrightarrow> local_live s now k \<noteq> None) \<and> shows_at local_live s s' now k (\<lambda>t. local_live s t k))"
    by (auto simp: local_cache_def run_local shows_at_def written_live split: if_splits)
next
  fix now k v s r s'
  assume "run_state (cache_DelIfValue local_cache now k v) s = (r, s')"
  then show "shows_at local_live s s' now k (\<lambda>t. if local_live s now k = Some v then None else local_live s t k) \<or>
      (r \<noteq> Inr () \<and> shows_at local_live s s' now k (\<lambda>t. local_live s t k))"
    by (auto simp: local_cache_def run_local shows_at_def removed_live drop_dead_live split: if_splits)
qed

text \<open>The sweeper is invisible.\<close>

lemma local_sweep_live: "now \<le> t \<Longrightarrow> local_live (local_sweep now m) t k = local_live m t k"
  using alive_fades [of now t] by (auto simp: local_live_def local_sweep_def split: option.splits)

lemma local_never_fails:
  "fst (run_state (local_Get now k) m) \<noteq> Inl e" "fst (run_state (local_Set now k v ttl) m) \<noteq> Inl e"
  "fst (run_state (local_SetNX now k v ttl) m) \<noteq> Inl e" "fst (run_state (local_DelIfValue now k v) m) \<noteq> Inl e"
  by (simp_all add: run_local local_Set_def)

end
