(* ===== verification/Auth.thy ===== *)
theory Auth
  imports Cache Identity
begin

text \<open>
  \<^verbatim>\<open>internal/tokenstore\<close> and \<^verbatim>\<open>internal/auth\<close>: the token store over a cache, native tokens
  (issue, verify, revoke), platform tokens, the chain of providers, and the signature check of
  internal requests. JSON web tokens, SHA-256 and HMAC are parameters; what the code relies on
  from them is stated as \<^verbatim>\<open>jwt_ok\<close>. A cache call takes the reading of the cache's clock.
\<close>

section \<open>tokenstore.go\<close>

definition token_key :: "string \<Rightarrow> int \<Rightarrow> string" where
  "token_key userId platformId = KeyPrefix @ ''tok:'' @ userId @ '':'' @ FormatInt platformId"

definition tokens_Set :: "'s CacheOps \<Rightarrow> time \<Rightarrow> string \<Rightarrow> int \<Rightarrow> string \<Rightarrow> duration \<Rightarrow> ('s, unit result) state" where
  "tokens_Set c cnow userId platformId tokenId ttl = cache_Set c cnow (token_key userId platformId) tokenId ttl"

definition tokens_Check :: "'s CacheOps \<Rightarrow> time \<Rightarrow> string \<Rightarrow> int \<Rightarrow> string \<Rightarrow> ('s, bool result) state" where
  "tokens_Check c cnow userId platformId tokenId = do {
     r \<leftarrow> cache_Get c cnow (token_key userId platformId);
     State_Monad.return (case r of
        Inl e \<Rightarrow> Inl e
      | Inr (cur, found) \<Rightarrow> Inr (found \<and> cur = tokenId))
   }"

definition tokens_Delete :: "'s CacheOps \<Rightarrow> time \<Rightarrow> string \<Rightarrow> int \<Rightarrow> string \<Rightarrow> ('s, unit result) state" where
  "tokens_Delete c cnow userId platformId tokenId = cache_DelIfValue c cnow (token_key userId platformId) tokenId"

lemma token_key_inj:
  assumes "in_i64 p" "in_i64 p'"
  shows "token_key u p = token_key u' p' \<longleftrightarrow> u = u' \<and> p = p'"
proof
  assume eq: "token_key u p = token_key u' p'"
  have tail: "rev (takeWhile (\<lambda>c. c \<noteq> CHR '':'') (rev (x @ '':'' @ FormatInt q))) = FormatInt q"
    "rev (tl (dropWhile (\<lambda>c. c \<noteq> CHR '':'') (rev (x @ '':'' @ FormatInt q)))) = x" for x q
    using FormatInt_no_colon [of q] by (simp_all add: takeWhile_append dropWhile_append)
  have "u @ '':'' @ FormatInt p = u' @ '':'' @ FormatInt p'"
    using eq by (simp add: token_key_def)
  then have "FormatInt p = FormatInt p'" "u = u'"
    using tail [of u p] tail [of u' p'] by simp_all
  then show "u = u' \<and> p = p'"
    using FormatInt_inj [OF assms] by simp
qed simp

section \<open>auth.go\<close>

definition MaxPlatformId :: int where "MaxPlatformId = 10"
definition SourceExternal :: string where "SourceExternal = ''external''"
definition SourceNative :: string where "SourceNative = ''native''"
definition SourceInternal :: string where "SourceInternal = ''internal''"

record AuthIdentity =
  id_UserId :: string
  id_Role :: string
  id_PlatformId :: int
  id_TokenId :: string
  id_ExpiresAt :: int64
  id_Source :: string

section \<open>JSON web tokens\<close>

record ExternalClaims =
  xc_UserId :: int64
  xc_Role :: string
  xc_ExpiresAt :: "time option"

record NativeClaims =
  nc_PlatformId :: int
  nc_Subject :: string
  nc_Id :: string
  nc_IssuedAt :: "time option"
  nc_ExpiresAt :: "time option"

text \<open>What the code calls of \<^verbatim>\<open>golang-jwt\<close>: signing with HS256, parsing with that method only at a
  given time, and the rounding of a date.\<close>

record Jwt =
  NewNumericDate :: "time \<Rightarrow> time"
  SignedString :: "string \<Rightarrow> NativeClaims \<Rightarrow> string result"
  ParseNative :: "string \<Rightarrow> time \<Rightarrow> string \<Rightarrow> NativeClaims result"
  ParseExternal :: "string \<Rightarrow> time \<Rightarrow> string \<Rightarrow> ExternalClaims result"

definition mapJwtErr :: "go_error \<Rightarrow> go_error" where
  "mapJwtErr err =
     (if errors_Is err (Sentinel jwt_ErrTokenExpired) then Sentinel auth_ErrTokenExpired
      else Errorf ''%w: %w'' [Sentinel auth_ErrTokenInvalid, err])"

section \<open>native.go\<close>

record 's Native =
  n_secret :: string
  n_ttl :: duration
  n_tokens :: "'s CacheOps"
  n_jwt :: Jwt

definition native_claims :: "'s Native \<Rightarrow> string \<Rightarrow> int \<Rightarrow> string \<Rightarrow> time \<Rightarrow> NativeClaims" where
  "native_claims n userId platformId uuid now =
     \<lparr>nc_PlatformId = platformId, nc_Subject = userId, nc_Id = uuid,
      nc_IssuedAt = Some (NewNumericDate (n_jwt n) now),
      nc_ExpiresAt = Some (NewNumericDate (n_jwt n) (now + n_ttl n))\<rparr>"

definition Issue :: "'s Native \<Rightarrow> string \<Rightarrow> int \<Rightarrow> string \<Rightarrow> time \<Rightarrow> time \<Rightarrow> ('s, (string \<times> time) result) state" where
  "Issue n userId platformId uuid now cnow =
     (let expiresAt = now + n_ttl n; claims = native_claims n userId platformId uuid now in
      case SignedString (n_jwt n) (n_secret n) claims of
        Inl e \<Rightarrow> State_Monad.return (Inl (Errorf ''auth: sign: %w'' [e]))
      | Inr token \<Rightarrow> do {
          r \<leftarrow> tokens_Set (n_tokens n) cnow userId platformId (nc_Id claims) (n_ttl n);
          State_Monad.return (case r of
             Inl e \<Rightarrow> Inl (Errorf ''%w: %w'' [Sentinel auth_ErrUnavailable, e])
           | Inr _ \<Rightarrow> Inr (token, expiresAt))
        })"

definition Revoke :: "'s Native \<Rightarrow> string \<Rightarrow> int \<Rightarrow> string \<Rightarrow> time \<Rightarrow> ('s, unit result) state" where
  "Revoke n userId platformId tokenId cnow = do {
     r \<leftarrow> tokens_Delete (n_tokens n) cnow userId platformId tokenId;
     State_Monad.return (case r of
        Inl e \<Rightarrow> Inl (Errorf ''%w: %w'' [Sentinel auth_ErrUnavailable, e])
      | Inr _ \<Rightarrow> Inr ())
   }"

definition Native_Check :: "'s Native \<Rightarrow> AuthIdentity \<Rightarrow> time \<Rightarrow> ('s, unit result) state" where
  "Native_Check n i cnow = do {
     r \<leftarrow> tokens_Check (n_tokens n) cnow (id_UserId i) (id_PlatformId i) (id_TokenId i);
     State_Monad.return (case r of
        Inl e \<Rightarrow> Inl (Errorf ''%w: %w'' [Sentinel auth_ErrUnavailable, e])
      | Inr ok \<Rightarrow> if \<not> ok then Inl (Errorf ''%w: superseded'' [Sentinel auth_ErrTokenExpired]) else Inr ())
   }"

definition native_identity :: "NativeClaims \<Rightarrow> time \<Rightarrow> AuthIdentity" where
  "native_identity claims exp =
     \<lparr>id_UserId = nc_Subject claims, id_Role = ''user'', id_PlatformId = nc_PlatformId claims,
      id_TokenId = nc_Id claims, id_ExpiresAt = UnixMilli exp, id_Source = SourceNative\<rparr>"

definition native_check :: "'s Native \<Rightarrow> NativeClaims \<Rightarrow> time \<Rightarrow> time \<Rightarrow> ('s, AuthIdentity result) state" where
  "native_check n claims exp cnow = do {
     r \<leftarrow> Native_Check n (native_identity claims exp) cnow;
     State_Monad.return (case r of Inl e \<Rightarrow> Inl e | Inr _ \<Rightarrow> Inr (native_identity claims exp))
   }"

definition native_malformed :: "NativeClaims \<Rightarrow> bool" where
  "native_malformed claims \<longleftrightarrow> nc_Id claims = [] \<or> \<not> IsNative (nc_Subject claims) \<or>
     nc_PlatformId claims < 1 \<or> nc_PlatformId claims > MaxPlatformId"

definition Native_Verify :: "'s Native \<Rightarrow> time \<Rightarrow> time \<Rightarrow> string \<Rightarrow> ('s, AuthIdentity result) state" where
  "Native_Verify n now cnow token =
     (case ParseNative (n_jwt n) (n_secret n) now token of
        Inl e \<Rightarrow> State_Monad.return (Inl (mapJwtErr e))
      | Inr claims \<Rightarrow>
          (case nc_ExpiresAt claims of
             None \<Rightarrow> State_Monad.return (Inl (Errorf ''%w: malformed native claims'' [Sentinel auth_ErrTokenInvalid]))
           | Some exp \<Rightarrow>
               if native_malformed claims
               then State_Monad.return (Inl (Errorf ''%w: malformed native claims'' [Sentinel auth_ErrTokenInvalid]))
               else native_check n claims exp cnow))"

section \<open>external.go\<close>

record External =
  x_secrets :: "string list"
  x_defaultRole :: string
  x_jwt :: Jwt
  x_sha256 :: "string \<Rightarrow> string"

definition no_claims :: ExternalClaims where
  "no_claims = \<lparr>xc_UserId = 0, xc_Role = [], xc_ExpiresAt = None\<rparr>"

text \<open>The loop over the secrets: the first that verifies the signature decides.\<close>

fun external_claims :: "Jwt \<Rightarrow> string list \<Rightarrow> time \<Rightarrow> string \<Rightarrow> ExternalClaims result" where
  "external_claims j [] now token = Inr no_claims"
| "external_claims j (secret # secrets) now token =
     (case ParseExternal j secret now token of
        Inr claims \<Rightarrow> Inr claims
      | Inl err \<Rightarrow>
          if \<not> errors_Is err (Sentinel jwt_ErrTokenSignatureInvalid) \<or> secrets = [] then Inl err
          else external_claims j secrets now token)"

definition role_of :: "string \<Rightarrow> Role" where
  "role_of r = (if r = ''user'' then RoleUser else if r = ''agent'' then RoleAgent else OtherRole r)"

text \<open>\<^verbatim>\<open>x_sha256 e token\<close> is the hexadecimal text of the digest's first 16 bytes.\<close>

definition External_Verify :: "External \<Rightarrow> time \<Rightarrow> string \<Rightarrow> AuthIdentity result" where
  "External_Verify e now token =
     (case external_claims (x_jwt e) (x_secrets e) now token of
        Inl err \<Rightarrow> Inl (mapJwtErr err)
      | Inr claims \<Rightarrow>
          (case xc_ExpiresAt claims of
             None \<Rightarrow> Inl (Errorf ''%w: exp or user_id missing'' [Sentinel auth_ErrTokenInvalid])
           | Some exp \<Rightarrow>
               if xc_UserId claims \<le> 0
               then Inl (Errorf ''%w: exp or user_id missing'' [Sentinel auth_ErrTokenInvalid])
               else let role = (if xc_Role claims \<noteq> [] then xc_Role claims else x_defaultRole e) in
                 (case UserId \<lparr>actor_Id = xc_UserId claims, actor_Role = role_of role\<rparr> of
                    Inl err \<Rightarrow> Inl (Errorf ''%w: %w'' [Sentinel auth_ErrTokenInvalid, err])
                  | Inr userId \<Rightarrow>
                      Inr \<lparr>id_UserId = userId, id_Role = role, id_PlatformId = 0,
                           id_TokenId = x_sha256 e token, id_ExpiresAt = UnixMilli exp,
                           id_Source = SourceExternal\<rparr>)))"

section \<open>chain.go\<close>

definition terminal :: "go_error \<Rightarrow> bool" where
  "terminal err \<longleftrightarrow> errors_Is err (Sentinel auth_ErrUnavailable) \<or> errors_Is err (Sentinel auth_ErrTokenExpired)"

fun chain_loop :: "go_error \<Rightarrow> (string \<Rightarrow> ('s, AuthIdentity result) state) list \<Rightarrow> string \<Rightarrow> ('s, AuthIdentity result) state" where
  "chain_loop lastErr [] token = State_Monad.return (Inl lastErr)"
| "chain_loop lastErr (a # as) token = do {
     r \<leftarrow> a token;
     (case r of
        Inr i \<Rightarrow> State_Monad.return (Inr i)
      | Inl err \<Rightarrow> chain_loop (if \<not> terminal lastErr \<or> terminal err then err else lastErr) as token)
   }"

definition Chain_Verify :: "(string \<Rightarrow> ('s, AuthIdentity result) state) list \<Rightarrow> string \<Rightarrow> ('s, AuthIdentity result) state" where
  "Chain_Verify c token = chain_loop (Sentinel auth_ErrTokenInvalid) c token"

section \<open>internal.go\<close>

definition minNonceLen :: nat where "minNonceLen = 16"

record InternalRequest =
  ir_Service :: string
  ir_Timestamp :: string
  ir_Nonce :: string
  ir_Method :: string
  ir_RawPath :: string
  ir_RawQuery :: string
  ir_UserId :: string
  ir_PlatformId :: string
  ir_Body :: string
  ir_Signature :: string

text \<open>\<^verbatim>\<open>strings.Join\<close> with a newline.\<close>

fun join_lines :: "string list \<Rightarrow> string" where
  "join_lines [] = []"
| "join_lines [x] = x"
| "join_lines (x # xs) = x @ CHR 0x0A # join_lines xs"

record 's Internal =
  i_secrets :: "string list"
  i_services :: "string list"
  i_skew :: duration
  i_nonces :: "'s CacheOps"
  i_sha256 :: "string \<Rightarrow> string"
  i_hmac :: "string \<Rightarrow> string \<Rightarrow> string"

definition payload :: "(string \<Rightarrow> string) \<Rightarrow> InternalRequest \<Rightarrow> string" where
  "payload sha r = join_lines [ir_Service r, ir_Timestamp r, ir_Nonce r, ir_Method r, ir_RawPath r,
     ir_RawQuery r, ir_UserId r, ir_PlatformId r, sha (ir_Body r)]"

definition Sign :: "(string \<Rightarrow> string) \<Rightarrow> (string \<Rightarrow> string \<Rightarrow> string) \<Rightarrow> string \<Rightarrow> InternalRequest \<Rightarrow> string" where
  "Sign sha hmac secret r = hmac secret (payload sha r)"

text \<open>\<^verbatim>\<open>t.Sub(u).Abs()\<close>, which saturates.\<close>

definition sub_abs :: "time \<Rightarrow> time \<Rightarrow> duration" where
  "sub_abs t u = min (2 ^ 63 - 1) \<bar>t - u\<bar>"

definition nonce_key :: "InternalRequest \<Rightarrow> string" where
  "nonce_key r = KeyPrefix @ ''inonce:'' @ ir_Service r @ '':'' @ ir_Nonce r"

text \<open>The checks before the nonce is taken: \<^verbatim>\<open>None\<close> when they all pass.\<close>

definition internal_checks :: "'s Internal \<Rightarrow> InternalRequest \<Rightarrow> time \<Rightarrow> go_error option" where
  "internal_checks i r now =
     (if ir_Service r \<notin> set (i_services i) then Some (Errorf ''%w: service'' [Sentinel auth_ErrServiceNotAllowed])
      else case ParseInt (ir_Timestamp r) of
        None \<Rightarrow> Some (Errorf ''%w: bad timestamp'' [Sentinel auth_ErrClockSkew])
      | Some ts \<Rightarrow>
          if sub_abs now (ts * second) > i_skew i then Some (Errorf ''%w: skew'' [Sentinel auth_ErrClockSkew])
          else if length (ir_Nonce r) < minNonceLen then Some (Errorf ''%w: nonce too short'' [Sentinel auth_ErrBadSignature])
          else let p = payload (i_sha256 i) r in
            if \<not> list_ex (\<lambda>s. i_hmac i s p = ir_Signature r) (i_secrets i) then Some (Sentinel auth_ErrBadSignature)
            else None)"

definition Internal_Verify :: "'s Internal \<Rightarrow> InternalRequest \<Rightarrow> time \<Rightarrow> time \<Rightarrow> ('s, unit result) state" where
  "Internal_Verify i r now cnow =
     (case internal_checks i r now of
        Some e \<Rightarrow> State_Monad.return (Inl e)
      | None \<Rightarrow> do {
          fresh \<leftarrow> cache_SetNX (i_nonces i) cnow (nonce_key r) ''1'' (2 * i_skew i);
          State_Monad.return (case fresh of
             Inl e \<Rightarrow> Inl (Errorf ''%w: nonce store: %w'' [Sentinel auth_ErrUnavailable, e])
           | Inr f \<Rightarrow> if \<not> f then Inl (Sentinel auth_ErrNonceReplayed) else Inr ())
        })"

section \<open>Native tokens\<close>

text \<open>What the code relies on from the token library, as its documentation states it: a date is cut to
  the second, and a signed token parses back to its claims until it expires, provided the claims
  survive JSON: plain ASCII text and whole seconds a float can hold.\<close>

definition ascii :: "string \<Rightarrow> bool" where
  "ascii x \<longleftrightarrow> list_all (\<lambda>c. (of_char c :: nat) < 128) x"

definition json_date :: "time \<Rightarrow> bool" where
  "json_date t \<longleftrightarrow> 0 \<le> t \<and> t < 2 ^ 53 * second \<and> t mod second = 0"

definition json_claims :: "NativeClaims \<Rightarrow> bool" where
  "json_claims claims \<longleftrightarrow> in_i64 (nc_PlatformId claims) \<and> ascii (nc_Subject claims) \<and> ascii (nc_Id claims) \<and>
     pred_option json_date (nc_IssuedAt claims) \<and> pred_option json_date (nc_ExpiresAt claims)"

definition jwt_ok :: "Jwt \<Rightarrow> bool" where
  "jwt_ok j \<longleftrightarrow>
     (\<forall>t. 0 \<le> t \<longrightarrow> NewNumericDate j t = t - t mod second) \<and>
     (\<forall>secret claims token exp now. SignedString j secret claims = Inr token \<longrightarrow> json_claims claims \<longrightarrow>
        nc_ExpiresAt claims = Some exp \<longrightarrow>
        (if now < exp then ParseNative j secret now token = Inr claims
         else \<exists>e. ParseNative j secret now token = Inl e \<and> errors_Is e (Sentinel jwt_ErrTokenExpired)))"

lemma json_date_cut: "0 \<le> t \<Longrightarrow> t < 2 ^ 53 * second \<Longrightarrow> json_date (t - t mod second)"
  using zmod_le_nonneg_dividend [of t second] pos_mod_sign [of second t]
  by (auto simp: json_date_def second_def mod_diff_left_eq)

text \<open>The claims of a login are such claims.\<close>

lemma json_native_claims:
  assumes "jwt_ok (n_jwt n)" "in_i64 p" "ascii u" "ascii uuid" "0 \<le> now" "0 \<le> n_ttl n" "now + n_ttl n < 2 ^ 53 * second"
  shows "json_claims (native_claims n u p uuid now)"
    "nc_ExpiresAt (native_claims n u p uuid now) = Some (now + n_ttl n - (now + n_ttl n) mod second)"
proof -
  have "NewNumericDate (n_jwt n) t = t - t mod second" if "0 \<le> t" for t
    using assms(1) that by (simp add: jwt_ok_def)
  then show "json_claims (native_claims n u p uuid now)"
    "nc_ExpiresAt (native_claims n u p uuid now) = Some (now + n_ttl n - (now + n_ttl n) mod second)"
    using assms json_date_cut [of now] json_date_cut [of "now + n_ttl n"] by (simp_all add: json_claims_def native_claims_def)
qed

context cache_contract
begin

lemma Native_Check_live:
  assumes "n_tokens n = c" "run_state (Native_Check n i cnow) s = (r, s')"
  shows "cnow \<le> t \<Longrightarrow> live s' t k = live s t k"
    "r = Inr () \<Longrightarrow> live s cnow (token_key (id_UserId i) (id_PlatformId i)) = Some (id_TokenId i)"
    "r = Inl e \<Longrightarrow> \<not> errors_Is e (Sentinel auth_ErrUnavailable) \<Longrightarrow>
       live s cnow (token_key (id_UserId i) (id_PlatformId i)) \<noteq> Some (id_TokenId i) \<and>
       errors_Is e (Sentinel auth_ErrTokenExpired)"
proof -
  obtain g s1 where g: "run_state (cache_Get c cnow (token_key (id_UserId i) (id_PlatformId i))) s = (g, s1)"
    by fastforce
  have run: "s' = s1" "r = (case g of
      Inl e \<Rightarrow> Inl (Errorf ''%w: %w'' [Sentinel auth_ErrUnavailable, e])
    | Inr (cur, found) \<Rightarrow> if found \<and> cur = id_TokenId i then Inr ()
        else Inl (Errorf ''%w: superseded'' [Sentinel auth_ErrTokenExpired]))"
    using assms g by (auto simp: Native_Check_def tokens_Check_def State_Monad.bind_def split: sum.splits if_splits)
  show "cnow \<le> t \<Longrightarrow> live s' t k = live s t k"
    using Get_keeps [OF g] run(1) by simp
  show "r = Inr () \<Longrightarrow> live s cnow (token_key (id_UserId i) (id_PlatformId i)) = Some (id_TokenId i)"
    "r = Inl e \<Longrightarrow> \<not> errors_Is e (Sentinel auth_ErrUnavailable) \<Longrightarrow>
       live s cnow (token_key (id_UserId i) (id_PlatformId i)) \<noteq> Some (id_TokenId i) \<and>
       errors_Is e (Sentinel auth_ErrTokenExpired)"
    using Get_ok [OF g] run(2) by (auto split: sum.splits if_splits prod.splits)
qed

lemma Issue_live:
  assumes "n_tokens n = c" "0 \<le> cnow" "run_state (Issue n u p uuid now cnow) s = (Inr (token, exp), s')" "cnow \<le> t"
  shows "live s' t k = (if k = token_key u p then if lasts cnow (n_ttl n) t then Some uuid else None else live s t k)"
    "SignedString (n_jwt n) (n_secret n) (native_claims n u p uuid now) = Inr token" "exp = now + n_ttl n"
proof -
  obtain tok where tok: "SignedString (n_jwt n) (n_secret n) (native_claims n u p uuid now) = Inr tok"
    using assms(3) by (auto simp: Issue_def Let_def split: sum.splits)
  obtain x s1 where x: "run_state (cache_Set c cnow (token_key u p) uuid (n_ttl n)) s = (x, s1)"
    by fastforce
  have "x = Inr ()" "s' = s1" "token = tok" and exp: "exp = now + n_ttl n"
    using assms(1,3) tok x
    by (auto simp: Issue_def Let_def tokens_Set_def State_Monad.bind_def native_claims_def split: sum.splits)
  then show "live s' t k = (if k = token_key u p then if lasts cnow (n_ttl n) t then Some uuid else None else live s t k)"
    using Set_then [OF assms(2) _ assms(4)] x by auto
  show "SignedString (n_jwt n) (n_secret n) (native_claims n u p uuid now) = Inr token" "exp = now + n_ttl n"
    using tok \<open>token = tok\<close> exp by simp_all
qed

lemma Revoke_live:
  assumes "n_tokens n = c" "run_state (Revoke n u p tok cnow) s = (Inr (), s')" "cnow \<le> t"
  shows "live s' t k = (if k = token_key u p \<and> live s cnow k = Some tok then None else live s t k)"
proof -
  obtain x s1 where x: "run_state (cache_DelIfValue c cnow (token_key u p) tok) s = (x, s1)"
    by fastforce
  have "x = Inr ()" "s' = s1"
    using assms(1,2) x by (auto simp: Revoke_def tokens_Delete_def State_Monad.bind_def split: sum.splits)
  then show ?thesis
    using DelIfValue_ok [OF x] assms(3) by (auto simp: shows_at_def)
qed

text \<open>A revoked token is gone for good; a key that showed another value keeps it.\<close>

lemma revoked_never:
  assumes "n_tokens n = c" "run_state (Revoke n u p tok cnow) s = (Inr (), s')" "cnow \<le> t"
  shows "live s' t k = Some v \<longleftrightarrow> live s t k = Some v \<and> (k = token_key u p \<longrightarrow> v \<noteq> tok)"
  using Revoke_live [OF assms] live_fades [OF assms(3), of s k v] by auto

end

section \<open>Internal requests\<close>

text \<open>The signed text determines the fields it was made of, when none of them holds a newline.\<close>

definition one_line :: "string \<Rightarrow> bool" where
  "one_line x \<longleftrightarrow> CHR 0x0A \<notin> set x"

definition request_lines :: "(string \<Rightarrow> string) \<Rightarrow> InternalRequest \<Rightarrow> string list" where
  "request_lines sha r = [ir_Service r, ir_Timestamp r, ir_Nonce r, ir_Method r, ir_RawPath r,
     ir_RawQuery r, ir_UserId r, ir_PlatformId r, sha (ir_Body r)]"

lemma append_newline_inj:
  "one_line x \<Longrightarrow> one_line y \<Longrightarrow> x @ CHR 0x0A # u = y @ CHR 0x0A # v \<longleftrightarrow> x = y \<and> u = v"
proof (induction x arbitrary: y)
  case Nil
  then show ?case
    by (cases y) (auto simp: one_line_def)
next
  case (Cons a x)
  then show ?case
    by (cases y) (auto simp: one_line_def)
qed

lemma join_lines_inj:
  assumes "list_all one_line xs" "list_all one_line ys" "length xs = length ys" "join_lines xs = join_lines ys"
  shows "xs = ys"
  using assms(3,1,2,4)
proof (induction xs ys rule: list_induct2)
  case (Cons x xs y ys)
  then show ?case
    by (cases xs; cases ys) (auto simp: append_newline_inj)
qed simp

text \<open>\<^verbatim>\<open>middleware/internal.go\<close>: the request is made from the method, the request target and the header
  fields of an HTTP request, none of which HTTP lets hold a newline.\<close>

record HttpRequest =
  ht_Method :: string
  ht_RequestURI :: string
  ht_Header :: "string \<Rightarrow> string"
  ht_Body :: string

definition Cut_query :: "string \<Rightarrow> string \<times> string" where
  "Cut_query s = (takeWhile (\<lambda>c. c \<noteq> CHR 0x3F) s, tl (dropWhile (\<lambda>c. c \<noteq> CHR 0x3F) s))"

definition internal_request :: "HttpRequest \<Rightarrow> InternalRequest" where
  "internal_request q =
     (let h = ht_Header q; (rawPath, rawQuery) = Cut_query (ht_RequestURI q) in
      \<lparr>ir_Service = h ''X-Service-Name'', ir_Timestamp = h ''X-Timestamp'', ir_Nonce = h ''X-Nonce'', ir_Method = ht_Method q,
       ir_RawPath = rawPath, ir_RawQuery = rawQuery, ir_UserId = h ''X-User-Id'', ir_PlatformId = h ''X-Platform-Id'',
       ir_Body = ht_Body q, ir_Signature = h ''X-Signature''\<rparr>)"

definition http_ok :: "HttpRequest \<Rightarrow> bool" where
  "http_ok q \<longleftrightarrow> one_line (ht_Method q) \<and> one_line (ht_RequestURI q) \<and> (\<forall>k. one_line (ht_Header q k))"

lemma Cut_query_lines: "one_line s \<Longrightarrow> one_line (fst (Cut_query s)) \<and> one_line (snd (Cut_query s))"
  by (auto simp: one_line_def Cut_query_def dest: set_takeWhileD list.set_sel(2) set_dropWhileD)
    (metis list.sel(2) list.set_sel(2) set_dropWhileD)

lemma internal_request_lines:
  assumes "http_ok q" "one_line (sha (ht_Body q))"
  shows "list_all one_line (request_lines sha (internal_request q))"
  using assms Cut_query_lines [of "ht_RequestURI q"]
  by (auto simp: request_lines_def internal_request_def http_ok_def Let_def split: prod.split)

text \<open>What passes the check was signed with one of the secrets.\<close>

lemma internal_checks_signed:
  "internal_checks i r now = None \<Longrightarrow> \<exists>secret \<in> set (i_secrets i). Sign (i_sha256 i) (i_hmac i) secret r = ir_Signature r"
  by (auto simp: internal_checks_def Let_def list_ex_iff Sign_def split: if_splits option.splits)

text \<open>A run of the check over requests as they arrive, each with the two clock readings.\<close>

fun verify_run :: "'s Internal \<Rightarrow> (InternalRequest \<times> time \<times> time) list \<Rightarrow> 's \<Rightarrow> unit result list" where
  "verify_run i [] s = []"
| "verify_run i ((r, now, cnow) # rs) s =
     (case run_state (Internal_Verify i r now cnow) s of (x, s') \<Rightarrow> x # verify_run i rs s')"

lemma length_verify_run [simp]: "length (verify_run i rs s) = length rs"
  by (induction i rs s rule: verify_run.induct) (simp_all split: prod.split)

context cache_contract
begin

lemma Internal_Verify_cases:
  assumes "i_nonces i = c" "0 \<le> cnow" "run_state (Internal_Verify i r now cnow) s = (x, s')"
  shows "x = Inr () \<Longrightarrow> internal_checks i r now = None \<and> live s cnow (nonce_key r) = None"
    "x = Inr () \<Longrightarrow> cnow \<le> t \<Longrightarrow> lasts cnow (2 * i_skew i) t \<Longrightarrow> live s' t (nonce_key r) = Some ''1''"
    "cnow \<le> t \<Longrightarrow> k \<noteq> nonce_key r \<or> live s cnow k \<noteq> None \<Longrightarrow> live s' t k = live s t k"
proof -
  have all: "(x = Inr () \<longrightarrow> internal_checks i r now = None \<and> live s cnow (nonce_key r) = None) \<and>
    (x = Inr () \<longrightarrow> cnow \<le> t \<longrightarrow> lasts cnow (2 * i_skew i) t \<longrightarrow> live s' t (nonce_key r) = Some ''1'') \<and>
    (cnow \<le> t \<longrightarrow> k \<noteq> nonce_key r \<or> live s cnow k \<noteq> None \<longrightarrow> live s' t k = live s t k)"
  proof (cases "internal_checks i r now")
    case None
    obtain f s1 where f: "run_state (cache_SetNX c cnow (nonce_key r) ''1'' (2 * i_skew i)) s = (f, s1)"
      by fastforce
    have "s' = s1" "x = Inr () \<longleftrightarrow> f = Inr True"
      using assms(1,3) None f by (auto simp: Internal_Verify_def State_Monad.bind_def split: sum.splits if_splits)
    then show ?thesis
      using None SetNX_ok [OF assms(2) f] by (auto simp: shows_at_def)
  qed (use assms(3) in \<open>auto simp: Internal_Verify_def\<close>)
  show "x = Inr () \<Longrightarrow> internal_checks i r now = None \<and> live s cnow (nonce_key r) = None"
    "x = Inr () \<Longrightarrow> cnow \<le> t \<Longrightarrow> lasts cnow (2 * i_skew i) t \<Longrightarrow> live s' t (nonce_key r) = Some ''1''"
    "cnow \<le> t \<Longrightarrow> k \<noteq> nonce_key r \<or> live s cnow k \<noteq> None \<Longrightarrow> live s' t k = live s t k"
    using all by blast+
qed

text \<open>While a nonce is remembered, no request with it is accepted.\<close>

lemma verify_run_refuses:
  assumes "i_nonces i = c" "sorted (map (\<lambda>x. snd (snd x)) rs)" "\<forall>(r, now, cnow) \<in> set rs. 0 \<le> cnow \<and> cn \<le> cnow"
    and "\<And>t. cn \<le> t \<Longrightarrow> t < end \<Longrightarrow> live s t k = Some v"
    and "j < length rs" "rs ! j = (r, now, cnow)" "nonce_key r = k" "verify_run i rs s ! j = Inr ()"
  shows "end \<le> cnow"
  using assms(2-8)
proof (induction rs arbitrary: s cn j)
  case (Cons q rs)
  obtain r1 n1 c1 where q: "q = (r1, n1, c1)"
    by (cases q) auto
  obtain x s' where x: "run_state (Internal_Verify i r1 n1 c1) s = (x, s')"
    by fastforce
  have c1: "0 \<le> c1" "cn \<le> c1"
    using Cons.prems(2) q by auto
  note step = Internal_Verify_cases [OF assms(1) c1(1) x]
  show ?case
  proof (cases j)
    case 0
    then have "x = Inr ()" "r1 = r" "c1 = cnow"
      using Cons.prems q x by auto
    then have "live s cnow k = None"
      using step(1) Cons.prems(6) by simp
    then show ?thesis
      using Cons.prems(3) [of cnow] c1(2) \<open>c1 = cnow\<close> by (cases "cnow < end") auto
  next
    case (Suc j')
    have "live s' t k = Some v" if "c1 \<le> t" "t < end" for t
      using step(3) [OF that(1), of k] Cons.prems(3) [of t] Cons.prems(3) [of c1] c1(2) that by simp
    moreover have "sorted (map (\<lambda>x. snd (snd x)) rs)" "\<forall>(r, now, cnow) \<in> set rs. 0 \<le> cnow \<and> c1 \<le> cnow"
      using Cons.prems(1,2) q by auto
    ultimately show ?thesis
      using Cons.IH [of c1 s' j'] Cons.prems(4-7) Suc q x by simp
  qed
qed simp

theorem nonce_accepted_once:
  assumes "i_nonces i = c" "sorted (map (\<lambda>x. snd (snd x)) rs)" "\<forall>(r, now, cnow) \<in> set rs. 0 \<le> cnow"
    and "j < k" "k < length rs" "rs ! j = (r, now, cnow)" "rs ! k = (r', now', cnow')" "nonce_key r = nonce_key r'"
    and "verify_run i rs s ! j = Inr ()" "verify_run i rs s ! k = Inr ()" "0 < i_skew i"
  shows "cnow + 2 * i_skew i \<le> cnow'"
  using assms(2-10)
proof (induction rs arbitrary: s j k)
  case (Cons q rs)
  obtain r1 n1 c1 where q: "q = (r1, n1, c1)"
    by (cases q) auto
  obtain x s' where x: "run_state (Internal_Verify i r1 n1 c1) s = (x, s')"
    by fastforce
  obtain k' where k': "k = Suc k'"
    using Cons.prems(3) by (cases k) auto
  have rest: "sorted (map (\<lambda>x. snd (snd x)) rs)" "\<forall>(r, now, cnow) \<in> set rs. 0 \<le> cnow \<and> c1 \<le> cnow" "0 \<le> c1"
    using Cons.prems(1,2) q by auto
  show ?case
  proof (cases j)
    case 0
    then have j: "x = Inr ()" "r1 = r" "c1 = cnow"
      using Cons.prems q x by auto
    have "live s' t (nonce_key r') = Some ''1''" if "c1 \<le> t" "t < c1 + 2 * i_skew i" for t
      using Internal_Verify_cases(2) [OF assms(1) rest(3) x j(1) that(1)] that j(2) Cons.prems(7)
      by (simp add: lasts_def)
    then show ?thesis
      using verify_run_refuses [OF assms(1) rest(1,2), of "c1 + 2 * i_skew i" s' "nonce_key r'" "''1''" k' r' now' cnow']
        Cons.prems k' q x j by simp
  next
    case (Suc j')
    then show ?thesis
      using Cons.IH [of j' k' s'] Cons.prems rest q x k' by auto
  qed
qed simp

end

section \<open>The chain\<close>

text \<open>The answers of the providers that are asked.\<close>

fun chain_answers :: "(string \<Rightarrow> ('s, AuthIdentity result) state) list \<Rightarrow> string \<Rightarrow> 's \<Rightarrow> AuthIdentity result list" where
  "chain_answers [] token s = []"
| "chain_answers (a # as) token s =
     (case run_state (a token) s of
        (Inr i, s') \<Rightarrow> [Inr i]
      | (Inl e, s') \<Rightarrow> Inl e # chain_answers as token s')"

fun refusals :: "AuthIdentity result list \<Rightarrow> go_error list" where
  "refusals [] = []"
| "refusals (Inl e # xs) = e # refusals xs"
| "refusals (Inr i # xs) = refusals xs"

text \<open>The refusal that stands: the last that has a meaning of its own, or else the last.\<close>

definition standing :: "go_error \<Rightarrow> go_error list \<Rightarrow> go_error" where
  "standing e0 es = (if filter terminal (e0 # es) = [] then List.last (e0 # es) else List.last (filter terminal (e0 # es)))"

lemma standing_step: "standing (if terminal e0 \<longrightarrow> terminal e then e else e0) es = standing e0 (e # es)"
  by (auto simp: standing_def)

lemma chain_loop_answers:
  assumes "run_state (chain_loop e0 as token) s = (r, s')"
  shows "r = Inr i \<longleftrightarrow> Inr i \<in> set (chain_answers as token s)"
    "r = Inl e \<Longrightarrow> e = standing e0 (refusals (chain_answers as token s))"
proof -
  have "(r = Inr i \<longleftrightarrow> Inr i \<in> set (chain_answers as token s)) \<and>
    (r = Inl e \<longrightarrow> e = standing e0 (refusals (chain_answers as token s)))"
    using assms
  proof (induction as arbitrary: e0 s)
    case (Cons a as)
    obtain x s1 where x: "run_state (a token) s = (x, s1)"
      by fastforce
    show ?case
    proof (cases x)
      case (Inl err)
      let ?e1 = "if \<not> terminal e0 \<or> terminal err then err else e0"
      have "run_state (chain_loop ?e1 as token) s1 = (r, s')"
        using Cons.prems x Inl by (simp add: State_Monad.bind_def)
      from Cons.IH [OF this] show ?thesis
        using x Inl by (simp add: standing_step)
    qed (use Cons.prems x in \<open>auto simp: State_Monad.bind_def\<close>)
  qed (auto simp: standing_def)
  then show "r = Inr i \<longleftrightarrow> Inr i \<in> set (chain_answers as token s)"
    "r = Inl e \<Longrightarrow> e = standing e0 (refusals (chain_answers as token s))"
    by blast+
qed

section \<open>Platform tokens\<close>

lemma role_of_cases: "role_of r = RoleUser \<longleftrightarrow> r = ''user''" "role_of r = RoleAgent \<longleftrightarrow> r = ''agent''"
  by (auto simp: role_of_def)

text \<open>The secret that verified the token: the ones before it refused the signature.\<close>

definition signed_with :: "External \<Rightarrow> time \<Rightarrow> string \<Rightarrow> ExternalClaims \<Rightarrow> bool" where
  "signed_with e now token claims \<longleftrightarrow> (\<exists>ss s ss'. x_secrets e = ss @ s # ss' \<and> ParseExternal (x_jwt e) s now token = Inr claims \<and>
     (\<forall>s' \<in> set ss. \<exists>err. ParseExternal (x_jwt e) s' now token = Inl err \<and> errors_Is err (Sentinel jwt_ErrTokenSignatureInvalid)))"

lemma external_claims_signed:
  assumes "external_claims j ss now token = Inr claims" "claims \<noteq> no_claims"
  shows "\<exists>ss1 s ss2. ss = ss1 @ s # ss2 \<and> ParseExternal j s now token = Inr claims \<and>
     (\<forall>s' \<in> set ss1. \<exists>err. ParseExternal j s' now token = Inl err \<and> errors_Is err (Sentinel jwt_ErrTokenSignatureInvalid))"
  using assms(1)
proof (induction ss)
  case (Cons s ss)
  show ?case
  proof (cases "ParseExternal j s now token")
    case (Inl err)
    then obtain ss1 s1 ss2 where "ss = ss1 @ s1 # ss2" "ParseExternal j s1 now token = Inr claims"
        "\<forall>s' \<in> set ss1. \<exists>err. ParseExternal j s' now token = Inl err \<and> errors_Is err (Sentinel jwt_ErrTokenSignatureInvalid)"
      using Cons by (auto split: if_splits)
    then show ?thesis
      using Inl Cons.prems by (intro exI [of _ "s # ss1"] exI [of _ s1] exI [of _ ss2]) (auto split: if_splits)
  next
    case (Inr c)
    then show ?thesis
      using Cons.prems by (intro exI [of _ "[]"] exI [of _ s] exI [of _ ss]) auto
  qed
qed (use assms(2) in simp)

text \<open>The identity an accepted token stands for.\<close>

definition external_role :: "External \<Rightarrow> ExternalClaims \<Rightarrow> string" where
  "external_role e claims = (if xc_Role claims \<noteq> [] then xc_Role claims else x_defaultRole e)"

lemma External_Verify_actor:
  assumes "External_Verify e now token = Inr i"
    and "\<And>secret claims. ParseExternal (x_jwt e) secret now token = Inr claims \<Longrightarrow> in_i64 (xc_UserId claims)"
  shows "\<exists>claims exp. signed_with e now token claims \<and> xc_ExpiresAt claims = Some exp \<and> 0 < xc_UserId claims \<and>
    role_of (external_role e claims) \<in> {RoleUser, RoleAgent} \<and>
    ParseActor (id_UserId i) = Inr \<lparr>actor_Id = xc_UserId claims, actor_Role = role_of (external_role e claims)\<rparr> \<and>
    i = \<lparr>id_UserId = id_UserId i, id_Role = external_role e claims, id_PlatformId = 0, id_TokenId = x_sha256 e token,
         id_ExpiresAt = UnixMilli exp, id_Source = SourceExternal\<rparr>"
proof -
  obtain claims exp where claims: "external_claims (x_jwt e) (x_secrets e) now token = Inr claims" "0 < xc_UserId claims"
      "xc_ExpiresAt claims = Some exp"
    and uid: "UserId \<lparr>actor_Id = xc_UserId claims, actor_Role = role_of (external_role e claims)\<rparr> = Inr (id_UserId i)"
    and i: "i = \<lparr>id_UserId = id_UserId i, id_Role = external_role e claims, id_PlatformId = 0, id_TokenId = x_sha256 e token,
         id_ExpiresAt = UnixMilli exp, id_Source = SourceExternal\<rparr>"
    using assms(1) by (auto simp: External_Verify_def Let_def external_role_def split: sum.splits option.splits if_splits)
  have "claims \<noteq> no_claims"
    using claims(2) by (auto simp: no_claims_def)
  then have signed: "signed_with e now token claims"
    using external_claims_signed [OF claims(1)] unfolding signed_with_def by blast
  then have "in_i64 (xc_UserId claims)"
    using assms(2) by (auto simp: signed_with_def)
  then have "role_of (external_role e claims) \<in> {RoleUser, RoleAgent}"
      "ParseActor (id_UserId i) = Inr \<lparr>actor_Id = xc_UserId claims, actor_Role = role_of (external_role e claims)\<rparr>"
    using uid ParseActor_user [of "xc_UserId claims"] ParseActor_agent [of "xc_UserId claims"] claims(2)
    by (auto simp: UserId_def split: Role.splits)
  then show ?thesis
    using claims(2,3) i signed by blast
qed

text \<open>The first secret that does not refuse the signature decides the outcome, so an expired token
  is reported as expired whichever of the rotated secrets signed it.\<close>

lemma external_claims_rotation:
  assumes "\<forall>s \<in> set ss. \<exists>e. ParseExternal j s now token = Inl e \<and> errors_Is e (Sentinel jwt_ErrTokenSignatureInvalid)"
    and "\<And>e. ParseExternal j s now token = Inl e \<Longrightarrow> \<not> errors_Is e (Sentinel jwt_ErrTokenSignatureInvalid)"
  shows "external_claims j (ss @ s # ss') now token = ParseExternal j s now token"
  using assms(1)
proof (induction ss)
  case Nil
  then show ?case
    using assms(2) by (cases "ParseExternal j s now token") auto
qed auto

end
