(* ===== verification/UserService.thy ===== *)
theory UserService
  imports StoreContract Auth
begin

text \<open>
  \<^verbatim>\<open>internal/service/user/user.go\<close>. The service's fields are arguments: the store, the native
  provider (\<^verbatim>\<open>None\<close> when it is disabled), the online store. bcrypt is a parameter. \<^verbatim>\<open>Register\<close>
  takes the salt and the uuid it draws, \<^verbatim>\<open>Login\<close> the uuid of the token and the clock readings.
\<close>

record Bcrypt =
  GenerateFromPassword :: "string \<Rightarrow> string \<Rightarrow> string result"
  CompareHashAndPassword :: "string \<Rightarrow> string \<Rightarrow> bool"

section \<open>Presence\<close>

record OnlineStatus_row =
  os_UserId :: string
  os_Online :: bool
  os_Platforms :: "int list"

definition online_status :: "(string \<rightharpoonup> int list) \<Rightarrow> string \<Rightarrow> OnlineStatus_row" where
  "online_status byUser i = (case byUser i of
      None \<Rightarrow> \<lparr>os_UserId = i, os_Online = False, os_Platforms = []\<rparr>
    | Some p \<Rightarrow> \<lparr>os_UserId = i, os_Online = (length p > 0), os_Platforms = p\<rparr>)"

definition OnlineStatus :: "(string list \<Rightarrow> ('o, (string \<rightharpoonup> int list) result) state) option \<Rightarrow> string list \<Rightarrow>
    ('o, OnlineStatus_row list result) state" where
  "OnlineStatus online userIds =
     (case online of
        None \<Rightarrow> State_Monad.return (Inr (map (online_status Map.empty) userIds))
      | Some onl \<Rightarrow> do {
          r \<leftarrow> onl userIds;
          State_Monad.return (case r of
             Inl e \<Rightarrow> Inl (store_failed e)
           | Inr byUser \<Rightarrow> Inr (map (online_status byUser) userIds))
        })"

section \<open>Accounts\<close>

definition requireNative :: "'k Native option \<Rightarrow> Error option" where
  "requireNative n = (case n of
      None \<Rightarrow> Some (WithMessage ErrProviderDisabled ''native auth provider is disabled'')
    | Some _ \<Rightarrow> None)"

record Profile =
  pf_Id :: string
  pf_Nickname :: string
  pf_Avatar :: string
  pf_Extra :: string
  pf_CreatedAt :: int64
  pf_UpdatedAt :: int64

definition toProfile :: "User \<Rightarrow> Profile" where
  "toProfile u = \<lparr>pf_Id = user_Id u, pf_Nickname = user_Nickname u, pf_Avatar = user_Avatar u,
     pf_Extra = user_Extra u, pf_CreatedAt = UnixMilli (user_CreatedAt u), pf_UpdatedAt = UnixMilli (user_UpdatedAt u)\<rparr>"

definition maxUsername :: int where "maxUsername = 64"
definition minPassword :: int where "minPassword = 6"
definition maxPassword :: int where "maxPassword = 72"
definition maxNickname :: int where "maxNickname = 255"
definition maxUserAvatar :: int where "maxUserAvatar = 1024"

definition too_long :: "string option \<Rightarrow> int \<Rightarrow> bool" where
  "too_long x n \<longleftrightarrow> (case x of None \<Rightarrow> False | Some s \<Rightarrow> int (length s) > n)"

definition validateProfile :: "string option \<Rightarrow> string option \<Rightarrow> string option \<Rightarrow> Error option" where
  "validateProfile nickname avatar extra =
     (if too_long nickname maxNickname then Some (WithMessage ErrInvalidParam ''nickname: at most 255 bytes'')
      else if too_long avatar maxUserAvatar then Some (WithMessage ErrInvalidParam ''avatar: at most 1024 bytes'')
      else if too_long extra MaxExtraBytes then Some (WithMessage ErrInvalidParam ''extra: at most 65535 bytes'')
      else None)"

definition register_error :: "'k Native option \<Rightarrow> string \<Rightarrow> string \<Rightarrow> string \<Rightarrow> Error option" where
  "register_error n username password nickname =
     (case requireNative n of
        Some e \<Rightarrow> Some e
      | None \<Rightarrow>
          if username = [] \<or> int (length username) > maxUsername \<or>
             int (length password) < minPassword \<or> int (length password) > maxPassword
          then Some (WithMessage ErrInvalidParam ''username 1-64 chars, password 6-72 chars'')
          else validateProfile (Some nickname) None None)"

definition new_user :: "string \<Rightarrow> string \<Rightarrow> string \<Rightarrow> string \<Rightarrow> time \<Rightarrow> User" where
  "new_user uuid username hash nickname now =
     \<lparr>user_Id = NativeUserId uuid, user_Username = username, user_PasswordHash = hash,
      user_Nickname = nickname, user_Avatar = [], user_Extra = [], user_CreatedAt = now, user_UpdatedAt = now\<rparr>"

definition Register :: "('db, 'z) StoreOps_scheme \<Rightarrow> 'k Native option \<Rightarrow> Bcrypt \<Rightarrow> string \<Rightarrow> string \<Rightarrow> string \<Rightarrow>
    string \<Rightarrow> string \<Rightarrow> time \<Rightarrow> ('db, Profile result) state" where
  "Register st n bc username password nickname salt uuid now =
     (case register_error n username password nickname of
        Some e \<Rightarrow> State_Monad.return (fail e)
      | None \<Rightarrow> do {
          r \<leftarrow> GetUserByUsername st username;
          (case r of
             Inr _ \<Rightarrow> State_Monad.return (fail ErrUserExists)
           | Inl e \<Rightarrow>
               if \<not> is_not_found e then State_Monad.return (Inl (store_failed e))
               else (case GenerateFromPassword bc password salt of
                  Inl e \<Rightarrow> State_Monad.return (fail (Wrap ErrInternal (Some e)))
                | Inr hash \<Rightarrow> do {
                    let u = new_user uuid username hash nickname now;
                    r \<leftarrow> CreateUser st u;
                    State_Monad.return (case r of
                       Inl e \<Rightarrow> Inl (store_failed e)
                     | Inr _ \<Rightarrow> Inr (toProfile u))
                  }))
        })"

record Session =
  se_UserId :: string
  se_Token :: string
  se_ExpiresAt :: int64

definition Login :: "('db, 'z) StoreOps_scheme \<Rightarrow> 'k Native option \<Rightarrow> Bcrypt \<Rightarrow> string \<Rightarrow> string \<Rightarrow> int \<Rightarrow>
    string \<Rightarrow> time \<Rightarrow> time \<Rightarrow> ('db \<times> 'k, Session result) state" where
  "Login st native bc username password platformId uuid now cnow =
     (case native of
        None \<Rightarrow> State_Monad.return (fail (WithMessage ErrProviderDisabled ''native auth provider is disabled''))
      | Some n \<Rightarrow>
          if platformId < 1 \<or> platformId > MaxPlatformId
          then State_Monad.return (fail (WithMessage ErrInvalidParam ''platform_id must be 1..10''))
          else do {
            u \<leftarrow> on_db (GetUserByUsername st username);
            (case u of
               Inl e \<Rightarrow> State_Monad.return (if is_not_found e then fail ErrLoginFailed else Inl (store_failed e))
             | Inr u \<Rightarrow>
                 if \<not> CompareHashAndPassword bc (user_PasswordHash u) password
                 then State_Monad.return (fail ErrLoginFailed)
                 else do {
                   t \<leftarrow> on_svc (Issue n (user_Id u) platformId uuid now cnow);
                   State_Monad.return (case t of
                      Inl e \<Rightarrow> fail (Wrap ErrInternal (Some e))
                    | Inr (token, exp) \<Rightarrow> Inr \<lparr>se_UserId = user_Id u, se_Token = token, se_ExpiresAt = UnixMilli exp\<rparr>)
                 })
          })"

definition Logout :: "'k Native option \<Rightarrow> AuthIdentity \<Rightarrow> time \<Rightarrow> ('k, unit result) state" where
  "Logout native i cnow =
     (case native of
        None \<Rightarrow> State_Monad.return (fail (WithMessage ErrProviderDisabled ''native auth provider is disabled''))
      | Some n \<Rightarrow>
          if id_Source i \<noteq> SourceNative
          then State_Monad.return (fail (WithMessage ErrInvalidParam ''logout applies to native tokens only''))
          else if id_TokenId i = []
          then State_Monad.return (fail (WithMessage ErrInvalidParam ''token_id is required for logout''))
          else do {
            r \<leftarrow> Revoke n (id_UserId i) (id_PlatformId i) (id_TokenId i) cnow;
            State_Monad.return (case r of Inl e \<Rightarrow> fail (Wrap ErrInternal (Some e)) | Inr _ \<Rightarrow> Inr ())
          })"

definition Get_user :: "('db, 'z) StoreOps_scheme \<Rightarrow> string \<Rightarrow> ('db, Profile result) state" where
  "Get_user st userId = do {
     r \<leftarrow> GetUser st userId;
     State_Monad.return (case r of
        Inl e \<Rightarrow> if is_not_found e then fail ErrUserNotFound else Inl (store_failed e)
      | Inr u \<Rightarrow> Inr (toProfile u))
   }"

definition GetMany :: "('db, 'z) StoreOps_scheme \<Rightarrow> string list \<Rightarrow> ('db, Profile list result) state" where
  "GetMany st userIds = do {
     r \<leftarrow> GetUsers st userIds;
     State_Monad.return (case r of Inl e \<Rightarrow> Inl (store_failed e) | Inr us \<Rightarrow> Inr (map toProfile us))
   }"

record ProfileUpdate =
  up_Nickname :: "string option"
  up_Avatar :: "string option"
  up_Extra :: "string option"

definition Update :: "('db, 'z) StoreOps_scheme \<Rightarrow> string \<Rightarrow> ProfileUpdate \<Rightarrow> time \<Rightarrow> ('db, Profile result) state" where
  "Update st userId inp now =
     (case validateProfile (up_Nickname inp) (up_Avatar inp) (up_Extra inp) of
        Some e \<Rightarrow> State_Monad.return (fail e)
      | None \<Rightarrow> do {
          r \<leftarrow> UpdateUserProfile st userId (up_Nickname inp) (up_Avatar inp) (up_Extra inp) now;
          (case r of
             Inl e \<Rightarrow> State_Monad.return
               (if is_not_found e then fail ErrUserNotFound else Inl (store_failed (Errorf ''update user: %w'' [e])))
           | Inr _ \<Rightarrow> Get_user st userId)
        })"

definition Upsert :: "('db, 'z) StoreOps_scheme \<Rightarrow> string \<Rightarrow> string \<Rightarrow> string \<Rightarrow> string \<Rightarrow> time \<Rightarrow>
    ('db, Profile result) state" where
  "Upsert st i nickname avatar extra now =
     (case ParseActor i of
        Inl _ \<Rightarrow> State_Monad.return (fail (WithMessage ErrInvalidParam ''id must be a platform user id''))
      | Inr _ \<Rightarrow>
          (case validateProfile (Some nickname) (Some avatar) (Some extra) of
             Some e \<Rightarrow> State_Monad.return (fail e)
           | None \<Rightarrow> do {
               let u = \<lparr>user_Id = i, user_Username = [], user_PasswordHash = [], user_Nickname = nickname,
                 user_Avatar = avatar, user_Extra = extra, user_CreatedAt = time_zero, user_UpdatedAt = now\<rparr>;
               r \<leftarrow> UpsertUser st u;
               (case r of
                  Inl e \<Rightarrow> State_Monad.return (Inl (store_failed e))
                | Inr _ \<Rightarrow> Get_user st i)
             }))"

end
