(* ===== verification/UserProofs.thy ===== *)
theory UserProofs
  imports UserService MessageProofs
begin

text \<open>
  What the calls of the user service do while other requests run, on any store that keeps the
  contract. A registration checks the name and inserts the account in two statements, so the
  name is free at the check and the id at the insert.
\<close>

section \<open>How the calls end\<close>

definition with_user :: "User \<Rightarrow> Tables \<Rightarrow> Tables" where
  "with_user u t = t\<lparr>users := (users t)(user_Id u \<mapsto> u)\<rparr>"

inductive Register_outcome :: "(Tables \<Rightarrow> Tables \<Rightarrow> bool) \<Rightarrow> bool \<Rightarrow> 'k Native option \<Rightarrow> Bcrypt \<Rightarrow> string \<Rightarrow> string \<Rightarrow>
    string \<Rightarrow> string \<Rightarrow> string \<Rightarrow> time \<Rightarrow> Tables \<Rightarrow> Profile result \<Rightarrow> Tables \<Rightarrow> bool"
  for Rl b n bc username password nickname salt uuid now t where
  rg_invalid: "register_error n username password nickname = Some e \<Longrightarrow>
    Register_outcome Rl b n bc username password nickname salt uuid now t (fail e) t"
| rg_taken: "Rl t t' \<Longrightarrow> u \<in> ran (users t') \<Longrightarrow> user_Username u = username \<Longrightarrow>
    Register_outcome Rl b n bc username password nickname salt uuid now t (fail ErrUserExists) t'"
| rg_hash: "Rl t t' \<Longrightarrow> GenerateFromPassword bc password salt = Inl e \<Longrightarrow>
    Register_outcome Rl b n bc username password nickname salt uuid now t (fail (Wrap ErrInternal (Some e))) t'"
| registered: "register_error n username password nickname = None \<Longrightarrow> Rl t t1 \<Longrightarrow>
    \<forall>u \<in> ran (users t1). user_Username u \<noteq> username \<Longrightarrow> GenerateFromPassword bc password salt = Inr h \<Longrightarrow>
    Rl t1 t2 \<Longrightarrow> users t2 (NativeUserId uuid) = None \<Longrightarrow> u = new_user uuid username h nickname now \<Longrightarrow>
    Register_outcome Rl b n bc username password nickname salt uuid now t (Inr (toProfile u)) (with_user u t2)"
| rg_collided: "Rl t t' \<Longrightarrow> users t' (NativeUserId uuid) \<noteq> None \<Longrightarrow>
    Register_outcome Rl b n bc username password nickname salt uuid now t
      (Inl (store_failed (Sentinel store_ErrDuplicate))) t'"
| rg_failed: "\<not> b \<Longrightarrow> driver_error e \<Longrightarrow> Rl t t1 \<Longrightarrow> t' = t1 \<or>
      (\<exists>h. GenerateFromPassword bc password salt = Inr h \<and> users t1 (NativeUserId uuid) = None \<and>
         t' = with_user (new_user uuid username h nickname now) t1) \<Longrightarrow>
    Register_outcome Rl b n bc username password nickname salt uuid now t (Inl (store_failed e)) t'"

text \<open>\<^verbatim>\<open>Update\<close> and \<^verbatim>\<open>Upsert\<close> write a row and read it back; \<^verbatim>\<open>f t\<close> is the row written over the
  tables \<^verbatim>\<open>t\<close>, none when there is no row to write.\<close>

inductive Write_outcome :: "(Tables \<Rightarrow> Tables \<Rightarrow> bool) \<Rightarrow> bool \<Rightarrow> string \<Rightarrow> (Tables \<Rightarrow> User option) \<Rightarrow> Tables \<Rightarrow>
    Profile result \<Rightarrow> Tables \<Rightarrow> bool"
  for Rl b i f t where
  wr_invalid: "Code e = Code ErrInvalidParam \<Longrightarrow> Write_outcome Rl b i f t (fail e) t"
| wr_missing: "Rl t t' \<Longrightarrow> f t' = None \<Longrightarrow> Write_outcome Rl b i f t (fail ErrUserNotFound) t'"
| written: "Rl t t1 \<Longrightarrow> f t1 = Some u \<Longrightarrow> Rl (with_user u t1) t' \<Longrightarrow> users t' i = Some v \<Longrightarrow>
    Write_outcome Rl b i f t (Inr (toProfile v)) t'"
| wr_failed: "\<not> b \<Longrightarrow> Rl t t1 \<Longrightarrow> t2 = t1 \<or> (\<exists>u. f t1 = Some u \<and> t2 = with_user u t1) \<Longrightarrow> Rl t2 t' \<Longrightarrow>
    Code e = Code ErrStoreFailed \<Longrightarrow> Write_outcome Rl b i f t (fail e) t'"

definition updated_user :: "string \<Rightarrow> ProfileUpdate \<Rightarrow> time \<Rightarrow> Tables \<Rightarrow> User option" where
  "updated_user i inp now t = map_option (\<lambda>u. u\<lparr>user_Nickname := coalesce (up_Nickname inp) (user_Nickname u),
     user_Avatar := coalesce (up_Avatar inp) (user_Avatar u),
     user_Extra := coalesce (up_Extra inp) (user_Extra u), user_UpdatedAt := now\<rparr>) (users t i)"

definition upserted_user :: "string \<Rightarrow> string \<Rightarrow> string \<Rightarrow> string \<Rightarrow> time \<Rightarrow> Tables \<Rightarrow> User option" where
  "upserted_user i nickname avatar extra now t = Some (case users t i of
      None \<Rightarrow> \<lparr>user_Id = i, user_Username = [], user_PasswordHash = [], user_Nickname = nickname,
        user_Avatar = avatar, user_Extra = extra, user_CreatedAt = now, user_UpdatedAt = now\<rparr>
    | Some u \<Rightarrow> u\<lparr>user_Nickname := nickname, user_Avatar := avatar, user_Extra := extra, user_UpdatedAt := now\<rparr>)"

section \<open>The proofs\<close>

lemma validateProfile_code: "validateProfile a b c = Some e \<Longrightarrow> Code e = Code ErrInvalidParam"
  by (auto simp: validateProfile_def split: if_splits)

context nexo_store
begin

theorem wp_Register:
  "wp I T H b (Register st n bc username password nickname salt uuid now)
     (Register_outcome Rl b n bc username password nickname salt uuid now t) t"
proof (cases "register_error n username password nickname")
  case (Some e)
  then show ?thesis
    by (auto simp: Register_def intro!: wp_return Register_outcome.rg_invalid)
next
  case None
  let ?out = "Register_outcome Rl b n bc username password nickname salt uuid now t"
  have create: "wp I T H b (CreateUser st u \<bind> (\<lambda>r. State_Monad.return (case r of
        Inl e \<Rightarrow> Inl (store_failed e) | Inr _ \<Rightarrow> Inr (toProfile u)))) ?out t1"
    if t1: "Rl t t1" "\<forall>u \<in> ran (users t1). user_Username u \<noteq> username"
      and h: "GenerateFromPassword bc password salt = Inr h" and u: "u = new_user uuid username h nickname now" for t1 h u
  proof (intro wp_bind, rule CreateUser_ok [THEN wp_op])
    have uid: "user_Id u = NativeUserId uuid"
      by (simp add: u new_user_def)
    {
      fix t2 s t'
      assume "Rl t1 t2" "CreateUser_spec u t2 s t'"
      then have "?out (case outcome s of Inl e \<Rightarrow> Inl (store_failed e) | Inr _ \<Rightarrow> Inr (toProfile u)) t'"
        using Register_outcome.registered [where Rl = Rl, OF None t1 h _ _ u, of t2 b]
          Register_outcome.rg_collided [where Rl = Rl, OF Rl_trans [OF t1(1)], of t2 uuid b n bc username password nickname salt now]
        by (cases "users t2 (NativeUserId uuid)") (simp_all add: CreateUser_spec_def uid with_user_def)
      then show "wp I T H b (State_Monad.return (case outcome s of
          Inl e \<Rightarrow> Inl (store_failed e) | Inr _ \<Rightarrow> Inr (toProfile u))) ?out t'"
        by (rule wp_return)
    next
      fix t2 e t'
      assume a: "Rl t1 t2" "\<not> b" "driver_error e" "t' = t2 \<or> (\<exists>s. CreateUser_spec u t2 s t')"
      have "?out (Inl (store_failed e)) t'"
        using a(4) h by (intro Register_outcome.rg_failed [where Rl = Rl, OF a(2,3) Rl_trans [OF t1(1) a(1)]])
          (auto simp: CreateUser_spec_def uid with_user_def u [symmetric] split: if_splits)
      then show "wp I T H b (State_Monad.return (case Inl e of
          Inl e \<Rightarrow> Inl (store_failed e) | Inr _ \<Rightarrow> Inr (toProfile u))) ?out t'"
        by (simp add: wp_return)
    }
  qed
  have none: "wp I T H b (case GenerateFromPassword bc password salt of
        Inl e \<Rightarrow> State_Monad.return (fail (Wrap ErrInternal (Some e)))
      | Inr hash \<Rightarrow> (let u = new_user uuid username hash nickname now in CreateUser st u \<bind> (\<lambda>r.
          State_Monad.return (case r of Inl e \<Rightarrow> Inl (store_failed e) | Inr _ \<Rightarrow> Inr (toProfile u))))) ?out t1"
    if "Rl t t1" "\<forall>u \<in> ran (users t1). user_Username u \<noteq> username" for t1
    using create [OF that] Register_outcome.rg_hash [where Rl = Rl, OF that(1)]
    by (cases "GenerateFromPassword bc password salt") (auto simp: Let_def intro!: wp_return)
  show ?thesis
    unfolding Register_def None option.case
  proof (intro wp_bind, rule GetUserByUsername_ok [THEN wp_op])
    fix t1 s t'
    assume t1: "Rl t t1" and s: "GetUserByUsername_spec username t1 s t'"
    show "wp I T H b (case outcome s of
        Inl e \<Rightarrow> if \<not> is_not_found e then State_Monad.return (Inl (store_failed e)) else
          case GenerateFromPassword bc password salt of
            Inl e \<Rightarrow> State_Monad.return (fail (Wrap ErrInternal (Some e)))
          | Inr hash \<Rightarrow> (let u = new_user uuid username hash nickname now in CreateUser st u \<bind> (\<lambda>r.
              State_Monad.return (case r of Inl e \<Rightarrow> Inl (store_failed e) | Inr _ \<Rightarrow> Inr (toProfile u))))
      | Inr _ \<Rightarrow> State_Monad.return (fail ErrUserExists)) ?out t'"
    proof (cases s)
      case (Inl e)
      then show ?thesis
        using s none [OF t1] by (simp add: GetUserByUsername_spec_def)
    next
      case (Inr u)
      then have "t' = t1" "u \<in> ran (users t1)" "user_Username u = username"
        using s by (auto simp: GetUserByUsername_spec_def ran_def)
      then show ?thesis
        using t1 by (auto simp: Inr intro!: wp_return Register_outcome.rg_taken)
    qed
  next
    fix t1 e t'
    assume a: "Rl t t1" "\<not> b" "driver_error e" "t' = t1 \<or> (\<exists>s. GetUserByUsername_spec username t1 s t')"
    have "t' = t1"
      using a(4) by (auto simp: GetUserByUsername_spec_def)
    then have "?out (Inl (store_failed e)) t'"
      by (intro Register_outcome.rg_failed [where Rl = Rl, OF a(2,3,1)]) simp
    then show "wp I T H b (case Inl e of
        Inl e \<Rightarrow> if \<not> is_not_found e then State_Monad.return (Inl (store_failed e)) else
          case GenerateFromPassword bc password salt of
            Inl e \<Rightarrow> State_Monad.return (fail (Wrap ErrInternal (Some e)))
          | Inr hash \<Rightarrow> (let u = new_user uuid username hash nickname now in CreateUser st u \<bind> (\<lambda>r.
              State_Monad.return (case r of Inl e \<Rightarrow> Inl (store_failed e) | Inr _ \<Rightarrow> Inr (toProfile u))))
      | Inr _ \<Rightarrow> State_Monad.return (fail ErrUserExists)) ?out t'"
      using a(3) by (simp add: driver_error_not_found wp_return)
  qed
qed

text \<open>Reading back a row that was written: it is still there.\<close>

lemma wp_read_back:
  assumes "Rl t t1" "f t1 = Some u" "user_Id u = i"
  shows "wp I T H b (Get_user st i) (Write_outcome Rl b i f t) (with_user u t1)"
  unfolding Get_user_def
proof (intro wp_bind wp_GetUser)
  fix t2 v
  assume "Rl (with_user u t1) t2" "users t2 i = Some v"
  then show "wp I T H b (State_Monad.return (case Inr v of
      Inl e \<Rightarrow> if is_not_found e then fail ErrUserNotFound else Inl (store_failed e)
    | Inr u \<Rightarrow> Inr (toProfile u))) (Write_outcome Rl b i f t) t2"
    using Write_outcome.written [where Rl = Rl and f = f, OF assms(1,2)] by (simp add: wp_return)
next
  fix t2
  assume "Rl (with_user u t1) t2" "users t2 i = None"
  then have False
    using Rl_users [of "with_user u t1" t2 i] by (simp add: with_user_def assms(3))
  then show "wp I T H b (State_Monad.return (case Inl (Sentinel store_ErrNotFound) of
      Inl e \<Rightarrow> if is_not_found e then fail ErrUserNotFound else Inl (store_failed e)
    | Inr u \<Rightarrow> Inr (toProfile u))) (Write_outcome Rl b i f t) t2" ..
next
  fix t2 e
  assume a: "Rl (with_user u t1) t2" "\<not> b" "driver_error e"
  have "Write_outcome Rl b i f t (Inl (store_failed e)) t2"
    using assms(2) by (intro Write_outcome.wr_failed [where Rl = Rl, OF a(2) assms(1) _ a(1)]) (simp_all add: Wrap_def)
  then show "wp I T H b (State_Monad.return (case Inl e of
      Inl e \<Rightarrow> if is_not_found e then fail ErrUserNotFound else Inl (store_failed e)
    | Inr u \<Rightarrow> Inr (toProfile u))) (Write_outcome Rl b i f t) t2"
    using a(3) by (simp add: driver_error_not_found wp_return)
qed

theorem wp_Update:
  assumes "nexo_ok mm t"
  shows "wp I T H b (Update st i inp now) (Write_outcome Rl b i (updated_user i inp now) t) t"
proof (cases "validateProfile (up_Nickname inp) (up_Avatar inp) (up_Extra inp)")
  case (Some e)
  then show ?thesis
    using validateProfile_code by (auto simp: Update_def intro!: wp_return Write_outcome.wr_invalid)
next
  case None
  let ?f = "updated_user i inp now"
  have row: "UpdateUserProfile_spec i (up_Nickname inp) (up_Avatar inp) (up_Extra inp) now t1 s t' \<longleftrightarrow>
      (case ?f t1 of None \<Rightarrow> s = Inl store_ErrNotFound \<and> t' = t1 | Some u \<Rightarrow> s = Inr () \<and> t' = with_user u t1)"
    and uid: "?f t1 = Some u \<Longrightarrow> user_Id u = i" if "Rl t t1" for t1 s t' u
    using keyedD(1) [OF ok_keyed [OF assms that], of i]
    by (auto simp: UpdateUserProfile_spec_def updated_user_def with_user_def split: option.split)
  show ?thesis
    unfolding Update_def None option.case
  proof (intro wp_bind, rule UpdateUserProfile_ok [THEN wp_op])
    fix t1 s t'
    assume t1: "Rl t t1" and "UpdateUserProfile_spec i (up_Nickname inp) (up_Avatar inp) (up_Extra inp) now t1 s t'"
    then show "wp I T H b (case outcome s of
        Inl e \<Rightarrow> State_Monad.return (if is_not_found e then fail ErrUserNotFound
          else Inl (store_failed (Errorf ''update user: %w'' [e])))
      | Inr _ \<Rightarrow> Get_user st i) (Write_outcome Rl b i ?f t) t'"
      using wp_read_back [of t t1 ?f _ i b, OF t1 _ uid] Write_outcome.wr_missing [where Rl = Rl and f = ?f, OF t1]
      by (auto simp: row intro!: wp_return split: option.splits)
  next
    fix t1 e t'
    assume a: "Rl t t1" "\<not> b" "driver_error e"
      "t' = t1 \<or> (\<exists>s. UpdateUserProfile_spec i (up_Nickname inp) (up_Avatar inp) (up_Extra inp) now t1 s t')"
    have "t' = t1 \<or> (\<exists>u. ?f t1 = Some u \<and> t' = with_user u t1)"
      using a(4) by (auto simp: row [OF a(1)] split: option.splits)
    then have "Write_outcome Rl b i ?f t (Inl (store_failed (Errorf ''update user: %w'' [e]))) t'"
      by (intro Write_outcome.wr_failed [where Rl = Rl, OF a(2,1) _ Rl_refl]) (simp_all add: Wrap_def)
    then show "wp I T H b (case Inl e of
        Inl e \<Rightarrow> State_Monad.return (if is_not_found e then fail ErrUserNotFound
          else Inl (store_failed (Errorf ''update user: %w'' [e])))
      | Inr _ \<Rightarrow> Get_user st i) (Write_outcome Rl b i ?f t) t'"
      using a(3) by (simp add: driver_error_not_found wp_return)
  qed
qed

theorem wp_Upsert:
  assumes "nexo_ok mm t"
  shows "wp I T H b (Upsert st i nickname avatar extra now)
    (Write_outcome Rl b i (upserted_user i nickname avatar extra now) t) t"
proof (cases "\<exists>a. ParseActor i = Inr a \<and> validateProfile (Some nickname) (Some avatar) (Some extra) = None")
  case False
  then show ?thesis
    using validateProfile_code
    by (auto simp: Upsert_def intro!: wp_return Write_outcome.wr_invalid split: sum.split option.split)
next
  case True
  then obtain a where ok: "ParseActor i = Inr a" "validateProfile (Some nickname) (Some avatar) (Some extra) = None"
    by blast
  let ?f = "upserted_user i nickname avatar extra now"
  let ?u = "\<lparr>user_Id = i, user_Username = [], user_PasswordHash = [], user_Nickname = nickname,
    user_Avatar = avatar, user_Extra = extra, user_CreatedAt = time_zero, user_UpdatedAt = now\<rparr>"
  have row: "UpsertUser_spec ?u t1 s t' \<longleftrightarrow> s = Inr () \<and> t' = with_user (the (?f t1)) t1"
    and uid: "user_Id (the (?f t1)) = i" if "Rl t t1" for t1 s t'
    using keyedD(1) [OF ok_keyed [OF assms that], of i]
    by (auto simp: UpsertUser_spec_def upserted_user_def with_user_def split: option.split)
  have some: "?f t1 = Some (the (?f t1))" for t1
    by (simp add: upserted_user_def)
  show ?thesis
    unfolding Upsert_def ok sum.case option.case Let_def
  proof (intro wp_bind, rule UpsertUser_ok [THEN wp_op])
    fix t1 s t'
    assume t1: "Rl t t1" and "UpsertUser_spec ?u t1 s t'"
    then show "wp I T H b (case outcome s of Inl e \<Rightarrow> State_Monad.return (Inl (store_failed e))
        | Inr _ \<Rightarrow> Get_user st i) (Write_outcome Rl b i ?f t) t'"
      using wp_read_back [where f = ?f, OF t1 some uid [OF t1]] by (simp add: row)
  next
    fix t1 e t'
    assume a: "Rl t t1" "\<not> b" "driver_error e" "t' = t1 \<or> (\<exists>s. UpsertUser_spec ?u t1 s t')"
    have "t' = t1 \<or> (\<exists>u. ?f t1 = Some u \<and> t' = with_user u t1)"
      using a(4) some by (auto simp: row [OF a(1)])
    then have "Write_outcome Rl b i ?f t (Inl (store_failed e)) t'"
      by (intro Write_outcome.wr_failed [where Rl = Rl, OF a(2,1) _ Rl_refl]) (simp_all add: Wrap_def)
    then show "wp I T H b (case Inl e of Inl e \<Rightarrow> State_Monad.return (Inl (store_failed e))
        | Inr _ \<Rightarrow> Get_user st i) (Write_outcome Rl b i ?f t) t'"
      by (simp add: wp_return)
  qed
qed

end

end
