(* ===== verification/OnlineStore.thy ===== *)
theory OnlineStore
  imports StoreContract
begin

text \<open>
  \<^verbatim>\<open>internal/onlinestore\<close> and its table-backed driver \<^verbatim>\<open>internal/onlinestore/db\<close>: the registry
  of live connections. Each call takes the reading of the clock; \<^verbatim>\<open>ttl\<close> is the driver's field.
\<close>

record ConnRef =
  ref_UserId :: string
  ref_PlatformId :: int
  ref_ConnId :: string

definition online_conn :: "string \<Rightarrow> ConnRef \<Rightarrow> time \<Rightarrow> OnlineConn" where
  "online_conn nodeId c now =
     \<lparr>oc_ConnId = ref_ConnId c, oc_UserId = ref_UserId c, oc_PlatformId = i32 (ref_PlatformId c),
      oc_NodeId = nodeId, oc_HeartbeatAt = now\<rparr>"

definition Add :: "('db, 'z) StoreOps_scheme \<Rightarrow> string \<Rightarrow> ConnRef \<Rightarrow> time \<Rightarrow> ('db, unit result) state" where
  "Add st nodeId c now = UpsertOnlineConn st (online_conn nodeId c now)"

definition Remove :: "('db, 'z) StoreOps_scheme \<Rightarrow> string \<Rightarrow> ConnRef \<Rightarrow> ('db, unit result) state" where
  "Remove st nodeId c = DeleteOnlineConn st (ref_ConnId c)"

definition renewChunk :: nat where "renewChunk = 500"

text \<open>\<^verbatim>\<open>slices.Chunk\<close>.\<close>

function chunk :: "nat \<Rightarrow> 'a list \<Rightarrow> 'a list list" where
  "chunk n xs = (if xs = [] \<or> n = 0 then [] else take n xs # chunk n (drop n xs))"
  by auto
termination
  by (relation "measure (\<lambda>(n, xs). length xs)") auto

declare chunk.simps [simp del]

fun renew_chunks :: "('db, 'z) StoreOps_scheme \<Rightarrow> string \<Rightarrow> string list list \<Rightarrow> time \<Rightarrow> ('db, ConnRef list result) state" where
  "renew_chunks st nodeId [] now = State_Monad.return (Inr [])"
| "renew_chunks st nodeId (c # cs) now = do {
     r \<leftarrow> RenewOnlineConns st nodeId c now;
     (case r of Inl e \<Rightarrow> State_Monad.return (Inl e) | Inr _ \<Rightarrow> renew_chunks st nodeId cs now)
   }"

definition Renew :: "('db, 'z) StoreOps_scheme \<Rightarrow> string \<Rightarrow> ConnRef list \<Rightarrow> time \<Rightarrow> ('db, ConnRef list result) state" where
  "Renew st nodeId cs now = renew_chunks st nodeId (chunk renewChunk (map ref_ConnId cs)) now"

text \<open>The loop of \<^verbatim>\<open>Online\<close> over the rows.\<close>

definition add_platform :: "OnlineConn \<Rightarrow> (string \<rightharpoonup> int list) \<Rightarrow> (string \<rightharpoonup> int list)" where
  "add_platform r out =
     (let ps = (case out (oc_UserId r) of None \<Rightarrow> [] | Some ps \<Rightarrow> ps) in
      if oc_PlatformId r \<in> set ps then out else out(oc_UserId r \<mapsto> ps @ [oc_PlatformId r]))"

definition Online :: "('db, 'z) StoreOps_scheme \<Rightarrow> duration \<Rightarrow> string list \<Rightarrow> time \<Rightarrow>
    ('db, (string \<rightharpoonup> int list) result) state" where
  "Online st ttl userIds now = do {
     r \<leftarrow> ListOnlineConns st userIds (now - ttl);
     State_Monad.return (case r of
        Inl e \<Rightarrow> Inl e
      | Inr rows \<Rightarrow> Inr (fold add_platform rows Map.empty))
   }"

definition PurgeNode :: "('db, 'z) StoreOps_scheme \<Rightarrow> string \<Rightarrow> ('db, unit result) state" where
  "PurgeNode st nodeId = DeleteOnlineConnsByNode st nodeId"

section \<open>What they do\<close>

lemma concat_chunk: "0 < n \<Longrightarrow> concat (chunk n xs) = xs"
  by (induction n xs rule: chunk.induct) (subst chunk.simps, simp)

lemma chunk_length: "c \<in> set (chunk n xs) \<Longrightarrow> length c \<le> n \<and> c \<noteq> []"
proof (induction n xs rule: chunk.induct)
  case (1 n xs)
  then show ?case
    by (subst (asm) (2) chunk.simps) (auto split: if_splits)
qed

text \<open>The live connections of a user as the readers of the registry count them.\<close>

definition live_conns :: "Tables \<Rightarrow> string \<Rightarrow> time \<Rightarrow> OnlineConn set" where
  "live_conns t u since = {c \<in> ran (conns t). oc_UserId c = u \<and> since < oc_HeartbeatAt c}"

text \<open>An entry of the answer: present exactly when the set is not empty, and then without repeats.\<close>

definition lists_exactly :: "int list option \<Rightarrow> int set \<Rightarrow> bool" where
  "lists_exactly x S \<longleftrightarrow> (case x of None \<Rightarrow> S = {} | Some ps \<Rightarrow> ps \<noteq> [] \<and> distinct ps \<and> set ps = S)"

lemma add_platform_lists:
  assumes "\<And>u. lists_exactly (m u) (P u)"
  shows "lists_exactly (add_platform r m u) (P u \<union> oc_PlatformId ` {x \<in> {r}. oc_UserId x = u})"
  using assms [of u] assms [of "oc_UserId r"]
  by (auto simp: lists_exactly_def add_platform_def Let_def split: option.splits)

lemma fold_add_platform:
  assumes "\<And>u. lists_exactly (m u) (P u)"
  shows "lists_exactly (fold add_platform rows m u) (P u \<union> oc_PlatformId ` {r \<in> set rows. oc_UserId r = u})"
  using assms
proof (induction rows arbitrary: m P)
  case Nil
  then show ?case
    by simp
next
  case (Cons r rows)
  have "P u \<union> oc_PlatformId ` {x \<in> {r}. oc_UserId x = u} \<union> oc_PlatformId ` {x \<in> set rows. oc_UserId x = u} =
      P u \<union> oc_PlatformId ` {x \<in> set (r # rows). oc_UserId x = u}"
    by auto
  moreover have "lists_exactly (add_platform r m v) (P v \<union> oc_PlatformId ` {x \<in> {r}. oc_UserId x = v})" for v
    by (rule add_platform_lists) (rule Cons.prems)
  from Cons.IH [OF this] have "lists_exactly (fold add_platform (r # rows) m u)
      (P u \<union> oc_PlatformId ` {x \<in> {r}. oc_UserId x = u} \<union> oc_PlatformId ` {x \<in> set rows. oc_UserId x = u})"
    unfolding fold_simps .
  ultimately show ?case
    by metis
qed

context store_statements
begin

theorem wp_Online:
  assumes "\<And>t1 m. Rl t t1 \<Longrightarrow>
      (\<And>u. u \<in> set us \<Longrightarrow> lists_exactly (m u) (oc_PlatformId ` live_conns t1 u (now - ttl))) \<Longrightarrow> Q (Inr m) t1"
    and "\<And>t1 e. Rl t t1 \<Longrightarrow> \<not> b \<Longrightarrow> driver_error e \<Longrightarrow> Q (Inl e) t1"
  shows "wp I T H b (Online st ttl us now) Q t"
  unfolding Online_def
proof (intro wp_bind, rule ListOnlineConns_ok [THEN wp_op])
  fix t1 s t'
  assume t1: "Rl t t1" and "ListOnlineConns_spec us (now - ttl) t1 s t'"
  then obtain cs where cs: "t' = t1" "s = Inr cs"
    "set cs = {c \<in> ran (conns t1). oc_UserId c \<in> set us \<and> now - ttl < oc_HeartbeatAt c}"
    by (auto simp: ListOnlineConns_spec_def)
  have "lists_exactly (fold add_platform cs Map.empty u) (oc_PlatformId ` live_conns t1 u (now - ttl))"
    if "u \<in> set us" for u
  proof -
    have "{r \<in> set cs. oc_UserId r = u} = live_conns t1 u (now - ttl)"
      using that cs(3) by (auto simp: live_conns_def)
    then show ?thesis
      using fold_add_platform [where P = "\<lambda>_. {}" and m = Map.empty and rows = cs and u = u]
      by (simp add: lists_exactly_def)
  qed
  then show "wp I T H b (State_Monad.return (case outcome s of Inl e \<Rightarrow> Inl e
      | Inr rows \<Rightarrow> Inr (fold add_platform rows Map.empty))) Q t'"
    using assms(1) [OF t1] by (simp add: cs wp_return)
next
  fix t1 e t'
  assume "Rl t t1" "\<not> b" "driver_error e" "t' = t1 \<or> (\<exists>s. ListOnlineConns_spec us (now - ttl) t1 s t')"
  then show "wp I T H b (State_Monad.return (case Inl e of Inl e \<Rightarrow> Inl e
      | Inr rows \<Rightarrow> Inr (fold add_platform rows Map.empty))) Q t'"
    using assms(2) by (auto simp: ListOnlineConns_spec_def intro!: wp_return)
qed

end

text \<open>Renewing chunk by chunk is renewing all at once.\<close>

lemma renew_conn_append:
  "renew_conn nd js now (renew_conn nd is now c) = renew_conn nd (is @ js) now c"
  by (auto simp: renew_conn_def)

definition renewed :: "string \<Rightarrow> string list \<Rightarrow> time \<Rightarrow> Tables \<Rightarrow> Tables" where
  "renewed nd is now t = t\<lparr>conns := (\<lambda>k. map_option (renew_conn nd is now) (conns t k))\<rparr>"

lemma renewed_append: "renewed nd js now (renewed nd is now t) = renewed nd (is @ js) now t"
  by (simp add: renewed_def option.map_comp comp_def renew_conn_append fun_eq_iff)

lemma renewed_Nil: "renewed nd [] now t = t"
proof -
  have "renew_conn nd [] now = id"
    by (simp add: renew_conn_def fun_eq_iff)
  then show ?thesis
    by (simp add: renewed_def option.map_id)
qed

context store_snapshot
begin

lemma wp_renew_chunks:
  assumes "Q (Inr []) (renewed nd (concat cs) now t)"
    and "\<And>e is. \<not> b \<Longrightarrow> driver_error e \<Longrightarrow> set is \<subseteq> set (concat cs) \<Longrightarrow> Q (Inl e) (renewed nd is now t)"
  shows "wp I T H b (renew_chunks st nd cs now) Q t"
  using assms
proof (induction cs arbitrary: t)
  case Nil
  then show ?case
    by (simp add: renewed_Nil wp_return)
next
  case (Cons c cs)
  have rest: "wp I T H b (renew_chunks st nd cs now) Q (renewed nd c now t)"
  proof (intro Cons.IH)
    fix e "is"
    assume "\<not> b" "driver_error e" "set is \<subseteq> set (concat cs)"
    then show "Q (Inl e) (renewed nd is now (renewed nd c now t))"
      using Cons.prems(2) [of e "c @ is"] by (auto simp: renewed_append)
  qed (use Cons.prems(1) in \<open>simp add: renewed_append\<close>)
  have none: "Q (Inl e) t" if "\<not> b" "driver_error e" for e
    using Cons.prems(2) [OF that, of "[]"] by (simp add: renewed_Nil)
  show ?case
    unfolding renew_chunks.simps
    by (intro wp_bind wp_applied [OF RenewOnlineConns_ok, where x = "\<lambda>_. ()" and f = "renewed nd c now"])
      (use rest none Cons.prems(2) in \<open>auto simp: RenewOnlineConns_spec_def renewed_def [symmetric] intro!: wp_return\<close>)
qed

theorem wp_Renew:
  assumes "Q (Inr []) (renewed nd (map ref_ConnId cs) now t)"
    and "\<And>e is. \<not> b \<Longrightarrow> driver_error e \<Longrightarrow> set is \<subseteq> set (map ref_ConnId cs) \<Longrightarrow> Q (Inl e) (renewed nd is now t)"
  shows "wp I T H b (Renew st nd cs now) Q t"
  unfolding Renew_def
  using wp_renew_chunks [of Q nd "chunk renewChunk (map ref_ConnId cs)" now t b] assms
  by (simp add: concat_chunk renewChunk_def)

end

end
