(* ===== verification/PgGen.thy ===== *)
theory PgGen
  imports Store "HOL-Library.Product_Lexorder"
begin

text \<open>
  The statements of \<^verbatim>\<open>internal/store/pgstore/queries\<close>, as \<^verbatim>\<open>pgstore/gen/*.sql.go\<close> issues them, on
  tables that are lists of rows. A statement maps the tables to a result and the tables after
  it. Primary keys and unique indexes are those of \<^verbatim>\<open>migrations/postgres\<close>: an insert that
  violates one is an error, or no row with \<^verbatim>\<open>ON CONFLICT DO NOTHING\<close>. A \<^verbatim>\<open>:one\<close> query without a
  row is \<^verbatim>\<open>pgx.ErrNoRows\<close>. Without \<^verbatim>\<open>ORDER BY\<close> the rows come in table order; text compares
  bytewise.
\<close>

record PgTables =
  t_users :: "User list"
  t_chat_groups :: "Group list"
  t_group_members :: "GroupMember list"
  t_conversations :: "Conversation list"
  t_user_conversations :: "UserConversation list"
  t_messages :: "Message list"
  t_online_conns :: "OnlineConn list"

type_synonym 'a stmt = "PgTables \<Rightarrow> 'a result \<times> PgTables"

section \<open>What the statements are made of\<close>

definition no_rows :: "'a result" where
  "no_rows = Inl (Sentinel pgx_ErrNoRows)"

definition unique_violation :: "'a result" where
  "unique_violation = Inl (Sentinel pgx_UniqueViolation)"

definition sql_one :: "('r \<Rightarrow> bool) \<Rightarrow> 'r list \<Rightarrow> 'r result" where
  "sql_one P rows = (case filter P rows of [] \<Rightarrow> no_rows | r # _ \<Rightarrow> Inr r)"

definition sql_update :: "('r \<Rightarrow> bool) \<Rightarrow> ('r \<Rightarrow> 'r) \<Rightarrow> 'r list \<Rightarrow> 'r list" where
  "sql_update P f rows = map (\<lambda>r. if P r then f r else r) rows"

definition sql_count :: "('r \<Rightarrow> bool) \<Rightarrow> 'r list \<Rightarrow> int64" where
  "sql_count P rows = int (length (filter P rows))"

definition sql_limit :: "int32 \<Rightarrow> 'r list \<Rightarrow> 'r list result" where
  "sql_limit n rows = (if n < 0 then Inl (Foreign ''LIMIT must not be negative'')
                       else Inr (take (nat n) rows))"

section \<open>users.sql\<close>

definition gen_GetUser :: "string \<Rightarrow> User stmt" where
  "gen_GetUser i t = (sql_one (\<lambda>u. user_Id u = i) (t_users t), t)"

definition gen_GetUsers :: "string list \<Rightarrow> User list stmt" where
  "gen_GetUsers ids t = (Inr (filter (\<lambda>u. user_Id u \<in> set ids) (t_users t)), t)"

definition gen_GetUserByUsername :: "string \<Rightarrow> User stmt" where
  "gen_GetUserByUsername name t = (sql_one (\<lambda>u. user_Username u = name) (t_users t), t)"

definition gen_CreateUser :: "User \<Rightarrow> unit stmt" where
  "gen_CreateUser u t =
     (if user_Id u \<in> set (map user_Id (t_users t)) then (unique_violation, t)
      else (Inr (), t\<lparr>t_users := t_users t @ [u]\<rparr>))"

definition gen_UpdateUserProfile ::
  "string \<Rightarrow> string option \<Rightarrow> string option \<Rightarrow> string option \<Rightarrow> time \<Rightarrow> int64 stmt" where
  "gen_UpdateUserProfile i nick av ex now t =
     (Inr (sql_count (\<lambda>u. user_Id u = i) (t_users t)),
      t\<lparr>t_users := sql_update (\<lambda>u. user_Id u = i)
          (\<lambda>u. u\<lparr>user_Nickname := coalesce nick (user_Nickname u),
                 user_Avatar := coalesce av (user_Avatar u),
                 user_Extra := coalesce ex (user_Extra u),
                 user_UpdatedAt := now\<rparr>) (t_users t)\<rparr>)"

definition gen_UpsertUser :: "string \<Rightarrow> string \<Rightarrow> string \<Rightarrow> string \<Rightarrow> time \<Rightarrow> unit stmt" where
  "gen_UpsertUser i nick av ex at t =
     (Inr (),
      if i \<in> set (map user_Id (t_users t)) then
        t\<lparr>t_users := sql_update (\<lambda>u. user_Id u = i)
            (\<lambda>u. u\<lparr>user_Nickname := nick, user_Avatar := av, user_Extra := ex, user_UpdatedAt := at\<rparr>)
            (t_users t)\<rparr>
      else
        t\<lparr>t_users := t_users t @
            [\<lparr>user_Id = i, user_Username = [], user_PasswordHash = [], user_Nickname = nick,
              user_Avatar = av, user_Extra = ex, user_CreatedAt = at, user_UpdatedAt = at\<rparr>]\<rparr>)"

section \<open>groups.sql\<close>

definition gen_CreateGroup :: "Group \<Rightarrow> unit stmt" where
  "gen_CreateGroup g t =
     (if group_Id g \<in> set (map group_Id (t_chat_groups t)) then (unique_violation, t)
      else (Inr (), t\<lparr>t_chat_groups := t_chat_groups t @ [g]\<rparr>))"

definition gen_GetGroup :: "string \<Rightarrow> Group stmt" where
  "gen_GetGroup i t = (sql_one (\<lambda>g. group_Id g = i) (t_chat_groups t), t)"

definition gen_AddGroupMember :: "GroupMember \<Rightarrow> unit stmt" where
  "gen_AddGroupMember m t =
     (if memKey m \<in> set (map memKey (t_group_members t)) then (unique_violation, t)
      else (Inr (), t\<lparr>t_group_members := t_group_members t @ [m]\<rparr>))"

text \<open>\<^verbatim>\<open>COPY\<close>: all rows or none.\<close>

definition gen_AddGroupMembers :: "GroupMember list \<Rightarrow> int64 stmt" where
  "gen_AddGroupMembers ms t =
     (if distinct (map memKey ms) \<and> set (map memKey ms) \<inter> set (map memKey (t_group_members t)) = {}
      then (Inr (int (length ms)), t\<lparr>t_group_members := t_group_members t @ ms\<rparr>)
      else (unique_violation, t))"

definition gen_RemoveGroupMember :: "string \<Rightarrow> string \<Rightarrow> int64 stmt" where
  "gen_RemoveGroupMember g u t =
     (Inr (sql_count (\<lambda>m. memKey m = (g, u)) (t_group_members t)),
      t\<lparr>t_group_members := filter (\<lambda>m. memKey m \<noteq> (g, u)) (t_group_members t)\<rparr>)"

definition gen_GetGroupMember :: "string \<Rightarrow> string \<Rightarrow> GroupMember stmt" where
  "gen_GetGroupMember g u t = (sql_one (\<lambda>m. memKey m = (g, u)) (t_group_members t), t)"

definition gen_ListGroupMembers :: "string \<Rightarrow> GroupMember list stmt" where
  "gen_ListGroupMembers g t =
     (Inr (sort_key (\<lambda>m. (gm_JoinedAt m, gm_UserId m))
             (filter (\<lambda>m. gm_GroupId m = g) (t_group_members t))), t)"

definition gen_CountGroupMembers :: "string \<Rightarrow> int64 stmt" where
  "gen_CountGroupMembers g t = (Inr (sql_count (\<lambda>m. gm_GroupId m = g) (t_group_members t)), t)"

definition gen_ListUserGroupIds :: "string \<Rightarrow> string list stmt" where
  "gen_ListUserGroupIds u t =
     (Inr (map gm_GroupId (sort_key gm_JoinedAt
             (filter (\<lambda>m. gm_UserId m = u) (t_group_members t)))), t)"

section \<open>conversations.sql\<close>

definition gen_InsertConversationIfMissing :: "string \<Rightarrow> int32 \<Rightarrow> string \<Rightarrow> time \<Rightarrow> unit stmt" where
  "gen_InsertConversationIfMissing i typ gid at t =
     (Inr (),
      if i \<in> set (map conv_ConversationId (t_conversations t)) then t
      else t\<lparr>t_conversations := t_conversations t @
             [\<lparr>conv_ConversationId = i, conv_Type = typ, conv_GroupId = gid, conv_MaxSeq = 0,
               conv_CreatedAt = at, conv_UpdatedAt = at\<rparr>]\<rparr>)"

definition gen_LockConversation :: "string \<Rightarrow> Conversation stmt" where
  "gen_LockConversation i t = (sql_one (\<lambda>c. conv_ConversationId c = i) (t_conversations t), t)"

definition gen_GetConversation :: "string \<Rightarrow> Conversation stmt" where
  "gen_GetConversation i t = (sql_one (\<lambda>c. conv_ConversationId c = i) (t_conversations t), t)"

definition gen_GetUserConversation :: "string \<Rightarrow> string \<Rightarrow> UserConversation stmt" where
  "gen_GetUserConversation ow i t =
     (sql_one (\<lambda>uc. ucKey uc = (ow, i)) (t_user_conversations t), t)"

text \<open>\<^verbatim>\<open>FROM user_conversations uc JOIN conversations c ON c.conversation_id = uc.conversation_id\<close>\<close>

definition sql_join :: "PgTables \<Rightarrow> UserConversationRow list" where
  "sql_join t = concat (map (\<lambda>uc. map (join_row uc)
     (filter (\<lambda>c. conv_ConversationId c = uc_ConversationId uc) (t_conversations t)))
     (t_user_conversations t))"

definition gen_GetUserConversationRow :: "string \<Rightarrow> string \<Rightarrow> UserConversationRow stmt" where
  "gen_GetUserConversationRow ow i t = (sql_one (\<lambda>row. ucKey row = (ow, i)) (sql_join t), t)"

definition gen_UpsertUserConversation :: "UserConversation \<Rightarrow> unit stmt" where
  "gen_UpsertUserConversation uc t =
     (Inr (),
      if ucKey uc \<in> set (map ucKey (t_user_conversations t)) then
        t\<lparr>t_user_conversations := sql_update (\<lambda>old. ucKey old = ucKey uc)
            (\<lambda>old. old\<lparr>uc_MinSeq := uc_MinSeq uc, uc_MaxSeq := uc_MaxSeq uc,
                        uc_ReadSeq := uc_ReadSeq uc, uc_UpdatedAt := uc_UpdatedAt uc\<rparr>)
            (t_user_conversations t)\<rparr>
      else t\<lparr>t_user_conversations :=
               t_user_conversations t @ [uc\<lparr>uc_CreatedAt := uc_UpdatedAt uc\<rparr>]\<rparr>)"

definition gen_CreateUserConversations :: "UserConversation list \<Rightarrow> int64 stmt" where
  "gen_CreateUserConversations ucs t =
     (if distinct (map ucKey ucs) \<and> set (map ucKey ucs) \<inter> set (map ucKey (t_user_conversations t)) = {}
      then (Inr (int (length ucs)), t\<lparr>t_user_conversations := t_user_conversations t @ ucs\<rparr>)
      else (unique_violation, t))"

definition gen_SetUserConversationMaxSeq :: "string \<Rightarrow> string \<Rightarrow> int64 \<Rightarrow> unit stmt" where
  "gen_SetUserConversationMaxSeq ow i s t =
     (Inr (), t\<lparr>t_user_conversations := sql_update (\<lambda>uc. ucKey uc = (ow, i))
        (\<lambda>uc. uc\<lparr>uc_MaxSeq := s\<rparr>) (t_user_conversations t)\<rparr>)"

definition gen_DeleteUserConversation :: "string \<Rightarrow> string \<Rightarrow> unit stmt" where
  "gen_DeleteUserConversation ow i t =
     (Inr (), t\<lparr>t_user_conversations :=
        filter (\<lambda>uc. ucKey uc \<noteq> (ow, i)) (t_user_conversations t)\<rparr>)"

definition gen_SetUserConversationOpt ::
  "string \<Rightarrow> string \<Rightarrow> int32 option \<Rightarrow> bool option \<Rightarrow> int64 stmt" where
  "gen_SetUserConversationOpt ow i opt pin t =
     (Inr (sql_count (\<lambda>uc. ucKey uc = (ow, i)) (t_user_conversations t)),
      t\<lparr>t_user_conversations := sql_update (\<lambda>uc. ucKey uc = (ow, i))
        (\<lambda>uc. uc\<lparr>uc_RecvMsgOpt := coalesce opt (uc_RecvMsgOpt uc),
                 uc_IsPinned := coalesce pin (uc_IsPinned uc)\<rparr>) (t_user_conversations t)\<rparr>)"

definition gen_VisibleOwners :: "string \<Rightarrow> string list \<Rightarrow> int64 \<Rightarrow> string list stmt" where
  "gen_VisibleOwners i ows s t =
     (Inr (map uc_OwnerId (filter
        (\<lambda>uc. uc_ConversationId uc = i \<and> uc_OwnerId uc \<in> set ows \<and> uc_MinSeq uc \<le> s \<and>
              (uc_MaxSeq uc = 0 \<or> s \<le> uc_MaxSeq uc)) (t_user_conversations t))), t)"

definition gen_MutedOwners :: "string \<Rightarrow> string list \<Rightarrow> string list stmt" where
  "gen_MutedOwners i ows t =
     (Inr (map uc_OwnerId (filter
        (\<lambda>uc. uc_ConversationId uc = i \<and> uc_OwnerId uc \<in> set ows \<and> uc_RecvMsgOpt uc \<noteq> 0)
        (t_user_conversations t))), t)"

section \<open>messages.sql\<close>

definition gen_GetMessageByClientId :: "string \<Rightarrow> string \<Rightarrow> string \<Rightarrow> Message stmt" where
  "gen_GetMessageByClientId i sn cm t = (sql_one (\<lambda>m. clientKey m = (i, sn, cm)) (t_messages t), t)"

definition gen_InsertMessage :: "Message \<Rightarrow> int64 stmt" where
  "gen_InsertMessage m t =
     (if msgKey m \<in> set (map msgKey (t_messages t)) \<or>
         msg_ServerMsgId m \<in> set (map msg_ServerMsgId (t_messages t)) \<or>
         clientKey m \<in> set (map clientKey (t_messages t))
      then (Inr 0, t)
      else (Inr 1, t\<lparr>t_messages := t_messages t @ [m]\<rparr>))"

definition gen_SetConversationMaxSeq :: "string \<Rightarrow> int64 \<Rightarrow> time \<Rightarrow> unit stmt" where
  "gen_SetConversationMaxSeq i s now t =
     (Inr (), t\<lparr>t_conversations := sql_update (\<lambda>c. conv_ConversationId c = i)
        (\<lambda>c. c\<lparr>conv_MaxSeq := s, conv_UpdatedAt := now\<rparr>) (t_conversations t)\<rparr>)"

definition gen_ListMessages :: "string \<Rightarrow> int64 \<Rightarrow> int64 \<Rightarrow> int32 \<Rightarrow> Message list stmt" where
  "gen_ListMessages i b e lim t =
     (sql_limit lim (sort_key msg_Seq
        (filter (\<lambda>m. msg_ConversationId m = i \<and> msg_Seq m \<ge> b \<and> msg_Seq m \<le> e) (t_messages t))), t)"

definition gen_GetMessages :: "MessageKey list \<Rightarrow> Message list stmt" where
  "gen_GetMessages ks t =
     (Inr (concat (map (\<lambda>m. map (\<lambda>_. m) (filter (\<lambda>k. k = msgKey m) ks)) (t_messages t))), t)"

definition gen_TouchUserConversation ::
  "string \<Rightarrow> string \<Rightarrow> int32 \<Rightarrow> string \<Rightarrow> string \<Rightarrow> int64 \<Rightarrow> time \<Rightarrow> unit stmt" where
  "gen_TouchUserConversation ow i typ peer gid rd at t =
     (Inr (),
      if (ow, i) \<in> set (map ucKey (t_user_conversations t)) then
        t\<lparr>t_user_conversations := sql_update (\<lambda>old. ucKey old = (ow, i))
            (\<lambda>old. old\<lparr>uc_UpdatedAt := max (uc_UpdatedAt old) at, uc_ReadSeq := max (uc_ReadSeq old) rd\<rparr>)
            (t_user_conversations t)\<rparr>
      else t\<lparr>t_user_conversations := t_user_conversations t @
             [\<lparr>uc_OwnerId = ow, uc_ConversationId = i, uc_Type = typ, uc_PeerUserId = peer,
               uc_GroupId = gid, uc_MinSeq = 1, uc_MaxSeq = 0, uc_ReadSeq = rd, uc_RecvMsgOpt = 0,
               uc_IsPinned = False, uc_Extra = [], uc_UpdatedAt = at, uc_CreatedAt = at\<rparr>]\<rparr>)"

definition gen_TouchConversationMembers :: "string \<Rightarrow> time \<Rightarrow> unit stmt" where
  "gen_TouchConversationMembers i now t =
     (Inr (), t\<lparr>t_user_conversations :=
        sql_update (\<lambda>uc. uc_ConversationId uc = i \<and> uc_MaxSeq uc = 0)
          (\<lambda>uc. uc\<lparr>uc_UpdatedAt := max (uc_UpdatedAt uc) now\<rparr>) (t_user_conversations t)\<rparr>)"

definition gen_AdvanceReadSeq :: "string \<Rightarrow> string \<Rightarrow> int64 \<Rightarrow> unit stmt" where
  "gen_AdvanceReadSeq ow i rd t =
     (Inr (), t\<lparr>t_user_conversations := sql_update (\<lambda>uc. ucKey uc = (ow, i))
        (\<lambda>uc. uc\<lparr>uc_ReadSeq := max (uc_ReadSeq uc) rd\<rparr>) (t_user_conversations t)\<rparr>)"

definition gen_ListUserConversations ::
  "string \<Rightarrow> ListCursor \<Rightarrow> int32 \<Rightarrow> UserConversationRow list stmt" where
  "gen_ListUserConversations ow cur lim t =
     (sql_limit lim (rev (sort_key cursor_of
        (filter (\<lambda>row. uc_OwnerId row = ow \<and> cursor_of row < cur) (sql_join t)))), t)"

section \<open>online\_conns.sql\<close>

definition gen_UpsertOnlineConn :: "OnlineConn \<Rightarrow> unit stmt" where
  "gen_UpsertOnlineConn c t =
     (Inr (),
      if oc_ConnId c \<in> set (map oc_ConnId (t_online_conns t)) then
        t\<lparr>t_online_conns := sql_update (\<lambda>old. oc_ConnId old = oc_ConnId c)
            (\<lambda>old. old\<lparr>oc_UserId := oc_UserId c, oc_PlatformId := oc_PlatformId c,
                        oc_NodeId := oc_NodeId c, oc_HeartbeatAt := oc_HeartbeatAt c\<rparr>)
            (t_online_conns t)\<rparr>
      else t\<lparr>t_online_conns := t_online_conns t @ [c]\<rparr>)"

definition gen_DeleteOnlineConn :: "string \<Rightarrow> unit stmt" where
  "gen_DeleteOnlineConn i t =
     (Inr (), t\<lparr>t_online_conns := filter (\<lambda>c. oc_ConnId c \<noteq> i) (t_online_conns t)\<rparr>)"

definition gen_RenewOnlineConns :: "string \<Rightarrow> string list \<Rightarrow> time \<Rightarrow> unit stmt" where
  "gen_RenewOnlineConns node ids now t =
     (Inr (), t\<lparr>t_online_conns := sql_update (\<lambda>c. oc_NodeId c = node \<and> oc_ConnId c \<in> set ids)
        (\<lambda>c. c\<lparr>oc_HeartbeatAt := now\<rparr>) (t_online_conns t)\<rparr>)"

definition gen_ListOnlineConns :: "string list \<Rightarrow> time \<Rightarrow> OnlineConn list stmt" where
  "gen_ListOnlineConns us since t =
     (Inr (filter (\<lambda>c. oc_UserId c \<in> set us \<and> oc_HeartbeatAt c > since) (t_online_conns t)), t)"

definition gen_DeleteOnlineConnsByNode :: "string \<Rightarrow> unit stmt" where
  "gen_DeleteOnlineConnsByNode node t =
     (Inr (), t\<lparr>t_online_conns := filter (\<lambda>c. oc_NodeId c \<noteq> node) (t_online_conns t)\<rparr>)"

end
