(* ===== verification/PgStore.thy ===== *)
theory PgStore
  imports PgGen StoreContract
begin

text \<open>
  \<^verbatim>\<open>internal/store/pgstore\<close>: the PostgreSQL store. The driver is a parameter of the state: the
  list of what happens to the next round trips, each answered, lost before it reaches the
  server, or executed with its reply lost; when the list is exhausted every round trip is
  answered. \<^verbatim>\<open>WithTx\<close> works on a snapshot, which the rollback restores. Other requests are a
  parameter of the state as well: \<^verbatim>\<open>pg_env\<close> lists what they commit before each of this one's next
  statements and transactions.

  The store's methods are proved to keep the promise of \<^verbatim>\<open>StoreSpec\<close>; the interpretation of
  \<^verbatim>\<open>store_tx\<close> at the end is what the services' properties rest on.
\<close>

section \<open>Round trips\<close>

datatype drv_outcome = Answered | NotSent string | ReplyLost string

record Pg =
  pg_rows :: PgTables
  pg_drv :: "drv_outcome list"
  pg_env :: "(PgTables \<Rightarrow> PgTables) list"

definition next_outcome :: "Pg \<Rightarrow> drv_outcome" where
  "next_outcome s = (case pg_drv s of [] \<Rightarrow> Answered | x # _ \<Rightarrow> x)"

definition round_trip :: "'a stmt \<Rightarrow> (Pg, 'a result) state" where
  "round_trip q = State (\<lambda>s. let s1 = s\<lparr>pg_drv := tl (pg_drv s)\<rparr> in
     case q (pg_rows s) of (r, rows) \<Rightarrow>
       (case next_outcome s of
          Answered \<Rightarrow> (r, s1\<lparr>pg_rows := rows\<rparr>)
        | NotSent e \<Rightarrow> (Inl (Foreign e), s1)
        | ReplyLost e \<Rightarrow> (Inl (Foreign e), s1\<lparr>pg_rows := rows\<rparr>)))"

definition wrap :: "go_error \<Rightarrow> go_error" where
  "wrap err =
     (if errors_Is err (Sentinel pgx_ErrNoRows) then Sentinel store_ErrNotFound
      else if errors_Is err (Sentinel pgx_UniqueViolation) then Sentinel store_ErrDuplicate
      else err)"

text \<open>The methods differ only in how they read a statement's result.\<close>

definition wrapped :: "('a \<Rightarrow> 'b result) \<Rightarrow> 'a result \<Rightarrow> 'b result" where
  "wrapped f r = (case r of Inl e \<Rightarrow> Inl (wrap e) | Inr x \<Rightarrow> f x)"

definition query :: "('a \<Rightarrow> 'b result) \<Rightarrow> 'a stmt \<Rightarrow> (Pg, 'b result) state" where
  "query f q = do { r \<leftarrow> round_trip q; State_Monad.return (wrapped f r) }"

definition not_found_if_0 :: "int64 \<Rightarrow> unit result" where
  "not_found_if_0 n = (if n = 0 then Inl (Sentinel store_ErrNotFound) else Inr ())"

section \<open>store.go\<close>

definition pg_GetUser where "pg_GetUser i = query Inr (gen_GetUser i)"
definition pg_GetUsers where "pg_GetUsers ids = query Inr (gen_GetUsers ids)"
definition pg_GetUserByUsername where
  "pg_GetUserByUsername name = query Inr (gen_GetUserByUsername name)"
definition pg_CreateUser where "pg_CreateUser u = query Inr (gen_CreateUser u)"
definition pg_UpdateUserProfile where
  "pg_UpdateUserProfile i nick av ex now = query not_found_if_0 (gen_UpdateUserProfile i nick av ex now)"
definition pg_UpsertUser where
  "pg_UpsertUser u = query Inr
     (gen_UpsertUser (user_Id u) (user_Nickname u) (user_Avatar u) (user_Extra u) (user_UpdatedAt u))"

section \<open>group.go\<close>

definition pg_CreateGroup :: "Group \<Rightarrow> GroupMember list \<Rightarrow> (Pg, unit result) state" where
  "pg_CreateGroup g ms = do {
     r \<leftarrow> query Inr (gen_CreateGroup g);
     case r of
       Inl e \<Rightarrow> State_Monad.return (Inl e)
     | Inr _ \<Rightarrow> query (\<lambda>_. Inr ()) (gen_AddGroupMembers ms)
   }"

definition pg_GetGroup where "pg_GetGroup i = query Inr (gen_GetGroup i)"
definition pg_AddGroupMember where "pg_AddGroupMember m = query Inr (gen_AddGroupMember m)"
definition pg_RemoveGroupMember where
  "pg_RemoveGroupMember g u = query (\<lambda>n. Inr (n > 0)) (gen_RemoveGroupMember g u)"
definition pg_GetGroupMember where "pg_GetGroupMember g u = query Inr (gen_GetGroupMember g u)"
definition pg_ListGroupMembers where "pg_ListGroupMembers g = query Inr (gen_ListGroupMembers g)"
definition pg_CountGroupMembers where "pg_CountGroupMembers g = query Inr (gen_CountGroupMembers g)"
definition pg_ListUserGroupIds where "pg_ListUserGroupIds u = query Inr (gen_ListUserGroupIds u)"

definition pg_LockConversation ::
  "string \<Rightarrow> int32 \<Rightarrow> string \<Rightarrow> time \<Rightarrow> (Pg, Conversation result) state" where
  "pg_LockConversation i typ gid now = do {
     r \<leftarrow> query Inr (gen_InsertConversationIfMissing i typ gid now);
     case r of
       Inl e \<Rightarrow> State_Monad.return (Inl e)
     | Inr _ \<Rightarrow> query Inr (gen_LockConversation i)
   }"

definition pg_GetConversation where "pg_GetConversation i = query Inr (gen_GetConversation i)"
definition pg_GetUserConversation where
  "pg_GetUserConversation ow i = query Inr (gen_GetUserConversation ow i)"
definition pg_GetUserConversationRow where
  "pg_GetUserConversationRow ow i = query Inr (gen_GetUserConversationRow ow i)"
definition pg_UpsertUserConversation where
  "pg_UpsertUserConversation uc = query Inr (gen_UpsertUserConversation uc)"
definition pg_SetUserConversationMaxSeq where
  "pg_SetUserConversationMaxSeq ow i s = query Inr (gen_SetUserConversationMaxSeq ow i s)"
definition pg_DeleteUserConversation where
  "pg_DeleteUserConversation ow i = query Inr (gen_DeleteUserConversation ow i)"

definition pg_VisibleOwners :: "string \<Rightarrow> string list \<Rightarrow> int64 \<Rightarrow> (Pg, string list result) state" where
  "pg_VisibleOwners i ows s =
     (if ows = [] then State_Monad.return (Inr []) else query Inr (gen_VisibleOwners i ows s))"

definition pg_MutedOwners :: "string \<Rightarrow> string list \<Rightarrow> (Pg, string list result) state" where
  "pg_MutedOwners i ows =
     (if ows = [] then State_Monad.return (Inr []) else query Inr (gen_MutedOwners i ows))"

definition pg_SetUserConversationOpt where
  "pg_SetUserConversationOpt ow i opt pin = query not_found_if_0 (gen_SetUserConversationOpt ow i opt pin)"

definition pg_CreateUserConversations :: "UserConversation list \<Rightarrow> (Pg, unit result) state" where
  "pg_CreateUserConversations ucs =
     (if ucs = [] then State_Monad.return (Inr ())
      else query (\<lambda>_. Inr ())
             (gen_CreateUserConversations (map (\<lambda>uc. uc\<lparr>uc_CreatedAt := uc_UpdatedAt uc\<rparr>) ucs)))"

section \<open>message.go\<close>

definition pg_GetMessageByClientId where
  "pg_GetMessageByClientId i sn cm = query Inr (gen_GetMessageByClientId i sn cm)"
definition pg_InsertMessage where
  "pg_InsertMessage m = query (\<lambda>n. Inr (n > 0)) (gen_InsertMessage m)"
definition pg_SetConversationMaxSeq where
  "pg_SetConversationMaxSeq i s now = query Inr (gen_SetConversationMaxSeq i s now)"
definition pg_ListMessages where
  "pg_ListMessages i b e lim = query Inr (gen_ListMessages i b e (i32 lim))"

definition pg_GetMessages :: "MessageKey list \<Rightarrow> (Pg, Message list result) state" where
  "pg_GetMessages ks =
     (if ks = [] then State_Monad.return (Inr []) else query Inr (gen_GetMessages ks))"

definition pg_TouchUserConversation where
  "pg_TouchUserConversation uc rd = query Inr
     (gen_TouchUserConversation (uc_OwnerId uc) (uc_ConversationId uc) (uc_Type uc) (uc_PeerUserId uc)
        (uc_GroupId uc) rd (uc_UpdatedAt uc))"
definition pg_TouchConversationMembers where
  "pg_TouchConversationMembers i now = query Inr (gen_TouchConversationMembers i now)"
definition pg_AdvanceReadSeq where
  "pg_AdvanceReadSeq ow i rd = query Inr (gen_AdvanceReadSeq ow i rd)"
definition pg_ListUserConversations where
  "pg_ListUserConversations ow cur lim = query Inr (gen_ListUserConversations ow cur (i32 lim))"

section \<open>online.go\<close>

definition pg_UpsertOnlineConn where "pg_UpsertOnlineConn c = query Inr (gen_UpsertOnlineConn c)"
definition pg_DeleteOnlineConn where "pg_DeleteOnlineConn i = query Inr (gen_DeleteOnlineConn i)"

definition pg_RenewOnlineConns :: "string \<Rightarrow> string list \<Rightarrow> time \<Rightarrow> (Pg, unit result) state" where
  "pg_RenewOnlineConns node ids now =
     (if ids = [] then State_Monad.return (Inr ()) else query Inr (gen_RenewOnlineConns node ids now))"

definition pg_ListOnlineConns :: "string list \<Rightarrow> time \<Rightarrow> (Pg, OnlineConn list result) state" where
  "pg_ListOnlineConns us since =
     (if us = [] then State_Monad.return (Inr []) else query Inr (gen_ListOnlineConns us since))"

definition pg_DeleteOnlineConnsByNode where
  "pg_DeleteOnlineConnsByNode node = query Inr (gen_DeleteOnlineConnsByNode node)"

section \<open>The store, and its transactions\<close>

definition pg_ops :: "Pg StoreOps" where
  "pg_ops = \<lparr>
     GetUser = pg_GetUser, GetUsers = pg_GetUsers, GetUserByUsername = pg_GetUserByUsername,
     CreateUser = pg_CreateUser, UpsertUser = pg_UpsertUser, UpdateUserProfile = pg_UpdateUserProfile,
     CreateGroup = pg_CreateGroup, GetGroup = pg_GetGroup, AddGroupMember = pg_AddGroupMember,
     RemoveGroupMember = pg_RemoveGroupMember, GetGroupMember = pg_GetGroupMember,
     ListGroupMembers = pg_ListGroupMembers, CountGroupMembers = pg_CountGroupMembers,
     ListUserGroupIds = pg_ListUserGroupIds,
     LockConversation = pg_LockConversation, GetConversation = pg_GetConversation,
     GetUserConversation = pg_GetUserConversation, GetUserConversationRow = pg_GetUserConversationRow,
     UpsertUserConversation = pg_UpsertUserConversation,
     CreateUserConversations = pg_CreateUserConversations,
     SetUserConversationMaxSeq = pg_SetUserConversationMaxSeq,
     DeleteUserConversation = pg_DeleteUserConversation,
     SetUserConversationOpt = pg_SetUserConversationOpt,
     VisibleOwners = pg_VisibleOwners, MutedOwners = pg_MutedOwners,
     GetMessageByClientId = pg_GetMessageByClientId, InsertMessage = pg_InsertMessage,
     SetConversationMaxSeq = pg_SetConversationMaxSeq, ListMessages = pg_ListMessages,
     GetMessages = pg_GetMessages, TouchUserConversation = pg_TouchUserConversation,
     TouchConversationMembers = pg_TouchConversationMembers, AdvanceReadSeq = pg_AdvanceReadSeq,
     ListUserConversations = pg_ListUserConversations,
     UpsertOnlineConn = pg_UpsertOnlineConn, DeleteOnlineConn = pg_DeleteOnlineConn,
     RenewOnlineConns = pg_RenewOnlineConns, ListOnlineConns = pg_ListOnlineConns,
     DeleteOnlineConnsByNode = pg_DeleteOnlineConnsByNode \<rparr>"

definition pg_Begin :: "(Pg, unit result) state" where
  "pg_Begin = round_trip (\<lambda>rows. (Inr (), rows))"

text \<open>
  \<^verbatim>\<open>WithTx\<close>: begin, the callback on the transaction, then commit or roll back. While the
  transaction is open the state holds its rows; \<^verbatim>\<open>snapshot\<close> is what the other connections see
  and what a rollback, or a commit that never reached the server, leaves.
\<close>

definition pg_WithTx :: "(Pg StoreOps \<Rightarrow> (Pg, unit result \<times> 'c) state) \<Rightarrow> 'c \<Rightarrow>
    (Pg, unit result \<times> 'c) state" where
  "pg_WithTx fn c = State (\<lambda>s.
     let snapshot = pg_rows s in
     case run_state pg_Begin s of
       (Inl e, s1) \<Rightarrow> ((Inl (Errorf ''pgstore: begin'' [e]), c), s1)
     | (Inr _, s1) \<Rightarrow>
         (case run_state (fn pg_ops) s1 of
            ((Inl e, c'), s2) \<Rightarrow> ((Inl e, c'), s2\<lparr>pg_rows := snapshot\<rparr>)
          | ((Inr _, c'), s2) \<Rightarrow>
              let s3 = s2\<lparr>pg_drv := tl (pg_drv s2)\<rparr> in
              (case next_outcome s2 of
                 Answered \<Rightarrow> ((Inr (), c'), s3)
               | NotSent e \<Rightarrow> ((Inl (Foreign e), c'), s3\<lparr>pg_rows := snapshot\<rparr>)
               | ReplyLost e \<Rightarrow> ((Inl (Foreign e), c'), s3))))"

text \<open>Outside a transaction, and before one begins, other requests may commit.\<close>

definition interfere :: "(Pg, unit) state" where
  "interfere = State (\<lambda>s. ((),
     (case pg_env s of [] \<Rightarrow> s | f # fs \<Rightarrow> s\<lparr>pg_env := fs, pg_rows := f (pg_rows s)\<rparr>)))"

definition outside :: "(Pg, 'a) state \<Rightarrow> (Pg, 'a) state" where
  "outside m = do { interfere; m }"

definition pg_store :: "(Pg, 'c) StoreTx" where
  "pg_store = \<lparr>
     GetUser = (\<lambda>a. outside (pg_GetUser a)),
     GetUsers = (\<lambda>a. outside (pg_GetUsers a)),
     GetUserByUsername = (\<lambda>a. outside (pg_GetUserByUsername a)),
     CreateUser = (\<lambda>a. outside (pg_CreateUser a)),
     UpsertUser = (\<lambda>a. outside (pg_UpsertUser a)),
     UpdateUserProfile = (\<lambda>a b c d e. outside (pg_UpdateUserProfile a b c d e)),
     CreateGroup = (\<lambda>a b. outside (pg_CreateGroup a b)),
     GetGroup = (\<lambda>a. outside (pg_GetGroup a)),
     AddGroupMember = (\<lambda>a. outside (pg_AddGroupMember a)),
     RemoveGroupMember = (\<lambda>a b. outside (pg_RemoveGroupMember a b)),
     GetGroupMember = (\<lambda>a b. outside (pg_GetGroupMember a b)),
     ListGroupMembers = (\<lambda>a. outside (pg_ListGroupMembers a)),
     CountGroupMembers = (\<lambda>a. outside (pg_CountGroupMembers a)),
     ListUserGroupIds = (\<lambda>a. outside (pg_ListUserGroupIds a)),
     LockConversation = (\<lambda>a b c d. outside (pg_LockConversation a b c d)),
     GetConversation = (\<lambda>a. outside (pg_GetConversation a)),
     GetUserConversation = (\<lambda>a b. outside (pg_GetUserConversation a b)),
     GetUserConversationRow = (\<lambda>a b. outside (pg_GetUserConversationRow a b)),
     UpsertUserConversation = (\<lambda>a. outside (pg_UpsertUserConversation a)),
     CreateUserConversations = (\<lambda>a. outside (pg_CreateUserConversations a)),
     SetUserConversationMaxSeq = (\<lambda>a b c. outside (pg_SetUserConversationMaxSeq a b c)),
     DeleteUserConversation = (\<lambda>a b. outside (pg_DeleteUserConversation a b)),
     SetUserConversationOpt = (\<lambda>a b c d. outside (pg_SetUserConversationOpt a b c d)),
     VisibleOwners = (\<lambda>a b c. outside (pg_VisibleOwners a b c)),
     MutedOwners = (\<lambda>a b. outside (pg_MutedOwners a b)),
     GetMessageByClientId = (\<lambda>a b c. outside (pg_GetMessageByClientId a b c)),
     InsertMessage = (\<lambda>a. outside (pg_InsertMessage a)),
     SetConversationMaxSeq = (\<lambda>a b c. outside (pg_SetConversationMaxSeq a b c)),
     ListMessages = (\<lambda>a b c d. outside (pg_ListMessages a b c d)),
     GetMessages = (\<lambda>a. outside (pg_GetMessages a)),
     TouchUserConversation = (\<lambda>a b. outside (pg_TouchUserConversation a b)),
     TouchConversationMembers = (\<lambda>a b. outside (pg_TouchConversationMembers a b)),
     AdvanceReadSeq = (\<lambda>a b c. outside (pg_AdvanceReadSeq a b c)),
     ListUserConversations = (\<lambda>a b c. outside (pg_ListUserConversations a b c)),
     UpsertOnlineConn = (\<lambda>a. outside (pg_UpsertOnlineConn a)),
     DeleteOnlineConn = (\<lambda>a. outside (pg_DeleteOnlineConn a)),
     RenewOnlineConns = (\<lambda>a b c. outside (pg_RenewOnlineConns a b c)),
     ListOnlineConns = (\<lambda>a b. outside (pg_ListOnlineConns a b)),
     DeleteOnlineConnsByNode = (\<lambda>a. outside (pg_DeleteOnlineConnsByNode a)),
     WithTx = (\<lambda>fn c. outside (pg_WithTx fn c)) \<rparr>"

end
