(* ===== verification/KeyedList.thy ===== *)
theory KeyedList
  imports Prelude
begin

text \<open>
  A table of rows with a key, read as a map: what inserting, updating and deleting rows of a
  list with distinct keys does to the map. Shared by the stores, whose tables are such lists.
\<close>

definition index :: "('r \<Rightarrow> 'k) \<Rightarrow> 'r list \<Rightarrow> 'k \<rightharpoonup> 'r" where
  "index key rows = map_of (map (\<lambda>r. (key r, r)) rows)"

lemma index_Nil [simp]: "index key [] = Map.empty"
  by (simp add: index_def)

lemma index_Cons [simp]: "index key (r # rows) = (index key rows)(key r \<mapsto> r)"
  by (simp add: index_def)

lemma index_None: "index key rows k = None \<longleftrightarrow> k \<notin> key ` set rows"
  by (induction rows) auto

lemma index_SomeD: "index key rows k = Some r \<Longrightarrow> r \<in> set rows \<and> key r = k"
  by (induction rows) (auto split: if_splits)

lemma index_Some: "distinct (map key rows) \<Longrightarrow> index key rows k = Some r \<longleftrightarrow> r \<in> set rows \<and> key r = k"
  by (induction rows) (auto simp: image_iff)

lemma index_key: "index key rows k = Some r \<Longrightarrow> key r = k"
  by (drule index_SomeD) simp

lemma index_in_set: "distinct (map key rows) \<Longrightarrow> r \<in> set rows \<Longrightarrow> index key rows (key r) = Some r"
  by (simp add: index_Some)

lemma ran_index: "distinct (map key rows) \<Longrightarrow> ran (index key rows) = set rows"
  by (auto simp: ran_def index_Some)

lemma index_snoc: "key r \<notin> key ` set rows \<Longrightarrow> index key (rows @ [r]) = (index key rows)(key r \<mapsto> r)"
proof (induction rows)
  case (Cons a rows)
  then have "key a \<noteq> key r"
    by auto
  with Cons show ?case
    by (auto simp: fun_eq_iff)
qed simp

lemma index_append:
  assumes "key ` set rows \<inter> key ` set new = {}"
  shows "index key (rows @ new) = index key rows ++ index key new"
proof
  fix k
  show "index key (rows @ new) k = (index key rows ++ index key new) k"
  proof (cases "index key rows k")
    case None
    then show ?thesis
      by (auto simp: index_def map_add_def split: option.splits)
  next
    case (Some r)
    then have "k \<notin> key ` set new"
      using assms index_SomeD by fastforce
    then have "index key new k = None"
      by (simp add: index_None)
    then show ?thesis
      using Some by (simp add: index_def map_add_def)
  qed
qed

lemma index_filter_key: "index key (filter (\<lambda>r. key r \<noteq> k) rows) = (index key rows)(k := None)"
  by (induction rows) (auto simp: fun_eq_iff)

lemma index_filter:
  "distinct (map key rows) \<Longrightarrow>
     index key (filter P rows) k =
       (case index key rows k of None \<Rightarrow> None | Some r \<Rightarrow> if P r then Some r else None)"
proof (induction rows)
  case (Cons a rows)
  show ?case
  proof (cases "k = key a")
    case True
    then have "index key (filter P rows) k = None"
      using Cons.prems by (auto simp: index_None)
    then show ?thesis
      using True by simp
  next
    case False
    then show ?thesis
      using Cons by simp
  qed
qed simp

lemma index_map:
  assumes "\<And>r. key (f r) = key r"
  shows "index key (map f rows) = (\<lambda>k. map_option f (index key rows k))"
  by (induction rows) (auto simp: assms)

lemma index_map_key:
  assumes "\<And>r. key (f r) = key r"
  shows "index key (map (\<lambda>r. if key r = k then f r else r) rows) =
    (case index key rows k of None \<Rightarrow> index key rows | Some v \<Rightarrow> (index key rows)(k \<mapsto> f v))"
proof
  fix j
  let ?g = "\<lambda>r. if key r = k then f r else r"
  have "key (?g r) = key r" for r
    by (simp add: assms)
  then have eq: "index key (map ?g rows) j = map_option ?g (index key rows j)"
    by (simp add: index_map)
  show "index key (map ?g rows) j =
      (case index key rows k of None \<Rightarrow> index key rows | Some v \<Rightarrow> (index key rows)(k \<mapsto> f v)) j"
  proof (cases "index key rows j")
    case None
    then show ?thesis
      unfolding eq by (cases "j = k") (auto split: option.splits)
  next
    case (Some r)
    then have "key r = j"
      by (rule index_key)
    with Some show ?thesis
      unfolding eq by (cases "j = k") (auto split: option.splits)
  qed
qed

lemma distinct_map_keys: "(\<And>r. key (f r) = key r) \<Longrightarrow> map key (map f rows) = map key rows"
  by simp

lemma distinct_map_filter: "distinct (map key rows) \<Longrightarrow> distinct (map key (filter P rows))"
  by (induction rows) auto

lemma filter_key_index:
  "distinct (map key rows) \<Longrightarrow>
     filter (\<lambda>r. key r = k) rows = (case index key rows k of None \<Rightarrow> [] | Some r \<Rightarrow> [r])"
proof (induction rows)
  case (Cons a rows)
  show ?case
  proof (cases "key a = k")
    case True
    then have "k \<notin> key ` set rows"
      using Cons.prems by simp
    then have "filter (\<lambda>r. key r = k) rows = []"
      by (auto simp: filter_empty_conv)
    then show ?thesis
      using True by simp
  next
    case False
    then show ?thesis
      using Cons by simp
  qed
qed simp

end
