(* ===== verification/PgContract.thy ===== *)
theory PgContract
  imports PgStore KeyedList
begin

text \<open>
  The PostgreSQL store keeps the contract of \<^verbatim>\<open>StoreContract\<close>. \<^verbatim>\<open>pg_ok\<close> is what the primary keys
  and unique indexes of \<^verbatim>\<open>migrations/postgres\<close> enforce, and \<^verbatim>\<open>pg_tabs\<close> reads the row lists as maps.
  The statements are shown to refine the relations of \<^verbatim>\<open>StoreSpec\<close> one by one, and the store
  is then an interpretation of \<^verbatim>\<open>store_tx\<close>.
\<close>

section \<open>Tables as maps, and the keys the schema enforces\<close>

definition pg_tabs :: "PgTables \<Rightarrow> Tables" where
  "pg_tabs r =
     \<lparr>users = index user_Id (t_users r), groups = index group_Id (t_chat_groups r),
      members = index memKey (t_group_members r),
      convs = index conv_ConversationId (t_conversations r),
      uconvs = index ucKey (t_user_conversations r), msgs = index msgKey (t_messages r),
      conns = index oc_ConnId (t_online_conns r)\<rparr>"

definition pg_ok :: "PgTables \<Rightarrow> bool" where
  "pg_ok r \<longleftrightarrow>
     distinct (map user_Id (t_users r)) \<and> distinct (map group_Id (t_chat_groups r)) \<and>
     distinct (map memKey (t_group_members r)) \<and>
     distinct (map conv_ConversationId (t_conversations r)) \<and>
     distinct (map ucKey (t_user_conversations r)) \<and> distinct (map msgKey (t_messages r)) \<and>
     distinct (map msg_ServerMsgId (t_messages r)) \<and> distinct (map clientKey (t_messages r)) \<and>
     distinct (map oc_ConnId (t_online_conns r))"

text \<open>Each of the other requests' commits keeps the schema's constraints and is one that \<^verbatim>\<open>Rl\<close>
  allows.\<close>

definition env_ok :: "(Tables \<Rightarrow> Tables \<Rightarrow> bool) \<Rightarrow> (PgTables \<Rightarrow> PgTables) list \<Rightarrow> bool" where
  "env_ok Rl fs \<longleftrightarrow> (\<forall>f \<in> set fs. \<forall>rows. pg_ok rows \<longrightarrow> pg_ok (f rows) \<and> Rl (pg_tabs rows) (pg_tabs (f rows)))"

definition pg_I :: "(Tables \<Rightarrow> Tables \<Rightarrow> bool) \<Rightarrow> Pg \<Rightarrow> bool" where
  "pg_I Rl s \<longleftrightarrow> pg_ok (pg_rows s) \<and> env_ok Rl (pg_env s)"
definition pg_T :: "Pg \<Rightarrow> Tables" where "pg_T s = pg_tabs (pg_rows s)"
definition pg_H :: "Pg \<Rightarrow> bool" where "pg_H s \<longleftrightarrow> list_all (\<lambda>x. x = Answered) (pg_drv s)"

lemma pg_tabs_simps [simp]:
  "users (pg_tabs r) = index user_Id (t_users r)"
  "groups (pg_tabs r) = index group_Id (t_chat_groups r)"
  "members (pg_tabs r) = index memKey (t_group_members r)"
  "convs (pg_tabs r) = index conv_ConversationId (t_conversations r)"
  "uconvs (pg_tabs r) = index ucKey (t_user_conversations r)"
  "msgs (pg_tabs r) = index msgKey (t_messages r)"
  "conns (pg_tabs r) = index oc_ConnId (t_online_conns r)"
  by (simp_all add: pg_tabs_def)

lemma keyed_pg_tabs: "keyed (pg_tabs r)"
  unfolding keyed_def pg_tabs_simps by (intro conjI allI impI) (erule index_key)+

section \<open>From statements to methods\<close>

definition stmt_ok :: "('a \<Rightarrow> 'b result) \<Rightarrow> 'a stmt \<Rightarrow> 'b spec \<Rightarrow> bool" where
  "stmt_ok f q R \<longleftrightarrow> (\<forall>rows r rows'. pg_ok rows \<longrightarrow> q rows = (r, rows') \<longrightarrow>
     pg_ok rows' \<and> (\<exists>s. wrapped f r = outcome s \<and> R (pg_tabs rows) s (pg_tabs rows')))"

lemma stmt_okI:
  assumes "\<And>rows r rows'. pg_ok rows \<Longrightarrow> q rows = (r, rows') \<Longrightarrow>
    pg_ok rows' \<and> (\<exists>s. wrapped f r = outcome s \<and> R (pg_tabs rows) s (pg_tabs rows'))"
  shows "stmt_ok f q R"
  unfolding stmt_ok_def using assms by (intro allI impI)

lemma wrap_Foreign [simp]: "wrap (Foreign e) = Foreign e"
  by (simp add: wrap_def)

lemma driver_error_Foreign [simp]: "driver_error (Foreign e)"
  by (simp add: driver_error_def)

lemma driver_error_begin [simp]: "driver_error (Errorf l [Foreign e])"
  by (simp add: driver_error_def)

lemma wrapped_simps [simp]:
  "wrapped f (Inr x) = f x"
  "wrapped f no_rows = Inl (Sentinel store_ErrNotFound)"
  "wrapped f unique_violation = Inl (Sentinel store_ErrDuplicate)"
  "wrapped f (Inl (Foreign e)) = Inl (Foreign e)"
  by (simp_all add: wrapped_def no_rows_def unique_violation_def wrap_def)

lemma pg_H_next: "pg_H s \<Longrightarrow> next_outcome s = Answered"
  by (auto simp: pg_H_def next_outcome_def list_all_iff split: list.splits)

lemma pg_H_tl: "pg_H s \<Longrightarrow> pg_H (s\<lparr>pg_drv := tl (pg_drv s), pg_rows := rows\<rparr>)"
  by (cases "pg_drv s") (simp_all add: pg_H_def)

lemma run_query:
  assumes "q (pg_rows d) = (r, rows)"
  shows "run_state (query f q) d =
    (case next_outcome d of
       Answered \<Rightarrow> (wrapped f r, d\<lparr>pg_drv := tl (pg_drv d), pg_rows := rows\<rparr>)
     | NotSent e \<Rightarrow> (Inl (Foreign e), d\<lparr>pg_drv := tl (pg_drv d)\<rparr>)
     | ReplyLost e \<Rightarrow> (Inl (Foreign e), d\<lparr>pg_drv := tl (pg_drv d), pg_rows := rows\<rparr>))"
  using assms by (simp add: query_def round_trip_def Let_def split: drv_outcome.split)

lemma query_ok:
  assumes "stmt_ok f q R"
  shows "op_ok (pg_I Rl) pg_T pg_H (=) (query f q) R"
  unfolding op_ok_plain
proof (intro allI impI)
  fix d r d'
  assume d: "pg_I Rl d" and run: "run_state (query f q) d = (r, d')"
  obtain r1 rows where q: "q (pg_rows d) = (r1, rows)"
    by (cases "q (pg_rows d)") simp
  have "pg_ok (pg_rows d)"
    using d by (simp add: pg_I_def)
  with assms q have ok: "pg_ok rows"
      and ex: "\<exists>s. wrapped f r1 = outcome s \<and> R (pg_T d) s (pg_tabs rows)"
    unfolding stmt_ok_def pg_T_def by blast+
  from ex obtain s where s: "wrapped f r1 = outcome s" "R (pg_T d) s (pg_tabs rows)"
    by blast
  show "pg_I Rl d' \<and> (pg_H d \<longrightarrow> pg_H d') \<and>
      ((\<exists>s. r = outcome s \<and> R (pg_T d) s (pg_T d')) \<or>
       (\<not> pg_H d \<and> (\<exists>e. r = Inl e \<and> driver_error e) \<and>
          (pg_T d' = pg_T d \<or> (\<exists>s. R (pg_T d) s (pg_T d')))))"
  proof (cases "next_outcome d")
    case Answered
    then have "r = outcome s" "d' = d\<lparr>pg_drv := tl (pg_drv d), pg_rows := rows\<rparr>"
      using run s(1) by (simp_all add: run_query [of q d, OF q])
    moreover from this have "pg_I Rl d'" "pg_T d' = pg_tabs rows"
      using ok d by (simp_all add: pg_I_def pg_T_def)
    ultimately show ?thesis
      using s(2) pg_H_tl [of d rows] by metis
  next
    case (NotSent e)
    then have "\<not> pg_H d"
      using pg_H_next [of d] by auto
    moreover have "r = Inl (Foreign e)" "d' = d\<lparr>pg_drv := tl (pg_drv d)\<rparr>"
      using run NotSent by (simp_all add: run_query [of q d, OF q])
    moreover from this have "pg_I Rl d'" "pg_T d' = pg_T d"
      using d by (simp_all add: pg_I_def pg_T_def)
    ultimately show ?thesis
      by simp
  next
    case (ReplyLost e)
    then have "\<not> pg_H d"
      using pg_H_next [of d] by auto
    moreover have "r = Inl (Foreign e)" "d' = d\<lparr>pg_drv := tl (pg_drv d), pg_rows := rows\<rparr>"
      using run ReplyLost by (simp_all add: run_query [of q d, OF q])
    moreover from this have "pg_I Rl d'" "pg_T d' = pg_tabs rows"
      using ok d by (simp_all add: pg_I_def pg_T_def)
    ultimately show ?thesis
      using s(2) driver_error_Foreign by metis
  qed
qed

lemma return_ok:
  assumes "\<And>t. R t (Inr x) t"
  shows "op_ok (pg_I Rl) pg_T pg_H (=) (State_Monad.return (Inr x)) R"
  unfolding op_ok_plain
proof (intro allI impI)
  fix d r d'
  assume d: "pg_I Rl d" and run: "run_state (State_Monad.return (Inr x :: _ result)) d = (r, d')"
  then have "r = outcome (Inr x)" "d' = d"
    by simp_all
  then show "pg_I Rl d' \<and> (pg_H d \<longrightarrow> pg_H d') \<and>
      ((\<exists>s. r = outcome s \<and> R (pg_T d) s (pg_T d')) \<or>
       (\<not> pg_H d \<and> (\<exists>e. r = Inl e \<and> driver_error e) \<and>
          (pg_T d' = pg_T d \<or> (\<exists>s. R (pg_T d) s (pg_T d')))))"
    using d assms [of "pg_T d"] by blast
qed

lemma sql_one_index:
  "distinct (map key rows) \<Longrightarrow> sql_one (\<lambda>r. key r = k) rows =
     (case index key rows k of None \<Rightarrow> no_rows | Some r \<Rightarrow> Inr r)"
  by (simp add: sql_one_def filter_key_index split: option.splits)

lemma sql_count_index:
  "distinct (map key rows) \<Longrightarrow> sql_count (\<lambda>r. key r = k) rows =
     (case index key rows k of None \<Rightarrow> 0 | Some r \<Rightarrow> 1)"
  by (simp add: sql_count_def filter_key_index split: option.splits)

lemma sql_update_keys:
  assumes "\<And>r. key (f r) = key r"
  shows "map key (sql_update P f rows) = map key rows"
  using assms by (simp add: sql_update_def)

lemma index_sql_update:
  assumes "\<And>r. key (f r) = key r"
  shows "index key (sql_update (\<lambda>r. key r = k) f rows) = alter k f (index key rows)"
  unfolding sql_update_def alter_def by (rule index_map_key) (rule assms)

lemma read_ok:
  assumes "\<And>rows. pg_ok rows \<Longrightarrow> q rows = (g rows, rows)"
    and "\<And>rows. pg_ok rows \<Longrightarrow> \<exists>s. wrapped f (g rows) = outcome s \<and> R (pg_tabs rows) s (pg_tabs rows)"
  shows "stmt_ok f q R"
  using assms by (intro stmt_okI) auto

lemma wrapped_found:
  "wrapped Inr (case x of None \<Rightarrow> no_rows | Some r \<Rightarrow> Inr r) = outcome (found x)"
  by (cases x) simp_all

section \<open>Reads\<close>

lemma gen_GetUser_ok: "stmt_ok Inr (gen_GetUser i) (GetUser_spec i)"
  by (rule read_ok, unfold gen_GetUser_def, rule refl)
    (simp add: pg_ok_def sql_one_index wrapped_found GetUser_spec_def)

lemma gen_GetGroup_ok: "stmt_ok Inr (gen_GetGroup i) (GetGroup_spec i)"
  by (rule read_ok, unfold gen_GetGroup_def, rule refl)
    (simp add: pg_ok_def sql_one_index wrapped_found GetGroup_spec_def)

lemma gen_GetGroupMember_ok: "stmt_ok Inr (gen_GetGroupMember g u) (GetGroupMember_spec g u)"
  by (rule read_ok, unfold gen_GetGroupMember_def, rule refl)
    (simp add: pg_ok_def sql_one_index wrapped_found GetGroupMember_spec_def)

lemma gen_GetConversation_ok: "stmt_ok Inr (gen_GetConversation i) (GetConversation_spec i)"
  by (rule read_ok, unfold gen_GetConversation_def, rule refl)
    (simp add: pg_ok_def sql_one_index wrapped_found GetConversation_spec_def)

lemma gen_GetUserConversation_ok:
  "stmt_ok Inr (gen_GetUserConversation ow i) (GetUserConversation_spec ow i)"
  by (rule read_ok, unfold gen_GetUserConversation_def, rule refl)
    (simp add: pg_ok_def sql_one_index wrapped_found GetUserConversation_spec_def)

lemma gen_GetUsers_ok: "stmt_ok Inr (gen_GetUsers ids) (GetUsers_spec ids)"
proof (rule read_ok, unfold gen_GetUsers_def, rule refl)
  fix rows assume ok: "pg_ok rows"
  let ?us = "filter (\<lambda>u. user_Id u \<in> set ids) (t_users rows)"
  have d: "distinct (map user_Id (t_users rows))"
    using ok by (simp add: pg_ok_def)
  have "distinct ?us"
    using d by (simp add: distinct_map)
  moreover have "set ?us = {u. \<exists>i \<in> set ids. users (pg_tabs rows) i = Some u}"
    using d by (auto simp: index_Some)
  ultimately show "\<exists>s. wrapped Inr (Inr ?us) = outcome s \<and> GetUsers_spec ids (pg_tabs rows) s (pg_tabs rows)"
    by (intro exI [of _ "Inr ?us"]) (simp add: GetUsers_spec_def)
qed

lemma gen_GetUserByUsername_ok:
  "stmt_ok Inr (gen_GetUserByUsername n) (GetUserByUsername_spec n)"
proof (rule read_ok, unfold gen_GetUserByUsername_def, rule refl)
  fix rows assume "pg_ok rows"
  then have d: "distinct (map user_Id (t_users rows))"
    by (simp add: pg_ok_def)
  show "\<exists>s. wrapped Inr (sql_one (\<lambda>u. user_Username u = n) (t_users rows)) = outcome s \<and>
      GetUserByUsername_spec n (pg_tabs rows) s (pg_tabs rows)"
  proof (cases "filter (\<lambda>u. user_Username u = n) (t_users rows)")
    case Nil
    then show ?thesis
      using d by (intro exI [of _ "Inl store_ErrNotFound"])
        (auto simp: sql_one_def GetUserByUsername_spec_def ran_index filter_empty_conv)
  next
    case (Cons u us)
    then have "u \<in> set (t_users rows)" "user_Username u = n"
      by (auto dest!: arg_cong [of _ _ set])
    then show ?thesis
      using d Cons by (intro exI [of _ "Inr u"])
        (simp add: sql_one_def GetUserByUsername_spec_def index_Some)
  qed
qed

lemma distinct_map_inj_filter:
  assumes "distinct (map key rows)" "\<And>a b. P a \<Longrightarrow> P b \<Longrightarrow> f a = f b \<Longrightarrow> key a = key b"
  shows "distinct (map f (filter P rows))"
proof -
  have "distinct rows" "inj_on key (set rows)"
    using assms(1) by (simp_all add: distinct_map)
  moreover have "inj_on f (set (filter P rows))"
  proof (rule inj_onI)
    fix a b
    assume ab: "a \<in> set (filter P rows)" "b \<in> set (filter P rows)" "f a = f b"
    then have "key a = key b"
      using assms(2) by simp
    then show "a = b"
      using ab \<open>inj_on key (set rows)\<close> by (simp add: inj_on_eq_iff)
  qed
  ultimately show ?thesis
    by (simp add: distinct_map)
qed

lemma gen_ListGroupMembers_ok: "stmt_ok Inr (gen_ListGroupMembers g) (ListGroupMembers_spec g)"
proof (rule read_ok, unfold gen_ListGroupMembers_def, rule refl)
  fix rows assume "pg_ok rows"
  then have d: "distinct (map memKey (t_group_members rows))"
    by (simp add: pg_ok_def)
  let ?k = "\<lambda>m. (gm_JoinedAt m, gm_UserId m)"
  let ?fs = "filter (\<lambda>m. gm_GroupId m = g) (t_group_members rows)"
  let ?ms = "sort_key ?k ?fs"
  have "distinct (map gm_UserId ?fs)"
    using d by (rule distinct_map_inj_filter) (simp add: memKey_def)
  then have "distinct (map gm_UserId ?ms)"
    by (simp add: distinct_map)
  moreover have "set ?ms = {m. \<exists>u. members (pg_tabs rows) (g, u) = Some m}"
    using d by (auto simp: index_Some memKey_def)
  moreover have "sorted_wrt (\<lambda>a b. gm_JoinedAt a \<le> gm_JoinedAt b) ?ms"
  proof -
    have "sorted (map ?k ?ms)"
      by simp
    then have "sorted_wrt (\<lambda>a b. ?k a \<le> ?k b) ?ms"
      by (simp only: sorted_wrt_map)
    then show ?thesis
      by (rule sorted_wrt_mono_rel [rotated]) auto
  qed
  ultimately show "\<exists>s. wrapped Inr (Inr ?ms) = outcome s \<and>
      ListGroupMembers_spec g (pg_tabs rows) s (pg_tabs rows)"
    by (intro exI [of _ "Inr ?ms"]) (simp add: ListGroupMembers_spec_def)
qed

lemma gen_CountGroupMembers_ok: "stmt_ok Inr (gen_CountGroupMembers g) (CountGroupMembers_spec g)"
proof (rule read_ok, unfold gen_CountGroupMembers_def, rule refl)
  fix rows assume "pg_ok rows"
  then have d: "distinct (map memKey (t_group_members rows))"
    by (simp add: pg_ok_def)
  let ?fs = "filter (\<lambda>m. gm_GroupId m = g) (t_group_members rows)"
  have dist: "distinct (map gm_UserId ?fs)"
    using d by (rule distinct_map_inj_filter) (simp add: memKey_def)
  have "roster (pg_tabs rows) g = set (map gm_UserId ?fs)"
    by (auto simp: roster_def index_None memKey_def image_iff)
  then have "finite (roster (pg_tabs rows) g)" "card (roster (pg_tabs rows) g) = length ?fs"
    using distinct_card [OF dist] by simp_all
  then show "\<exists>s. wrapped Inr (Inr (sql_count (\<lambda>m. gm_GroupId m = g) (t_group_members rows))) = outcome s \<and>
      CountGroupMembers_spec g (pg_tabs rows) s (pg_tabs rows)"
    by (intro exI [of _ "Inr (int (length ?fs))"]) (simp add: CountGroupMembers_spec_def sql_count_def)
qed

lemma gen_ListUserGroupIds_ok: "stmt_ok Inr (gen_ListUserGroupIds u) (ListUserGroupIds_spec u)"
proof (rule read_ok, unfold gen_ListUserGroupIds_def, rule refl)
  fix rows assume "pg_ok rows"
  then have d: "distinct (map memKey (t_group_members rows))"
    by (simp add: pg_ok_def)
  let ?fs = "filter (\<lambda>m. gm_UserId m = u) (t_group_members rows)"
  let ?gs = "map gm_GroupId (sort_key gm_JoinedAt ?fs)"
  have "distinct (map gm_GroupId ?fs)"
    using d by (rule distinct_map_inj_filter) (simp add: memKey_def)
  then have "distinct ?gs"
    by (simp add: distinct_map)
  moreover have "set ?gs = {g. members (pg_tabs rows) (g, u) \<noteq> None}"
    by (auto simp: index_None memKey_def image_iff)
  ultimately show "\<exists>s. wrapped Inr (Inr ?gs) = outcome s \<and>
      ListUserGroupIds_spec u (pg_tabs rows) s (pg_tabs rows)"
    by (intro exI [of _ "Inr ?gs"]) (simp add: ListUserGroupIds_spec_def)
qed

section \<open>The join, and the reads over it\<close>

lemma sql_join_eq:
  assumes "pg_ok rows"
  shows "sql_join rows = List.map_filter
    (\<lambda>uc. map_option (join_row uc)
       (index conv_ConversationId (t_conversations rows) (uc_ConversationId uc)))
    (t_user_conversations rows)"
proof -
  have d: "distinct (map conv_ConversationId (t_conversations rows))"
    using assms by (simp add: pg_ok_def)
  have "concat (map (\<lambda>uc. map (join_row uc) (filter (\<lambda>c. conv_ConversationId c = uc_ConversationId uc)
          (t_conversations rows))) ucs) =
        List.map_filter (\<lambda>uc. map_option (join_row uc)
          (index conv_ConversationId (t_conversations rows) (uc_ConversationId uc))) ucs" for ucs
    by (induction ucs) (auto simp: List.map_filter_def filter_key_index [OF d] split: option.splits)
  then show ?thesis
    by (simp add: sql_join_def)
qed

lemma joined_pg:
  assumes "pg_ok rows"
  shows "joined (pg_tabs rows) ow i = Some row \<longleftrightarrow> row \<in> set (sql_join rows) \<and> ucKey row = (ow, i)"
proof -
  have d: "distinct (map ucKey (t_user_conversations rows))"
    using assms by (simp add: pg_ok_def)
  show ?thesis
    unfolding sql_join_eq [OF assms] set_map_filter'
    by (auto simp: joined_Some index_Some [OF d] ucKey_def)
qed

lemma distinct_sql_join:
  assumes "pg_ok rows"
  shows "distinct (map ucKey (sql_join rows))"
proof -
  have "distinct (map ucKey ucs) \<Longrightarrow> distinct (map ucKey (List.map_filter
      (\<lambda>uc. map_option (join_row uc) (f uc)) ucs))"
    for ucs :: "UserConversation list" and f
    by (induction ucs) (auto simp: List.map_filter_def split: option.splits)
  then show ?thesis
    using assms by (simp add: sql_join_eq pg_ok_def)
qed

lemma index_sql_join:
  "pg_ok rows \<Longrightarrow> index ucKey (sql_join rows) (ow, i) = joined (pg_tabs rows) ow i"
  using joined_pg [of rows ow i] index_Some [OF distinct_sql_join, of rows "(ow, i)"]
  by (metis not_None_eq)

lemma gen_GetUserConversationRow_ok:
  "stmt_ok Inr (gen_GetUserConversationRow ow i) (GetUserConversationRow_spec ow i)"
  by (rule read_ok, unfold gen_GetUserConversationRow_def, rule refl)
    (simp add: sql_one_index [OF distinct_sql_join] index_sql_join wrapped_found
      GetUserConversationRow_spec_def)

lemma i32_id: "0 \<le> n \<Longrightarrow> n < 2 ^ 31 \<Longrightarrow> i32 n = n"
  by (simp add: i32_def)

lemma gen_ListUserConversations_ok:
  assumes "0 \<le> lim" "lim < 2 ^ 31"
  shows "stmt_ok Inr (gen_ListUserConversations ow cur (i32 lim)) (ListUserConversations_spec ow cur lim)"
proof (rule read_ok, unfold gen_ListUserConversations_def, rule refl)
  fix rows assume ok: "pg_ok rows"
  let ?P = "\<lambda>row. uc_OwnerId row = ow \<and> cursor_of row < cur"
  let ?fs = "filter ?P (sql_join rows)"
  let ?rs = "rev (sort_key cursor_of ?fs)"
  have "distinct (map cursor_of ?fs)"
    using distinct_sql_join [OF ok] by (rule distinct_map_inj_filter) (auto simp: ucKey_def cursor_of_def)
  then have "sorted_wrt (<) (map cursor_of (sort_key cursor_of ?fs))"
    by (simp add: strict_sorted_iff distinct_map)
  then have "newest_first ?rs"
    by (simp add: newest_first_def sorted_wrt_rev sorted_wrt_map)
  moreover have "set ?rs = rows_after (pg_tabs rows) ow cur"
    by (auto simp: rows_after_def joined_pg [OF ok] ucKey_def)
  moreover have "sql_limit (i32 lim) ?rs = Inr (take (nat lim) ?rs)"
    using assms by (simp add: sql_limit_def i32_id)
  ultimately show "\<exists>s. wrapped Inr (sql_limit (i32 lim) ?rs) = outcome s \<and>
      ListUserConversations_spec ow cur lim (pg_tabs rows) s (pg_tabs rows)"
    by (intro exI [of _ "Inr (take (nat lim) ?rs)"]) (auto simp: ListUserConversations_spec_def)
qed

definition owners_where :: "(UserConversation \<Rightarrow> bool) \<Rightarrow> string \<Rightarrow> string list \<Rightarrow> PgTables \<Rightarrow> string list" where
  "owners_where P i ows rows = map uc_OwnerId (filter
     (\<lambda>uc. uc_ConversationId uc = i \<and> uc_OwnerId uc \<in> set ows \<and> P uc) (t_user_conversations rows))"

lemma owners_ok:
  assumes ok: "pg_ok rows"
  shows "distinct (owners_where P i ows rows)"
    and "set (owners_where P i ows rows) =
      {ow \<in> set ows. \<exists>uc. uconvs (pg_tabs rows) (ow, i) = Some uc \<and> P uc}"
proof -
  have d: "distinct (map ucKey (t_user_conversations rows))"
    using ok by (simp add: pg_ok_def)
  show "distinct (owners_where P i ows rows)"
    unfolding owners_where_def using d by (rule distinct_map_inj_filter) (simp add: ucKey_def)
  show "set (owners_where P i ows rows) =
      {ow \<in> set ows. \<exists>uc. uconvs (pg_tabs rows) (ow, i) = Some uc \<and> P uc}"
    unfolding owners_where_def by (auto simp: index_Some [OF d] ucKey_def)
qed

lemma gen_VisibleOwners_ok: "stmt_ok Inr (gen_VisibleOwners i ows s) (VisibleOwners_spec i ows s)"
proof (rule read_ok, unfold gen_VisibleOwners_def, rule refl)
  fix rows assume ok: "pg_ok rows"
  let ?xs = "map uc_OwnerId (filter (\<lambda>uc. uc_ConversationId uc = i \<and> uc_OwnerId uc \<in> set ows \<and>
    uc_MinSeq uc \<le> s \<and> (uc_MaxSeq uc = 0 \<or> s \<le> uc_MaxSeq uc)) (t_user_conversations rows))"
  note xs = owners_ok [OF ok, where P = "\<lambda>uc. uc_MinSeq uc \<le> s \<and> (uc_MaxSeq uc = 0 \<or> s \<le> uc_MaxSeq uc)",
      of i ows, unfolded owners_where_def]
  show "\<exists>r. wrapped Inr (Inr ?xs) = outcome r \<and> VisibleOwners_spec i ows s (pg_tabs rows) r (pg_tabs rows)"
    using xs by (intro exI [of _ "Inr ?xs"]) (simp add: VisibleOwners_spec_def covers_def)
qed

lemma gen_MutedOwners_ok: "stmt_ok Inr (gen_MutedOwners i ows) (MutedOwners_spec i ows)"
proof (rule read_ok, unfold gen_MutedOwners_def, rule refl)
  fix rows assume ok: "pg_ok rows"
  let ?xs = "map uc_OwnerId (filter (\<lambda>uc. uc_ConversationId uc = i \<and> uc_OwnerId uc \<in> set ows \<and>
    uc_RecvMsgOpt uc \<noteq> 0) (t_user_conversations rows))"
  note xs = owners_ok [OF ok, where P = "\<lambda>uc. uc_RecvMsgOpt uc \<noteq> 0", of i ows, unfolded owners_where_def]
  show "\<exists>r. wrapped Inr (Inr ?xs) = outcome r \<and> MutedOwners_spec i ows (pg_tabs rows) r (pg_tabs rows)"
    using xs by (intro exI [of _ "Inr ?xs"]) (simp add: MutedOwners_spec_def)
qed

section \<open>Reads of messages and connections\<close>

lemma gen_GetMessageByClientId_ok:
  "stmt_ok Inr (gen_GetMessageByClientId i sn cm) (GetMessageByClientId_spec i sn cm)"
proof (rule read_ok, unfold gen_GetMessageByClientId_def, rule refl)
  fix rows assume "pg_ok rows"
  then have d: "distinct (map clientKey (t_messages rows))" "distinct (map msgKey (t_messages rows))"
    by (simp_all add: pg_ok_def)
  let ?x = "index clientKey (t_messages rows) (i, sn, cm)"
  have "GetMessageByClientId_spec i sn cm (pg_tabs rows) (found ?x) (pg_tabs rows)"
  proof (cases ?x)
    case None
    then have "(i, sn, cm) \<notin> clientKey ` set (t_messages rows)"
      by (simp add: index_None)
    then show ?thesis
      using None by (auto simp: GetMessageByClientId_spec_def found_def ran_index [OF d(2)] image_iff)
  next
    case (Some m)
    then show ?thesis
      using index_SomeD [OF Some] by (simp add: GetMessageByClientId_spec_def found_def ran_index [OF d(2)])
  qed
  then show "\<exists>s. wrapped Inr (sql_one (\<lambda>m. clientKey m = (i, sn, cm)) (t_messages rows)) = outcome s \<and>
      GetMessageByClientId_spec i sn cm (pg_tabs rows) s (pg_tabs rows)"
    unfolding sql_one_index [OF d(1)] wrapped_found by blast
qed

lemma sorted_messages:
  assumes ok: "pg_ok rows"
  shows "sort_key msg_Seq (filter (\<lambda>m. msg_ConversationId m = i \<and> msg_Seq m \<ge> b \<and> msg_Seq m \<le> e)
      (t_messages rows)) = messages_between (pg_tabs rows) i b e" (is "?xs = ?ys")
proof -
  have d: "distinct (map msgKey (t_messages rows))"
    using ok by (simp add: pg_ok_def)
  have set: "set ?xs = set ?ys"
    by (auto simp: set_messages_between index_Some [OF d] msgKey_def)
  have "distinct (map msg_Seq (filter (\<lambda>m. msg_ConversationId m = i \<and> msg_Seq m \<ge> b \<and> msg_Seq m \<le> e)
      (t_messages rows)))"
    using d by (rule distinct_map_inj_filter) (simp add: msgKey_def)
  then have dist: "distinct (map msg_Seq ?xs)"
    by (simp add: distinct_map)
  have "map msg_Seq ?xs = map msg_Seq ?ys"
  proof (rule sorted_distinct_set_unique)
    show "sorted (map msg_Seq ?ys)" "distinct (map msg_Seq ?ys)"
      unfolding seqs_messages_between [OF keyed_pg_tabs] by (simp_all add: sorted_wrt_filter)
    show "set (map msg_Seq ?xs) = set (map msg_Seq ?ys)"
      using set by simp
  qed (use dist in simp_all)
  moreover have "inj_on msg_Seq (set ?xs \<union> set ?ys)"
    using set dist by (simp only: distinct_map Un_absorb)
  ultimately show ?thesis
    by (rule map_inj_on)
qed

lemma gen_ListMessages_ok:
  assumes "0 \<le> lim" "lim < 2 ^ 31"
  shows "stmt_ok Inr (gen_ListMessages i b e (i32 lim)) (ListMessages_spec i b e lim)"
proof (rule read_ok, unfold gen_ListMessages_def, rule refl)
  fix rows assume ok: "pg_ok rows"
  show "\<exists>s. wrapped Inr (sql_limit (i32 lim) (sort_key msg_Seq (filter (\<lambda>m. msg_ConversationId m = i \<and>
      msg_Seq m \<ge> b \<and> msg_Seq m \<le> e) (t_messages rows)))) = outcome s \<and>
      ListMessages_spec i b e lim (pg_tabs rows) s (pg_tabs rows)"
    unfolding sorted_messages [OF ok]
    using assms by (intro exI [of _ "Inr (take (nat lim) (messages_between (pg_tabs rows) i b e))"])
      (simp add: sql_limit_def i32_id ListMessages_spec_def)
qed

lemma gen_GetMessages_ok: "stmt_ok Inr (gen_GetMessages ks) (GetMessages_spec ks)"
proof (rule read_ok, unfold gen_GetMessages_def, rule refl)
  fix rows assume "pg_ok rows"
  then have d: "distinct (map msgKey (t_messages rows))"
    by (simp add: pg_ok_def)
  let ?ms = "concat (map (\<lambda>m. map (\<lambda>_. m) (filter (\<lambda>k. k = msgKey m) ks)) (t_messages rows))"
  have "set ?ms = {m. \<exists>k \<in> set ks. msgs (pg_tabs rows) k = Some m}"
    by (auto simp: index_Some [OF d])
  then show "\<exists>s. wrapped Inr (Inr ?ms) = outcome s \<and> GetMessages_spec ks (pg_tabs rows) s (pg_tabs rows)"
    by (intro exI [of _ "Inr ?ms"]) (simp add: GetMessages_spec_def)
qed

lemma gen_ListOnlineConns_ok: "stmt_ok Inr (gen_ListOnlineConns us since) (ListOnlineConns_spec us since)"
proof (rule read_ok, unfold gen_ListOnlineConns_def, rule refl)
  fix rows assume "pg_ok rows"
  then have d: "distinct (map oc_ConnId (t_online_conns rows))"
    by (simp add: pg_ok_def)
  let ?cs = "filter (\<lambda>c. oc_UserId c \<in> set us \<and> oc_HeartbeatAt c > since) (t_online_conns rows)"
  have "distinct ?cs"
    using d by (simp add: distinct_map)
  then show "\<exists>s. wrapped Inr (Inr ?cs) = outcome s \<and> ListOnlineConns_spec us since (pg_tabs rows) s (pg_tabs rows)"
    by (intro exI [of _ "Inr ?cs"]) (auto simp: ListOnlineConns_spec_def ran_index [OF d])
qed

section \<open>Writes\<close>

lemma pg_tabs_update [simp]:
  "pg_tabs (r\<lparr>t_users := a\<rparr>) = (pg_tabs r)\<lparr>users := index user_Id a\<rparr>"
  "pg_tabs (r\<lparr>t_chat_groups := b\<rparr>) = (pg_tabs r)\<lparr>groups := index group_Id b\<rparr>"
  "pg_tabs (r\<lparr>t_group_members := c\<rparr>) = (pg_tabs r)\<lparr>members := index memKey c\<rparr>"
  "pg_tabs (r\<lparr>t_conversations := d\<rparr>) = (pg_tabs r)\<lparr>convs := index conv_ConversationId d\<rparr>"
  "pg_tabs (r\<lparr>t_user_conversations := e\<rparr>) = (pg_tabs r)\<lparr>uconvs := index ucKey e\<rparr>"
  "pg_tabs (r\<lparr>t_messages := f\<rparr>) = (pg_tabs r)\<lparr>msgs := index msgKey f\<rparr>"
  "pg_tabs (r\<lparr>t_online_conns := g\<rparr>) = (pg_tabs r)\<lparr>conns := index oc_ConnId g\<rparr>"
  by (simp_all add: pg_tabs_def)

lemma pg_ok_update:
  assumes "pg_ok r"
  shows "pg_ok (r\<lparr>t_users := a\<rparr>) \<longleftrightarrow> distinct (map user_Id a)"
    and "pg_ok (r\<lparr>t_chat_groups := b\<rparr>) \<longleftrightarrow> distinct (map group_Id b)"
    and "pg_ok (r\<lparr>t_group_members := c\<rparr>) \<longleftrightarrow> distinct (map memKey c)"
    and "pg_ok (r\<lparr>t_conversations := d\<rparr>) \<longleftrightarrow> distinct (map conv_ConversationId d)"
    and "pg_ok (r\<lparr>t_user_conversations := e\<rparr>) \<longleftrightarrow> distinct (map ucKey e)"
    and "pg_ok (r\<lparr>t_messages := f\<rparr>) \<longleftrightarrow> distinct (map msgKey f) \<and>
           distinct (map msg_ServerMsgId f) \<and> distinct (map clientKey f)"
    and "pg_ok (r\<lparr>t_online_conns := g\<rparr>) \<longleftrightarrow> distinct (map oc_ConnId g)"
  using assms by (auto simp: pg_ok_def)

lemma pg_okD:
  assumes "pg_ok r"
  shows "distinct (map user_Id (t_users r))" "distinct (map group_Id (t_chat_groups r))"
    "distinct (map memKey (t_group_members r))"
    "distinct (map conv_ConversationId (t_conversations r))"
    "distinct (map ucKey (t_user_conversations r))" "distinct (map msgKey (t_messages r))"
    "distinct (map msg_ServerMsgId (t_messages r))" "distinct (map clientKey (t_messages r))"
    "distinct (map oc_ConnId (t_online_conns r))"
  using assms by (simp_all add: pg_ok_def)

lemma write_ok:
  assumes "\<And>rows. pg_ok rows \<Longrightarrow> q rows = (g rows, w rows)"
    and "\<And>rows. pg_ok rows \<Longrightarrow> pg_ok (w rows)"
    and "\<And>rows. pg_ok rows \<Longrightarrow> wrapped f (g rows) = outcome (s rows) \<and>
           R (pg_tabs rows) (s rows) (pg_tabs (w rows))"
  shows "stmt_ok f q R"
proof (rule stmt_okI)
  fix rows r rows'
  assume "pg_ok rows" "q rows = (r, rows')"
  then show "pg_ok rows' \<and> (\<exists>s. wrapped f r = outcome s \<and> R (pg_tabs rows) s (pg_tabs rows'))"
    using assms by auto
qed

text \<open>Updates that keep the key.\<close>

lemma uc_keys [simp]:
  "ucKey (uc\<lparr>uc_MaxSeq := a\<rparr>) = ucKey uc" "ucKey (uc\<lparr>uc_MinSeq := a\<rparr>) = ucKey uc"
  "ucKey (uc\<lparr>uc_ReadSeq := a\<rparr>) = ucKey uc" "ucKey (uc\<lparr>uc_UpdatedAt := b\<rparr>) = ucKey uc"
  "ucKey (uc\<lparr>uc_CreatedAt := b\<rparr>) = ucKey uc" "ucKey (uc\<lparr>uc_RecvMsgOpt := c\<rparr>) = ucKey uc"
  "ucKey (uc\<lparr>uc_IsPinned := d\<rparr>) = ucKey uc" "ucKey (uc\<lparr>uc_Extra := x\<rparr>) = ucKey uc"
  by (simp_all add: ucKey_def)

lemmas update_simps = sql_update_keys index_sql_update pg_ok_update pg_okD

lemma gen_SetUserConversationMaxSeq_ok:
  "stmt_ok Inr (gen_SetUserConversationMaxSeq ow i s) (SetUserConversationMaxSeq_spec ow i s)"
  by (rule write_ok [where s = "\<lambda>_. Inr ()"], unfold gen_SetUserConversationMaxSeq_def, rule refl)
    (simp_all add: update_simps SetUserConversationMaxSeq_spec_def)

lemma gen_AdvanceReadSeq_ok: "stmt_ok Inr (gen_AdvanceReadSeq ow i s) (AdvanceReadSeq_spec ow i s)"
  by (rule write_ok [where s = "\<lambda>_. Inr ()"], unfold gen_AdvanceReadSeq_def, rule refl)
    (simp_all add: update_simps AdvanceReadSeq_spec_def advance_read_def)

lemma gen_SetConversationMaxSeq_ok:
  "stmt_ok Inr (gen_SetConversationMaxSeq i s n) (SetConversationMaxSeq_spec i s n)"
  by (rule write_ok [where s = "\<lambda>_. Inr ()"], unfold gen_SetConversationMaxSeq_def, rule refl)
    (simp_all add: update_simps SetConversationMaxSeq_spec_def)

lemma gen_DeleteUserConversation_ok:
  "stmt_ok Inr (gen_DeleteUserConversation ow i) (DeleteUserConversation_spec ow i)"
  by (rule write_ok [where s = "\<lambda>_. Inr ()"], unfold gen_DeleteUserConversation_def, rule refl)
    (simp_all add: update_simps DeleteUserConversation_spec_def index_filter_key distinct_map_filter)

lemma gen_DeleteOnlineConn_ok: "stmt_ok Inr (gen_DeleteOnlineConn i) (DeleteOnlineConn_spec i)"
  by (rule write_ok [where s = "\<lambda>_. Inr ()"], unfold gen_DeleteOnlineConn_def, rule refl)
    (simp_all add: update_simps DeleteOnlineConn_spec_def index_filter_key distinct_map_filter)

lemma gen_DeleteOnlineConnsByNode_ok:
  "stmt_ok Inr (gen_DeleteOnlineConnsByNode nd) (DeleteOnlineConnsByNode_spec nd)"
proof (rule write_ok [where s = "\<lambda>_. Inr ()"], unfold gen_DeleteOnlineConnsByNode_def, rule refl)
  fix rows assume ok: "pg_ok rows"
  let ?cs = "filter (\<lambda>c. oc_NodeId c \<noteq> nd) (t_online_conns rows)"
  show "pg_ok (rows\<lparr>t_online_conns := ?cs\<rparr>)"
    using ok by (simp add: update_simps distinct_map_filter)
  have "index oc_ConnId ?cs = (\<lambda>k. case index oc_ConnId (t_online_conns rows) k of None \<Rightarrow> None
      | Some c \<Rightarrow> if oc_NodeId c = nd then None else Some c)"
    using pg_okD(9) [OF ok] by (auto simp: fun_eq_iff index_filter split: option.splits)
  then show "wrapped Inr (Inr ()) = outcome (Inr ()) \<and>
      DeleteOnlineConnsByNode_spec nd (pg_tabs rows) (Inr ()) (pg_tabs (rows\<lparr>t_online_conns := ?cs\<rparr>))"
    by (simp add: DeleteOnlineConnsByNode_spec_def)
qed

lemma gen_TouchConversationMembers_ok:
  "stmt_ok Inr (gen_TouchConversationMembers i n) (TouchConversationMembers_spec i n)"
proof (rule write_ok [where s = "\<lambda>_. Inr ()"], unfold gen_TouchConversationMembers_def, rule refl)
  have eq: "sql_update (\<lambda>uc. uc_ConversationId uc = i \<and> uc_MaxSeq uc = 0)
      (\<lambda>uc. uc\<lparr>uc_UpdatedAt := max (uc_UpdatedAt uc) n\<rparr>) = map (touch_member i n)"
    by (auto simp: fun_eq_iff sql_update_def touch_member_def)
  have key: "ucKey (touch_member i n uc) = ucKey uc" for uc
    by (simp add: touch_member_def)
  fix rows assume ok: "pg_ok rows"
  show "pg_ok (rows\<lparr>t_user_conversations := sql_update (\<lambda>uc. uc_ConversationId uc = i \<and> uc_MaxSeq uc = 0)
      (\<lambda>uc. uc\<lparr>uc_UpdatedAt := max (uc_UpdatedAt uc) n\<rparr>) (t_user_conversations rows)\<rparr>)"
    using ok by (simp add: update_simps)
  show "wrapped Inr (Inr ()) = outcome (Inr ()) \<and>
      TouchConversationMembers_spec i n (pg_tabs rows) (Inr ())
        (pg_tabs (rows\<lparr>t_user_conversations := sql_update (\<lambda>uc. uc_ConversationId uc = i \<and> uc_MaxSeq uc = 0)
          (\<lambda>uc. uc\<lparr>uc_UpdatedAt := max (uc_UpdatedAt uc) n\<rparr>) (t_user_conversations rows)\<rparr>))"
    unfolding eq by (simp add: TouchConversationMembers_spec_def touch_members_def index_map [where key = ucKey, OF key])
qed

lemma gen_RenewOnlineConns_ok: "stmt_ok Inr (gen_RenewOnlineConns nd ids n) (RenewOnlineConns_spec nd ids n)"
proof (rule write_ok [where s = "\<lambda>_. Inr ()"], unfold gen_RenewOnlineConns_def, rule refl)
  have eq: "sql_update (\<lambda>c. oc_NodeId c = nd \<and> oc_ConnId c \<in> set ids) (\<lambda>c. c\<lparr>oc_HeartbeatAt := n\<rparr>) =
      map (renew_conn nd ids n)"
    by (auto simp: fun_eq_iff sql_update_def renew_conn_def)
  have key: "oc_ConnId (renew_conn nd ids n c) = oc_ConnId c" for c
    by (simp add: renew_conn_def)
  fix rows assume ok: "pg_ok rows"
  show "pg_ok (rows\<lparr>t_online_conns := sql_update (\<lambda>c. oc_NodeId c = nd \<and> oc_ConnId c \<in> set ids)
      (\<lambda>c. c\<lparr>oc_HeartbeatAt := n\<rparr>) (t_online_conns rows)\<rparr>)"
    using ok by (simp add: update_simps)
  show "wrapped Inr (Inr ()) = outcome (Inr ()) \<and>
      RenewOnlineConns_spec nd ids n (pg_tabs rows) (Inr ())
        (pg_tabs (rows\<lparr>t_online_conns := sql_update (\<lambda>c. oc_NodeId c = nd \<and> oc_ConnId c \<in> set ids)
          (\<lambda>c. c\<lparr>oc_HeartbeatAt := n\<rparr>) (t_online_conns rows)\<rparr>))"
    unfolding eq by (simp add: RenewOnlineConns_spec_def index_map [where key = oc_ConnId, OF key])
qed

text \<open>Inserts and upserts.\<close>

lemma gen_CreateUser_ok: "stmt_ok Inr (gen_CreateUser u) (CreateUser_spec u)"
  by (rule stmt_okI)
    (auto simp: gen_CreateUser_def CreateUser_spec_def index_None index_snoc pg_ok_update pg_okD
      intro: exI [of _ "Inl store_ErrDuplicate"] exI [of _ "Inr ()"] split: if_splits)

lemma gen_AddGroupMember_ok: "stmt_ok Inr (gen_AddGroupMember m) (AddGroupMember_spec m)"
  by (rule stmt_okI)
    (auto simp: gen_AddGroupMember_def AddGroupMember_spec_def index_None index_snoc pg_ok_update pg_okD
      intro: exI [of _ "Inl store_ErrDuplicate"] exI [of _ "Inr ()"] split: if_splits)

lemma gen_RemoveGroupMember_ok:
  "stmt_ok (\<lambda>n. Inr (n > 0)) (gen_RemoveGroupMember g u) (RemoveGroupMember_spec g u)"
proof (rule write_ok [where s = "\<lambda>rows. Inr (index memKey (t_group_members rows) (g, u) \<noteq> None)"],
    unfold gen_RemoveGroupMember_def, rule refl)
  fix rows assume ok: "pg_ok rows"
  let ?ms = "filter (\<lambda>m. memKey m \<noteq> (g, u)) (t_group_members rows)"
  show "pg_ok (rows\<lparr>t_group_members := ?ms\<rparr>)"
    using ok by (simp add: update_simps distinct_map_filter)
  show "wrapped (\<lambda>n. Inr (n > 0)) (Inr (sql_count (\<lambda>m. memKey m = (g, u)) (t_group_members rows))) =
      outcome (Inr (index memKey (t_group_members rows) (g, u) \<noteq> None)) \<and>
      RemoveGroupMember_spec g u (pg_tabs rows) (Inr (index memKey (t_group_members rows) (g, u) \<noteq> None))
        (pg_tabs (rows\<lparr>t_group_members := ?ms\<rparr>))"
    by (simp add: sql_count_index [OF pg_okD(3) [OF ok]] RemoveGroupMember_spec_def index_filter_key
        split: option.split)
qed

lemma gen_UpdateUserProfile_ok:
  "stmt_ok not_found_if_0 (gen_UpdateUserProfile i a b c n) (UpdateUserProfile_spec i a b c n)"
proof (rule write_ok [where s = "\<lambda>rows. case index user_Id (t_users rows) i of
      None \<Rightarrow> Inl store_ErrNotFound | Some _ \<Rightarrow> Inr ()"], unfold gen_UpdateUserProfile_def, rule refl)
  fix rows assume ok: "pg_ok rows"
  let ?f = "\<lambda>u. u\<lparr>user_Nickname := coalesce a (user_Nickname u), user_Avatar := coalesce b (user_Avatar u),
      user_Extra := coalesce c (user_Extra u), user_UpdatedAt := n\<rparr>"
  let ?rows = "rows\<lparr>t_users := sql_update (\<lambda>u. user_Id u = i) ?f (t_users rows)\<rparr>"
  show "pg_ok ?rows"
    using ok by (simp add: update_simps)
  show "wrapped not_found_if_0 (Inr (sql_count (\<lambda>u. user_Id u = i) (t_users rows))) =
      outcome (case index user_Id (t_users rows) i of None \<Rightarrow> Inl store_ErrNotFound | Some _ \<Rightarrow> Inr ()) \<and>
      UpdateUserProfile_spec i a b c n (pg_tabs rows)
        (case index user_Id (t_users rows) i of None \<Rightarrow> Inl store_ErrNotFound | Some _ \<Rightarrow> Inr ()) (pg_tabs ?rows)"
    by (simp add: sql_count_index [OF pg_okD(1) [OF ok]] UpdateUserProfile_spec_def index_sql_update
        not_found_if_0_def alter_def split: option.split)
qed

lemma gen_SetUserConversationOpt_ok:
  "stmt_ok not_found_if_0 (gen_SetUserConversationOpt ow i a b) (SetUserConversationOpt_spec ow i a b)"
proof (rule write_ok [where s = "\<lambda>rows. case index ucKey (t_user_conversations rows) (ow, i) of
      None \<Rightarrow> Inl store_ErrNotFound | Some _ \<Rightarrow> Inr ()"], unfold gen_SetUserConversationOpt_def, rule refl)
  fix rows assume ok: "pg_ok rows"
  let ?f = "\<lambda>uc. uc\<lparr>uc_RecvMsgOpt := coalesce a (uc_RecvMsgOpt uc), uc_IsPinned := coalesce b (uc_IsPinned uc)\<rparr>"
  let ?rows = "rows\<lparr>t_user_conversations :=
    sql_update (\<lambda>uc. ucKey uc = (ow, i)) ?f (t_user_conversations rows)\<rparr>"
  show "pg_ok ?rows"
    using ok by (simp add: update_simps)
  show "wrapped not_found_if_0 (Inr (sql_count (\<lambda>uc. ucKey uc = (ow, i)) (t_user_conversations rows))) =
      outcome (case index ucKey (t_user_conversations rows) (ow, i) of None \<Rightarrow> Inl store_ErrNotFound | Some _ \<Rightarrow> Inr ()) \<and>
      SetUserConversationOpt_spec ow i a b (pg_tabs rows)
        (case index ucKey (t_user_conversations rows) (ow, i) of None \<Rightarrow> Inl store_ErrNotFound | Some _ \<Rightarrow> Inr ()) (pg_tabs ?rows)"
    by (simp add: sql_count_index [OF pg_okD(5) [OF ok]] SetUserConversationOpt_spec_def index_sql_update
        not_found_if_0_def alter_def split: option.split)
qed

lemma gen_InsertMessage_ok: "stmt_ok (\<lambda>n. Inr (n > 0)) (gen_InsertMessage m) (InsertMessage_spec m)"
proof (rule stmt_okI)
  fix rows r rows'
  assume ok: "pg_ok rows" and q: "gen_InsertMessage m rows = (r, rows')"
  note d = pg_okD [OF ok]
  let ?c = "msgKey m \<in> set (map msgKey (t_messages rows)) \<or>
         msg_ServerMsgId m \<in> set (map msg_ServerMsgId (t_messages rows)) \<or>
         clientKey m \<in> set (map clientKey (t_messages rows))"
  have c: "message_conflict m (pg_tabs rows) \<longleftrightarrow> ?c"
    by (simp add: message_conflict_def ran_index [OF d(6)] image_iff) metis
  show "pg_ok rows' \<and> (\<exists>s. wrapped (\<lambda>n. Inr (n > 0)) r = outcome s \<and>
      InsertMessage_spec m (pg_tabs rows) s (pg_tabs rows'))"
  proof (cases ?c)
    case True
    then have "r = Inr 0" "rows' = rows"
      using q by (simp_all add: gen_InsertMessage_def)
    then show ?thesis
      using c True ok by (intro conjI exI [of _ "Inr False"]) (simp_all add: InsertMessage_spec_def)
  next
    case False
    then have "r = Inr 1" "rows' = rows\<lparr>t_messages := t_messages rows @ [m]\<rparr>"
      using q by (simp_all add: gen_InsertMessage_def)
    moreover have "msgKey m \<notin> msgKey ` set (t_messages rows)"
      using False by simp
    ultimately show ?thesis
      using c False ok d by (intro conjI exI [of _ "Inr True"])
        (simp_all add: InsertMessage_spec_def pg_ok_update index_snoc)
  qed
qed

lemma keys_disjoint: "set (map key xs) \<inter> set (map key ys) = {} \<longleftrightarrow> (\<forall>x \<in> set xs. key x \<notin> key ` set ys)"
  by auto

lemma upsert_index:
  assumes "\<And>r. key (f r) = key r" "key new = k"
  shows "index key (if k \<in> key ` set rows then sql_update (\<lambda>r. key r = k) f rows else rows @ [new]) =
    (index key rows)(k \<mapsto> (case index key rows k of None \<Rightarrow> new | Some old \<Rightarrow> f old))"
proof (cases "index key rows k")
  case None
  then have "k \<notin> key ` set rows"
    by (simp add: index_None)
  then show ?thesis
    using None assms(2) index_snoc [of key new rows] by simp
next
  case (Some old)
  then have "k \<in> key ` set rows"
    using index_None [of key rows k] by (metis option.distinct(1))
  then show ?thesis
    using Some assms(1) by (simp add: index_sql_update alter_def)
qed

lemma upsert_distinct:
  assumes "\<And>r. key (f r) = key r" "key new = k" "distinct (map key rows)"
  shows "distinct (map key (if k \<in> key ` set rows then sql_update (\<lambda>r. key r = k) f rows else rows @ [new]))"
  using assms by (simp add: sql_update_keys)

lemma gen_UpsertUser_ok:
  "stmt_ok Inr (gen_UpsertUser (user_Id u) (user_Nickname u) (user_Avatar u) (user_Extra u) (user_UpdatedAt u))
     (UpsertUser_spec u)"
proof -
  let ?f = "\<lambda>old. old\<lparr>user_Nickname := user_Nickname u, user_Avatar := user_Avatar u,
      user_Extra := user_Extra u, user_UpdatedAt := user_UpdatedAt u\<rparr>"
  let ?new = "u\<lparr>user_Username := [], user_PasswordHash := [], user_CreatedAt := user_UpdatedAt u\<rparr>"
  have eq: "gen_UpsertUser (user_Id u) (user_Nickname u) (user_Avatar u) (user_Extra u) (user_UpdatedAt u) rows =
      (Inr (), rows\<lparr>t_users := (if user_Id u \<in> user_Id ` set (t_users rows)
         then sql_update (\<lambda>r. user_Id r = user_Id u) ?f (t_users rows) else t_users rows @ [?new])\<rparr>)" for rows
    by (simp add: gen_UpsertUser_def)
  show ?thesis
    by (rule write_ok [where s = "\<lambda>_. Inr ()"], rule eq)
      (simp_all add: pg_ok_update pg_okD upsert_distinct upsert_index UpsertUser_spec_def
        del: pg_tabs_update(2-7) cong: option.case_cong)
qed

lemma gen_UpsertOnlineConn_ok: "stmt_ok Inr (gen_UpsertOnlineConn c) (UpsertOnlineConn_spec c)"
proof -
  let ?f = "\<lambda>old. old\<lparr>oc_UserId := oc_UserId c, oc_PlatformId := oc_PlatformId c,
      oc_NodeId := oc_NodeId c, oc_HeartbeatAt := oc_HeartbeatAt c\<rparr>"
  have eq: "gen_UpsertOnlineConn c rows =
      (Inr (), rows\<lparr>t_online_conns := (if oc_ConnId c \<in> oc_ConnId ` set (t_online_conns rows)
         then sql_update (\<lambda>r. oc_ConnId r = oc_ConnId c) ?f (t_online_conns rows)
         else t_online_conns rows @ [c])\<rparr>)" for rows
    by (simp add: gen_UpsertOnlineConn_def)
  have new: "(case index oc_ConnId rows (oc_ConnId c) of None \<Rightarrow> c | Some old \<Rightarrow> ?f old) = c" for rows
  proof (cases "index oc_ConnId rows (oc_ConnId c)")
    case (Some old)
    then have "oc_ConnId old = oc_ConnId c"
      by (rule index_key)
    then show ?thesis
      using Some by simp
  qed simp
  show ?thesis
  proof (rule write_ok [where s = "\<lambda>_. Inr ()"], rule eq)
    fix rows assume ok: "pg_ok rows"
    let ?rows = "if oc_ConnId c \<in> oc_ConnId ` set (t_online_conns rows)
         then sql_update (\<lambda>r. oc_ConnId r = oc_ConnId c) ?f (t_online_conns rows)
         else t_online_conns rows @ [c]"
    have "distinct (map oc_ConnId ?rows)"
      by (rule upsert_distinct) (simp_all add: pg_okD ok)
    then show "pg_ok (rows\<lparr>t_online_conns := ?rows\<rparr>)"
      by (simp only: pg_ok_update [OF ok])
    have "index oc_ConnId ?rows = (index oc_ConnId (t_online_conns rows))(oc_ConnId c \<mapsto>
        (case index oc_ConnId (t_online_conns rows) (oc_ConnId c) of None \<Rightarrow> c | Some old \<Rightarrow> ?f old))"
      by (rule upsert_index) simp_all
    then show "wrapped Inr (Inr ()) = outcome (Inr ()) \<and> UpsertOnlineConn_spec c (pg_tabs rows) (Inr ())
        (pg_tabs (rows\<lparr>t_online_conns := ?rows\<rparr>))"
      by (simp only: new UpsertOnlineConn_spec_def pg_tabs_update pg_tabs_simps wrapped_simps
          outcome_simps simp_thms)
  qed
qed

lemma gen_UpsertUserConversation_ok:
  "stmt_ok Inr (gen_UpsertUserConversation uc) (UpsertUserConversation_spec uc)"
proof -
  let ?f = "\<lambda>old. old\<lparr>uc_MinSeq := uc_MinSeq uc, uc_MaxSeq := uc_MaxSeq uc,
      uc_ReadSeq := uc_ReadSeq uc, uc_UpdatedAt := uc_UpdatedAt uc\<rparr>"
  let ?new = "uc\<lparr>uc_CreatedAt := uc_UpdatedAt uc\<rparr>"
  have eq: "gen_UpsertUserConversation uc rows =
      (Inr (), rows\<lparr>t_user_conversations := (if ucKey uc \<in> ucKey ` set (t_user_conversations rows)
         then sql_update (\<lambda>r. ucKey r = ucKey uc) ?f (t_user_conversations rows)
         else t_user_conversations rows @ [?new])\<rparr>)" for rows
    by (simp add: gen_UpsertUserConversation_def)
  show ?thesis
    by (rule write_ok [where s = "\<lambda>_. Inr ()"], rule eq)
      (simp_all only: pg_ok_update pg_okD upsert_distinct upsert_index UpsertUserConversation_spec_def upsert_uc_def
        pg_tabs_update pg_tabs_simps wrapped_simps outcome_simps simp_thms uc_keys)
qed

lemma gen_TouchUserConversation_ok:
  "stmt_ok Inr (gen_TouchUserConversation (uc_OwnerId uc) (uc_ConversationId uc) (uc_Type uc)
     (uc_PeerUserId uc) (uc_GroupId uc) rd (uc_UpdatedAt uc)) (TouchUserConversation_spec uc rd)"
proof -
  let ?f = "\<lambda>old. old\<lparr>uc_UpdatedAt := max (uc_UpdatedAt old) (uc_UpdatedAt uc),
      uc_ReadSeq := max (uc_ReadSeq old) rd\<rparr>"
  let ?new = "uc\<lparr>uc_MinSeq := 1, uc_MaxSeq := 0, uc_ReadSeq := rd, uc_RecvMsgOpt := 0,
      uc_IsPinned := False, uc_Extra := [], uc_CreatedAt := uc_UpdatedAt uc\<rparr>"
  have eq: "gen_TouchUserConversation (uc_OwnerId uc) (uc_ConversationId uc) (uc_Type uc)
     (uc_PeerUserId uc) (uc_GroupId uc) rd (uc_UpdatedAt uc) rows =
      (Inr (), rows\<lparr>t_user_conversations := (if ucKey uc \<in> ucKey ` set (t_user_conversations rows)
         then sql_update (\<lambda>r. ucKey r = ucKey uc) ?f (t_user_conversations rows)
         else t_user_conversations rows @ [?new])\<rparr>)" for rows
    by (simp add: gen_TouchUserConversation_def ucKey_def)
  show ?thesis
    by (rule write_ok [where s = "\<lambda>_. Inr ()"], rule eq)
      (simp_all only: pg_ok_update pg_okD upsert_distinct upsert_index TouchUserConversation_spec_def touch_uc_def
        pg_tabs_update pg_tabs_simps wrapped_simps outcome_simps simp_thms uc_keys)
qed

lemma gen_CreateUserConversations_ok:
  "stmt_ok (\<lambda>_. Inr ()) (gen_CreateUserConversations (map (\<lambda>uc. uc\<lparr>uc_CreatedAt := uc_UpdatedAt uc\<rparr>) ucs))
     (CreateUserConversations_spec ucs)"
proof (rule stmt_okI)
  fix rows r rows'
  assume ok: "pg_ok rows"
    and q: "gen_CreateUserConversations (map (\<lambda>uc. uc\<lparr>uc_CreatedAt := uc_UpdatedAt uc\<rparr>) ucs) rows = (r, rows')"
  let ?new = "map stamp_created ucs"
  have new: "map (\<lambda>uc. uc\<lparr>uc_CreatedAt := uc_UpdatedAt uc\<rparr>) ucs = ?new"
    by (simp add: stamp_created_def)
  have keys: "map ucKey ?new = map ucKey ucs"
    by (simp add: stamp_created_def)
  let ?c = "distinct (map ucKey ucs) \<and> set (map ucKey ucs) \<inter> set (map ucKey (t_user_conversations rows)) = {}"
  have c: "?c \<longleftrightarrow> distinct (map ucKey ucs) \<and> (\<forall>uc \<in> set ucs. uconvs (pg_tabs rows) (ucKey uc) = None)"
    by (simp only: keys_disjoint pg_tabs_simps index_None)
  have q': "(r, rows') = (if ?c then (Inr (int (length ?new)),
        rows\<lparr>t_user_conversations := t_user_conversations rows @ ?new\<rparr>) else (unique_violation, rows))"
    using q unfolding new gen_CreateUserConversations_def keys by simp
  show "pg_ok rows' \<and> (\<exists>s. wrapped (\<lambda>_. Inr ()) r = outcome s \<and>
      CreateUserConversations_spec ucs (pg_tabs rows) s (pg_tabs rows'))"
  proof (cases ?c)
    case True
    have disj: "ucKey ` set (t_user_conversations rows) \<inter> ucKey ` set ?new = {}"
      using True by (auto simp: stamp_created_def)
    have idx: "index ucKey ?new = map_of (map (\<lambda>uc. (ucKey uc, stamp_created uc)) ucs)"
      by (simp add: index_def stamp_created_def comp_def)
    have "distinct (map ucKey (t_user_conversations rows @ ?new))"
      using True pg_okD(5) [OF ok] by (simp add: stamp_created_def comp_def Int_commute)
    moreover have "r = Inr (int (length ?new))"
        "rows' = rows\<lparr>t_user_conversations := t_user_conversations rows @ ?new\<rparr>"
      using q' True by simp_all
    ultimately show ?thesis
      using c True ok by (intro conjI exI [of _ "Inr ()"])
        (simp_all add: CreateUserConversations_spec_def pg_ok_update index_append [OF disj] idx)
  next
    case False
    have "(r, rows') = (unique_violation, rows)"
      using q' by (simp only: False if_False)
    then have "r = unique_violation" "rows' = rows"
      by simp_all
    then show ?thesis
      using c False ok by (intro conjI exI [of _ "Inl store_ErrDuplicate"])
        (auto simp: CreateUserConversations_spec_def)
  qed
qed

section \<open>Methods of two statements\<close>

lemma gen_InsertConversationIfMissing_ok:
  "stmt_ok Inr (gen_InsertConversationIfMissing i ty g n)
     (\<lambda>t r t'. r = Inr () \<and> t' = (if convs t i = None
        then t\<lparr>convs := (convs t)(i \<mapsto> new_conversation i ty g n)\<rparr> else t))"
  by (rule stmt_okI)
    (auto simp: gen_InsertConversationIfMissing_def new_conversation_def index_None index_snoc
      pg_ok_update pg_okD intro: exI [of _ "Inr ()"] split: if_splits)

lemma gen_LockConversation_ok: "stmt_ok Inr (gen_LockConversation i) (GetConversation_spec i)"
  by (rule read_ok, unfold gen_LockConversation_def, rule refl)
    (simp add: pg_ok_def sql_one_index wrapped_found GetConversation_spec_def)

text \<open>One call of an operation that keeps its law, from a given state.\<close>

lemma pg_LockConversation_ok:
  "op_ok (pg_I Rl) pg_T pg_H (=) (pg_LockConversation i ty g n) (LockConversation_spec i ty g n)"
  unfolding op_ok_plain
proof (intro allI impI)
  fix d r d'
  assume d: "pg_I Rl d" and run: "run_state (pg_LockConversation i ty g n) d = (r, d')"
  obtain r1 d1 where 1: "run_state (query Inr (gen_InsertConversationIfMissing i ty g n)) d = (r1, d1)"
    by (cases "run_state (query Inr (gen_InsertConversationIfMissing i ty g n)) d") simp
  note ins = op_ok_plainD [OF query_ok [OF gen_InsertConversationIfMissing_ok] d 1]
  let ?t1 = "if convs (pg_T d) i = None
    then (pg_T d)\<lparr>convs := (convs (pg_T d))(i \<mapsto> new_conversation i ty g n)\<rparr> else pg_T d"
  have spec: "LockConversation_spec i ty g n (pg_T d) (Inr (the (convs ?t1 i))) ?t1"
    by (auto simp: LockConversation_spec_def split: option.splits)
  have t1: "pg_T d1 = pg_T d \<or> pg_T d1 = ?t1"
    using ins(3) by auto
  show "pg_I Rl d' \<and> (pg_H d \<longrightarrow> pg_H d') \<and>
      ((\<exists>s. r = outcome s \<and> LockConversation_spec i ty g n (pg_T d) s (pg_T d')) \<or>
       (\<not> pg_H d \<and> (\<exists>e. r = Inl e \<and> driver_error e) \<and>
          (pg_T d' = pg_T d \<or> (\<exists>s. LockConversation_spec i ty g n (pg_T d) s (pg_T d')))))"
  proof (cases r1)
    case (Inl e)
    then have "r = Inl e" "d' = d1"
      using run 1 by (simp_all add: pg_LockConversation_def)
    moreover have "\<not> pg_H d" "driver_error e"
      using ins(3) Inl by (auto simp: outcome_def split: sum.splits)
    moreover have "pg_T d1 = pg_T d \<or> (\<exists>s. LockConversation_spec i ty g n (pg_T d) s (pg_T d1))"
      using t1 spec by (elim disjE) (simp, force)
    ultimately show ?thesis
      using ins(1) by simp
  next
    case (Inr u)
    then have 2: "run_state (query Inr (gen_LockConversation i)) d1 = (r, d')"
      using run 1 by (simp add: pg_LockConversation_def)
    have T1: "pg_T d1 = ?t1"
      using ins(3) Inr by auto
    note lock = op_ok_plainD [OF query_ok [OF gen_LockConversation_ok] ins(1) 2]
    have T': "pg_T d' = ?t1"
      using lock(3) T1 by (auto simp: GetConversation_spec_def)
    show ?thesis
    proof (cases "\<exists>s. r = outcome s \<and> GetConversation_spec i (pg_T d1) s (pg_T d')")
      case True
      then have "r = outcome (Inr (the (convs ?t1 i)))"
        by (auto simp: GetConversation_spec_def T1 found_def split: option.splits)
      moreover have "LockConversation_spec i ty g n (pg_T d) (Inr (the (convs ?t1 i))) (pg_T d')"
        unfolding T' by (rule spec)
      ultimately show ?thesis
        using lock(1,2) ins(2) by blast
    next
      case False
      then have "\<not> pg_H d1" "\<exists>e. r = Inl e \<and> driver_error e"
        using lock(3) by blast+
      moreover have "LockConversation_spec i ty g n (pg_T d) (Inr (the (convs ?t1 i))) (pg_T d')"
        unfolding T' by (rule spec)
      ultimately show ?thesis
        using lock(1) ins(2) by blast
    qed
  qed
qed

lemma gen_CreateGroup_ok:
  "stmt_ok Inr (gen_CreateGroup g)
     (\<lambda>t r t'. if groups t (group_Id g) = None
        then r = Inr () \<and> t' = t\<lparr>groups := (groups t)(group_Id g \<mapsto> g)\<rparr>
        else r = Inl store_ErrDuplicate \<and> t' = t)"
  by (rule stmt_okI)
    (auto simp: gen_CreateGroup_def index_None index_snoc pg_ok_update pg_okD
      intro: exI [of _ "Inl store_ErrDuplicate"] exI [of _ "Inr ()"] split: if_splits)

lemma gen_AddGroupMembers_ok:
  "stmt_ok (\<lambda>_. Inr ()) (gen_AddGroupMembers ms)
     (\<lambda>t r t'. if distinct (map memKey ms) \<and> (\<forall>m \<in> set ms. members t (memKey m) = None)
        then r = Inr () \<and> t' = t\<lparr>members := members t ++ map_of (map (\<lambda>m. (memKey m, m)) ms)\<rparr>
        else r = Inl store_ErrDuplicate \<and> t' = t)"
proof (rule stmt_okI)
  fix rows r rows'
  assume ok: "pg_ok rows" and q: "gen_AddGroupMembers ms rows = (r, rows')"
  let ?c = "distinct (map memKey ms) \<and> set (map memKey ms) \<inter> set (map memKey (t_group_members rows)) = {}"
  have c: "?c \<longleftrightarrow> distinct (map memKey ms) \<and> (\<forall>m \<in> set ms. members (pg_tabs rows) (memKey m) = None)"
    by (simp only: keys_disjoint pg_tabs_simps index_None)
  show "pg_ok rows' \<and> (\<exists>s. wrapped (\<lambda>_. Inr ()) r = outcome s \<and>
      (if distinct (map memKey ms) \<and> (\<forall>m \<in> set ms. members (pg_tabs rows) (memKey m) = None)
       then s = Inr () \<and> pg_tabs rows' = (pg_tabs rows)\<lparr>members := members (pg_tabs rows) ++
              map_of (map (\<lambda>m. (memKey m, m)) ms)\<rparr>
       else s = Inl store_ErrDuplicate \<and> pg_tabs rows' = pg_tabs rows))"
  proof (cases ?c)
    case True
    have disj: "memKey ` set (t_group_members rows) \<inter> memKey ` set ms = {}"
      using True by auto
    have "r = Inr (int (length ms))" "rows' = rows\<lparr>t_group_members := t_group_members rows @ ms\<rparr>"
      using q True by (simp_all add: gen_AddGroupMembers_def)
    moreover have "distinct (map memKey (t_group_members rows @ ms))"
      using True pg_okD(3) [OF ok] disj by simp
    moreover have "map_of (map (\<lambda>m. (memKey m, m)) ms) = index memKey ms"
      by (simp add: index_def)
    ultimately show ?thesis
      using c True ok by (intro conjI exI [of _ "Inr ()"])
        (simp_all add: pg_ok_update index_append [OF disj])
  next
    case False
    have "(r, rows') = (unique_violation, rows)"
      using q by (simp only: gen_AddGroupMembers_def False if_False)
    then have "r = unique_violation" "rows' = rows"
      by simp_all
    then show ?thesis
      using c False ok by (intro conjI exI [of _ "Inl store_ErrDuplicate"]) auto
  qed
qed

lemma pg_CreateGroup_ok: "op_ok_tx (pg_I Rl) pg_T pg_H (=) (pg_CreateGroup g ms) (CreateGroup_spec g ms)"
  unfolding op_ok_tx_plain
proof (intro allI impI)
  fix d r d'
  assume d: "pg_I Rl d" and run: "run_state (pg_CreateGroup g ms) d = (r, d')"
  let ?new = "groups (pg_T d) (group_Id g) = None"
  let ?t1 = "(pg_T d)\<lparr>groups := (groups (pg_T d))(group_Id g \<mapsto> g)\<rparr>"
  let ?fresh = "distinct (map memKey ms) \<and> (\<forall>m \<in> set ms. members (pg_T d) (memKey m) = None)"
  obtain r1 d1 where 1: "run_state (query Inr (gen_CreateGroup g)) d = (r1, d1)"
    by (cases "run_state (query Inr (gen_CreateGroup g)) d") simp
  note ins = op_ok_plainD [OF query_ok [OF gen_CreateGroup_ok] d 1]
  show "pg_I Rl d' \<and> (pg_H d \<longrightarrow> pg_H d') \<and>
      ((\<exists>s. r = outcome s \<and> CreateGroup_spec g ms (pg_T d) s (pg_T d')) \<or>
       (\<not> pg_H d \<and> (\<exists>e. r = Inl e \<and> driver_error e)))"
  proof (cases r1)
    case (Inl e)
    then have r: "r = Inl e" "d' = d1"
      using run 1 by (simp_all add: pg_CreateGroup_def)
    show ?thesis
    proof (cases "\<not> pg_H d \<and> driver_error e")
      case True
      then show ?thesis
        using r ins(1) by simp
    next
      case False
      then obtain s where s: "r1 = outcome s"
          "if ?new then s = Inr () \<and> pg_T d1 = ?t1 else s = Inl store_ErrDuplicate \<and> pg_T d1 = pg_T d"
        using ins(3) Inl by auto
      have "\<not> ?new"
      proof
        assume new: ?new
        then have "s = Inr ()"
          using s(2) by (simp only: new if_True)
        then show False
          using s(1) Inl by simp
      qed
      moreover from this have "r1 = outcome (Inl store_ErrDuplicate)"
        using s by simp
      ultimately have "r1 = outcome (Inl store_ErrDuplicate)" "\<not> ?new"
        by simp_all
      then have "r = outcome (Inl store_ErrDuplicate) \<and>
          CreateGroup_spec g ms (pg_T d) (Inl store_ErrDuplicate) (pg_T d')"
        using r Inl by (simp add: CreateGroup_spec_def)
      then show ?thesis
        using r ins(1,2) by blast
    qed
  next
    case (Inr u)
    then have 2: "run_state (query (\<lambda>_. Inr ()) (gen_AddGroupMembers ms)) d1 = (r, d')"
      using run 1 by (simp add: pg_CreateGroup_def)
    have T1: "?new" "pg_T d1 = ?t1"
      using ins(3) Inr by (auto split: if_splits)
    note add = op_ok_plainD [OF query_ok [OF gen_AddGroupMembers_ok] ins(1) 2]
    show ?thesis
    proof (cases "\<exists>e. \<not> pg_H d1 \<and> r = Inl e \<and> driver_error e")
      case True
      then show ?thesis
        using add(1) ins(2) by blast
    next
      case False
      then obtain s where s: "r = outcome s"
          "if ?fresh then s = Inr () \<and> pg_T d' = ?t1\<lparr>members := members (pg_T d) ++
               map_of (map (\<lambda>m. (memKey m, m)) ms)\<rparr>
           else s = Inl store_ErrDuplicate \<and> pg_T d' = ?t1"
        using add(3) T1(2) by auto
      have "CreateGroup_spec g ms (pg_T d) s (pg_T d')"
      proof (cases ?fresh)
        case True
        then have "s = Inr ()" "pg_T d' = ?t1\<lparr>members := members (pg_T d) ++
            map_of (map (\<lambda>m. (memKey m, m)) ms)\<rparr>"
          using s(2) by (simp_all only: True if_True)
        then show ?thesis
          using T1(1) True by (simp add: CreateGroup_spec_def)
      next
        case False
        then have "s = Inl store_ErrDuplicate"
          using s(2) by (simp only: False if_False)
        then show ?thesis
          using False by (auto simp: CreateGroup_spec_def)
      qed
      then show ?thesis
        using s(1) add(1,2) ins(2) by blast
    qed
  qed
qed

section \<open>Transactions\<close>

lemma pg_WithTx_ok: "tx_ok (pg_I Rl) pg_T pg_H (=) (fn pg_ops) c (pg_WithTx fn c)"
  unfolding tx_ok_plain
proof (intro allI impI)
  fix d r c' d'
  assume d: "pg_I Rl d"
    and pres: "\<forall>d0. pg_I Rl d0 \<longrightarrow> (pg_H d \<longrightarrow> pg_H d0) \<longrightarrow> pg_T d = pg_T d0 \<longrightarrow>
        pg_I Rl (snd (run_state (fn pg_ops) d0)) \<and>
        (pg_H d0 \<longrightarrow> pg_H (snd (run_state (fn pg_ops) d0)))"
    and run: "run_state (pg_WithTx fn c) d = ((r, c'), d')"
  let ?d1 = "d\<lparr>pg_drv := tl (pg_drv d)\<rparr>"
  have d1: "pg_I Rl ?d1" "pg_T ?d1 = pg_T d" "pg_H d \<longrightarrow> pg_H ?d1"
    using d by (cases "pg_drv d"; simp add: pg_I_def pg_T_def pg_H_def)+
  show "pg_I Rl d' \<and> (pg_H d \<longrightarrow> pg_H d') \<and>
        ((\<not> pg_H d \<and> (\<exists>e. r = Inl e \<and> driver_error e) \<and> c' = c \<and> pg_T d' = pg_T d) \<or>
         (\<exists>d0 r0 d1. pg_I Rl d0 \<and> (pg_H d \<longrightarrow> pg_H d0) \<and> pg_T d0 = pg_T d \<and>
            run_state (fn pg_ops) d0 = ((r0, c'), d1) \<and>
            (case r0 of
               Inl e \<Rightarrow> r = Inl e \<and> pg_T d' = pg_T d
             | Inr _ \<Rightarrow> (r = Inr () \<and> pg_T d' = pg_T d1) \<or>
                 (\<not> pg_H d \<and> (\<exists>e. r = Inl e \<and> driver_error e) \<and>
                    (pg_T d' = pg_T d \<or> pg_T d' = pg_T d1)))))"
  proof (cases "next_outcome d = Answered")
    case False
    then have "\<not> pg_H d"
      using pg_H_next by blast
    moreover obtain e where "run_state (pg_WithTx fn c) d = ((Inl (Errorf ''pgstore: begin'' [Foreign e]), c), ?d1)"
      using False by (cases "next_outcome d")
        (auto simp: pg_WithTx_def pg_Begin_def round_trip_def Let_def)
    ultimately show ?thesis
      using run d1 by auto
  next
    case True
    obtain r0 c0 d2 where fn: "run_state (fn pg_ops) ?d1 = ((r0, c0), d2)"
      by (metis surj_pair)
    have d2: "pg_I Rl d2" "pg_H ?d1 \<longrightarrow> pg_H d2"
      using pres [THEN spec [of _ ?d1]] d1 fn by simp_all
    have body: "run_state (pg_WithTx fn c) d =
        (case r0 of
           Inl e \<Rightarrow> ((Inl e, c0), d2\<lparr>pg_rows := pg_rows d\<rparr>)
         | Inr _ \<Rightarrow>
             (case next_outcome d2 of
                Answered \<Rightarrow> ((Inr (), c0), d2\<lparr>pg_drv := tl (pg_drv d2)\<rparr>)
              | NotSent e \<Rightarrow> ((Inl (Foreign e), c0), d2\<lparr>pg_drv := tl (pg_drv d2), pg_rows := pg_rows d\<rparr>)
              | ReplyLost e \<Rightarrow> ((Inl (Foreign e), c0), d2\<lparr>pg_drv := tl (pg_drv d2)\<rparr>)))"
      using True fn by (simp add: pg_WithTx_def pg_Begin_def round_trip_def Let_def split: sum.splits)
    show ?thesis
    proof (cases r0)
      case (Inl e)
      then have "r = Inl e" "c' = c0" "d' = d2\<lparr>pg_rows := pg_rows d\<rparr>"
        using run body by simp_all
      moreover from this have "pg_I Rl d'" "pg_T d' = pg_T d" "pg_H d2 \<longrightarrow> pg_H d'"
        using d d2(1) by (simp_all add: pg_I_def pg_T_def pg_H_def)
      ultimately show ?thesis
        using d1 d2(2) fn Inl
        by (intro conjI disjI2 exI [of _ ?d1] exI [of _ r0] exI [of _ d2]) auto
    next
      case (Inr u)
      have h2: "pg_H d \<longrightarrow> pg_H d2"
        using d1(3) d2(2) by blast
      have tl: "pg_H d2 \<longrightarrow> pg_H (d2\<lparr>pg_drv := tl (pg_drv d2), pg_rows := x\<rparr>)"
               "pg_H d2 \<longrightarrow> pg_H (d2\<lparr>pg_drv := tl (pg_drv d2)\<rparr>)" for x
        using pg_H_tl [of d2] by (cases "pg_drv d2"; simp add: pg_H_def)+
      have c': "c' = c0"
        using run body Inr by (auto split: drv_outcome.splits)
      have "pg_I Rl d' \<and> (pg_H d \<longrightarrow> pg_H d') \<and>
          ((r = Inr () \<and> pg_T d' = pg_T d2) \<or>
           (\<not> pg_H d \<and> (\<exists>e. r = Inl e \<and> driver_error e) \<and> (pg_T d' = pg_T d \<or> pg_T d' = pg_T d2)))"
      proof (cases "next_outcome d2")
        case Answered
        then show ?thesis
          using run body Inr h2 tl d2(1) by (auto simp: pg_I_def pg_T_def)
      next
        case (NotSent e)
        moreover from this have "\<not> pg_H d"
          using h2 pg_H_next [of d2] by auto
        ultimately show ?thesis
          using run body Inr d d2(1) by (auto simp: pg_I_def pg_T_def)
      next
        case (ReplyLost e)
        moreover from this have "\<not> pg_H d"
          using h2 pg_H_next [of d2] by auto
        ultimately show ?thesis
          using run body Inr d2(1) by (auto simp: pg_I_def pg_T_def)
      qed
      then show ?thesis
        using d1 fn Inr c' by (intro conjI disjI2 exI [of _ ?d1] exI [of _ r0] exI [of _ d2]) auto
    qed
  qed
qed

section \<open>The interpretation\<close>

lemmas pg_method_defs =
  pg_GetUser_def pg_GetUsers_def pg_GetUserByUsername_def pg_CreateUser_def pg_UpsertUser_def
  pg_UpdateUserProfile_def pg_GetGroup_def pg_AddGroupMember_def pg_RemoveGroupMember_def
  pg_GetGroupMember_def pg_ListGroupMembers_def pg_CountGroupMembers_def pg_ListUserGroupIds_def
  pg_GetConversation_def pg_GetUserConversation_def pg_GetUserConversationRow_def
  pg_UpsertUserConversation_def pg_SetUserConversationMaxSeq_def pg_DeleteUserConversation_def
  pg_SetUserConversationOpt_def pg_GetMessageByClientId_def pg_InsertMessage_def
  pg_SetConversationMaxSeq_def pg_ListMessages_def pg_TouchUserConversation_def
  pg_TouchConversationMembers_def pg_AdvanceReadSeq_def pg_ListUserConversations_def
  pg_UpsertOnlineConn_def pg_DeleteOnlineConn_def pg_DeleteOnlineConnsByNode_def

lemmas pg_query_oks =
  gen_GetUser_ok gen_GetUsers_ok gen_GetUserByUsername_ok gen_CreateUser_ok gen_UpsertUser_ok
  gen_UpdateUserProfile_ok gen_GetGroup_ok gen_AddGroupMember_ok gen_RemoveGroupMember_ok
  gen_GetGroupMember_ok gen_ListGroupMembers_ok gen_CountGroupMembers_ok gen_ListUserGroupIds_ok
  gen_GetConversation_ok gen_GetUserConversation_ok gen_GetUserConversationRow_ok
  gen_UpsertUserConversation_ok gen_SetUserConversationMaxSeq_ok gen_DeleteUserConversation_ok
  gen_SetUserConversationOpt_ok gen_GetMessageByClientId_ok gen_InsertMessage_ok
  gen_SetConversationMaxSeq_ok gen_ListMessages_ok gen_TouchUserConversation_ok
  gen_TouchConversationMembers_ok gen_AdvanceReadSeq_ok gen_ListUserConversations_ok
  gen_UpsertOnlineConn_ok gen_DeleteOnlineConn_ok gen_DeleteOnlineConnsByNode_ok

text \<open>The methods that answer an empty argument without a statement.\<close>

lemma pg_VisibleOwners_ok:
  "op_ok (pg_I Rl) pg_T pg_H (=) (pg_VisibleOwners i ows s) (VisibleOwners_spec i ows s)"
  unfolding pg_VisibleOwners_def
  by (cases "ows = []") (auto intro!: return_ok query_ok gen_VisibleOwners_ok simp: VisibleOwners_spec_def)

lemma pg_MutedOwners_ok: "op_ok (pg_I Rl) pg_T pg_H (=) (pg_MutedOwners i ows) (MutedOwners_spec i ows)"
  unfolding pg_MutedOwners_def
  by (cases "ows = []") (auto intro!: return_ok query_ok gen_MutedOwners_ok simp: MutedOwners_spec_def)

lemma pg_CreateUserConversations_ok:
  "op_ok (pg_I Rl) pg_T pg_H (=) (pg_CreateUserConversations ucs) (CreateUserConversations_spec ucs)"
  unfolding pg_CreateUserConversations_def
  by (cases "ucs = []") (auto intro!: return_ok query_ok gen_CreateUserConversations_ok
      simp: CreateUserConversations_spec_def)

lemma pg_GetMessages_ok: "op_ok (pg_I Rl) pg_T pg_H (=) (pg_GetMessages ks) (GetMessages_spec ks)"
  unfolding pg_GetMessages_def
  by (cases "ks = []") (auto intro!: return_ok query_ok gen_GetMessages_ok simp: GetMessages_spec_def)

lemma pg_ListOnlineConns_ok:
  "op_ok (pg_I Rl) pg_T pg_H (=) (pg_ListOnlineConns us n) (ListOnlineConns_spec us n)"
  unfolding pg_ListOnlineConns_def
  by (cases "us = []") (auto intro!: return_ok query_ok gen_ListOnlineConns_ok simp: ListOnlineConns_spec_def)

lemma renew_conn_Nil [simp]: "renew_conn nd [] n = (\<lambda>c. c)"
  by (simp add: renew_conn_def fun_eq_iff)

lemma pg_RenewOnlineConns_ok:
  "op_ok (pg_I Rl) pg_T pg_H (=) (pg_RenewOnlineConns nd ids n) (RenewOnlineConns_spec nd ids n)"
  unfolding pg_RenewOnlineConns_def
  by (cases "ids = []") (auto intro!: return_ok query_ok gen_RenewOnlineConns_ok
      simp: RenewOnlineConns_spec_def option.map_ident)

text \<open>The methods inside a transaction.\<close>

lemma pg_ops_snapshot: "store_snapshot pg_ops (pg_I Rl) pg_T pg_H"
proof (unfold_locales, unfold pg_ops_def StoreOps.simps)
  fix d assume "pg_I Rl d"
  show "keyed (pg_T d)"
    by (simp add: pg_T_def keyed_pg_tabs)
qed (unfold pg_method_defs,
    (rule pg_CreateGroup_ok pg_LockConversation_ok pg_VisibleOwners_ok pg_MutedOwners_ok
      pg_CreateUserConversations_ok pg_GetMessages_ok pg_ListOnlineConns_ok pg_RenewOnlineConns_ok
      query_ok pg_query_oks | assumption)+)

text \<open>Interference in front of a method.\<close>

lemma run_outside: "run_state (outside m) d = run_state m (snd (run_state interfere d))"
  by (simp add: outside_def interfere_def)

lemma interfere_ok:
  assumes "pg_I Rl d" "run_state interfere d = ((), d1)"
  shows "pg_I Rl d1" "Rl\<^sup>=\<^sup>= (pg_T d) (pg_T d1)" "pg_H d1 = pg_H d"
  using assms by (auto simp: interfere_def pg_I_def pg_T_def pg_H_def env_ok_def split: list.splits)

lemma outside_op:
  assumes "op_ok (pg_I Rl) pg_T pg_H (=) m R"
  shows "op_ok (pg_I Rl) pg_T pg_H (Rl\<^sup>=\<^sup>=) (outside m) R"
  unfolding op_ok_def
proof (intro allI impI)
  fix d r d'
  assume d: "pg_I Rl d" and run: "run_state (outside m) d = (r, d')"
  obtain d1 where d1: "run_state interfere d = ((), d1)"
    by (cases "run_state interfere d") simp
  note i = interfere_ok [OF d d1]
  have "run_state m d1 = (r, d')"
    using run d1 by (simp add: run_outside)
  note law = op_ok_plainD [OF assms i(1) this]
  show "pg_I Rl d' \<and> (pg_H d \<longrightarrow> pg_H d') \<and>
    (\<exists>t. Rl\<^sup>=\<^sup>= (pg_T d) t \<and>
      ((\<exists>s. r = outcome s \<and> R t s (pg_T d')) \<or>
       (\<not> pg_H d \<and> (\<exists>e. r = Inl e \<and> driver_error e) \<and> (pg_T d' = t \<or> (\<exists>s. R t s (pg_T d'))))))"
    using law i(2,3) by blast
qed

lemma outside_op_tx:
  assumes "op_ok_tx (pg_I Rl) pg_T pg_H (=) m R"
  shows "op_ok_tx (pg_I Rl) pg_T pg_H (Rl\<^sup>=\<^sup>=) (outside m) R"
  unfolding op_ok_tx_def
proof (intro allI impI)
  fix d r d'
  assume d: "pg_I Rl d" and run: "run_state (outside m) d = (r, d')"
  obtain d1 where d1: "run_state interfere d = ((), d1)"
    by (cases "run_state interfere d") simp
  note i = interfere_ok [OF d d1]
  have "run_state m d1 = (r, d')"
    using run d1 by (simp add: run_outside)
  note law = assms [unfolded op_ok_tx_plain, THEN spec, THEN spec, THEN spec, THEN mp, THEN mp, OF i(1) this]
  show "pg_I Rl d' \<and> (pg_H d \<longrightarrow> pg_H d') \<and>
    (\<exists>t. Rl\<^sup>=\<^sup>= (pg_T d) t \<and>
      ((\<exists>s. r = outcome s \<and> R t s (pg_T d')) \<or> (\<not> pg_H d \<and> (\<exists>e. r = Inl e \<and> driver_error e))))"
    using law i(2,3) by blast
qed

lemma outside_WithTx:
  "tx_ok (pg_I Rl) pg_T pg_H (Rl\<^sup>=\<^sup>=) (fn pg_ops) c (outside (pg_WithTx fn c))"
  unfolding tx_ok_def
proof (intro allI impI)
  fix d r c' d'
  assume d: "pg_I Rl d" and run: "run_state (outside (pg_WithTx fn c)) d = ((r, c'), d')"
    and pres: "\<forall>d0. pg_I Rl d0 \<longrightarrow> (pg_H d \<longrightarrow> pg_H d0) \<longrightarrow> Rl\<^sup>=\<^sup>= (pg_T d) (pg_T d0) \<longrightarrow>
      pg_I Rl (snd (run_state (fn pg_ops) d0)) \<and> (pg_H d0 \<longrightarrow> pg_H (snd (run_state (fn pg_ops) d0)))"
  obtain d1 where d1: "run_state interfere d = ((), d1)"
    by (cases "run_state interfere d") simp
  note i = interfere_ok [OF d d1]
  have run1: "run_state (pg_WithTx fn c) d1 = ((r, c'), d')"
    using run d1 by (simp add: run_outside)
  have pres1: "\<forall>d0. pg_I Rl d0 \<longrightarrow> (pg_H d1 \<longrightarrow> pg_H d0) \<longrightarrow> pg_T d1 = pg_T d0 \<longrightarrow>
      pg_I Rl (snd (run_state (fn pg_ops) d0)) \<and> (pg_H d0 \<longrightarrow> pg_H (snd (run_state (fn pg_ops) d0)))"
    using pres i(2,3) by metis
  note law = pg_WithTx_ok [where Rl = Rl and fn = fn and c = c, unfolded tx_ok_plain, THEN spec, THEN spec,
      THEN spec, THEN spec, THEN mp, THEN mp, THEN mp, OF i(1) pres1 run1]
  show "pg_I Rl d' \<and> (pg_H d \<longrightarrow> pg_H d') \<and>
    (\<exists>t. Rl\<^sup>=\<^sup>= (pg_T d) t \<and>
      ((\<not> pg_H d \<and> (\<exists>e. r = Inl e \<and> driver_error e) \<and> c' = c \<and> pg_T d' = t) \<or>
       (\<exists>d0 r0 d1. pg_I Rl d0 \<and> (pg_H d \<longrightarrow> pg_H d0) \<and> pg_T d0 = t \<and>
          run_state (fn pg_ops) d0 = ((r0, c'), d1) \<and>
          (case r0 of
             Inl e \<Rightarrow> r = Inl e \<and> pg_T d' = t
           | Inr _ \<Rightarrow> (r = Inr () \<and> pg_T d' = pg_T d1) \<or>
               (\<not> pg_H d \<and> (\<exists>e. r = Inl e \<and> driver_error e) \<and> (pg_T d' = t \<or> pg_T d' = pg_T d1))))))"
    using law [folded i(3)] i(2) unfolding i(3) by (intro conjI exI [of _ "pg_T d1"]) simp_all
qed

interpretation pgs: store_tx "pg_store :: (Pg, 'c) StoreTx" pg_ops "pg_I Rl" pg_T pg_H "Rl\<^sup>=\<^sup>=" for Rl
proof (rule store_tx.intro)
  show "store_snapshot pg_ops (pg_I Rl) pg_T pg_H"
    by (rule pg_ops_snapshot)
  show "store_tx_axioms (pg_store :: (Pg, 'c) StoreTx) pg_ops (pg_I Rl) pg_T pg_H Rl\<^sup>=\<^sup>="
    unfolding pg_store_def StoreOps.simps StoreTx.simps store_tx_axioms_def by (intro allI outside_WithTx)
  show "store_statements (pg_store :: (Pg, 'c) StoreTx) (pg_I Rl) pg_T pg_H Rl\<^sup>=\<^sup>="
  proof (unfold_locales, unfold pg_store_def StoreOps.simps)
    fix d assume "pg_I Rl d"
    show "keyed (pg_T d)"
      by (simp add: pg_T_def keyed_pg_tabs)
  qed (unfold pg_method_defs,
      (rule outside_op outside_op_tx,
       (rule pg_CreateGroup_ok pg_LockConversation_ok pg_VisibleOwners_ok pg_MutedOwners_ok
      pg_CreateUserConversations_ok pg_GetMessages_ok pg_ListOnlineConns_ok pg_RenewOnlineConns_ok
      query_ok pg_query_oks | assumption)+)+)
qed

end
