(* ===== verification/NexoPg.thy ===== *)
theory NexoPg
  imports ConversationProofs UserProofs OnlineStore PgContract
begin

text \<open>
  The services on the PostgreSQL store. The store keeps the contract with any set of other
  requests whose commits are steps of the system, so what is proved of the services holds of
  their runs on it.
\<close>

text \<open>What the other requests commit between two statements of a request: any run of steps, or
  nothing at all when the request runs alone.\<close>

definition others :: "int \<Rightarrow> (Tables \<Rightarrow> Tables \<Rightarrow> bool) \<Rightarrow> bool" where
  "others mm Rl \<longleftrightarrow> Rl \<le> nexo_rely mm \<and> reflp Rl \<and> transp Rl"

lemma others_rely [simp]: "others mm (nexo_rely mm)"
  by (auto simp: others_def reflp_def transp_def intro: nexo_rely_trans)

lemma others_none [simp]: "others mm (=)"
  by (auto simp: others_def reflp_def transp_def)

lemma pg_nexo_store:
  assumes "others mm Rl"
  shows "nexo_store (pg_store :: (Pg, 'c) StoreTx) pg_ops (pg_I Rl) pg_T pg_H Rl mm"
proof -
  have Rl: "Rl\<^sup>=\<^sup>= = Rl"
    using assms by (auto simp: others_def reflp_def fun_eq_iff)
  have "store_tx (pg_store :: (Pg, 'c) StoreTx) pg_ops (pg_I Rl) pg_T pg_H Rl"
    using pgs.store_tx_axioms [of Rl] unfolding Rl .
  moreover have "nexo_store_axioms Rl mm"
    using assms by unfold_locales (auto simp: others_def reflp_def transp_def)
  ultimately show ?thesis
    by (rule nexo_store.intro)
qed

interpretation pgn: nexo_store "pg_store :: (Pg, 'c) StoreTx" pg_ops "pg_I (nexo_rely mm)" pg_T pg_H "nexo_rely mm" mm for mm
  by (rule pg_nexo_store) simp

interpretation pgm: msg_store pg_store pg_ops "pg_I (nexo_rely mm)" pg_T pg_H "nexo_rely mm" mm for mm
  by (intro msg_store.intro pg_nexo_store) simp

interpretation pgg: group_store pg_store pg_ops "pg_I (nexo_rely mm)" pg_T pg_H "nexo_rely mm" mm for mm
  by (intro group_store.intro pg_nexo_store) simp

text \<open>The same with no other request.\<close>

interpretation pgm1: msg_store pg_store pg_ops "pg_I (=)" pg_T pg_H "(=)" mm for mm
  by (intro msg_store.intro pg_nexo_store) simp

interpretation pgg1: group_store pg_store pg_ops "pg_I (=)" pg_T pg_H "(=)" mm for mm
  by (intro group_store.intro pg_nexo_store) simp

text \<open>A state of the store the services run in: the schema's constraints and the system's
  invariant hold, and the other requests keep both.\<close>

definition pg_ready :: "int \<Rightarrow> (Tables \<Rightarrow> Tables \<Rightarrow> bool) \<Rightarrow> Pg \<Rightarrow> bool" where
  "pg_ready mm Rl d \<longleftrightarrow> others mm Rl \<and> pg_I Rl d \<and> nexo_ok mm (pg_T d)"

lemma pg_readyD:
  assumes "pg_ready mm Rl d"
  shows "others mm Rl" "pg_I Rl d" "nexo_ok mm (pg_T d)" "keyed (pg_T d)" "nexo_inv mm (pg_T d)"
  using assms by (simp_all add: pg_ready_def nexo_ok_def nexo_inv_def)

lemma Send_pg:
  assumes "pg_ready mm Rl d" "s_store s = pg_store"
    and "run_state (Send s inp now uuid) (d, w) = (r, d', w')"
  shows "Send_outcome Rl (pg_H d) s inp now uuid (pg_T d) w r (pg_T d') w'" "pg_I Rl d'"
proof -
  note w = wp2D [OF msg_store.wp2_Send [OF msg_store.intro [OF pg_nexo_store [OF pg_readyD(1) [OF assms(1)]]] assms(2) pg_readyD(3) [OF assms(1)]] pg_readyD(2) [OF assms(1)] _ refl assms(3)]
  show "Send_outcome Rl (pg_H d) s inp now uuid (pg_T d) w r (pg_T d') w'" "pg_I Rl d'"
    by (rule w; assumption)+
qed

lemma Join_pg:
  assumes "pg_ready mm Rl d" "g_store s = pg_store" "g_maxMembers s = mm"
    and "run_state (Join s gid u now) (d, w) = (r, d', w')"
  shows "Join_outcome Rl mm (pg_H d) gid u now (pg_T d) w r (pg_T d') w'" "pg_I Rl d'"
proof -
  note w = wp2D [OF group_store.wp2_Join [OF group_store.intro [OF pg_nexo_store [OF pg_readyD(1) [OF assms(1)]]] assms(2,3) pg_readyD(3) [OF assms(1)]] pg_readyD(2) [OF assms(1)] _ refl assms(4)]
  show "Join_outcome Rl mm (pg_H d) gid u now (pg_T d) w r (pg_T d') w'" "pg_I Rl d'"
    by (rule w; assumption)+
qed

lemma Quit_pg:
  assumes "pg_ready mm Rl d" "g_store s = pg_store"
    and "run_state (Quit s gid u now) (d, w) = (r, d', w')"
  shows "remove_outcome Rl (pg_H d) gid u u now (pg_T d) w r (pg_T d') w'" "pg_I Rl d'"
proof -
  note w = wp2D [OF group_store.wp2_Quit [OF group_store.intro [OF pg_nexo_store [OF pg_readyD(1) [OF assms(1)]]] assms(2) pg_readyD(3) [OF assms(1)]] pg_readyD(2) [OF assms(1)] _ refl assms(3)]
  show "remove_outcome Rl (pg_H d) gid u u now (pg_T d) w r (pg_T d') w'" "pg_I Rl d'"
    by (rule w; assumption)+
qed

lemma Kick_pg:
  assumes "pg_ready mm Rl d" "g_store s = pg_store"
    and "run_state (Kick_member s gid op u now) (d, w) = (r, d', w')"
  shows "remove_outcome Rl (pg_H d) gid op u now (pg_T d) w r (pg_T d') w'" "pg_I Rl d'"
proof -
  note w = wp2D [OF group_store.wp2_Kick [OF group_store.intro [OF pg_nexo_store [OF pg_readyD(1) [OF assms(1)]]] assms(2) pg_readyD(3) [OF assms(1)]] pg_readyD(2) [OF assms(1)] _ refl assms(3)]
  show "remove_outcome Rl (pg_H d) gid op u now (pg_T d) w r (pg_T d') w'" "pg_I Rl d'"
    by (rule w; assumption)+
qed

lemma Create_pg:
  assumes "pg_ready mm Rl d" "g_store s = pg_store" "g_maxMembers s = mm"
    and "run_state (Create s ow inp now rnd) (d, w) = (r, d', w')"
  shows "Create_outcome Rl mm (pg_H d) ow inp now rnd (pg_T d) w r (pg_T d') w'" "pg_I Rl d'"
proof -
  note w = wp2D [OF group_store.wp2_Create [OF group_store.intro [OF pg_nexo_store [OF pg_readyD(1) [OF assms(1)]]] assms(2,3) pg_readyD(3) [OF assms(1)]] pg_readyD(2) [OF assms(1)] _ refl assms(4)]
  show "Create_outcome Rl mm (pg_H d) ow inp now rnd (pg_T d) w r (pg_T d') w'" "pg_I Rl d'"
    by (rule w; assumption)+
qed

lemma MarkRead_pg:
  assumes "pg_ready mm Rl d"
    and "run_state (MarkRead (pg_store :: (Pg, 'c) StoreTx) u conn i readSeq) (d, w) = (r, d', w')"
  shows "MarkRead_outcome Rl (pg_H d) u conn i readSeq (pg_T d) w r (pg_T d') w'" "pg_I Rl d'"
proof -
  note w = wp2D [OF nexo_store.wp2_MarkRead [OF pg_nexo_store [OF pg_readyD(1) [OF assms(1)]] pg_readyD(3) [OF assms(1)]] pg_readyD(2) [OF assms(1)] _ refl assms(2)]
  show "MarkRead_outcome Rl (pg_H d) u conn i readSeq (pg_T d) w r (pg_T d') w'" "pg_I Rl d'"
    by (rule w; assumption)+
qed

lemma SetOpt_pg:
  assumes "pg_ready mm Rl d"
    and "run_state (SetOpt (pg_store :: (Pg, 'c) StoreTx) u i inp) d = (r, d')"
  shows "SetOpt_outcome Rl (pg_H d) u i inp (pg_T d) r (pg_T d')" "pg_I Rl d'"
proof -
  note w = wpD [OF nexo_store.wp_SetOpt [OF pg_nexo_store [OF pg_readyD(1) [OF assms(1)]]] pg_readyD(2) [OF assms(1)] _ refl assms(2)]
  show "SetOpt_outcome Rl (pg_H d) u i inp (pg_T d) r (pg_T d')" "pg_I Rl d'"
    by (rule w; assumption)+
qed

lemma Pull_pg:
  assumes "pg_ready mm Rl d" "pageMax < 2 ^ 31 - 1"
    and "run_state (Pull (pg_store :: (Pg, 'c) StoreTx) inp pageMax) d = (r, d')"
  shows "Pull_outcome Rl (pg_H d) inp pageMax (pg_T d) r (pg_T d')" "pg_I Rl d'"
proof -
  note w = wpD [OF nexo_store.wp_Pull [OF pg_nexo_store [OF pg_readyD(1) [OF assms(1)]] pg_readyD(3) [OF assms(1)] assms(2)] pg_readyD(2) [OF assms(1)] _ refl assms(3)]
  show "Pull_outcome Rl (pg_H d) inp pageMax (pg_T d) r (pg_T d')" "pg_I Rl d'"
    by (rule w; assumption)+
qed

section \<open>Each call commits at most one step\<close>

text \<open>The tables after a call: the other requests moved them, and the call itself by at most one
  step, which took effect at one moment among theirs.\<close>

definition one_step :: "int \<Rightarrow> (Tables \<Rightarrow> Tables \<Rightarrow> bool) \<Rightarrow> Tables \<Rightarrow> Tables \<Rightarrow> bool" where
  "one_step mm Rl t t' \<longleftrightarrow> (\<exists>t1 t2. Rl t t1 \<and> (t2 = t1 \<or> nexo_step mm t1 t2) \<and> Rl t2 t')"

lemma othersD:
  assumes "others mm Rl"
  shows "Rl t t' \<Longrightarrow> nexo_rely mm t t'" "Rl t t" "Rl t t' \<Longrightarrow> Rl t' t'' \<Longrightarrow> Rl t t''"
  using assms by (auto simp: others_def reflp_def transp_def)

lemma one_stepI:
  assumes "others mm Rl"
  shows "Rl t t' \<Longrightarrow> one_step mm Rl t t'" "Rl t t1 \<Longrightarrow> nexo_step mm t1 t' \<Longrightarrow> one_step mm Rl t t'"
  using othersD(2) [OF assms] by (auto simp: one_step_def)

lemma one_step_steps:
  assumes "others mm Rl" "one_step mm Rl t t'"
  shows "(nexo_step mm)\<^sup>*\<^sup>* t t'"
proof -
  obtain t1 t2 where t: "Rl t t1" "t2 = t1 \<or> nexo_step mm t1 t2" "Rl t2 t'"
    using assms(2) by (auto simp: one_step_def)
  have "(nexo_step mm)\<^sup>*\<^sup>* t t1" "(nexo_step mm)\<^sup>*\<^sup>* t1 t2" "(nexo_step mm)\<^sup>*\<^sup>* t2 t'"
    using t nexo_rely_steps [OF othersD(1) [OF assms(1)]] by auto
  then show ?thesis
    by (meson rtranclp_trans)
qed

lemma one_step_inv: "others mm Rl \<Longrightarrow> one_step mm Rl t t' \<Longrightarrow> nexo_inv mm t \<Longrightarrow> nexo_inv mm t'"
  using one_step_steps nexo_steps_inv by blast

lemma can_commit_step:
  assumes "nexo_ok mm t1" "can_commit inp now uuid t1"
  shows "nexo_step mm t1 (committed_tables inp now uuid t1)"
  using assms roomy_locked by (intro nexo_step.send) (auto simp: can_commit_def nexo_ok_def)

lemma can_join_step:
  assumes "nexo_ok mm t1" "can_join mm gid u t1"
  shows "nexo_step mm t1 (join_effect gid u now t1)"
  using assms roomy_locked by (intro nexo_step.join) (auto simp: can_join_def nexo_ok_def)

lemma can_remove_step:
  assumes "can_remove gid op u t1"
  shows "nexo_step mm t1 (remove_effect gid u now t1)"
proof -
  obtain g where "groups t1 gid = Some g" "members t1 (gid, u) \<noteq> None" "u \<noteq> group_OwnerId g"
    using assms by (auto simp: can_remove_def)
  then show ?thesis
    by (rule nexo_step.remove)
qed

lemma sees_step:
  assumes "sees_up_to t1 u i s"
  shows "nexo_step mm t1 (t1\<lparr>uconvs := advance_read u i s (uconvs t1)\<rparr>)"
  using assms by (auto simp: sees_up_to_def intro: nexo_step.read)

lemma create_step:
  assumes "groups t1 (shortId rnd) = None" "int (length (create_ids ow inp)) \<le> mm"
  shows "nexo_step mm t1 (create_effect (new_group (shortId rnd) ow inp now) (create_ids ow inp) now t1)"
  using assms by (intro nexo_step.create) (simp_all add: new_group_def create_ids_def)

lemma opt_step:
  assumes "uconvs t1 (u, i) = Some uc"
  shows "nexo_step mm t1 (t1\<lparr>uconvs := (uconvs t1)((u, i) \<mapsto> with_opt inp uc)\<rparr>)"
  using assms unfolding with_opt_def by (rule nexo_step.opt)

lemma user_step:
  assumes "keyed t1"
  shows "nexo_step mm t1 (with_user u t1)"
  using keyedD(1) [OF assms] unfolding with_user_def by (intro nexo_step.users) auto

lemma rely_keyed: "others mm Rl \<Longrightarrow> nexo_ok mm t \<Longrightarrow> Rl t t1 \<Longrightarrow> keyed t1"
  using nexo_rely_ok othersD(1) by (fastforce simp: nexo_ok_def nexo_inv_def)

lemma Send_one_step:
  assumes "others mm Rl" "nexo_ok mm t" "Send_outcome Rl b s inp now uuid t w r t' w'"
  shows "one_step mm Rl t t'"
proof -
  have step: "nexo_step mm t1 (committed_tables inp now uuid t1)" if "Rl t t1" "can_commit inp now uuid t1" for t1
    using can_commit_step [OF nexo_rely_ok [OF othersD(1) [OF assms(1) that(1)] assms(2)] that(2)] .
  show ?thesis
    using assms(3) step othersD(2,3) [OF assms(1)]
    by (cases rule: Send_outcome.cases) (blast intro: one_stepI [OF assms(1)])+
qed

lemma Join_one_step:
  assumes "others mm Rl" "nexo_ok mm t" "Join_outcome Rl mm b gid u now t w r t' w'"
  shows "one_step mm Rl t t'"
proof -
  have step: "nexo_step mm t1 (join_effect gid u now t1)" if "Rl t t1" "can_join mm gid u t1" for t1
    using can_join_step [OF nexo_rely_ok [OF othersD(1) [OF assms(1) that(1)] assms(2)] that(2)] .
  show ?thesis
    using assms(3) step by (cases rule: Join_outcome.cases) (blast intro: one_stepI [OF assms(1)])+
qed

lemma remove_one_step:
  assumes "others mm Rl" "remove_outcome Rl b gid op u now t w r t' w'"
  shows "one_step mm Rl t t'"
  using assms(2) by (cases rule: remove_outcome.cases) (blast intro: one_stepI [OF assms(1)] can_remove_step)+

lemma Create_one_step:
  assumes "others mm Rl" "Create_outcome Rl mm b ow inp now rnd t w r t' w'"
  shows "one_step mm Rl t t'"
  using assms(2) othersD(2) [OF assms(1)]
  by (cases rule: Create_outcome.cases) (blast intro: one_stepI [OF assms(1)] create_step)+

lemma MarkRead_one_step:
  assumes "others mm Rl" "MarkRead_outcome Rl b u conn i readSeq t w r t' w'"
  shows "one_step mm Rl t t'"
  using assms(2)
proof (cases rule: MarkRead_outcome.cases)
  case (mr_advanced t1 row s t2)
  then show ?thesis
    using othersD(3) [OF assms(1)] sees_step by (blast intro: one_stepI [OF assms(1)])
qed (use othersD(2) [OF assms(1)] in \<open>blast intro: one_stepI [OF assms(1)] sees_step\<close>)+

lemma SetOpt_one_step:
  assumes "others mm Rl" "SetOpt_outcome Rl b u i inp t r t'"
  shows "one_step mm Rl t t'"
  using assms(2) othersD(2) [OF assms(1)]
  by (cases rule: SetOpt_outcome.cases) (blast intro: one_stepI [OF assms(1)] opt_step)+

lemma Pull_one_step:
  assumes "others mm Rl" "Pull_outcome Rl b inp pageMax t r t'"
  shows "one_step mm Rl t t'"
  using assms(2) othersD(2,3) [OF assms(1)]
  by (cases rule: Pull_outcome.cases) (blast intro: one_stepI [OF assms(1)])+

lemma Register_one_step:
  assumes "others mm Rl" "nexo_ok mm t" "Register_outcome Rl b n bc username password nickname salt uuid now t r t'"
  shows "one_step mm Rl t t'"
  using assms(3)
proof (cases rule: Register_outcome.cases)
  case (registered t1 h t2 u)
  then have "Rl t t2"
    using othersD(3) [OF assms(1)] by blast
  then show ?thesis
    using registered(2) user_step [OF rely_keyed [OF assms(1,2)]] by (auto intro: one_stepI [OF assms(1)])
next
  case (rg_failed e t1)
  then show ?thesis
    using user_step [OF rely_keyed [OF assms(1,2)]] by (auto intro: one_stepI [OF assms(1)])
qed (use othersD(2) [OF assms(1)] in \<open>auto intro: one_stepI [OF assms(1)]\<close>)

lemma Write_one_step:
  assumes "others mm Rl" "nexo_ok mm t" "Write_outcome Rl b i f t r t'"
  shows "one_step mm Rl t t'"
  using assms(3)
proof (cases rule: Write_outcome.cases)
  case (written t1 u v)
  then show ?thesis
    using user_step [OF rely_keyed [OF assms(1,2)]] unfolding one_step_def by blast
next
  case (wr_failed t1 t2 e)
  then show ?thesis
    using user_step [OF rely_keyed [OF assms(1,2)]] unfolding one_step_def by blast
qed (use othersD(2) [OF assms(1)] in \<open>auto intro: one_stepI [OF assms(1)]\<close>)

end
