(* ===== verification/NexoCalls.thy ===== *)
theory NexoCalls
  imports NexoPg
begin

text \<open>
  The server as a sequence of service calls on the PostgreSQL store, each with the commits of the
  other requests in its \<^verbatim>\<open>pg_env\<close>: \<^verbatim>\<open>nexo_call\<close> is one call of any service operation with any
  arguments, \<^verbatim>\<open>history\<close> a sequence of them.
\<close>

section \<open>The remaining operations\<close>

lemma Register_pg:
  assumes "pg_ready mm Rl d"
    and "run_state (Register (pg_store :: (Pg, 'c) StoreTx) n bc username password nickname salt uuid now) d = (r, d')"
  shows "Register_outcome Rl (pg_H d) n bc username password nickname salt uuid now (pg_T d) r (pg_T d')" "pg_I Rl d'"
proof -
  note w = wpD [OF nexo_store.wp_Register [OF pg_nexo_store [OF pg_readyD(1) [OF assms(1)]]] pg_readyD(2) [OF assms(1)] _ refl assms(2)]
  show "Register_outcome Rl (pg_H d) n bc username password nickname salt uuid now (pg_T d) r (pg_T d')" "pg_I Rl d'"
    by (rule w; assumption)+
qed

lemma Update_pg:
  assumes "pg_ready mm Rl d" "run_state (Update (pg_store :: (Pg, 'c) StoreTx) i inp now) d = (r, d')"
  shows "Write_outcome Rl (pg_H d) i (updated_user i inp now) (pg_T d) r (pg_T d')" "pg_I Rl d'"
proof -
  note w = wpD [OF nexo_store.wp_Update [OF pg_nexo_store [OF pg_readyD(1) [OF assms(1)]] pg_readyD(3) [OF assms(1)]]
    pg_readyD(2) [OF assms(1)] _ refl assms(2)]
  show "Write_outcome Rl (pg_H d) i (updated_user i inp now) (pg_T d) r (pg_T d')" "pg_I Rl d'"
    by (rule w; assumption)+
qed

lemma Upsert_pg:
  assumes "pg_ready mm Rl d" "run_state (Upsert (pg_store :: (Pg, 'c) StoreTx) i nick av ex now) d = (r, d')"
  shows "Write_outcome Rl (pg_H d) i (upserted_user i nick av ex now) (pg_T d) r (pg_T d')" "pg_I Rl d'"
proof -
  note w = wpD [OF nexo_store.wp_Upsert [OF pg_nexo_store [OF pg_readyD(1) [OF assms(1)]] pg_readyD(3) [OF assms(1)]]
    pg_readyD(2) [OF assms(1)] _ refl assms(2)]
  show "Write_outcome Rl (pg_H d) i (upserted_user i nick av ex now) (pg_T d) r (pg_T d')" "pg_I Rl d'"
    by (rule w; assumption)+
qed

text \<open>Changes of the connection registry.\<close>

lemma conns_step: "(\<And>k c. cs k = Some c \<Longrightarrow> oc_ConnId c = k) \<Longrightarrow> nexo_step mm t (t\<lparr>conns := cs\<rparr>)"
  by (intro nexo_step.conns) blast

context nexo_store
begin

text \<open>A statement that only rewrites the registry, and keeps its keys.\<close>

lemma wp_registry:
  assumes "op_ok I T H Rl m R" "\<And>t1 s t'. R t1 s t' \<longleftrightarrow> s = Inr () \<and> t' = t1\<lparr>conns := f (conns t1)\<rparr>"
    and "\<And>t1 k c. keyed t1 \<Longrightarrow> f (conns t1) k = Some c \<Longrightarrow> oc_ConnId c = k" "nexo_inv mm t"
    and "\<And>r t'. (nexo_step mm)\<^sup>*\<^sup>* t t' \<Longrightarrow> Q r t'"
  shows "wp I T H b m Q t"
proof (rule wp_applied [OF assms(1), where x = "\<lambda>_. ()" and f = "\<lambda>t1. t1\<lparr>conns := f (conns t1)\<rparr>"])
  have step: "(nexo_step mm)\<^sup>*\<^sup>* t (t1\<lparr>conns := f (conns t1)\<rparr>)" "(nexo_step mm)\<^sup>*\<^sup>* t t1" if "Rl t t1" for t1
  proof -
    show steps: "(nexo_step mm)\<^sup>*\<^sup>* t t1"
      by (rule nexo_rely_steps [OF Rl_rely [OF that]])
    then have "keyed t1"
      using nexo_steps_inv assms(4) by (auto simp: nexo_inv_def)
    then show "(nexo_step mm)\<^sup>*\<^sup>* t (t1\<lparr>conns := f (conns t1)\<rparr>)"
      using steps conns_step [of "f (conns t1)" mm t1] assms(3) by (meson rtranclp.rtrancl_into_rtrancl)
  qed
  show "Q (Inr ()) (t1\<lparr>conns := f (conns t1)\<rparr>)" if "Rl t t1" for t1
    using step that assms(5) by blast
  show "Q (Inl e) t'" if "Rl t t1" "t' = t1 \<or> t' = t1\<lparr>conns := f (conns t1)\<rparr>" for t1 e t'
    using step that assms(5) by blast
qed (use assms(2) in simp)

lemma wp_Add: "nexo_inv mm t \<Longrightarrow> wp I T H b (Add st nd c now) (\<lambda>_. (nexo_step mm)\<^sup>*\<^sup>* t) t"
  unfolding Add_def
  by (rule wp_registry [OF UpsertOnlineConn_ok, where f = "\<lambda>m. m(oc_ConnId (online_conn nd c now) \<mapsto> online_conn nd c now)"])
    (auto simp: UpsertOnlineConn_spec_def dest: keyedD(7) split: if_splits)

lemma wp_Remove: "nexo_inv mm t \<Longrightarrow> wp I T H b (Remove st nd c) (\<lambda>_. (nexo_step mm)\<^sup>*\<^sup>* t) t"
  unfolding Remove_def
  by (rule wp_registry [OF DeleteOnlineConn_ok, where f = "\<lambda>m. m(ref_ConnId c := None)"])
    (auto simp: DeleteOnlineConn_spec_def dest: keyedD(7) split: if_splits)

lemma wp_PurgeNode: "nexo_inv mm t \<Longrightarrow> wp I T H b (PurgeNode st nd) (\<lambda>_. (nexo_step mm)\<^sup>*\<^sup>* t) t"
  unfolding PurgeNode_def
  by (rule wp_registry [OF DeleteOnlineConnsByNode_ok, where f = "\<lambda>m k. case m k of None \<Rightarrow> None
       | Some c \<Rightarrow> if oc_NodeId c = nd then None else Some c"])
    (auto simp: DeleteOnlineConnsByNode_spec_def dest: keyedD(7) split: if_splits option.splits)

lemma renew_conn_id [simp]: "oc_ConnId (renew_conn nd is now c) = oc_ConnId c"
  by (simp add: renew_conn_def)

lemma wp_renew_steps: "nexo_inv mm t \<Longrightarrow> wp I T H b (renew_chunks st nd cs now) (\<lambda>_. (nexo_step mm)\<^sup>*\<^sup>* t) t"
proof (induction cs arbitrary: t)
  case (Cons c cs)
  have "wp I T H b (renew_chunks st nd cs now) (\<lambda>_. (nexo_step mm)\<^sup>*\<^sup>* t) t'" if "(nexo_step mm)\<^sup>*\<^sup>* t t'" for t'
    by (rule wp_mono [OF Cons.IH [OF nexo_steps_inv [OF that Cons.prems]]]) (rule rtranclp_trans [OF that])
  then show ?case
    unfolding renew_chunks.simps
    by (intro wp_bind wp_registry [OF RenewOnlineConns_ok, where f = "\<lambda>m k. map_option (renew_conn nd c now) (m k)"])
      (auto simp: RenewOnlineConns_spec_def Cons.prems dest: keyedD(7) intro!: wp_return split: sum.split)
qed (simp add: wp_return)

end

section \<open>Calls\<close>

text \<open>The server: its message and group services, over the store; the group service's limit is the
  system's.\<close>

definition server :: "int \<Rightarrow> (Pg, 'lim) MsgService \<Rightarrow> Pg GroupSvc \<Rightarrow> bool" where
  "server mm ms gs \<longleftrightarrow> s_store ms = pg_store \<and> g_store gs = pg_store \<and> g_maxMembers gs = mm"

inductive nexo_call :: "(Pg, 'lim) MsgService \<Rightarrow> Pg GroupSvc \<Rightarrow> Pg \<Rightarrow> Pg \<Rightarrow> bool" for ms gs where
  Send: "run_state (Send ms inp now uuid) (d, w) = (r, d', w') \<Longrightarrow> nexo_call ms gs d d'"
| Pull: "pageMax < 2 ^ 31 - 1 \<Longrightarrow> run_state (Pull (pg_store :: (Pg, Message \<times> bool) StoreTx) inp pageMax) d = (r, d') \<Longrightarrow> nexo_call ms gs d d'"
| Create: "run_state (Create gs ow inp now rnd) (d, w) = (r, d', w') \<Longrightarrow> nexo_call ms gs d d'"
| Join: "run_state (Join gs gid u now) (d, w) = (r, d', w') \<Longrightarrow> nexo_call ms gs d d'"
| Quit: "run_state (Quit gs gid u now) (d, w) = (r, d', w') \<Longrightarrow> nexo_call ms gs d d'"
| Kick: "run_state (Kick_member gs gid op u now) (d, w) = (r, d', w') \<Longrightarrow> nexo_call ms gs d d'"
| MarkRead: "run_state (MarkRead (pg_store :: (Pg, unit) StoreTx) u conn i readSeq) (d, w) = (r, d', w') \<Longrightarrow> nexo_call ms gs d d'"
| SetOpt: "run_state (SetOpt (pg_store :: (Pg, unit) StoreTx) u i opt) d = (r, d') \<Longrightarrow> nexo_call ms gs d d'"
| Register: "run_state (Register (pg_store :: (Pg, unit) StoreTx) (n :: LocalCache Native option) bc username password nickname salt uuid now) d =
    (rp, d') \<Longrightarrow> nexo_call ms gs d d'"
| Update: "run_state (Update (pg_store :: (Pg, unit) StoreTx) i upd now) d = (rp, d') \<Longrightarrow> nexo_call ms gs d d'"
| Upsert: "run_state (Upsert (pg_store :: (Pg, unit) StoreTx) i nick av ex now) d = (rp, d') \<Longrightarrow> nexo_call ms gs d d'"
| Add: "run_state (Add (pg_store :: (Pg, unit) StoreTx) nd c now) d = (r, d') \<Longrightarrow> nexo_call ms gs d d'"
| Remove: "run_state (Remove (pg_store :: (Pg, unit) StoreTx) nd c) d = (r, d') \<Longrightarrow> nexo_call ms gs d d'"
| Renew: "run_state (Renew (pg_store :: (Pg, unit) StoreTx) nd cs now) d = (rr, d') \<Longrightarrow> nexo_call ms gs d d'"
| PurgeNode: "run_state (PurgeNode (pg_store :: (Pg, unit) StoreTx) nd) d = (r, d') \<Longrightarrow> nexo_call ms gs d d'"

lemma call_wp:
  assumes "pg_ready mm Rl d" "wp (pg_I Rl) pg_T pg_H (pg_H d) m (\<lambda>_. (nexo_step mm)\<^sup>*\<^sup>* (pg_T d)) (pg_T d)"
    and "run_state m d = (r, d')"
  shows "(nexo_step mm)\<^sup>*\<^sup>* (pg_T d) (pg_T d') \<and> pg_I Rl d'"
  using wpD [OF assms(2) pg_readyD(2) [OF assms(1)] _ refl assms(3)] by blast

theorem nexo_call_steps:
  assumes "nexo_call ms gs d d'" "pg_ready mm Rl d" "server mm ms gs"
  shows "(nexo_step mm)\<^sup>*\<^sup>* (pg_T d) (pg_T d') \<and> pg_I Rl d'"
proof -
  note ready = pg_readyD [OF assms(2)]
  note one = one_step_steps [OF ready(1)]
  note st = pg_nexo_store [OF ready(1)]
  have srv: "s_store ms = pg_store" "g_store gs = pg_store" "g_maxMembers gs = mm"
    using assms(3) by (simp_all add: server_def)
  show ?thesis
    using assms(1)
  proof cases
    case (Send inp now uuid w r w')
    show ?thesis
      using one [OF Send_one_step [OF ready(1,3) Send_pg(1) [OF assms(2) srv(1) Send]]] Send_pg(2) [OF assms(2) srv(1) Send] by blast
  next
    case (Pull pageMax inp r)
    show ?thesis
      using one [OF Pull_one_step [OF ready(1) Pull_pg(1) [OF assms(2) Pull]]] Pull_pg(2) [OF assms(2) Pull] by blast
  next
    case (Create ow inp now rnd w r w')
    show ?thesis
      using one [OF Create_one_step [OF ready(1) Create_pg(1) [OF assms(2) srv(2,3) Create]]] Create_pg(2) [OF assms(2) srv(2,3) Create] by blast
  next
    case (Join gid u now w r w')
    show ?thesis
      using one [OF Join_one_step [OF ready(1,3) Join_pg(1) [OF assms(2) srv(2,3) Join]]] Join_pg(2) [OF assms(2) srv(2,3) Join] by blast
  next
    case (Quit gid u now w r w')
    show ?thesis
      using one [OF remove_one_step [OF ready(1) Quit_pg(1) [OF assms(2) srv(2) Quit]]] Quit_pg(2) [OF assms(2) srv(2) Quit] by blast
  next
    case (Kick gid op u now w r w')
    show ?thesis
      using one [OF remove_one_step [OF ready(1) Kick_pg(1) [OF assms(2) srv(2) Kick]]] Kick_pg(2) [OF assms(2) srv(2) Kick] by blast
  next
    case (MarkRead u conn i readSeq w r w')
    show ?thesis
      using one [OF MarkRead_one_step [OF ready(1) MarkRead_pg(1) [OF assms(2) MarkRead]]] MarkRead_pg(2) [OF assms(2) MarkRead] by blast
  next
    case (SetOpt u i opt r)
    show ?thesis
      using one [OF SetOpt_one_step [OF ready(1) SetOpt_pg(1) [OF assms(2) SetOpt]]] SetOpt_pg(2) [OF assms(2) SetOpt] by blast
  next
    case (Register n bc username password nickname salt uuid now rp)
    show ?thesis
      using one [OF Register_one_step [OF ready(1,3) Register_pg(1) [OF assms(2) Register]]] Register_pg(2) [OF assms(2) Register] by blast
  next
    case (Update i upd now rp)
    show ?thesis
      using one [OF Write_one_step [OF ready(1,3) Update_pg(1) [OF assms(2) Update]]] Update_pg(2) [OF assms(2) Update] by blast
  next
    case (Upsert i nick av ex now rp)
    show ?thesis
      using one [OF Write_one_step [OF ready(1,3) Upsert_pg(1) [OF assms(2) Upsert]]] Upsert_pg(2) [OF assms(2) Upsert] by blast
  next
    case (Add nd c now r)
    show ?thesis
      by (rule call_wp [OF assms(2) nexo_store.wp_Add [OF st ready(5)] Add])
  next
    case (Remove nd c r)
    show ?thesis
      by (rule call_wp [OF assms(2) nexo_store.wp_Remove [OF st ready(5)] Remove])
  next
    case (Renew nd cs now r)
    show ?thesis
      by (rule call_wp [OF assms(2) nexo_store.wp_renew_steps [OF st ready(5)] Renew [unfolded Renew_def]])
  next
    case (PurgeNode nd r)
    show ?thesis
      by (rule call_wp [OF assms(2) nexo_store.wp_PurgeNode [OF st ready(5)] PurgeNode])
  qed
qed

text \<open>A sequence of calls. Each starts while every conversation's counter has a successor; what the
  store's other requests and the driver do is new for every call.\<close>

inductive history :: "(Pg, 'lim) MsgService \<Rightarrow> Pg GroupSvc \<Rightarrow> (Tables \<Rightarrow> Tables \<Rightarrow> bool) \<Rightarrow> Pg \<Rightarrow> Pg \<Rightarrow> bool" for ms gs Rl where
  start: "history ms gs Rl d d"
| call: "history ms gs Rl d0 d \<Longrightarrow> roomy (pg_T d) \<Longrightarrow> env_ok Rl fs \<Longrightarrow>
    nexo_call ms gs (d\<lparr>pg_drv := os, pg_env := fs\<rparr>) d' \<Longrightarrow> history ms gs Rl d0 d'"

theorem history_steps:
  assumes "history ms gs Rl d0 d" "server mm ms gs" "others mm Rl" "pg_I Rl d0" "nexo_inv mm (pg_T d0)"
  shows "(nexo_step mm)\<^sup>*\<^sup>* (pg_T d0) (pg_T d) \<and> pg_I Rl d \<and> nexo_inv mm (pg_T d)"
  using assms
proof (induction rule: history.induct)
  case (call d0 d fs os d')
  let ?d = "d\<lparr>pg_drv := os, pg_env := fs\<rparr>"
  have IH: "(nexo_step mm)\<^sup>*\<^sup>* (pg_T d0) (pg_T d)" "pg_I Rl d" "nexo_inv mm (pg_T d)"
    using call by blast+
  have same: "pg_T ?d = pg_T d"
    by (simp add: pg_T_def)
  have "pg_ready mm Rl ?d"
    using call IH by (simp add: pg_ready_def same nexo_ok_def pg_I_def)
  from nexo_call_steps [OF call(4) this call(6)] show ?case
    using IH same nexo_steps_inv by (metis rtranclp_trans)
qed simp

end
