(* ===== verification/Demo.thy ===== *)
theory Demo
  imports NexoCalls
begin

text \<open>
  A small deployment that the witnesses run: three platform users on an empty store, a message
  service whose limiter admits everything, a group service with at most ten members per group.
  The states after a few calls are computed, and the lemmas on calls give their invariants.
\<close>

definition demo_limiter :: "unit LimiterOps" where
  "demo_limiter = \<lparr>NewLimiter = (\<lambda>_ _. ()), AllowN = (\<lambda>l _ _. (True, l))\<rparr>"

definition demo_messages :: "(Pg, unit) MsgService" where
  "demo_messages = \<lparr>s_store = pg_store, s_maxContent = 1000, s_jsonValid = (\<lambda>_. True),
     s_limiter = demo_limiter, s_online = None, s_pusher = True\<rparr>"

definition demo_groups :: "Pg GroupSvc" where
  "demo_groups = \<lparr>g_store = pg_store, g_maxMembers = 10\<rparr>"

definition demo_user :: "string \<Rightarrow> User" where
  "demo_user i = \<lparr>user_Id = i, user_Username = [], user_PasswordHash = [], user_Nickname = [],
     user_Avatar = [], user_Extra = [], user_CreatedAt = 0, user_UpdatedAt = 0\<rparr>"

definition demo_rows :: PgTables where
  "demo_rows = \<lparr>t_users = [demo_user ''u___1'', demo_user ''u___2'', demo_user ''u___3''], t_chat_groups = [],
     t_group_members = [], t_conversations = [], t_user_conversations = [], t_messages = [], t_online_conns = []\<rparr>"

definition demo :: Pg where
  "demo = \<lparr>pg_rows = demo_rows, pg_drv = [], pg_env = []\<rparr>"

definition demo_w :: "unit MsgState" where
  "demo_w = NewMsgState demo_limiter 0 10 0"

definition demo_send :: SendInput where
  "demo_send = \<lparr>in_SenderId = ''u___1'', in_SenderConnId = ''c'', in_ClientMsgId = ''m1'', in_SessionType = 1,
     in_RecvId = ''u___2'', in_GroupId = [], in_ContentType = 1, in_Content = ''{}'', in_SenderRead = True,
     in_Unlimited = False\<rparr>"

definition demo_group_input :: CreateInput where
  "demo_group_input = \<lparr>ci_Name = ''g'', ci_Avatar = [], ci_Introduction = [], ci_Extra = [], ci_MemberIds = [''u___2'']\<rparr>"

definition demo_rnd :: "int list" where "demo_rnd = [1, 2, 3, 4, 5, 6, 7, 8, 9, 10]"

lemma demo_server: "server 10 demo_messages demo_groups"
  by (simp add: server_def demo_messages_def demo_groups_def)

lemma demo_store: "s_store demo_messages = pg_store" "g_store demo_groups = pg_store"
  by (simp_all add: demo_messages_def demo_groups_def)

lemma demo_I: "pg_I Rl demo"
  by (simp add: pg_I_def pg_ok_def env_ok_def demo_def demo_rows_def demo_user_def)

text \<open>No table but the users' has a row.\<close>

lemma demo_empty:
  "groups (pg_T demo) = Map.empty" "members (pg_T demo) = Map.empty" "convs (pg_T demo) = Map.empty"
  "uconvs (pg_T demo) = Map.empty" "msgs (pg_T demo) = Map.empty" "conns (pg_T demo) = Map.empty"
  by (simp_all add: pg_T_def demo_def demo_rows_def fun_eq_iff)

lemma demo_inv: "nexo_inv 10 (pg_T demo)"
proof -
  have "keyed (pg_T demo)"
    using keyed_pg_tabs [of demo_rows] by (simp add: pg_T_def demo_def)
  then show ?thesis
    by (simp add: nexo_inv_def seq_inv_def unique_inv_def time_inv_def route_inv_def range_inv_def member_inv_def
        group_inv_def owner_inv_def size_inv_def roster_def demo_empty)
qed

lemma demo_ready: "others 10 Rl \<Longrightarrow> pg_ready 10 Rl demo"
  using demo_inv by (simp add: pg_ready_def demo_I nexo_ok_def roomy_def demo_empty)

lemma demo_healthy: "pg_H demo"
  by (simp add: pg_H_def demo_def)

lemma run_parts: "run_state m s = (fst (run_state m s), fst (snd (run_state m s)), snd (snd (run_state m s)))"
  by simp

section \<open>After a message, and after a group was created\<close>

definition demo_sent :: Pg where
  "demo_sent = fst (snd (run_state (Send demo_messages demo_send 1000000 ''id1'') (demo, demo_w)))"

definition demo_sent_w :: "unit MsgState" where
  "demo_sent_w = snd (snd (run_state (Send demo_messages demo_send 1000000 ''id1'') (demo, demo_w)))"

definition demo_ack :: Ack where
  "demo_ack = \<lparr>ack_ServerMsgId = ''id1'', ack_ConversationId = ''si_u___1:u___2'', ack_Seq = 1, ack_SendTime = 1\<rparr>"

lemma demo_send_ack: "fst (run_state (Send demo_messages demo_send 1000000 ''id1'') (demo, demo_w)) = Inr demo_ack"
  by code_simp

lemma demo_send_run:
  "run_state (Send demo_messages demo_send 1000000 ''id1'') (demo, demo_w) = (Inr demo_ack, demo_sent, demo_sent_w)"
  unfolding demo_sent_def demo_sent_w_def demo_send_ack [symmetric] by (rule run_parts)

definition demo_created :: Pg where
  "demo_created = fst (snd (run_state (Create demo_groups ''u___1'' demo_group_input 1000000 demo_rnd) (demo, \<lparr>g_notified = []\<rparr>)))"

definition demo_gid :: string where "demo_gid = shortId demo_rnd"

text \<open>The rows of the computed states: small enough to check what the lemmas on calls leave open.\<close>

definition small_seqs :: "Pg \<Rightarrow> bool" where
  "small_seqs d \<longleftrightarrow> list_all (\<lambda>c. conv_MaxSeq c < 1000) (t_conversations (pg_rows d)) \<and> pg_env d = [] \<and> pg_drv d = []"

lemma small_seqs_roomy: "small_seqs d \<Longrightarrow> roomy (pg_T d)"
  unfolding roomy_def
proof (intro allI impI)
  fix i c
  assume d: "small_seqs d" "convs (pg_T d) i = Some c"
  then have "c \<in> set (t_conversations (pg_rows d))"
    using index_SomeD by (fastforce simp: pg_T_def)
  then show "has_room (conv_MaxSeq c)"
    using d(1) by (auto simp: small_seqs_def list_all_iff has_room_def)
qed

lemma demo_next:
  assumes "nexo_call demo_messages demo_groups d d'" "pg_ready 10 (=) d" "small_seqs d'"
  shows "pg_ready 10 Rl d' \<longleftrightarrow> others 10 Rl"
proof -
  have "nexo_inv 10 (pg_T d')" "pg_I (=) d'"
    using nexo_call_steps [OF assms(1,2) demo_server] nexo_steps_inv pg_readyD(5) [OF assms(2)] by blast+
  then show ?thesis
    using small_seqs_roomy [OF assms(3)] assms(3)
    by (auto simp: pg_ready_def nexo_ok_def pg_I_def env_ok_def small_seqs_def)
qed

lemma demo_sent_ready: "others 10 Rl \<Longrightarrow> pg_ready 10 Rl demo_sent"
proof -
  have "nexo_call demo_messages demo_groups demo demo_sent"
    using demo_send_run by (rule nexo_call.Send)
  moreover have "small_seqs demo_sent"
    by code_simp
  ultimately show "others 10 Rl \<Longrightarrow> pg_ready 10 Rl demo_sent"
    using demo_next demo_ready by simp
qed

lemma demo_created_ready: "others 10 Rl \<Longrightarrow> pg_ready 10 Rl demo_created"
proof -
  have "nexo_call demo_messages demo_groups demo demo_created"
    unfolding demo_created_def by (rule nexo_call.Create [OF run_parts])
  moreover have "small_seqs demo_created"
    by code_simp
  ultimately show "others 10 Rl \<Longrightarrow> pg_ready 10 Rl demo_created"
    using demo_next demo_ready by simp
qed

section \<open>A message in the group, a member more, a member less\<close>

definition demo_group_send :: SendInput where
  "demo_group_send = demo_send\<lparr>in_SessionType := 2, in_GroupId := demo_gid\<rparr>"

definition demo_group_sent :: Pg where
  "demo_group_sent = fst (snd (run_state (Send demo_messages demo_group_send 2000000 ''id3'') (demo_created, demo_w)))"

definition demo_joined :: Pg where
  "demo_joined = fst (snd (run_state (Join demo_groups demo_gid ''u___3'' 3000000) (demo_group_sent, \<lparr>g_notified = []\<rparr>)))"

definition demo_kicked :: Pg where
  "demo_kicked = fst (snd (run_state (Kick_member demo_groups demo_gid ''u___1'' ''u___2'' 3000000)
     (demo_group_sent, \<lparr>g_notified = []\<rparr>)))"

definition demo_read :: Pg where
  "demo_read = fst (snd (run_state (MarkRead (pg_store :: (Pg, unit) StoreTx) ''u___2'' ''c2'' ''si_u___1:u___2'' 7)
     (demo_sent, \<lparr>c_notified = []\<rparr>)))"

definition demo_pull :: PullInput where
  "demo_pull = \<lparr>pl_UserId = ''u___2'', pl_ConversationId = ''si_u___1:u___2'', pl_BeginSeq = 1, pl_EndSeq = 9, pl_Limit = 5\<rparr>"

definition demo_page :: PullResult where
  "demo_page = (case fst (run_state (Pull (pg_store :: (Pg, unit) StoreTx) demo_pull 100) demo_sent) of
     Inr p \<Rightarrow> p | Inl _ \<Rightarrow> \<lparr>pr_Messages = [], pr_HasMore = False\<rparr>)"

lemma demo_group_sent_ready: "others 10 Rl \<Longrightarrow> pg_ready 10 Rl demo_group_sent"
proof -
  have "nexo_call demo_messages demo_groups demo_created demo_group_sent"
    unfolding demo_group_sent_def by (rule nexo_call.Send [OF run_parts])
  moreover have "small_seqs demo_group_sent"
    by code_simp
  ultimately show "others 10 Rl \<Longrightarrow> pg_ready 10 Rl demo_group_sent"
    using demo_next demo_created_ready by simp
qed

lemma demo_join_ok:
  "fst (run_state (Join demo_groups demo_gid ''u___3'' 3000000) (demo_group_sent, \<lparr>g_notified = []\<rparr>)) = Inr ()"
  by code_simp

lemma demo_join_run:
  "run_state (Join demo_groups demo_gid ''u___3'' 3000000) (demo_group_sent, \<lparr>g_notified = []\<rparr>) =
     (Inr (), demo_joined, snd (snd (run_state (Join demo_groups demo_gid ''u___3'' 3000000) (demo_group_sent, \<lparr>g_notified = []\<rparr>))))"
  unfolding demo_joined_def demo_join_ok [symmetric] by (rule run_parts)

lemma demo_kick_ok:
  "fst (run_state (Kick_member demo_groups demo_gid ''u___1'' ''u___2'' 3000000) (demo_group_sent, \<lparr>g_notified = []\<rparr>)) = Inr ()"
  by code_simp

lemma demo_kick_run:
  "run_state (Kick_member demo_groups demo_gid ''u___1'' ''u___2'' 3000000) (demo_group_sent, \<lparr>g_notified = []\<rparr>) =
     (Inr (), demo_kicked, snd (snd (run_state (Kick_member demo_groups demo_gid ''u___1'' ''u___2'' 3000000)
        (demo_group_sent, \<lparr>g_notified = []\<rparr>))))"
  unfolding demo_kicked_def demo_kick_ok [symmetric] by (rule run_parts)

lemma demo_read_ok:
  "fst (run_state (MarkRead (pg_store :: (Pg, unit) StoreTx) ''u___2'' ''c2'' ''si_u___1:u___2'' 7)
     (demo_sent, \<lparr>c_notified = []\<rparr>)) = Inr 1"
  by code_simp

lemma demo_read_run:
  "run_state (MarkRead (pg_store :: (Pg, unit) StoreTx) ''u___2'' ''c2'' ''si_u___1:u___2'' 7) (demo_sent, \<lparr>c_notified = []\<rparr>) =
     (Inr 1, demo_read, snd (snd (run_state (MarkRead (pg_store :: (Pg, unit) StoreTx) ''u___2'' ''c2'' ''si_u___1:u___2'' 7)
        (demo_sent, \<lparr>c_notified = []\<rparr>))))"
  unfolding demo_read_def demo_read_ok [symmetric] by (rule run_parts)

lemma demo_pull_run:
  "run_state (Pull (pg_store :: (Pg, unit) StoreTx) demo_pull 100) demo_sent =
     (Inr demo_page, snd (run_state (Pull (pg_store :: (Pg, unit) StoreTx) demo_pull 100) demo_sent))"
proof -
  have "\<not> isl (fst (run_state (Pull (pg_store :: (Pg, unit) StoreTx) demo_pull 100) demo_sent))"
    by code_simp
  then have "fst (run_state (Pull (pg_store :: (Pg, unit) StoreTx) demo_pull 100) demo_sent) = Inr demo_page"
    unfolding demo_page_def by (auto split: sum.split)
  then show ?thesis
    by (metis prod.collapse)
qed

end
