(* ===== verification/NexoFacts.thy ===== *)
theory NexoFacts
  imports NexoCalls
begin

text \<open>
  Consequences of the outcomes of the calls that the properties state: what a member sees and how
  the steps of the system change it, what a committed message is, when a send succeeds.
\<close>

section \<open>What a user sees of a conversation\<close>

definition visible :: "Tables \<Rightarrow> string \<Rightarrow> string \<Rightarrow> int64 set" where
  "visible t u i = {s. \<exists>uc c. uconvs t (u, i) = Some uc \<and> convs t i = Some c \<and>
     uc_MinSeq uc \<le> s \<and> s \<le> VisibleMax uc (conv_MaxSeq c)}"

text \<open>A user's row of a conversation after a step that leaves its bounds alone.\<close>

definition same_view :: "UserConversation option \<Rightarrow> UserConversation option \<Rightarrow> bool" where
  "same_view x y \<longleftrightarrow> (case x of
      None \<Rightarrow> y = None
    | Some uc \<Rightarrow> (\<exists>uc'. y = Some uc' \<and> uc_MinSeq uc' = uc_MinSeq uc \<and> uc_MaxSeq uc' = uc_MaxSeq uc))"

lemma same_view_refl [simp]: "same_view x x"
  by (simp add: same_view_def split: option.split)

lemma outsider_row:
  assumes "nexo_step mm t t'" "nexo_inv mm t" "members t (g, u) = None" "members t' (g, u) = None"
  shows "same_view (uconvs t (u, GroupConv g)) (uconvs t' (u, GroupConv g))"
  using assms(1)
proof (cases rule: nexo_step.cases)
  case (send inp i uuid now)
  let ?k = "(u, GroupConv g)"
  have ne: "in_SessionType inp = ConversationSingle \<longrightarrow> in_SenderId inp \<noteq> in_RecvId inp"
    and i: "in_SessionType inp = ConversationSingle \<longrightarrow> i \<noteq> GroupConv g"
    using send(2) by (auto simp: routable_def store_consts)
  show ?thesis
  proof (cases "uconvs t' ?k")
    case None
    then have "uconvs t ?k = None"
      using touched_dom [of "uconvs t" ?k] unfolding send(1) send_effect_simps by (metis option.exhaust)
    then show ?thesis
      using None by (simp add: same_view_def)
  next
    case (Some uc')
    show ?thesis
      using touched_row [OF Some [unfolded send(1) send_effect_simps] ne] Some i
      by (auto simp: same_view_def row_kept_def)
  qed
next
  case (create gr ids now)
  then show ?thesis
    using assms(3,4) by (auto split: if_splits)
next
  case (join gid v now)
  then have "(gid, v) \<noteq> (g, u)"
    using assms(4) by (auto simp: join_effect_def Let_def)
  then show ?thesis
    unfolding join(1) join_effect_def Let_def by (auto simp: upsert_uc_def joined_uc_def ucKey_def)
next
  case (remove gid gr v now)
  then have "(gid, v) \<noteq> (g, u)"
    using assms(3) by auto
  then have "uconvs t' (u, GroupConv g) = uconvs t (u, GroupConv g)"
    unfolding remove(1) remove_effect_def Let_def by (auto simp: alter_def split: option.split)
  then show ?thesis
    by simp
next
  case (read ow j uc c rd)
  then show ?thesis
    by (auto simp: same_view_def advance_read_def alter_def split: option.split)
next
  case (opt ow j uc a p)
  then show ?thesis
    by (auto simp: same_view_def split: option.split)
qed simp_all

lemma outsider_view:
  assumes "nexo_step mm t t'" "nexo_inv mm t" "members t (g, u) = None" "members t' (g, u) = None"
  shows "visible t' u (GroupConv g) = visible t u (GroupConv g)"
proof (cases "uconvs t (u, GroupConv g)")
  case None
  then show ?thesis
    using outsider_row [OF assms] by (auto simp: same_view_def visible_def)
next
  case (Some uc)
  then obtain uc' where uc': "uconvs t' (u, GroupConv g) = Some uc'" "uc_MinSeq uc' = uc_MinSeq uc" "uc_MaxSeq uc' = uc_MaxSeq uc"
    using outsider_row [OF assms] by (auto simp: same_view_def)
  obtain c where c: "convs t (GroupConv g) = Some c" "range_ok uc (conv_MaxSeq c)"
    using assms(2) Some unfolding nexo_inv_def range_inv_def by blast
  have "uc_MaxSeq uc \<noteq> 0"
    using assms(2,3) Some unfolding nexo_inv_def member_inv_def by blast
  moreover obtain c' where "convs t' (GroupConv g) = Some c'" "conv_MaxSeq c \<le> conv_MaxSeq c'"
    using nexo_step_convs [OF assms(1,2) c(1)] by blast
  ultimately show ?thesis
    using Some uc' c by (auto simp: visible_def VisibleMax_def range_ok_def)
qed

text \<open>Steps during which \<^verbatim>\<open>u\<close> is not a member of the group \<^verbatim>\<open>g\<close>.\<close>

definition outside_step :: "int \<Rightarrow> string \<Rightarrow> string \<Rightarrow> Tables \<Rightarrow> Tables \<Rightarrow> bool" where
  "outside_step mm g u t t' \<longleftrightarrow> nexo_step mm t t' \<and> members t (g, u) = None \<and> members t' (g, u) = None"

lemma outsider_view_steps:
  assumes "(outside_step mm g u)\<^sup>*\<^sup>* t t'" "nexo_inv mm t"
  shows "visible t' u (GroupConv g) = visible t u (GroupConv g)"
proof -
  have "visible t' u (GroupConv g) = visible t u (GroupConv g) \<and> nexo_inv mm t'"
    using assms(1)
  proof (induction rule: rtranclp_induct)
    case (step y z)
    then show ?case
      using outsider_view [of mm y z g u] nexo_step_inv by (auto simp: outside_step_def)
  qed (simp add: assms(2))
  then show ?thesis ..
qed

section \<open>Messages\<close>

lemma gapless_messages:
  assumes "nexo_inv mm t" "convs t i = Some c"
  shows "map msg_Seq (messages_between t i 1 (conv_MaxSeq c)) = [1..conv_MaxSeq c]"
    "sorted (map msg_SendTime (messages_between t i 1 (conv_MaxSeq c)))"
proof -
  have inv: "keyed t" "seq_inv t" "time_inv t"
    using assms(1) by (simp_all add: nexo_inv_def)
  have there: "msgs t (i, s) \<noteq> None" if "s \<in> set [1..conv_MaxSeq c]" for s
    using that inv(2) assms(2) by (auto simp: seq_inv_def)
  show seqs: "map msg_Seq (messages_between t i 1 (conv_MaxSeq c)) = [1..conv_MaxSeq c]"
    using there by (simp add: seqs_messages_between [OF inv(1)])
  have "sorted_wrt (\<lambda>m m'. msg_SendTime m \<le> msg_SendTime m') (messages_between t i 1 (conv_MaxSeq c))"
  proof (rule sorted_wrt_mono_rel)
    have "sorted_wrt (<) (map msg_Seq (messages_between t i 1 (conv_MaxSeq c)))"
      unfolding seqs by (rule sorted_wrt_upto)
    then show "sorted_wrt (\<lambda>m m'. msg_Seq m < msg_Seq m') (messages_between t i 1 (conv_MaxSeq c))"
      by (simp add: sorted_wrt_map)
  next
    fix m m'
    assume m: "m \<in> set (messages_between t i 1 (conv_MaxSeq c))" "m' \<in> set (messages_between t i 1 (conv_MaxSeq c))"
      "msg_Seq m < msg_Seq m'"
    have "msgs t (i, msg_Seq x) = Some x" if "x \<in> set (messages_between t i 1 (conv_MaxSeq c))" for x
      using that keyedD(6) [OF inv(1)] by (auto simp: set_messages_between msgKey_def)
    then show "msg_SendTime m \<le> msg_SendTime m'"
      using m inv(3) unfolding time_inv_def by (meson less_imp_le)
  qed
  then show "sorted (map msg_SendTime (messages_between t i 1 (conv_MaxSeq c)))"
    by (simp add: sorted_map)
qed

lemma all_messages_between:
  assumes "nexo_inv mm t" "convs t i = Some c"
  shows "{m \<in> ran (msgs t). msg_ConversationId m = i} = set (messages_between t i 1 (conv_MaxSeq c))"
proof -
  have inv: "keyed t" "seq_inv t"
    using assms(1) by (simp_all add: nexo_inv_def)
  have "1 \<le> s \<and> s \<le> conv_MaxSeq c" if "msgs t (i, s) = Some m" for s m
    using that inv(2) assms(2) unfolding seq_inv_def by (metis option.distinct(1) option.inject)
  then show ?thesis
    using keyedD(6) [OF inv(1)] by (auto simp: set_messages_between ran_def msgKey_def) metis
qed

lemma nexo_steps_ran:
  assumes "(nexo_step mm)\<^sup>*\<^sup>* t t'" "nexo_inv mm t" "m \<in> ran (msgs t)"
  shows "m \<in> ran (msgs t')"
  using assms(1)
proof (induction rule: rtranclp_induct)
  case (step t1 t2)
  then show ?case
    using nexo_step_msgs [OF step(2) nexo_steps_inv [OF step(1) assms(2)]] unfolding ran_def by blast
qed (rule assms(3))

text \<open>An acknowledgement is the stored message's, and there is one under the request's key.\<close>

lemma Send_ack_stored:
  assumes "others mm Rl" "nexo_ok mm t" "Send_outcome Rl b s inp now uuid t w (Inr a) t' w'"
  shows "\<exists>m. {m' \<in> ran (msgs t'). clientKey m' = send_key inp} = {m} \<and> a = ack m"
proof -
  have inv: "nexo_inv mm t'"
    using one_step_inv [OF assms(1) Send_one_step [OF assms]] assms(2) by (simp add: nexo_ok_def)
  have "\<exists>m \<in> ran (msgs t'). clientKey m = send_key inp \<and> a = ack m"
    using assms(3)
  proof (cases rule: Send_outcome.cases)
    case (committed t1)
    have "clientKey (committed_message inp now uuid t1) = send_key inp"
      by (simp add: clientKey_def send_key_def dest_def)
    then show ?thesis
      using committed by (auto simp: ran_def)
  qed auto
  then obtain m where m: "m \<in> ran (msgs t')" "clientKey m = send_key inp" "a = ack m"
    by blast
  moreover have "m' = m" if "m' \<in> ran (msgs t')" "clientKey m' = send_key inp" for m'
    using inv that m(1,2) unfolding nexo_inv_def unique_inv_def by (metis inj_onD)
  ultimately show ?thesis
    by blast
qed

lemma Send_steps_pg:
  assumes "pg_ready mm Rl d" "s_store s = pg_store" "run_state (Send s inp now uuid) (d, w) = (r, d', w')"
  shows "(nexo_step mm)\<^sup>*\<^sup>* (pg_T d) (pg_T d')" "nexo_inv mm (pg_T d')"
proof -
  show "(nexo_step mm)\<^sup>*\<^sup>* (pg_T d) (pg_T d')"
    using one_step_steps [OF pg_readyD(1) Send_one_step [OF pg_readyD(1,3) Send_pg(1) [OF assms]]] assms(1) by blast
  then show "nexo_inv mm (pg_T d')"
    using nexo_steps_inv pg_readyD(5) [OF assms(1)] by blast
qed

section \<open>When a send succeeds\<close>

definition next_seq :: "Tables \<Rightarrow> string \<Rightarrow> int64" where
  "next_seq t i = (case convs t i of None \<Rightarrow> 1 | Some c \<Rightarrow> conv_MaxSeq c + 1)"

lemma published_after:
  "m_published (charged s inp now w) = m_published w"
  "m_published (after_commit s m inp w) = m_published w @ [push_event m (in_SenderConnId inp)]"
  "m_published (republished m inp w) = m_published w @ [push_event m (in_SenderConnId inp)]"
  by (simp_all add: charged_def after_commit_def republished_def spawnOfflinePush_def Let_def)

lemma may_send_normalized [simp]: "may_send (normalized inp) t = may_send inp t"
  by (simp add: may_send_def normalized_def store_consts)

lemma committed_seq:
  assumes "nexo_ok mm t"
  shows "msg_Seq (committed_message inp now uuid t) = next_seq t (dest inp)"
proof -
  have "seq_inv t" "roomy t"
    using assms by (simp_all add: nexo_ok_def nexo_inv_def)
  then have "msg_Seq (committed_message inp now uuid t) =
      conv_MaxSeq (locked (dest inp) (in_SessionType (normalized inp)) (in_GroupId (normalized inp)) now t) + 1"
    by (intro sent_message_seq roomy_locked)
  then show ?thesis
    by (simp add: next_seq_def locked_def new_conversation_def split: option.split)
qed

text \<open>What a request needs of the tables for its message to be stored.\<close>

definition deliverable :: "SendInput \<Rightarrow> string \<Rightarrow> Tables \<Rightarrow> bool" where
  "deliverable inp uuid t \<longleftrightarrow> may_send inp t \<and>
     (in_SessionType inp = ConversationSingle \<longrightarrow> users t (in_RecvId inp) \<noteq> None) \<and>
     (\<forall>m \<in> ran (msgs t). clientKey m \<noteq> send_key inp \<and> msg_ServerMsgId m \<noteq> uuid)"

lemma deliverable_can_commit:
  assumes "nexo_ok mm t" "validate s inp = None" "deliverable inp uuid t"
  shows "can_commit inp now uuid t"
proof -
  have "routable (normalized inp) (dest inp) t"
    using validate_None(1-3) [OF assms(2)] assms(3)
    by (auto simp: routable_def deliverable_def normalized_def dest_def store_consts)
  moreover have "\<not> message_conflict (committed_message inp now uuid t) t"
    using pgm.conflict_cases [OF assms(1)] assms(3) by (auto simp: deliverable_def)
  ultimately show ?thesis
    using assms(3) by (simp add: can_commit_def deliverable_def)
qed

text \<open>Alone on a healthy store, such a request is committed.\<close>

lemma Send_committed_alone:
  assumes "Send_outcome (=) True s inp now uuid t w r t' w'" "nexo_ok mm t" "validate s inp = None"
    and "within_limit s inp now w" "deliverable inp uuid t"
  shows "r = Inr (ack (committed_message inp now uuid t))" "t' = committed_tables inp now uuid t"
    "w' = after_commit s (committed_message inp now uuid t) inp (charged s inp now w)"
proof -
  have may: "may_send inp t" "in_SessionType inp = ConversationSingle \<Longrightarrow> users t (in_RecvId inp) \<noteq> None"
    "\<And>m. m \<in> ran (msgs t) \<Longrightarrow> clientKey m \<noteq> send_key inp" "\<And>m. m \<in> ran (msgs t) \<Longrightarrow> msg_ServerMsgId m \<noteq> uuid"
    using assms(5) by (auto simp: deliverable_def)
  have "in_SessionType inp \<noteq> ConversationSingle \<Longrightarrow> groups t (in_GroupId inp) \<noteq> None"
    using may(1) validate_None(1) [OF assms(3)] by (auto simp: may_send_def)
  note group = this
  have not_refused: "\<not> send_refused (normalized inp) t e" for e
    using may(1) by (auto simp: send_refused_def may_send_def normalized_def store_consts split: option.splits if_splits)
  have "r = Inr (ack (committed_message inp now uuid t)) \<and> t' = committed_tables inp now uuid t \<and>
      w' = after_commit s (committed_message inp now uuid t) inp (charged s inp now w)"
    using assms(1)
  proof (cases rule: Send_outcome.cases)
    case (retry m)
    then show ?thesis
      using may(3) by blast
  next
    case (refused e)
    then show ?thesis
      using not_refused by blast
  next
    case (duplicate t1 m)
    then show ?thesis
      using may(3) by blast
  next
    case (collided m)
    then show ?thesis
      using may(4) by blast
  qed (use assms(3,4) may(2) group in simp_all)
  then show "r = Inr (ack (committed_message inp now uuid t))" "t' = committed_tables inp now uuid t"
    "w' = after_commit s (committed_message inp now uuid t) inp (charged s inp now w)"
    by blast+
qed

lemma Send_error_nothing:
  assumes "Send_outcome Rl True s inp now uuid t w (Inl e) t' w'" "others mm Rl"
  shows "Rl t t' \<and> m_published w' = m_published w"
  using assms(1)
  by (cases rule: Send_outcome.cases) (auto simp: published_after othersD(2) [OF assms(2)])

lemma Send_tables_alone:
  assumes "Send_outcome (=) b s inp now uuid t w r t' w'"
  shows "t' = t \<or> can_commit inp now uuid t \<and> t' = committed_tables inp now uuid t"
  using assms by (cases rule: Send_outcome.cases) blast+

lemma Send_stores_own:
  assumes "Send_outcome (=) b s inp now uuid t w r t' w'" "m \<in> ran (msgs t')" "m \<notin> ran (msgs t)"
  shows "m = committed_message inp now uuid t \<and> may_send inp t"
proof -
  have t': "can_commit inp now uuid t" "t' = committed_tables inp now uuid t"
    using Send_tables_alone [OF assms(1)] assms(2,3) by blast+
  have "m = committed_message inp now uuid t"
    using assms(2,3) unfolding t'(2) by (auto simp: ran_def split: if_splits)
  then show ?thesis
    using t'(1) by (simp add: can_commit_def)
qed

lemma Send_publishes:
  assumes "Send_outcome Rl b s inp now uuid t w r t' w'"
  shows "m_published w' = m_published w \<or>
    (\<exists>m \<in> ran (msgs t'). clientKey m = send_key inp \<and> r = Inr (ack m) \<and>
       m_published w' = m_published w @ [push_event m (in_SenderConnId inp)])"
  using assms
proof (cases rule: Send_outcome.cases)
  case (committed t1)
  have "clientKey (committed_message inp now uuid t1) = send_key inp"
    by (simp add: clientKey_def send_key_def dest_def)
  moreover have "committed_message inp now uuid t1 \<in> ran (msgs t')"
    using committed by (auto simp: ran_def)
  ultimately show ?thesis
    using committed by (auto simp: published_after)
qed (auto simp: published_after)

end
