(* ===== verification/GroupFacts.thy ===== *)
theory GroupFacts
  imports NexoFacts
begin

text \<open>
  What the group and conversation calls mean for the people in a group: who is a member, what a
  new member can see, what a former member keeps, how far a read cursor goes.
\<close>

section \<open>Creating\<close>

lemma Create_group_made:
  assumes "Create_outcome Rl mm b ow inp now rnd t w (Inr info) t' w'" "others mm Rl" "nexo_ok mm t"
  shows "info_Id info = shortId rnd \<and> info_OwnerId info = ow \<and>
    groups t' (shortId rnd) = Some (new_group (shortId rnd) ow inp now) \<and>
    roster t' (shortId rnd) = insert ow (set (ci_MemberIds inp)) \<and>
    info_MemberCount info = int (card (roster t' (shortId rnd))) \<and> info_MemberCount info \<le> mm \<and>
    (\<forall>u \<in> roster t' (shortId rnd). users t' u \<noteq> None \<and> visible t' u (GroupConv (shortId rnd)) = {})"
  using assms(1)
proof (cases rule: Create_outcome.cases)
  case (created t1 g)
  have inv: "nexo_inv mm t1"
    using nexo_rely_ok [OF othersD(1) [OF assms(2) created(4)] assms(3)] by (simp add: nexo_ok_def)
  note absent = SystemInv.no_group [OF inv created(5)]
  have g: "group_Id g = shortId rnd" "group_OwnerId g = ow"
    using created by (simp_all add: new_group_def)
  have ids: "set (create_ids ow inp) = insert ow (set (ci_MemberIds inp))" "distinct (create_ids ow inp)"
    by (simp_all add: create_ids_def)
  have roster: "roster t' (shortId rnd) = set (create_ids ow inp)"
    using created(2) g absent(3) by (auto simp: roster_def)
  have "visible t' u (GroupConv (shortId rnd)) = {}" if "u \<in> set (create_ids ow inp)" for u
    using that created(2) g absent(1)
    by (auto simp: visible_def VisibleMax_def first_uc_def stamp_created_def locked_def new_conversation_def)
  then show ?thesis
    using created g roster ids distinct_card [OF ids(2)] by (auto simp: toInfo_def)
qed

section \<open>Joining\<close>

lemma joined_row_view:
  obtains uc where "upsert_uc (joined_uc gid u mx now) m = m((u, GroupConv gid) \<mapsto> uc)"
    "uc_MinSeq uc = i64 (mx + 1)" "uc_MaxSeq uc = 0"
  using joined_uc_simps [of gid u mx now m]
  by (cases "m (u, GroupConv gid)") (auto simp: stamp_created_def joined_uc_def)

text \<open>Nothing at or before the seq \<^verbatim>\<open>M\<close> is or becomes visible to \<^verbatim>\<open>u\<close>.\<close>

definition view_floor :: "Tables \<Rightarrow> string \<Rightarrow> string \<Rightarrow> int64 \<Rightarrow> bool" where
  "view_floor t u g M \<longleftrightarrow> (\<exists>c. convs t (GroupConv g) = Some c \<and> M \<le> conv_MaxSeq c) \<and>
     (\<forall>uc. uconvs t (u, GroupConv g) = Some uc \<longrightarrow> M < uc_MinSeq uc)"

lemma view_floor_visible: "view_floor t u g M \<Longrightarrow> s \<in> visible t u (GroupConv g) \<Longrightarrow> M < s"
  by (auto simp: view_floor_def visible_def)

lemma view_floor_step:
  assumes "nexo_step mm t t'" "nexo_inv mm t" "view_floor t u g M"
  shows "view_floor t' u g M"
proof -
  let ?k = "(u, GroupConv g)"
  obtain c where c: "convs t (GroupConv g) = Some c" "M \<le> conv_MaxSeq c"
    using assms(3) by (auto simp: view_floor_def)
  have room: "i64 (conv_MaxSeq c + 1) = conv_MaxSeq c + 1" if "has_room (conv_MaxSeq c)"
    using that c(1) assms(2) by (auto simp: nexo_inv_def seq_inv_def has_room_def i64_below)
  obtain c' where c': "convs t' (GroupConv g) = Some c'" "M \<le> conv_MaxSeq c'"
    using nexo_step_convs [OF assms(1,2) c(1)] c(2) by force
  have "M < uc_MinSeq uc'" if uc': "uconvs t' ?k = Some uc'" for uc'
  proof (cases "same_view (uconvs t ?k) (uconvs t' ?k)")
    case True
    then show ?thesis
      using uc' assms(3) by (auto simp: same_view_def view_floor_def split: option.splits)
  next
    case False
    then have "members t (g, u) \<noteq> None \<or> members t' (g, u) \<noteq> None"
      using outsider_row [OF assms(1,2)] by blast
    show ?thesis
      using assms(1)
    proof (cases rule: nexo_step.cases)
      case (send inp i uuid now)
      have ne: "in_SessionType inp = ConversationSingle \<longrightarrow> in_SenderId inp \<noteq> in_RecvId inp"
        "in_SessionType inp = ConversationSingle \<longrightarrow> i \<noteq> GroupConv g"
        using send(2) by (auto simp: routable_def store_consts)
      show ?thesis
        using touched_row [OF uc' [unfolded send(1) send_effect_simps] ne(1)] ne(2) assms(3)
        by (auto simp: view_floor_def row_kept_def)
    next
      case (create gr ids now)
      have "group_Id gr \<noteq> g"
        using SystemInv.no_group(1) [OF assms(2) create(2)] c(1) by auto
      then show ?thesis
        using uc' create(1) assms(3) by (auto simp: view_floor_def split: if_splits)
    next
      case (join gid v now)
      show ?thesis
      proof (cases "(gid, v) = (g, u)")
        case True
        then have "has_room (conv_MaxSeq c)"
          using join(5) c(1) by (simp add: locked_Some)
        obtain uc where uc: "upsert_uc (joined_uc g u (conv_MaxSeq c) now) (uconvs t) = (uconvs t)(?k \<mapsto> uc)"
            "uc_MinSeq uc = i64 (conv_MaxSeq c + 1)" "uc_MaxSeq uc = 0"
          by (rule joined_row_view)
        show ?thesis
          using uc' True \<open>has_room (conv_MaxSeq c)\<close> c room uc
          unfolding join(1) join_effect_def by (simp add: Let_def locked_Some)
      next
        case False
        then show ?thesis
          using uc' assms(3) unfolding join(1) join_effect_def by (auto simp: Let_def joined_uc_simps view_floor_def)
      qed
    next
      case (remove gid gr v now)
      then show ?thesis
        using uc' assms(3) by (auto simp: remove_effect_def Let_def alter_def view_floor_def split: option.splits if_splits)
    next
      case (read ow j uc1 c1 rd)
      then show ?thesis
        using uc' assms(3) by (auto simp: advance_read_def alter_def view_floor_def split: option.splits if_splits)
    next
      case (opt ow j uc1 a p)
      then show ?thesis
        using uc' assms(3) by (auto simp: view_floor_def split: if_splits)
    qed (use uc' assms(3) in \<open>auto simp: view_floor_def\<close>)
  qed
  then show ?thesis
    using c' by (auto simp: view_floor_def)
qed

lemma view_floor_steps:
  assumes "(nexo_step mm)\<^sup>*\<^sup>* t t'" "nexo_inv mm t" "view_floor t u g M"
  shows "view_floor t' u g M"
  using assms(1)
proof (induction rule: rtranclp_induct)
  case (step t1 t2)
  then show ?case
    using view_floor_step nexo_steps_inv [OF step(1) assms(2)] by blast
qed (rule assms(3))

lemma join_effect_view:
  assumes "nexo_ok mm t1" "can_join mm gid u t1" "convs t1 (GroupConv gid) = Some c"
  shows "members (join_effect gid u now t1) (gid, u) = Some (joined_member gid u now)"
    "view_floor (join_effect gid u now t1) u gid (conv_MaxSeq c)"
    "visible (join_effect gid u now t1) u (GroupConv gid) = {}"
proof -
  have "has_room (conv_MaxSeq c)" "0 \<le> conv_MaxSeq c"
    using assms(1,3) by (auto simp: nexo_ok_def roomy_def nexo_inv_def seq_inv_def)
  then have room: "i64 (conv_MaxSeq c + 1) = conv_MaxSeq c + 1"
    by (simp add: has_room_def i64_below)
  show "members (join_effect gid u now t1) (gid, u) = Some (joined_member gid u now)"
    by (simp add: join_effect_def Let_def)
  obtain uc where uc: "upsert_uc (joined_uc gid u (conv_MaxSeq c) now) (uconvs t1) = (uconvs t1)((u, GroupConv gid) \<mapsto> uc)"
      "uc_MinSeq uc = i64 (conv_MaxSeq c + 1)" "uc_MaxSeq uc = 0"
    by (rule joined_row_view)
  show "view_floor (join_effect gid u now t1) u gid (conv_MaxSeq c)"
    "visible (join_effect gid u now t1) u (GroupConv gid) = {}"
    using assms(3) room uc
    by (simp_all add: join_effect_def Let_def locked_Some view_floor_def visible_def VisibleMax_def)
qed

lemma Join_made:
  assumes "Join_outcome Rl mm b gid u now t w (Inr ()) t' w'" "others mm Rl" "nexo_ok mm t"
  shows "\<exists>c. convs t' (GroupConv gid) = Some c \<and> members t' (gid, u) \<noteq> None \<and> int (card (roster t' gid)) \<le> mm \<and>
    visible t' u (GroupConv gid) = {} \<and>
    (\<forall>t2. (nexo_step mm)\<^sup>*\<^sup>* t' t2 \<longrightarrow> visible t2 u (GroupConv gid) \<subseteq> {conv_MaxSeq c<..})"
  using assms(1)
proof (cases rule: Join_outcome.cases)
  case (joined t1)
  have ok: "nexo_ok mm t1"
    using nexo_rely_ok [OF othersD(1) [OF assms(2) joined(3)] assms(3)] .
  then obtain c where c: "convs t1 (GroupConv gid) = Some c"
    using joined(4) by (auto simp: can_join_def nexo_ok_def dest: group_conv)
  have inv: "nexo_inv mm t'"
    using nexo_step_inv [OF can_join_step [OF ok joined(4)]] ok joined(1) by (simp add: nexo_ok_def)
  note view = join_effect_view [OF ok joined(4) c, where now = now, folded joined(1)]
  have "int (card (roster t' gid)) \<le> mm"
    using inv joined(1,4) by (auto simp: nexo_inv_def size_inv_def can_join_def join_effect_def Let_def)
  moreover have "convs t' (GroupConv gid) = Some c"
    using joined(1) c by (simp add: join_effect_def Let_def locked_Some)
  moreover have "visible t2 u (GroupConv gid) \<subseteq> {conv_MaxSeq c<..}" if "(nexo_step mm)\<^sup>*\<^sup>* t' t2" for t2
    using view_floor_visible [OF view_floor_steps [OF that inv view(2)]] by blast
  ultimately show ?thesis
    using view by auto
qed

section \<open>Leaving\<close>

lemma remove_effect_view:
  assumes "nexo_inv mm t1" "can_remove gid op u t1"
  shows "members (remove_effect gid u now t1) (gid, u) = None"
    "visible (remove_effect gid u now t1) u (GroupConv gid) = visible t1 u (GroupConv gid)"
proof -
  show "members (remove_effect gid u now t1) (gid, u) = None"
    by (simp add: remove_effect_def Let_def)
  obtain uc where uc: "uconvs t1 (u, GroupConv gid) = Some uc" "uc_MaxSeq uc = 0"
    using assms unfolding can_remove_def nexo_inv_def member_inv_def by blast
  obtain c where c: "convs t1 (GroupConv gid) = Some c" "range_ok uc (conv_MaxSeq c)" "0 \<le> conv_MaxSeq c"
    using assms(1) uc(1) unfolding nexo_inv_def range_inv_def seq_inv_def by blast
  show "visible (remove_effect gid u now t1) u (GroupConv gid) = visible t1 u (GroupConv gid)"
    using uc c
    by (auto simp: remove_effect_def Let_def locked_Some visible_def VisibleMax_def alter_def range_ok_def)
qed

lemma removed_view:
  assumes "remove_outcome Rl b gid op u now t w (Inr ()) t' w'" "others mm Rl" "nexo_ok mm t"
  shows "\<exists>t1. Rl t t1 \<and> can_remove gid op u t1 \<and> members t' (gid, u) = None \<and>
    (\<forall>t2. (outside_step mm gid u)\<^sup>*\<^sup>* t' t2 \<longrightarrow> visible t2 u (GroupConv gid) = visible t1 u (GroupConv gid))"
  using assms(1)
proof (cases rule: remove_outcome.cases)
  case (removed t1)
  have inv: "nexo_inv mm t1"
    using nexo_rely_ok [OF othersD(1) [OF assms(2) removed(3)] assms(3)] by (simp add: nexo_ok_def)
  have inv': "nexo_inv mm t'"
    using nexo_step_inv [OF can_remove_step [OF removed(4)] inv] removed(1) by simp
  show ?thesis
    using removed remove_effect_view [OF inv removed(4)] outsider_view_steps [OF _ inv'] by metis
qed

section \<open>Reading\<close>

lemma advance_read_seq:
  assumes "uconvs t (u, i) = Some uc"
  shows "uconvs (t\<lparr>uconvs := advance_read u i s (uconvs t)\<rparr>) (u, i) = Some (uc\<lparr>uc_ReadSeq := max (uc_ReadSeq uc) s\<rparr>)"
  using assms by (simp add: advance_read_def alter_def)

lemma MarkRead_result:
  assumes "MarkRead_outcome Rl b u conn i readSeq t w (Inr s) t' w'" "others mm Rl" "nexo_ok mm t"
  shows "\<exists>uc c. uconvs t' (u, i) = Some uc \<and> convs t' i = Some c \<and> s \<le> uc_ReadSeq uc \<and>
    uc_ReadSeq uc \<le> VisibleMax uc (conv_MaxSeq c)"
    "c_notified w' = c_notified w \<or> c_notified w' = c_notified w @ [read_event u conn i s] \<and> s \<le> readSeq"
proof -
  have inv: "nexo_inv mm t'"
    using one_step_inv [OF assms(2) MarkRead_one_step [OF assms(2,1)]] assms(3) by (simp add: nexo_ok_def)
  have "\<exists>uc. uconvs t' (u, i) = Some uc \<and> s \<le> uc_ReadSeq uc"
    using assms(1)
  proof (cases rule: MarkRead_outcome.cases)
    case (mr_kept row)
    then show ?thesis
      using joined_row(3) [OF mr_kept(4) rely_keyed [OF assms(2,3) mr_kept(3)]] by auto
  next
    case (mr_advanced t1 row t2)
    then show ?thesis
      using advance_read_seq [of t2 u i] by (fastforce simp: sees_up_to_def)
  qed
  then show "\<exists>uc c. uconvs t' (u, i) = Some uc \<and> convs t' i = Some c \<and> s \<le> uc_ReadSeq uc \<and>
    uc_ReadSeq uc \<le> VisibleMax uc (conv_MaxSeq c)"
    using inv unfolding nexo_inv_def range_inv_def range_ok_def by blast
  show "c_notified w' = c_notified w \<or> c_notified w' = c_notified w @ [read_event u conn i s] \<and> s \<le> readSeq"
    using assms(1) by (cases rule: MarkRead_outcome.cases) (auto simp: read_target_def)
qed

text \<open>A user's read position in a conversation, zero without a row. No step moves it back: a join moves
  it to the end of the conversation, and the only row a removal deletes is one of an empty conversation.\<close>

definition read_pos :: "Tables \<Rightarrow> string \<times> string \<Rightarrow> int64" where
  "read_pos t k = (case uconvs t k of None \<Rightarrow> 0 | Some uc \<Rightarrow> uc_ReadSeq uc)"

lemma row_range:
  assumes "nexo_inv mm t" "uconvs t (ow, i) = Some uc"
  obtains c where "convs t i = Some c" "0 \<le> uc_ReadSeq uc" "uc_ReadSeq uc \<le> conv_MaxSeq c"
proof -
  obtain c where c: "convs t i = Some c" "range_ok uc (conv_MaxSeq c)"
    using assms unfolding nexo_inv_def range_inv_def by blast
  then have "0 \<le> uc_ReadSeq uc" "uc_ReadSeq uc \<le> conv_MaxSeq c"
    by (auto simp: range_ok_def VisibleMax_def split: if_splits)
  then show ?thesis
    using that c(1) by blast
qed

lemma read_pos_nonneg: "nexo_inv mm t \<Longrightarrow> 0 \<le> read_pos t k"
  by (cases k) (auto simp: read_pos_def split: option.split elim: row_range)

lemma read_pos_row:
  assumes "nexo_step mm t t'" "nexo_inv mm t" "uconvs t (ow, i) = Some uc"
  shows "(\<exists>uc'. uconvs t' (ow, i) = Some uc' \<and> uc_ReadSeq uc \<le> uc_ReadSeq uc') \<or> uc_ReadSeq uc \<le> 0"
proof -
  obtain c where c: "convs t i = Some c" "0 \<le> uc_ReadSeq uc" "uc_ReadSeq uc \<le> conv_MaxSeq c"
    using row_range [OF assms(2,3)] .
  show ?thesis
    using assms(1)
  proof (cases rule: nexo_step.cases)
    case (send inp j uuid now)
    have ne: "in_SessionType inp = ConversationSingle \<longrightarrow> in_SenderId inp \<noteq> in_RecvId inp"
      using send(2) by (auto simp: routable_def store_consts)
    obtain uc' where uc': "uconvs t' (ow, i) = Some uc'"
      using touched_dom [of "uconvs t" "(ow, i)" uc, OF assms(3)] unfolding send(1) send_effect_simps by (metis option.exhaust)
    show ?thesis
      using touched_row [OF uc' [unfolded send(1) send_effect_simps] ne] uc' assms(3) by (auto simp: row_kept_def row_new_def)
  next
    case (create gr ids now)
    have "i \<noteq> GroupConv (group_Id gr)"
      using SystemInv.no_group(1) [OF assms(2) create(2)] c(1) by auto
    then show ?thesis
      using create(1) assms(3) by auto
  next
    case (join gid v now)
    then show ?thesis
      using assms(3) c by (auto simp: join_effect_def Let_def joined_uc_simps locked_Some)
  next
    case (remove gid gr v now)
    then show ?thesis
      using assms(3) c by (auto simp: remove_effect_def Let_def alter_def locked_Some split: option.split)
  next
    case (read ow' j uc1 c1 rd)
    then show ?thesis
      using assms(3) by (auto simp: advance_read_def alter_def split: option.splits)
  next
    case (opt ow' j uc1 a p)
    then show ?thesis
      using assms(3) by auto
  qed (use assms(3) in auto)
qed

lemma read_pos_step:
  assumes "nexo_step mm t t'" "nexo_inv mm t"
  shows "read_pos t k \<le> read_pos t' k"
proof (cases "uconvs t k")
  case None
  then show ?thesis
    using read_pos_nonneg [OF nexo_step_inv [OF assms], of k] by (simp add: read_pos_def)
next
  case (Some uc)
  obtain ow i where k: "k = (ow, i)"
    by (cases k)
  show ?thesis
    using read_pos_row [OF assms Some [unfolded k]] read_pos_nonneg [OF nexo_step_inv [OF assms], of k] Some
    by (auto simp: read_pos_def k)
qed

lemma read_pos_steps: "(nexo_step mm)\<^sup>*\<^sup>* t t' \<Longrightarrow> nexo_inv mm t \<Longrightarrow> read_pos t k \<le> read_pos t' k"
proof (induction rule: rtranclp_induct)
  case (step t1 t2)
  then show ?case
    using read_pos_step [OF step(2) nexo_steps_inv [OF step(1) step.prems], of k] by simp
qed simp

text \<open>Against what the others alone have made of the rows, \<^verbatim>\<open>MarkRead\<close> moves at most its own position, and
  that forward.\<close>

definition others_rows :: "(PgTables \<Rightarrow> PgTables) list \<Rightarrow> Pg \<Rightarrow> PgTables" where
  "others_rows fs d = fold (\<lambda>f. f) fs (pg_rows d)"

lemma outside_query_rows:
  assumes "run_state (outside (query f q)) d = (x, d')"
  shows "\<exists>fs. pg_env d = fs @ pg_env d' \<and> (pg_rows d' = others_rows fs d \<or> pg_rows d' = snd (q (others_rows fs d))) \<and>
    (\<forall>y. x = Inr y \<longrightarrow> (\<exists>z. fst (q (others_rows fs d)) = Inr z \<and> f z = Inr y))"
proof (cases "pg_env d")
  case Nil
  then show ?thesis
    using assms
    by (auto simp: outside_def interfere_def query_def round_trip_def wrapped_def State_Monad.bind_def others_rows_def Let_def
        split: prod.splits drv_outcome.splits sum.splits)
next
  case (Cons g gs)
  then have "pg_env d = [g] @ pg_env d' \<and> (pg_rows d' = others_rows [g] d \<or> pg_rows d' = snd (q (others_rows [g] d))) \<and>
    (\<forall>y. x = Inr y \<longrightarrow> (\<exists>z. fst (q (others_rows [g] d)) = Inr z \<and> f z = Inr y))"
    using assms
    by (auto simp: outside_def interfere_def query_def round_trip_def wrapped_def State_Monad.bind_def others_rows_def Let_def
        split: prod.splits drv_outcome.splits sum.splits)
  then show ?thesis
    by blast
qed

lemma MarkRead_rows:
  assumes "run_state (MarkRead (pg_store :: (Pg, 'c) StoreTx) u conn i readSeq) (d, w) = (r, d', w')"
  shows "\<exists>fs. pg_env d = fs @ pg_env d' \<and>
    (pg_rows d' = others_rows fs d \<or> (\<exists>s. pg_rows d' = snd (gen_AdvanceReadSeq u i s (others_rows fs d))))"
proof (cases "readSeq < 1")
  case True
  then show ?thesis
    using assms by (auto simp: MarkRead_def others_rows_def)
next
  case False
  obtain x d1 where x: "run_state (outside (query Inr (gen_GetUserConversationRow u i))) d = (x, d1)"
    by fastforce
  obtain fs where fs: "pg_env d = fs @ pg_env d1" "pg_rows d1 = others_rows fs d"
      "\<And>row. x = Inr row \<Longrightarrow> sql_one (\<lambda>row. ucKey row = (u, i)) (sql_join (others_rows fs d)) = Inr row"
    using outside_query_rows [OF x] by (auto simp: gen_GetUserConversationRow_def)
  have read: "run_state (on_db (GetUserConversationRow (pg_store :: (Pg, 'c) StoreTx) u i)) (d, w) = (x, d1, w)"
    using x by (simp add: on_db_def pg_store_def pg_GetUserConversationRow_def)
  have adv: "AdvanceReadSeq (pg_store :: (Pg, 'c) StoreTx) u j s = outside (query Inr (gen_AdvanceReadSeq u j s))" for j s
    by (simp add: pg_store_def pg_AdvanceReadSeq_def)
  consider "d' = d1" | row s y d2 where "x = Inr row"
      "run_state (outside (query Inr (gen_AdvanceReadSeq u (uc_ConversationId row) s))) d1 = (y, d2)" "d' = d2"
  proof (cases x)
    case (Inl e)
    then show ?thesis
      using that(1) assms False read by (simp add: MarkRead_def State_Monad.bind_def)
  next
    case (Inr row)
    let ?s = "min readSeq (VisibleMax row (row_ConvMaxSeq row))"
    obtain y d2 where y: "run_state (outside (query Inr (gen_AdvanceReadSeq u (uc_ConversationId row) ?s))) d1 = (y, d2)"
      by fastforce
    then have "run_state (on_db (AdvanceReadSeq (pg_store :: (Pg, 'c) StoreTx) u (uc_ConversationId row) ?s)) (d1, w) = (y, d2, w)"
      by (simp add: on_db_def adv)
    then have "d' = d1 \<or> d' = d2"
      using assms False read Inr
      by (auto simp: MarkRead_def State_Monad.bind_def Let_def on_svc_def split: sum.splits if_splits)
    then show ?thesis
      using that y Inr by blast
  qed
  then show ?thesis
  proof cases
    case 1
    then show ?thesis
      using fs(1,2) by blast
  next
    case (2 row s y d2)
    have "ucKey row = (u, i)"
      using fs(3) [OF 2(1)] filter_eq_ConsD by (fastforce simp: sql_one_def no_rows_def split: list.splits)
    then have i: "uc_ConversationId row = i"
      by (simp add: ucKey_def)
    obtain gs where gs: "pg_env d1 = gs @ pg_env d2"
        "pg_rows d2 = others_rows gs d1 \<or> pg_rows d2 = snd (gen_AdvanceReadSeq u i s (others_rows gs d1))"
      using outside_query_rows [OF 2(2)] i by blast
    moreover have "others_rows gs d1 = others_rows (fs @ gs) d"
      using fs(2) by (simp add: others_rows_def)
    ultimately show ?thesis
      using fs(1) 2(3) by (intro exI [of _ "fs @ gs"]) auto
  qed
qed

lemma read_pos_advance:
  assumes "rows' = snd (gen_AdvanceReadSeq u i s rows)"
  shows "read_pos (pg_tabs rows) k \<le> read_pos (pg_tabs rows') k"
    "k \<noteq> (u, i) \<Longrightarrow> read_pos (pg_tabs rows') k = read_pos (pg_tabs rows) k"
  by (auto simp: assms gen_AdvanceReadSeq_def read_pos_def index_sql_update alter_def split: option.split)

lemma others_rows_steps:
  assumes "pg_ready mm Rl d" "pg_env d = fs @ rest"
  shows "pg_ok (others_rows fs d) \<and> (nexo_step mm)\<^sup>*\<^sup>* (pg_T d) (pg_tabs (others_rows fs d))"
  using assms(2)
proof (induction fs arbitrary: rest rule: rev_induct)
  case Nil
  then show ?case
    using pg_readyD(2) [OF assms(1)] by (simp add: others_rows_def pg_I_def pg_T_def)
next
  case (snoc f fs)
  have "pg_ok (others_rows fs d)" and steps: "(nexo_step mm)\<^sup>*\<^sup>* (pg_T d) (pg_tabs (others_rows fs d))"
    using snoc.IH [of "f # rest"] snoc.prems by simp_all
  then have "pg_ok (others_rows (fs @ [f]) d)" "Rl (pg_tabs (others_rows fs d)) (pg_tabs (others_rows (fs @ [f]) d))"
    using pg_readyD(2) [OF assms(1)] snoc.prems by (auto simp: pg_I_def env_ok_def others_rows_def)
  then show ?case
    using steps nexo_rely_steps [OF othersD(1) [OF pg_readyD(1) [OF assms(1)]]] by (meson rtranclp_trans)
qed

lemma MarkRead_forward:
  assumes "pg_ready mm Rl d" "run_state (MarkRead (pg_store :: (Pg, 'c) StoreTx) u conn i readSeq) (d, w) = (r, d', w')"
  shows "\<exists>fs. pg_env d = fs @ pg_env d' \<and>
    (\<forall>k. read_pos (pg_T d) k \<le> read_pos (pg_tabs (others_rows fs d)) k \<and>
       read_pos (pg_tabs (others_rows fs d)) k \<le> read_pos (pg_T d') k \<and>
       (k \<noteq> (u, i) \<longrightarrow> read_pos (pg_T d') k = read_pos (pg_tabs (others_rows fs d)) k))"
proof -
  obtain fs where fs: "pg_env d = fs @ pg_env d'"
      "pg_rows d' = others_rows fs d \<or> (\<exists>s. pg_rows d' = snd (gen_AdvanceReadSeq u i s (others_rows fs d)))"
    using MarkRead_rows [OF assms(2)] by blast
  have "read_pos (pg_T d) k \<le> read_pos (pg_tabs (others_rows fs d)) k" for k
    using read_pos_steps others_rows_steps [OF assms(1) fs(1)] pg_readyD(5) [OF assms(1)] by blast
  moreover have "read_pos (pg_tabs (others_rows fs d)) k \<le> read_pos (pg_T d') k \<and>
      (k \<noteq> (u, i) \<longrightarrow> read_pos (pg_T d') k = read_pos (pg_tabs (others_rows fs d)) k)" for k
    using fs(2)
  proof
    assume "\<exists>s. pg_rows d' = snd (gen_AdvanceReadSeq u i s (others_rows fs d))"
    then show ?thesis
      using read_pos_advance [of "pg_rows d'" u i _ "others_rows fs d" k] unfolding pg_T_def by blast
  qed (simp add: pg_T_def)
  ultimately show ?thesis
    using fs(1) by (intro exI [of _ fs]) simp
qed

lemma dm_Seq_MessageFromStore [simp]: "dm_Seq (MessageFromStore m) = msg_Seq m"
  by (simp add: MessageFromStore_def)

text \<open>The bounds of a pull for a caller who sees the row \<^verbatim>\<open>row\<close>.\<close>

lemma Pull_result:
  assumes "Pull_outcome Rl b inp pageMax t (Inr p) t'" "others mm Rl" "nexo_ok mm t"
  shows "\<exists>t1 row. Rl t t1 \<and> joined t1 (pl_UserId inp) (pl_ConversationId inp) = Some row \<and>
    (let seqs = [max (pl_BeginSeq inp) (uc_MinSeq row)..min (pl_EndSeq inp) (VisibleMax row (row_ConvMaxSeq row))];
         n = nat (page_limit (pl_Limit inp) pageMax)
     in map dm_Seq (pr_Messages p) = take n seqs \<and> (pr_HasMore p \<longleftrightarrow> n < length seqs)) \<and>
    set (pr_Messages p) \<subseteq> MessageFromStore ` {m. \<exists>s. msgs t1 (pl_ConversationId inp, s) = Some m}"
  using assms(1)
proof (cases rule: Pull_outcome.cases)
  case (pulled t1 row)
  have ok: "nexo_ok mm t1"
    using nexo_rely_ok [OF othersD(1) [OF assms(2) pulled(3)] assms(3)] .
  note seqs = pull_range_seqs [OF ok pulled(4,2)]
  have n: "0 < page_limit (pl_Limit inp) pageMax"
    using page_limit_bounds [of "pl_Limit inp" pageMax] by simp
  have "map dm_Seq (pr_Messages p) = take (nat (page_limit (pl_Limit inp) pageMax)) (map msg_Seq (pull_range t1 row inp))"
    using pulled(1) by (simp add: take_map comp_def)
  moreover have "pr_HasMore p \<longleftrightarrow> nat (page_limit (pl_Limit inp) pageMax) < length (map msg_Seq (pull_range t1 row inp))"
    using pulled(1) n by auto
  moreover have "set (pr_Messages p) \<subseteq> MessageFromStore ` {m. \<exists>s. msgs t1 (pl_ConversationId inp, s) = Some m}"
  proof -
    have "set (pull_range t1 row inp) \<subseteq> {m. \<exists>s. msgs t1 (pl_ConversationId inp, s) = Some m}"
      by (auto simp: pull_range_def VisibleRange_def set_messages_between)
    then show ?thesis
      using pulled(1) set_take_subset [of "nat (page_limit (pl_Limit inp) pageMax)" "pull_range t1 row inp"]
      by (simp add: image_mono)
  qed
  ultimately show ?thesis
    using pulled(3,4) unfolding seqs Let_def by blast
qed

end
