(* ===== verification/Sessions.thy ===== *)
theory Sessions
  imports Auth
begin

text \<open>
  Sessions end to end: what a token accepts after it was issued, superseded or revoked, what the
  chain of providers answers, and how long a nonce is good for, with the tokens and nonces in the
  in-process cache.
\<close>

definition accepts :: "LocalCache Native \<Rightarrow> AuthIdentity \<Rightarrow> time \<Rightarrow> LocalCache \<Rightarrow> bool" where
  "accepts n i t s \<longleftrightarrow> fst (run_state (Native_Check n i t) s) = Inr ()"

definition superseded :: go_error where
  "superseded = Errorf ''%w: superseded'' [Sentinel auth_ErrTokenExpired]"

lemma run_Native_Check:
  assumes "n_tokens n = local_cache"
  shows "fst (run_state (Native_Check n i t) s) =
    (if local_live s t (token_key (id_UserId i) (id_PlatformId i)) = Some (id_TokenId i) then Inr () else Inl superseded)"
  using assms
  by (auto simp: Native_Check_def tokens_Check_def State_Monad.bind_def local_cache_def run_local superseded_def
      split: option.splits prod.splits)

lemma accepts_live:
  "n_tokens n = local_cache \<Longrightarrow>
     accepts n i t s \<longleftrightarrow> local_live s t (token_key (id_UserId i) (id_PlatformId i)) = Some (id_TokenId i)"
  by (simp add: accepts_def run_Native_Check)

lemma issued_claims:
  assumes "jwt_ok j" "SignedString j secret claims = Inr token" "json_claims claims" "nc_ExpiresAt claims = Some exp"
  shows "now < exp \<Longrightarrow> ParseNative j secret now token = Inr claims"
    "exp \<le> now \<Longrightarrow> \<exists>e. ParseNative j secret now token = Inl e \<and> errors_Is e (Sentinel jwt_ErrTokenExpired)"
  using assms unfolding jwt_ok_def by (metis, metis not_le)

lemma run_native_check:
  "fst (run_state (native_check n claims exp cnow) s) =
     (case fst (run_state (Native_Check n (native_identity claims exp) cnow) s) of
        Inl e \<Rightarrow> Inl e | Inr _ \<Rightarrow> Inr (native_identity claims exp))"
  by (simp add: native_check_def State_Monad.bind_def split: prod.split)

lemma ParseActor_Valid: "ParseActor s = Inr a \<Longrightarrow> Valid s"
  using ParseActor_Inr [of s a] FormatInt_no_colon [of "actor_Id a"] FormatInt_nonempty [of "actor_Id a"]
  by (auto simp: Valid_def UserId_def prefix_defs Let_def split: Role.splits)

section \<open>What a session goes through\<close>

text \<open>The operations on the tokens and nonces, which share the node's cache.\<close>

datatype SessionOp = Login string int string | Logout string int string | Authenticate string | Recheck AuthIdentity
  | InternalCall InternalRequest | Sweep

text \<open>An operation with its clock readings, the node's and the cache's.\<close>

fun session_op :: "LocalCache Native \<Rightarrow> LocalCache Internal \<Rightarrow> SessionOp \<times> time \<times> time \<Rightarrow> LocalCache \<Rightarrow> LocalCache" where
  "session_op n i (Login u p uuid, now, cnow) s = snd (run_state (Issue n u p uuid now cnow) s)"
| "session_op n i (Logout u p tok, now, cnow) s = snd (run_state (Revoke n u p tok cnow) s)"
| "session_op n i (Authenticate token, now, cnow) s = snd (run_state (Native_Verify n now cnow token) s)"
| "session_op n i (Recheck a, now, cnow) s = snd (run_state (Native_Check n a cnow) s)"
| "session_op n i (InternalCall r, now, cnow) s = snd (run_state (Internal_Verify i r now cnow) s)"
| "session_op n i (Sweep, now, cnow) s = local_sweep cnow s"

definition session_run :: "LocalCache Native \<Rightarrow> LocalCache Internal \<Rightarrow> (SessionOp \<times> time \<times> time) list \<Rightarrow> LocalCache \<Rightarrow> LocalCache" where
  "session_run n i ops s = fold (session_op n i) ops s"

text \<open>What ends the session of a token: a later login of the same user on the same platform, unless it
  fails to sign, and a logout with this token.\<close>

fun ends :: "LocalCache Native \<Rightarrow> string \<Rightarrow> int \<Rightarrow> string \<Rightarrow> SessionOp \<times> time \<times> time \<Rightarrow> bool" where
  "ends n u p tok (Login u' p' uuid, now, _) \<longleftrightarrow> u' = u \<and> p' = p \<and> \<not> isl (SignedString (n_jwt n) (n_secret n) (native_claims n u' p' uuid now))"
| "ends n u p tok (Logout u' p' tok', _) \<longleftrightarrow> u' = u \<and> p' = p \<and> tok' = tok"
| "ends n u p tok _ \<longleftrightarrow> False"

text \<open>Platform numbers are Go integers, and a token id is used by one login.\<close>

fun later :: "string \<Rightarrow> time \<Rightarrow> SessionOp \<times> time \<times> time \<Rightarrow> bool" where
  "later tok t (Login u p uuid, now, cnow) \<longleftrightarrow> in_i64 p \<and> uuid \<noteq> tok \<and> 0 \<le> cnow \<and> cnow \<le> t"
| "later tok t (Logout u p tok', now, cnow) \<longleftrightarrow> in_i64 p \<and> 0 \<le> cnow \<and> cnow \<le> t"
| "later tok t (_, now, cnow) \<longleftrightarrow> 0 \<le> cnow \<and> cnow \<le> t"

lemma token_nonce_keys: "token_key u p \<noteq> nonce_key r"
  by (simp add: token_key_def nonce_key_def)

lemma Issue_local:
  assumes "n_tokens n = local_cache"
  shows "run_state (Issue n u p uuid now cnow) s =
    (case SignedString (n_jwt n) (n_secret n) (native_claims n u p uuid now) of
       Inl e \<Rightarrow> (Inl (Errorf ''auth: sign: %w'' [e]), s)
     | Inr token \<Rightarrow> (Inr (token, now + n_ttl n), snd (run_state (local_Set cnow (token_key u p) uuid (n_ttl n)) s)))"
  using assms by (simp add: Issue_def Let_def tokens_Set_def State_Monad.bind_def local_cache_def local_Set_def native_claims_def split: sum.split)

lemma Revoke_local: "n_tokens n = local_cache \<Longrightarrow> fst (run_state (Revoke n u p tok cnow) s) = Inr ()"
  by (simp add: Revoke_def tokens_Delete_def State_Monad.bind_def local_cache_def run_local)

lemma Verify_keeps:
  assumes "n_tokens n = local_cache" "cnow \<le> t"
  shows "local_live (snd (run_state (Native_Check n a cnow) s)) t k = local_live s t k"
    "local_live (snd (run_state (Native_Verify n now cnow token) s)) t k = local_live s t k"
proof -
  have check: "local_live (snd (run_state (Native_Check n a cnow) s)) t k = local_live s t k" for a
    using local.Native_Check_live(1) [OF assms(1) prod.collapse [symmetric] assms(2)] .
  then show "local_live (snd (run_state (Native_Check n a cnow) s)) t k = local_live s t k" .
  have "local_live (snd (run_state (native_check n claims exp cnow) s)) t k = local_live s t k" for claims exp
    using check [of "native_identity claims exp"] by (auto simp: native_check_def State_Monad.bind_def split: prod.split)
  then show "local_live (snd (run_state (Native_Verify n now cnow token) s)) t k = local_live s t k"
    by (simp add: Native_Verify_def split: sum.split option.split)
qed

text \<open>No operation but one that ends it touches the session of a token, and none brings it back.\<close>

lemma session_op_live:
  assumes "n_tokens n = local_cache" "i_nonces i = local_cache" "in_i64 p" "later tok t op"
  shows "local_live (session_op n i op s) t (token_key u p) = Some tok \<longleftrightarrow>
    local_live s t (token_key u p) = Some tok \<and> \<not> ends n u p tok op"
proof -
  obtain o1 now cnow where op: "op = (o1, now, cnow)"
    by (cases op) auto
  have c: "0 \<le> cnow" "cnow \<le> t"
    using assms(4) op by (cases o1; simp)+
  show ?thesis
  proof (cases o1)
    case (Login u' p' uuid)
    then have l: "in_i64 p'" "uuid \<noteq> tok"
      using assms(4) op by auto
    show ?thesis
    proof (cases "SignedString (n_jwt n) (n_secret n) (native_claims n u' p' uuid now)")
      case (Inl e)
      then show ?thesis
        using op Login by (simp add: Issue_local [OF assms(1)])
    next
      case (Inr token)
      then have run: "run_state (Issue n u' p' uuid now cnow) s = (Inr (token, now + n_ttl n), session_op n i op s)"
        using op Login by (simp add: Issue_local [OF assms(1)])
      show ?thesis
        using local.Issue_live(1) [OF assms(1) c(1) run c(2), of "token_key u p"] token_key_inj [OF assms(3) l(1), of u u'] op Login Inr l(2)
        by auto
    qed
  next
    case (Logout u' p' tok')
    then have "run_state (Revoke n u' p' tok' cnow) s = (Inr (), session_op n i op s)"
      using Revoke_local [OF assms(1)] op by (metis prod.collapse session_op.simps(2))
    then show ?thesis
      using local.revoked_never [OF assms(1) _ c(2)] token_key_inj [OF assms(3), of p' u u'] assms(4) op Logout by auto
  next
    case (InternalCall r)
    have "local_live (snd (run_state (Internal_Verify i r now cnow) s)) t (token_key u p) = local_live s t (token_key u p)"
      by (rule local.Internal_Verify_cases(3) [OF assms(2) c(1) prod.collapse [symmetric] c(2)]) (simp add: token_nonce_keys)
    then show ?thesis
      using op InternalCall by simp
  qed (use op c(2) in \<open>simp_all add: Verify_keeps [OF assms(1)] local_sweep_live\<close>)
qed

lemma session_run_live:
  assumes "n_tokens n = local_cache" "i_nonces i = local_cache" "in_i64 p" "list_all (later tok t) ops"
  shows "local_live (session_run n i ops s) t (token_key u p) = Some tok \<longleftrightarrow>
    local_live s t (token_key u p) = Some tok \<and> \<not> list_ex (ends n u p tok) ops"
  using assms(4) by (induction ops arbitrary: s) (auto simp: session_run_def session_op_live [OF assms(1-3)])

lemma verify_run_Nil: "verify_run i rs s = [] \<longleftrightarrow> rs = []"
  using length_verify_run [of i rs s] by (metis length_0_conv)

text \<open>While a nonce is held, the requests in between leave its entry as it is.\<close>

lemma held_until:
  assumes "i_nonces i = local_cache" "0 \<le> cn" "sorted (cn # map (\<lambda>x. snd (snd x)) rs)" "list_all (\<lambda>x. snd (snd x) < end) rs"
    and "\<And>t. cn \<le> t \<Longrightarrow> local_live s t (nonce_key r) = (if t < end then Some v else None)"
    and "internal_checks i r now = None" "cn \<le> end"
  shows "List.last (verify_run i (rs @ [(r, now, end)]) s) = Inr ()"
  using assms(2-7)
proof (induction rs arbitrary: s cn)
  case Nil
  then show ?case
    using assms(1) by (simp add: Internal_Verify_def State_Monad.bind_def local_cache_def run_local)
next
  case (Cons x rs)
  obtain r1 n1 c1 where x: "x = (r1, n1, c1)"
    by (cases x) auto
  obtain y s1 where y: "run_state (Internal_Verify i r1 n1 c1) s = (y, s1)"
    by fastforce
  have c1: "0 \<le> c1" "cn \<le> c1" "c1 < end"
    using Cons.prems x by auto
  have "local_live s1 t (nonce_key r) = (if t < end then Some v else None)" if "c1 \<le> t" for t
    using local.Internal_Verify_cases(3) [OF assms(1) c1(1) y that, of "nonce_key r"] Cons.prems(4) [of c1] Cons.prems(4) [of t] c1 that
    by simp
  then have "List.last (verify_run i (rs @ [(r, now, end)]) s1) = Inr ()"
    using Cons.IH [of c1 s1] Cons.prems(2,3,5) c1 x by simp
  then show ?case
    using x y by (simp add: verify_run_Nil)
qed

section \<open>A token library and requests for the examples\<close>

definition demo_claims :: NativeClaims where
  "demo_claims = \<lparr>nc_PlatformId = 1, nc_Subject = ''nx__a'', nc_Id = ''t1'', nc_IssuedAt = Some 0, nc_ExpiresAt = Some 60000000000\<rparr>"

definition demo_jwt :: Jwt where
  "demo_jwt = \<lparr>NewNumericDate = (\<lambda>t. t - t mod second),
     SignedString = (\<lambda>_ claims. if claims = demo_claims then Inr ''tok'' else Inl (Foreign ''no'')),
     ParseNative = (\<lambda>_ now token. if token \<noteq> ''tok'' then Inl (Foreign ''malformed'')
       else if now < 60000000000 then Inr demo_claims else Inl (Sentinel jwt_ErrTokenExpired)),
     ParseExternal = (\<lambda>_ _ _. Inr \<lparr>xc_UserId = 7, xc_Role = ''agent'', xc_ExpiresAt = Some 60000000000\<rparr>)\<rparr>"

definition demo_native :: "LocalCache Native" where
  "demo_native = \<lparr>n_secret = ''s'', n_ttl = 60 * second, n_tokens = local_cache, n_jwt = demo_jwt\<rparr>"

definition demo_login :: "(string \<times> time) result \<times> LocalCache" where
  "demo_login = run_state (Issue demo_native ''nx__a'' 1 ''t1'' 0 0) local_New"

lemma demo_jwt_ok: "jwt_ok demo_jwt"
  by (auto simp: jwt_ok_def demo_jwt_def demo_claims_def)

lemma demo_login_run: "run_state (Issue demo_native ''nx__a'' 1 ''t1'' 0 0) local_New = (Inr (''tok'', 60000000000), snd demo_login)"
proof -
  have "fst (run_state (Issue demo_native ''nx__a'' 1 ''t1'' 0 0) local_New) = Inr (''tok'', 60000000000)"
    by code_simp
  then show ?thesis
    unfolding demo_login_def by (metis prod.collapse)
qed

lemma demo_tokens: "n_tokens demo_native = local_cache" "jwt_ok (n_jwt demo_native)" "n_ttl demo_native = 60000000000"
  by (simp_all add: demo_native_def demo_jwt_ok second_def)

text \<open>A stand-in for the digest and the HMAC.\<close>

definition demo_sha :: "string \<Rightarrow> string" where
  "demo_sha b = filter (\<lambda>c. c \<noteq> CHR 0x0A) b"

definition demo_hmac :: "string \<Rightarrow> string \<Rightarrow> string" where
  "demo_hmac k m = k @ map (\<lambda>c. if c = CHR 0x0A then CHR '';'' else c) m"

definition demo_internal :: "LocalCache Internal" where
  "demo_internal = \<lparr>i_secrets = [''s''], i_services = [''svc''], i_skew = 5 * second, i_nonces = local_cache,
     i_sha256 = demo_sha, i_hmac = demo_hmac\<rparr>"

section \<open>Tokens\<close>

text \<open>C15: the token a login returns, whatever logins, logouts, checks, internal requests and sweeps of the
  cache come after it: from the second in which it expires it is refused as expired; before that it
  verifies as that user, platform and token id unless a later login of the user on the platform or a
  logout with this token has ended the session or its entry in the store has run out, and then it
  is refused as superseded. The token library keeps ASCII claims with whole seconds, and no later
  login draws the same token id.\<close>

theorem login_verifies:
  assumes "n_tokens n = local_cache" "i_nonces i = local_cache" "jwt_ok (n_jwt n)"
    and "run_state (Issue n u p uuid now cnow) s = (Inr (token, expiresAt), s')"
    and "IsNative u" "ascii u" "1 \<le> p" "p \<le> MaxPlatformId" "uuid \<noteq> []" "ascii uuid"
    and "0 \<le> now" "0 \<le> n_ttl n" "now + n_ttl n < 2 ^ 53 * second" "0 \<le> cnow" "cnow \<le> cnow'"
    and "list_all (later uuid cnow') ops"
  shows "fst (run_state (Native_Verify n now' cnow' token) (session_run n i ops s')) =
    (let exp = expiresAt - expiresAt mod second in
     if exp \<le> now' then Inl (Sentinel auth_ErrTokenExpired)
     else if list_ex (ends n u p uuid) ops \<or> \<not> lasts cnow (n_ttl n) cnow' then Inl superseded
     else Inr \<lparr>id_UserId = u, id_Role = ''user'', id_PlatformId = p, id_TokenId = uuid,
               id_ExpiresAt = UnixMilli exp, id_Source = SourceNative\<rparr>)"
proof -
  let ?claims = "native_claims n u p uuid now" and ?exp = "expiresAt - expiresAt mod second"
  have p: "in_i64 p"
    using assms(7,8) by (simp add: in_i64_def MaxPlatformId_def)
  note issued = local.Issue_live [OF assms(1,14,4,15)]
  note claims = json_native_claims [OF assms(3) p assms(6,10-13), folded issued(3)]
  have ok: "\<not> native_malformed ?claims"
    using assms(5,7-9) by (simp add: native_claims_def native_malformed_def)
  have live: "local_live (session_run n i ops s') cnow' (token_key u p) = Some uuid \<longleftrightarrow>
      \<not> list_ex (ends n u p uuid) ops \<and> lasts cnow (n_ttl n) cnow'"
    using session_run_live [OF assms(1,2) p assms(16)] issued(1) by auto
  show ?thesis
  proof (cases "now' < ?exp")
    case True
    then show ?thesis
      using issued_claims(1) [OF assms(3) issued(2) claims True] claims(2) ok live
      by (simp add: Native_Verify_def run_native_check run_Native_Check [OF assms(1)] Let_def) (simp add: native_identity_def native_claims_def)
  next
    case False
    then show ?thesis
      using issued_claims(2) [OF assms(3) issued(2) claims, of now'] by (auto simp: Native_Verify_def mapJwtErr_def Let_def)
  qed
qed

theorem login_verifies_witness:
  "fst (run_state (Native_Verify demo_native 5 5 ''tok'')
     (session_run demo_native demo_internal [(Logout ''nx__a'' 1 ''t0'', 3, 3), (Sweep, 4, 4)] (snd demo_login))) =
     Inr \<lparr>id_UserId = ''nx__a'', id_Role = ''user'', id_PlatformId = 1, id_TokenId = ''t1'', id_ExpiresAt = 60000, id_Source = SourceNative\<rparr> \<and>
   fst (run_state (Native_Verify demo_native 5 5 ''tok'')
     (session_run demo_native demo_internal [(Logout ''nx__a'' 1 ''t1'', 3, 3)] (snd demo_login))) = Inl superseded"
proof -
  have "IsNative ''nx__a''" "ascii ''nx__a''" "ascii ''t1''" "i_nonces demo_internal = local_cache"
    by (code_simp, code_simp, code_simp, simp add: demo_internal_def)
  then show ?thesis
    using login_verifies [OF demo_tokens(1) _ demo_tokens(2) demo_login_run, of demo_internal 5 "[(Logout ''nx__a'' 1 ''t0'', 3, 3), (Sweep, 4, 4)]" 5]
      login_verifies [OF demo_tokens(1) _ demo_tokens(2) demo_login_run, of demo_internal 5 "[(Logout ''nx__a'' 1 ''t1'', 3, 3)]" 5]
    by (simp add: MaxPlatformId_def demo_tokens(3) second_def UnixMilli_def millisecond_def in_i64_def lasts_def)
qed

text \<open>C16: a login supersedes the user's earlier token on that platform and touches no other session:
  afterwards the only token accepted for the user and platform is the new one, for its lifetime,
  and every other session is accepted exactly when it was.\<close>

theorem login_supersedes:
  assumes "n_tokens n = local_cache" "0 \<le> cnow" "run_state (Issue n u p uuid now cnow) s = (Inr x, s')"
    and "cnow \<le> t" "in_i64 p" "in_i64 (id_PlatformId i)"
  shows "accepts n i t s' \<longleftrightarrow>
    (if id_UserId i = u \<and> id_PlatformId i = p then id_TokenId i = uuid \<and> lasts cnow (n_ttl n) t else accepts n i t s)"
proof -
  obtain token exp where x: "x = (token, exp)"
    by (cases x)
  show ?thesis
    using local.Issue_live(1) [OF assms(1,2) assms(3) [unfolded x] assms(4)] token_key_inj [OF assms(6,5)]
    by (auto simp: accepts_live [OF assms(1)])
qed

definition demo_identity :: "string \<Rightarrow> AuthIdentity" where
  "demo_identity tok = \<lparr>id_UserId = ''nx__a'', id_Role = ''user'', id_PlatformId = 1, id_TokenId = tok, id_ExpiresAt = 60000, id_Source = SourceNative\<rparr>"

theorem login_supersedes_witness:
  "accepts demo_native (demo_identity ''t1'') 5 (snd demo_login) \<and> \<not> accepts demo_native (demo_identity ''t0'') 5 (snd demo_login)"
  using login_supersedes [OF demo_tokens(1) order_refl demo_login_run, of 5]
  by (simp add: demo_identity_def lasts_def demo_tokens(3) in_i64_def)

text \<open>C17: a logout ends the session of its own token and no other: afterwards a session is accepted
  exactly when it was accepted before and is not the revoked one. So a logout that arrives late,
  after a newer login, leaves the newer session alone.\<close>

theorem logout_ends_own_session:
  assumes "n_tokens n = local_cache" "run_state (Revoke n u p tok cnow) s = (Inr (), s')"
    and "cnow \<le> t" "in_i64 p" "in_i64 (id_PlatformId i)"
  shows "accepts n i t s' \<longleftrightarrow> accepts n i t s \<and> (id_UserId i, id_PlatformId i, id_TokenId i) \<noteq> (u, p, tok)"
  using local.revoked_never [OF assms(1-3)] token_key_inj [OF assms(5,4)] by (auto simp: accepts_live [OF assms(1)])

theorem logout_ends_own_session_witness:
  "let s' = snd (run_state (Revoke demo_native ''nx__a'' 1 ''t0'' 3) (snd demo_login))
   in accepts demo_native (demo_identity ''t1'') 5 s'"
proof -
  let ?run = "run_state (Revoke demo_native ''nx__a'' 1 ''t0'' 3) (snd demo_login)"
  have "fst ?run = Inr ()" and acc: "fst (run_state (Native_Check demo_native (demo_identity ''t1'') 5) (snd demo_login)) = Inr ()"
    by code_simp+
  then have "?run = (Inr (), snd ?run)"
    by (metis prod.collapse)
  from logout_ends_own_session [OF demo_tokens(1) this, of 5 "demo_identity ''t1''"] show ?thesis
    using acc by (simp add: accepts_def demo_identity_def in_i64_def)
qed

section \<open>Providers\<close>

text \<open>C18: the chain accepts a token exactly when one of the providers it asks does, with that
  provider's identity. When all refuse, the answer is the last refusal that says the token is
  expired or the store unavailable, whichever providers refuse it as invalid after that one; and
  only when there is none, the last provider's refusal. So a token that met an outage is never
  reported as a bad one.\<close>

theorem chain_reports_terminal:
  assumes "run_state (Chain_Verify as token) s = (r, s')"
  shows "(\<forall>i. r = Inr i \<longleftrightarrow> Inr i \<in> set (chain_answers as token s)) \<and>
    (\<forall>e. r = Inl e \<longrightarrow> (let es = refusals (chain_answers as token s) in
       e = (if filter terminal es = [] then List.last (Sentinel auth_ErrTokenInvalid # es) else List.last (filter terminal es))))"
proof -
  have "\<not> terminal (Sentinel auth_ErrTokenInvalid)"
    by (simp add: terminal_def)
  then have "standing (Sentinel auth_ErrTokenInvalid) es =
      (if filter terminal es = [] then List.last (Sentinel auth_ErrTokenInvalid # es) else List.last (filter terminal es))" for es
    by (simp add: standing_def)
  then show ?thesis
    using chain_loop_answers [OF assms [unfolded Chain_Verify_def]] unfolding Let_def by metis
qed

definition demo_chain :: "(string \<Rightarrow> (LocalCache, AuthIdentity result) state) list" where
  "demo_chain = [\<lambda>_. State_Monad.return (Inl (Sentinel auth_ErrUnavailable)), \<lambda>_. State_Monad.return (Inl (Sentinel auth_ErrTokenInvalid))]"

theorem chain_reports_terminal_witness:
  "fst (run_state (Chain_Verify demo_chain ''tok'') local_New) = Inl (Sentinel auth_ErrUnavailable)"
proof -
  have "isl (fst (run_state (Chain_Verify demo_chain ''tok'') local_New))"
    by code_simp
  then obtain e where e: "fst (run_state (Chain_Verify demo_chain ''tok'') local_New) = Inl e"
    by (metis sum.collapse(1))
  have "terminal (Sentinel auth_ErrUnavailable)" "\<not> terminal (Sentinel auth_ErrTokenInvalid)"
    by (simp_all add: terminal_def)
  then show ?thesis
    using chain_reports_terminal [OF prod.collapse [symmetric], of demo_chain "''tok''" local_New] e
    by (simp add: demo_chain_def State_Monad.bind_def)
qed

text \<open>C19: the identity an accepted platform token gives: the claims are those of the first configured
  secret that does not refuse the signature, they have an expiry and a positive user number, and the user id is the one
  spelling of that number as user or agent; the role, the expiry and the token id come from the
  token, and the platform is left zero, for the request to name.\<close>

theorem external_identity_wellformed:
  assumes "External_Verify e now token = Inr i"
    and "\<forall>secret claims. ParseExternal (x_jwt e) secret now token = Inr claims \<longrightarrow> in_i64 (xc_UserId claims)"
  shows "\<exists>claims exp. signed_with e now token claims \<and> xc_ExpiresAt claims = Some exp \<and> 0 < xc_UserId claims \<and>
    ParseActor (id_UserId i) = Inr \<lparr>actor_Id = xc_UserId claims, actor_Role = role_of (id_Role i)\<rparr> \<and> Valid (id_UserId i) \<and>
    id_Role i \<in> {''user'', ''agent''} \<and> id_Role i = (if xc_Role claims \<noteq> [] then xc_Role claims else x_defaultRole e) \<and>
    id_PlatformId i = 0 \<and> id_TokenId i = x_sha256 e token \<and> id_ExpiresAt i = UnixMilli exp \<and> id_Source i = SourceExternal"
proof -
  obtain claims exp where c: "signed_with e now token claims" "xc_ExpiresAt claims = Some exp" "0 < xc_UserId claims"
    and role: "role_of (external_role e claims) \<in> {RoleUser, RoleAgent}"
    and actor: "ParseActor (id_UserId i) = Inr \<lparr>actor_Id = xc_UserId claims, actor_Role = role_of (external_role e claims)\<rparr>"
    and i: "i = \<lparr>id_UserId = id_UserId i, id_Role = external_role e claims, id_PlatformId = 0, id_TokenId = x_sha256 e token,
         id_ExpiresAt = UnixMilli exp, id_Source = SourceExternal\<rparr>"
    using External_Verify_actor [OF assms(1)] assms(2) by metis
  have "id_Role i = external_role e claims" "id_PlatformId i = 0" "id_TokenId i = x_sha256 e token" "id_ExpiresAt i = UnixMilli exp"
      "id_Source i = SourceExternal"
    by (subst i, simp)+
  moreover have "external_role e claims \<in> {''user'', ''agent''}"
    using role role_of_cases by auto
  ultimately show ?thesis
    using c actor ParseActor_Valid [OF actor] by (auto simp: external_role_def)
qed

definition demo_external :: External where
  "demo_external = \<lparr>x_secrets = [''s''], x_defaultRole = ''user'', x_jwt = demo_jwt, x_sha256 = (\<lambda>t. t)\<rparr>"

theorem external_identity_wellformed_witness: "Valid ''ag__7'' \<and> ParseActor ''ag__7'' = Inr \<lparr>actor_Id = 7, actor_Role = RoleAgent\<rparr>"
proof -
  have run: "External_Verify demo_external 0 ''tok'' =
      Inr \<lparr>id_UserId = ''ag__7'', id_Role = ''agent'', id_PlatformId = 0, id_TokenId = ''tok'', id_ExpiresAt = 60000, id_Source = SourceExternal\<rparr>"
    by code_simp
  have "\<forall>secret claims. ParseExternal (x_jwt demo_external) secret 0 ''tok'' = Inr claims \<longrightarrow> in_i64 (xc_UserId claims)"
    by (auto simp: demo_external_def demo_jwt_def in_i64_def)
  from external_identity_wellformed [OF run this] obtain claims where "signed_with demo_external 0 ''tok'' claims" "Valid ''ag__7''"
      "ParseActor ''ag__7'' = Inr \<lparr>actor_Id = xc_UserId claims, actor_Role = role_of ''agent''\<rparr>"
    by auto
  then show ?thesis
    by (auto simp: signed_with_def demo_external_def demo_jwt_def role_of_def)
qed

section \<open>Internal requests\<close>

text \<open>C20: a nonce is accepted once: of two accepted requests of a service with the same nonce, the
  second came at least twice the clock skew after the first, whatever requests came in between.\<close>

theorem replay_refused:
  assumes "i_nonces i = local_cache" "sorted (map (\<lambda>x. snd (snd x)) rs)" "\<forall>(r, now, cnow) \<in> set rs. 0 \<le> cnow"
    and "j < k" "k < length rs" "rs ! j = (r, now, cnow)" "rs ! k = (r', now', cnow')" "nonce_key r = nonce_key r'"
    and "verify_run i rs s ! j = Inr ()" "verify_run i rs s ! k = Inr ()" "0 < i_skew i"
  shows "cnow + 2 * i_skew i \<le> cnow'"
  by (rule local.nonce_accepted_once [OF assms])

definition demo_request :: InternalRequest where
  "demo_request = (let r = \<lparr>ir_Service = ''svc'', ir_Timestamp = ''100'', ir_Nonce = ''0123456789abcdef'', ir_Method = ''POST'',
     ir_RawPath = ''/p'', ir_RawQuery = [], ir_UserId = ''u___1'', ir_PlatformId = ''1'', ir_Body = ''{}'', ir_Signature = []\<rparr>
     in r\<lparr>ir_Signature := Sign demo_sha demo_hmac ''s'' r\<rparr>)"

definition demo_requests :: "(InternalRequest \<times> time \<times> time) list" where
  "demo_requests = [(demo_request, 95 * second, 95 * second), (demo_request, 100 * second, 100 * second),
     (demo_request, 105 * second, 105 * second)]"

lemma demo_verified: "verify_run demo_internal demo_requests local_New = [Inr (), Inl (Sentinel auth_ErrNonceReplayed), Inr ()]"
  by code_simp

theorem replay_refused_witness: "95 * second + 2 * i_skew demo_internal \<le> 105 * second"
proof (rule replay_refused [where i = demo_internal and rs = demo_requests and s = local_New and j = 0 and k = 2])
  show "sorted (map (\<lambda>x. snd (snd x)) demo_requests)" "\<forall>(r, now, cnow) \<in> set demo_requests. 0 \<le> cnow"
    by (simp_all add: demo_requests_def second_def)
  show "verify_run demo_internal demo_requests local_New ! 0 = Inr ()" "verify_run demo_internal demo_requests local_New ! 2 = Inr ()"
    by (simp_all add: demo_verified)
qed (simp_all add: demo_internal_def demo_requests_def second_def)

text \<open>C21: a nonce is forgotten a moment too early: a request accepted at the very start of its time
  window is accepted a second time at the very end of it, whatever internal requests the node checks in between.\<close>

theorem replay_at_window_end:
  assumes "i_nonces i = local_cache" "0 < i_skew i" "ParseInt (ir_Timestamp r) = Some ts" "0 \<le> cnow"
    and "sorted (cnow # map (\<lambda>x. snd (snd x)) rs)" "list_all (\<lambda>x. snd (snd x) < cnow + 2 * i_skew i) rs"
    and "hd (verify_run i ((r, ts * second - i_skew i, cnow) # rs @ [(r, ts * second + i_skew i, cnow + 2 * i_skew i)]) s) = Inr ()"
  shows "List.last (verify_run i ((r, ts * second - i_skew i, cnow) # rs @ [(r, ts * second + i_skew i, cnow + 2 * i_skew i)]) s) = Inr ()"
proof -
  let ?t = "cnow + 2 * i_skew i"
  obtain x s1 where x: "run_state (Internal_Verify i r (ts * second - i_skew i) cnow) s = (x, s1)"
    by fastforce
  have first: "internal_checks i r (ts * second - i_skew i) = None" "local_live s cnow (nonce_key r) = None"
      "s1 = s(nonce_key r \<mapsto> \<lparr>e_val = ''1'', e_exp = expiry cnow (2 * i_skew i)\<rparr>)"
    using assms(1,7) x
    by (auto simp: Internal_Verify_def State_Monad.bind_def local_cache_def run_local split: option.splits if_splits)
  have "local_live s1 t (nonce_key r) = (if t < ?t then Some ''1'' else None)" if "cnow \<le> t" for t
    using assms(2,4) alive_written [OF assms(4), of "''1''" "2 * i_skew i" t] by (simp add: first(3) local_live_def lasts_def)
  moreover have "internal_checks i r (ts * second + i_skew i) = None"
    using first(1) assms(2,3) by (auto simp: internal_checks_def sub_abs_def Let_def split: if_splits)
  ultimately have "List.last (verify_run i (rs @ [(r, ts * second + i_skew i, ?t)]) s1) = Inr ()"
    using held_until [OF assms(1), of cnow rs ?t s1 r "''1''"] assms(2,4,5,6) by simp
  then show ?thesis
    using x by (simp add: verify_run_Nil)
qed

theorem replay_at_window_end_witness:
  "List.last (verify_run demo_internal demo_requests local_New) = Inr ()"
proof -
  have "demo_requests = (demo_request, 100 * second - i_skew demo_internal, 95 * second) # [(demo_request, 100 * second, 100 * second)] @
      [(demo_request, 100 * second + i_skew demo_internal, 95 * second + 2 * i_skew demo_internal)]"
    by (simp add: demo_requests_def demo_internal_def)
  moreover have "ParseInt (ir_Timestamp demo_request) = Some 100"
    by code_simp
  ultimately show ?thesis
    using replay_at_window_end [of demo_internal demo_request 100 "95 * second" "[(demo_request, 100 * second, 100 * second)]" local_New]
      demo_verified by (simp add: demo_internal_def second_def)
qed

text \<open>C22: two internal requests that pass the check with the same signature are the same request, in
  service, timestamp, nonce, method, path, query, user, platform and body, unless the two
  texts collide under the HMAC or the two bodies under the digest. The requests come from HTTP, whose methods, request targets and
  header values hold no newline; the digest is hexadecimal text.\<close>

theorem signed_text_binds_fields:
  assumes "http_ok q" "http_ok q'" "\<forall>b. one_line (i_sha256 i b)"
    and "internal_checks i (internal_request q) now = None" "internal_checks i (internal_request q') now' = None"
    and "ht_Header q ''X-Signature'' = ht_Header q' ''X-Signature''"
  shows "internal_request q = internal_request q' \<or>
    (payload (i_sha256 i) (internal_request q) \<noteq> payload (i_sha256 i) (internal_request q') \<and>
     (\<exists>k \<in> set (i_secrets i). \<exists>k' \<in> set (i_secrets i).
        Sign (i_sha256 i) (i_hmac i) k (internal_request q) = Sign (i_sha256 i) (i_hmac i) k' (internal_request q'))) \<or>
    (ht_Body q \<noteq> ht_Body q' \<and> i_sha256 i (ht_Body q) = i_sha256 i (ht_Body q'))"
proof -
  let ?r = "internal_request q" and ?r' = "internal_request q'"
  have sig: "ir_Signature ?r = ir_Signature ?r'" "ir_Body ?r = ht_Body q" "ir_Body ?r' = ht_Body q'"
    using assms(6) by (simp_all add: internal_request_def Let_def split: prod.split)
  have k: "\<exists>k \<in> set (i_secrets i). \<exists>k' \<in> set (i_secrets i). Sign (i_sha256 i) (i_hmac i) k ?r = Sign (i_sha256 i) (i_hmac i) k' ?r'"
    using internal_checks_signed [OF assms(4)] internal_checks_signed [OF assms(5)] sig(1) by metis
  consider "payload (i_sha256 i) ?r \<noteq> payload (i_sha256 i) ?r'" | "payload (i_sha256 i) ?r = payload (i_sha256 i) ?r'"
    by blast
  then show ?thesis
  proof cases
    case 1
    then show ?thesis
      using k by blast
  next
    case 2
    then have "request_lines (i_sha256 i) ?r = request_lines (i_sha256 i) ?r'"
      using join_lines_inj [OF internal_request_lines internal_request_lines, OF assms(1) _ assms(2), of "i_sha256 i" "i_sha256 i"] assms(3)
      by (simp add: payload_def request_lines_def)
    then show ?thesis
      using sig by (cases "ir_Body ?r = ir_Body ?r'") (auto simp: request_lines_def)
  qed
qed

definition demo_http :: "string \<Rightarrow> HttpRequest" where
  "demo_http agent = \<lparr>ht_Method = ''POST'', ht_RequestURI = ''/p'', ht_Header = (\<lambda>k. if k = ''X-Service-Name'' then ''svc''
     else if k = ''X-Timestamp'' then ''100'' else if k = ''X-Nonce'' then ''0123456789abcdef'' else if k = ''X-User-Id'' then ''u___1''
     else if k = ''X-Platform-Id'' then ''1'' else if k = ''X-Signature'' then ir_Signature demo_request
     else if k = ''User-Agent'' then agent else []), ht_Body = ''{}''\<rparr>"

lemma demo_http_request: "internal_request (demo_http agent) = demo_request"
  by (simp add: internal_request_def demo_http_def demo_request_def Let_def Cut_query_def)

lemma demo_http_ok: "one_line agent \<Longrightarrow> http_ok (demo_http agent)"
proof -
  have "one_line (ir_Signature demo_request)" "one_line ''POST''" "one_line ''/p''" "one_line ''svc''" "one_line ''100''"
      "one_line ''0123456789abcdef''" "one_line ''u___1''" "one_line ''1''" "one_line []"
    by code_simp+
  then show "one_line agent \<Longrightarrow> http_ok (demo_http agent)"
    by (simp add: http_ok_def demo_http_def)
qed

theorem signed_text_binds_fields_witness:
  "internal_checks demo_internal (internal_request (demo_http ''b'')) (100 * second) = None \<and>
   internal_request (demo_http ''a'') = internal_request (demo_http ''b'')"
proof -
  have ok: "one_line ''a''" "one_line ''b''" "internal_checks demo_internal demo_request (100 * second) = None"
    by code_simp+
  have "\<forall>b. one_line (i_sha256 demo_internal b)"
    by (simp add: demo_internal_def demo_sha_def one_line_def)
  from signed_text_binds_fields [OF demo_http_ok demo_http_ok, OF ok(1,2) this, of "100 * second" "100 * second"] show ?thesis
    using ok(3) by (simp add: demo_http_request)
qed

end
