(* ===== verification/Config.thy ===== *)
theory Config
  imports Errcode
begin

text \<open>
  \<^verbatim>\<open>internal/config/config.go\<close>: the configuration, its defaults, \<^verbatim>\<open>Validate\<close> and \<^verbatim>\<open>Redacted\<close>.
  \<^verbatim>\<open>Validate\<close> is shown to accept exactly the configurations that satisfy a list of rules, and
  \<^verbatim>\<open>Redacted\<close> to depend on no secret. What reading a CIDR and a MySQL DSN gives is a parameter.
\<close>

section \<open>The configuration\<close>

record ServerConfig =
  srv_Addr :: string
  srv_TrustedProxies :: "string list"

record DbConfig =
  db_Driver :: string
  db_Access :: string
  db_Dsn :: string
  db_MaxOpenConns :: int
  db_Injected :: bool

record RedisConfig =
  redis_Addr :: string
  redis_Password :: string
  redis_Db :: int

record BusConfig =
  bus_Driver :: string

record OnlineStoreConfig =
  os_Driver :: string
  os_Ttl :: duration
  os_RenewInterval :: duration

record CacheConfig =
  ca_Driver :: string
  ca_CleanerInterval :: duration

record OfflinePushConfig =
  op_Driver :: string
  op_WebhookUrl :: string
  op_WebhookSecret :: string
  op_Timeout :: duration

record ExternalJwtConfig =
  xj_Secrets :: "string list"
  xj_DefaultRole :: string

record NativeAuthConfig =
  na_Secret :: string
  na_ExpireHours :: int

record AuthConfig =
  au_Providers :: "string list"
  au_Injected :: bool
  au_DefaultPlatformId :: int
  au_ExternalJwt :: ExternalJwtConfig
  au_Native :: NativeAuthConfig

record InternalAuthConfig =
  ia_Enabled :: bool
  ia_Secret :: string
  ia_Secrets :: "string list"
  ia_AllowedServices :: "string list"
  ia_MaxSkewSeconds :: int
  ia_RequireTls :: bool

record WsConfig =
  ws_MaxFrameBytes :: int
  ws_SendQueue :: int
  ws_PingInterval :: duration
  ws_PongWait :: duration
  ws_AllowedOrigins :: "string list"
  ws_DeliverWorkers :: int
  ws_DeliverQueue :: int

record LimitsConfig =
  MaxContentBytes :: int
  PullPageMax :: int
  ConversationPageMax :: int
  MaxSeqsPageMax :: int
  GroupMaxMembers :: int
  GroupMemberCacheTtl :: duration
  WsConnsPerUser :: int
  WsConnsPerToken :: int
  WsConnsPerIp :: int
  WsConnsTotal :: int
  WsFramesPerSec :: int
  WsInflightPerConn :: int
  MessageSendPerMin :: int
  WsSendBytesTotal :: int64
  AuthPerIpPerMin :: int

record LogConfig =
  log_RedactPaths :: "string list"
  log_SkipPaths :: "string list"
  log_RequestBody :: bool

record Config =
  cfg_NodeId :: string
  cfg_Server :: ServerConfig
  cfg_Db :: DbConfig
  cfg_Redis :: RedisConfig
  cfg_Bus :: BusConfig
  cfg_OnlineStore :: OnlineStoreConfig
  cfg_Cache :: CacheConfig
  cfg_OfflinePush :: OfflinePushConfig
  cfg_Auth :: AuthConfig
  cfg_InternalAuth :: InternalAuthConfig
  cfg_Ws :: WsConfig
  cfg_Limits :: LimitsConfig
  cfg_Log :: LogConfig

definition placeholderSecret :: string where "placeholderSecret = ''change-me''"
definition mysqlTextMax :: int where "mysqlTextMax = 65535"
definition minSecretLen :: int where "minSecretLen = 32"

definition devSecrets :: "string list" where
  "devSecrets = [placeholderSecret, ''compose-dev-secret'', ''dev-only-secret-not-for-production'']"

definition weakSecret :: "string \<Rightarrow> bool" where
  "weakSecret s \<longleftrightarrow> int (length s) < minSecretLen \<or> s \<in> set devSecrets"

definition Enabled :: "RedisConfig \<Rightarrow> bool" where
  "Enabled r \<longleftrightarrow> redis_Addr r \<noteq> []"

section \<open>Defaults\<close>

definition minute :: duration where "minute = 60 * second"

text \<open>The values of \<^verbatim>\<open>setDefaults\<close>, decoded with no file and no environment on the given host.\<close>

definition Default :: "string \<Rightarrow> Config" where
  "Default host =
     \<lparr>cfg_NodeId = host,
      cfg_Server = \<lparr>srv_Addr = '':8080'', srv_TrustedProxies = []\<rparr>,
      cfg_Db = \<lparr>db_Driver = ''postgres'', db_Access = ''sqlc'', db_Dsn = [], db_MaxOpenConns = 30, db_Injected = False\<rparr>,
      cfg_Redis = \<lparr>redis_Addr = [], redis_Password = [], redis_Db = 0\<rparr>,
      cfg_Bus = \<lparr>bus_Driver = ''local''\<rparr>,
      cfg_OnlineStore = \<lparr>os_Driver = ''db'', os_Ttl = 60 * second, os_RenewInterval = 20 * second\<rparr>,
      cfg_Cache = \<lparr>ca_Driver = ''local'', ca_CleanerInterval = minute\<rparr>,
      cfg_OfflinePush = \<lparr>op_Driver = ''noop'', op_WebhookUrl = [], op_WebhookSecret = [], op_Timeout = 3 * second\<rparr>,
      cfg_Auth = \<lparr>au_Providers = [''native''], au_Injected = False, au_DefaultPlatformId = 5,
        au_ExternalJwt = \<lparr>xj_Secrets = [], xj_DefaultRole = ''user''\<rparr>,
        au_Native = \<lparr>na_Secret = [], na_ExpireHours = 168\<rparr>\<rparr>,
      cfg_InternalAuth = \<lparr>ia_Enabled = False, ia_Secret = [], ia_Secrets = [], ia_AllowedServices = [],
        ia_MaxSkewSeconds = 300, ia_RequireTls = True\<rparr>,
      cfg_Ws = \<lparr>ws_MaxFrameBytes = 65536, ws_SendQueue = 256, ws_PingInterval = 30 * second, ws_PongWait = 75 * second,
        ws_AllowedOrigins = [], ws_DeliverWorkers = 8, ws_DeliverQueue = 1024\<rparr>,
      cfg_Limits = \<lparr>MaxContentBytes = 8192, PullPageMax = 100, ConversationPageMax = 100, MaxSeqsPageMax = 200,
        GroupMaxMembers = 500, GroupMemberCacheTtl = 10 * second, WsConnsPerUser = 10, WsConnsPerToken = 3,
        WsConnsPerIp = 50, WsConnsTotal = 20000, WsFramesPerSec = 20, WsInflightPerConn = 8, MessageSendPerMin = 120,
        WsSendBytesTotal = 512 * 2 ^ 20, AuthPerIpPerMin = 0\<rparr>,
      cfg_Log = \<lparr>log_RedactPaths = [''/api/v1/auth/login'', ''/api/v1/auth/register''], log_SkipPaths = [''/healthz''],
        log_RequestBody = False\<rparr>\<rparr>"

section \<open>Validation\<close>

text \<open>\<^verbatim>\<open>net.ParseCIDR\<close> of a trimmed entry, and \<^verbatim>\<open>mysql.ParseDSN\<close>: of a DSN only whether it sets
  \<^verbatim>\<open>clientFoundRows\<close> and \<^verbatim>\<open>parseTime\<close> is read.\<close>

record 'net Parsers =
  ParseCIDR :: "string \<Rightarrow> 'net result"
  ParseDSN :: "string \<Rightarrow> (bool \<times> bool) result"

fun TrustedCIDRs :: "'net Parsers \<Rightarrow> string list \<Rightarrow> 'net list result" where
  "TrustedCIDRs ps [] = Inr []"
| "TrustedCIDRs ps (raw # rest) =
     (case ParseCIDR ps raw of
        Inl e \<Rightarrow> Inl (Errorf ''server.trusted_proxies: not a CIDR: %w'' [e])
      | Inr n \<Rightarrow> (case TrustedCIDRs ps rest of Inl e \<Rightarrow> Inl e | Inr out \<Rightarrow> Inr (n # out)))"

definition AllSecrets :: "InternalAuthConfig \<Rightarrow> string list" where
  "AllSecrets c = filter (\<lambda>s. s \<noteq> []) (ia_Secrets c @ [ia_Secret c])"

text \<open>A check appends its failure when the condition holds.\<close>

definition fail_if :: "bool \<Rightarrow> string \<Rightarrow> string list" where
  "fail_if b msg = (if b then [msg] else [])"

definition oneOf :: "string \<Rightarrow> string \<Rightarrow> string list \<Rightarrow> string list" where
  "oneOf field val allowed = fail_if (val \<notin> set allowed) field"

definition Db_validate :: "'net Parsers \<Rightarrow> DbConfig \<Rightarrow> string list" where
  "Db_validate ps d =
     fail_if (db_Driver d \<notin> {''postgres'', ''mysql''}) ''db.driver, want one of [postgres mysql]'' @
     fail_if (db_Access d \<notin> {''gorm'', ''sqlc''}) ''db.access, want one of [gorm sqlc]'' @
     fail_if (db_Dsn d = [] \<and> \<not> db_Injected d) ''db.dsn is required'' @
     fail_if (db_Driver d = ''mysql'' \<and> db_Access d \<noteq> ''gorm'') ''db.driver=mysql requires db.access=gorm'' @
     fail_if (db_MaxOpenConns d \<le> 0) ''db.max_open_conns must be > 0'' @
     (if db_Driver d = ''mysql'' \<and> db_Dsn d \<noteq> []
      then (case ParseDSN ps (db_Dsn d) of
              Inl _ \<Rightarrow> [''db.dsn is not a valid mysql DSN'']
            | Inr (clientFoundRows, parseTime) \<Rightarrow>
                if clientFoundRows then [''db.dsn must not enable clientFoundRows'']
                else if \<not> parseTime then [''db.dsn must set parseTime=true''] else [])
      else [])"

text \<open>The loop over the secrets of one provider: the failures, and the secrets seen so far with
  the provider that holds each.\<close>

fun secrets_loop :: "string \<Rightarrow> string list \<Rightarrow> (string \<rightharpoonup> string) \<Rightarrow> string list \<times> (string \<rightharpoonup> string)" where
  "secrets_loop p [] seen = ([], seen)"
| "secrets_loop p (s # ss) seen =
     (let errs = (if weakSecret s then [''auth.external_jwt.secrets contains a weak secret'']
                  else if seen s \<noteq> None then [''auth: shares a secret''] else []);
          (rest, seen') = secrets_loop p ss (seen(s \<mapsto> p))
      in (errs @ rest, seen'))"

definition native_secret :: "string \<Rightarrow> string \<Rightarrow> (string \<rightharpoonup> string) \<Rightarrow> string list \<times> (string \<rightharpoonup> string)" where
  "native_secret p s seen =
     (if s = [] then ([''auth.native.secret is required''], seen)
      else if weakSecret s then ([''auth.native.secret is weak''], seen)
      else (fail_if (seen s \<noteq> None) ''auth: shares a secret'', seen(s \<mapsto> p)))"

definition provider_check :: "AuthConfig \<Rightarrow> string \<Rightarrow> (string \<rightharpoonup> string) \<Rightarrow> string list \<times> (string \<rightharpoonup> string)" where
  "provider_check a p seen =
     (if p = ''external_jwt'' then
        (let (errs, seen') = secrets_loop p (xj_Secrets (au_ExternalJwt a)) seen
         in (fail_if (xj_Secrets (au_ExternalJwt a) = []) ''auth.external_jwt.secrets is required'' @ errs, seen'))
      else if p = ''native'' then
        (let (errs, seen') = native_secret p (na_Secret (au_Native a)) seen
         in (errs @ fail_if (na_ExpireHours (au_Native a) \<le> 0) ''auth.native.expire_hours must be > 0'', seen'))
      else ([''auth.providers: unknown provider''], seen))"

fun providers_loop :: "AuthConfig \<Rightarrow> string list \<Rightarrow> (string \<rightharpoonup> string) \<Rightarrow> string list" where
  "providers_loop a [] seen = []"
| "providers_loop a (p # ps) seen =
     (let (errs, seen') = provider_check a p seen in errs @ providers_loop a ps seen')"

definition validate_drivers :: "'net Parsers \<Rightarrow> Config \<Rightarrow> string list" where
  "validate_drivers ps c =
     (let db = cfg_Db c; bus = bus_Driver (cfg_Bus c); online = os_Driver (cfg_OnlineStore c);
          cache = ca_Driver (cfg_Cache c); iv = ca_CleanerInterval (cfg_Cache c);
          ttl = os_Ttl (cfg_OnlineStore c); renew = os_RenewInterval (cfg_OnlineStore c); push = cfg_OfflinePush c in
      fail_if (srv_Addr (cfg_Server c) = []) ''server.addr is required'' @
      fail_if (isl (TrustedCIDRs ps (srv_TrustedProxies (cfg_Server c)))) ''server.trusted_proxies'' @
      Db_validate ps db @
      fail_if (db_Dsn db = [] \<and> db_Injected db \<and> (bus = ''postgres'' \<or> cache = ''pg''))
        ''bus.driver=postgres and cache.driver=pg open their own connections: db.dsn is required'' @
      oneOf ''bus.driver'' bus [''redis'', ''postgres'', ''local''] @
      oneOf ''online_store.driver'' online [''db'', ''redis''] @
      oneOf ''cache.driver'' cache [''redis'', ''pg'', ''local''] @
      oneOf ''offline_push.driver'' (op_Driver push) [''noop'', ''webhook''] @
      fail_if (bus = ''postgres'' \<and> db_Driver db \<noteq> ''postgres'') ''bus.driver=postgres requires db.driver=postgres'' @
      fail_if (cache = ''pg'' \<and> db_Driver db \<noteq> ''postgres'') ''cache.driver=pg requires db.driver=postgres'' @
      fail_if ((bus = ''redis'' \<or> online = ''redis'' \<or> cache = ''redis'') \<and> \<not> Enabled (cfg_Redis c))
        ''bus/online_store/cache=redis requires redis.addr'' @
      (if bus \<noteq> ''local'' \<and> cache = ''local''
       then fail_if (''native'' \<in> set (au_Providers (cfg_Auth c))) ''native tokens are only valid on the node that issued them'' @
            fail_if (ia_Enabled (cfg_InternalAuth c)) ''nonce replay protection does not span nodes''
       else []) @
      fail_if (iv > 0 \<and> iv < second) ''cache.cleaner_interval must be 0 (disabled) or >= 1s'' @
      fail_if (ttl \<le> 0 \<or> renew \<le> 0 \<or> renew \<ge> ttl) ''online_store: need 0 < renew_interval < ttl'' @
      (if op_Driver push = ''webhook''
       then fail_if (\<not> HasPrefix (op_WebhookUrl push) ''https://'') ''offline_push.webhook_url must start with https://'' @
            fail_if (op_WebhookSecret push = []) ''offline_push.webhook_secret is required''
       else []))"

definition validate_auth :: "Config \<Rightarrow> string list" where
  "validate_auth c =
     (let a = cfg_Auth c; i = cfg_InternalAuth c in
      fail_if (au_Providers a = [] \<and> \<not> au_Injected a) ''auth.providers must not be empty'' @
      providers_loop a (au_Providers a) Map.empty @
      fail_if (au_DefaultPlatformId a \<le> 0) ''auth.default_platform_id must be > 0'' @
      (if ia_Enabled i
       then fail_if (AllSecrets i = []) ''internal_auth.secret or internal_auth.secrets is required when enabled'' @
            fail_if (list_ex weakSecret (AllSecrets i)) ''internal_auth: weak secret'' @
            fail_if (ia_AllowedServices i = []) ''internal_auth.allowed_services must not be empty when enabled'' @
            fail_if (ia_MaxSkewSeconds i \<le> 0) ''internal_auth.max_skew_seconds must be > 0''
       else []))"

definition validate_limits :: "Config \<Rightarrow> string list" where
  "validate_limits c =
     (let w = cfg_Ws c; l = cfg_Limits c in
      fail_if (ws_MaxFrameBytes w \<le> 0 \<or> ws_SendQueue w \<le> 0 \<or> ws_PingInterval w \<le> 0 \<or> ws_PongWait w \<le> ws_PingInterval w)
        ''ws: need max_frame_bytes>0, send_queue>0, 0 < ping_interval < pong_wait'' @
      fail_if (ws_DeliverWorkers w \<le> 0 \<or> ws_DeliverQueue w \<le> 0) ''ws: need deliver_workers>0, deliver_queue>0'' @
      fail_if (MaxContentBytes l \<le> 0 \<or> PullPageMax l \<le> 0 \<or> ConversationPageMax l \<le> 0 \<or> MaxSeqsPageMax l \<le> 0 \<or>
               GroupMaxMembers l \<le> 0)
        ''limits: content/page/group limits must be > 0'' @
      fail_if (db_Driver (cfg_Db c) = ''mysql'' \<and> MaxContentBytes l > mysqlTextMax)
        ''limits.max_content_bytes must be <= 65535 on mysql'' @
      fail_if (AuthPerIpPerMin l < 0) ''limits.auth_per_ip_per_min must be >= 0'')"

definition Validate :: "'net Parsers \<Rightarrow> Config \<Rightarrow> go_error option" where
  "Validate ps c =
     (let errs = validate_drivers ps c @ validate_auth c @ validate_limits c in
      if errs \<noteq> [] then Some (Errorf ''config: invalid: %w'' (map Foreign errs)) else None)"

section \<open>Redaction\<close>

definition mask_str :: "string \<Rightarrow> string" where
  "mask_str s = (if s = [] then [] else ''***'')"

definition Redacted :: "Config \<Rightarrow> Config" where
  "Redacted c = c\<lparr>
     cfg_Redis := (cfg_Redis c)\<lparr>redis_Password := mask_str (redis_Password (cfg_Redis c))\<rparr>,
     cfg_Db := (cfg_Db c)\<lparr>db_Dsn := mask_str (db_Dsn (cfg_Db c))\<rparr>,
     cfg_OfflinePush := (cfg_OfflinePush c)\<lparr>op_WebhookSecret := mask_str (op_WebhookSecret (cfg_OfflinePush c))\<rparr>,
     cfg_Auth := (cfg_Auth c)\<lparr>
       au_Native := (au_Native (cfg_Auth c))\<lparr>na_Secret := mask_str (na_Secret (au_Native (cfg_Auth c)))\<rparr>,
       au_ExternalJwt := (au_ExternalJwt (cfg_Auth c))\<lparr>xj_Secrets := map mask_str (xj_Secrets (au_ExternalJwt (cfg_Auth c)))\<rparr>\<rparr>,
     cfg_InternalAuth := (cfg_InternalAuth c)\<lparr>ia_Secret := mask_str (ia_Secret (cfg_InternalAuth c)),
       ia_Secrets := map mask_str (ia_Secrets (cfg_InternalAuth c))\<rparr>\<rparr>"

section \<open>What is accepted\<close>

text \<open>The secrets the listed providers verify with, in order.\<close>

definition provider_secrets :: "AuthConfig \<Rightarrow> string \<Rightarrow> string list" where
  "provider_secrets a p = (if p = ''external_jwt'' then xj_Secrets (au_ExternalJwt a) else [na_Secret (au_Native a)])"

definition auth_secrets :: "AuthConfig \<Rightarrow> string list" where
  "auth_secrets a = concat (map (provider_secrets a) (au_Providers a))"

definition provider_ok :: "AuthConfig \<Rightarrow> string \<Rightarrow> bool" where
  "provider_ok a p \<longleftrightarrow> p = ''external_jwt'' \<and> xj_Secrets (au_ExternalJwt a) \<noteq> [] \<or>
     p = ''native'' \<and> 0 < na_ExpireHours (au_Native a)"

definition auth_ok :: "AuthConfig \<Rightarrow> bool" where
  "auth_ok a \<longleftrightarrow> (au_Providers a \<noteq> [] \<or> au_Injected a) \<and> (\<forall>p \<in> set (au_Providers a). provider_ok a p) \<and>
     (\<forall>s \<in> set (auth_secrets a). \<not> weakSecret s) \<and> distinct (auth_secrets a) \<and> 0 < au_DefaultPlatformId a"

lemma fail_if_Nil [simp]: "fail_if b msg = [] \<longleftrightarrow> \<not> b"
  by (simp add: fail_if_def)

lemma weakSecret_Nil [simp]: "weakSecret []"
  by (simp add: weakSecret_def minSecretLen_def)

lemma secrets_loop_seen: "snd (secrets_loop p ss seen) s = None \<longleftrightarrow> seen s = None \<and> s \<notin> set ss"
proof (induction ss arbitrary: seen)
  case (Cons x ss)
  then show ?case
    by (simp add: Let_def split_beta)
qed simp

lemma secrets_loop_Nil:
  "fst (secrets_loop p ss seen) = [] \<longleftrightarrow> (\<forall>s \<in> set ss. \<not> weakSecret s \<and> seen s = None) \<and> distinct ss"
  by (induction ss arbitrary: seen) (auto simp: Let_def split: prod.split if_splits)

lemma provider_check_ok:
  "fst (provider_check a p seen) = [] \<longleftrightarrow>
     provider_ok a p \<and> (\<forall>s \<in> set (provider_secrets a p). \<not> weakSecret s \<and> seen s = None) \<and> distinct (provider_secrets a p)"
  "fst (provider_check a p seen) = [] \<Longrightarrow>
     snd (provider_check a p seen) s = None \<longleftrightarrow> seen s = None \<and> s \<notin> set (provider_secrets a p)"
proof -
  let ?ss = "xj_Secrets (au_ExternalJwt a)"
  obtain errs seen' where ext: "secrets_loop p ?ss seen = (errs, seen')"
    by fastforce
  have "(fst (provider_check a p seen) = [] \<longleftrightarrow>
      provider_ok a p \<and> (\<forall>s \<in> set (provider_secrets a p). \<not> weakSecret s \<and> seen s = None) \<and> distinct (provider_secrets a p)) \<and>
    (fst (provider_check a p seen) = [] \<longrightarrow>
      (snd (provider_check a p seen) s = None \<longleftrightarrow> seen s = None \<and> s \<notin> set (provider_secrets a p)))"
  proof (cases "p = ''external_jwt''")
    case True
    then show ?thesis
      using ext secrets_loop_Nil [of p ?ss seen] secrets_loop_seen [of p ?ss seen s]
      by (simp add: provider_check_def provider_ok_def provider_secrets_def)
  next
    case other: False
    show ?thesis
    proof (cases "p = ''native''")
      case True
      then show ?thesis
        by (cases "weakSecret (na_Secret (au_Native a))")
          (auto simp: provider_check_def provider_ok_def provider_secrets_def native_secret_def)
    qed (use other in \<open>simp add: provider_check_def provider_ok_def\<close>)
  qed
  then show "fst (provider_check a p seen) = [] \<longleftrightarrow>
     provider_ok a p \<and> (\<forall>s \<in> set (provider_secrets a p). \<not> weakSecret s \<and> seen s = None) \<and> distinct (provider_secrets a p)"
    "fst (provider_check a p seen) = [] \<Longrightarrow>
     snd (provider_check a p seen) s = None \<longleftrightarrow> seen s = None \<and> s \<notin> set (provider_secrets a p)"
    by blast+
qed

lemma providers_loop_Nil:
  "providers_loop a ps seen = [] \<longleftrightarrow>
     (\<forall>p \<in> set ps. provider_ok a p) \<and>
     (\<forall>s \<in> set (concat (map (provider_secrets a) ps)). \<not> weakSecret s \<and> seen s = None) \<and>
     distinct (concat (map (provider_secrets a) ps))"
proof (induction ps arbitrary: seen)
  case (Cons p ps)
  obtain errs seen' where c: "provider_check a p seen = (errs, seen')"
    by fastforce
  define r where "r = concat (map (provider_secrets a) ps)"
  let ?q = "provider_secrets a p"
  have errs: "errs = [] \<longleftrightarrow> provider_ok a p \<and> (\<forall>s \<in> set ?q. \<not> weakSecret s \<and> seen s = None) \<and> distinct ?q"
    "errs = [] \<Longrightarrow> seen' s = None \<longleftrightarrow> seen s = None \<and> s \<notin> set ?q" for s
    using provider_check_ok [of a p seen] c by simp_all
  have "providers_loop a (p # ps) seen = [] \<longleftrightarrow> errs = [] \<and> (\<forall>p \<in> set ps. provider_ok a p) \<and>
      (\<forall>s \<in> set r. \<not> weakSecret s \<and> seen' s = None) \<and> distinct r"
    by (simp add: c Cons.IH r_def)
  also have "\<dots> \<longleftrightarrow> (\<forall>p \<in> set (p # ps). provider_ok a p) \<and> (\<forall>s \<in> set (?q @ r). \<not> weakSecret s \<and> seen s = None) \<and> distinct (?q @ r)"
  proof (cases "errs = []")
    case True
    then show ?thesis
      using errs by (simp add: ball_Un disjoint_iff) blast
  qed (use errs(1) in auto)
  finally show ?case
    by (simp add: r_def)
qed simp

lemma validate_auth_Nil:
  "validate_auth c = [] \<longleftrightarrow> auth_ok (cfg_Auth c) \<and>
     (ia_Enabled (cfg_InternalAuth c) \<longrightarrow> AllSecrets (cfg_InternalAuth c) \<noteq> [] \<and>
        (\<forall>s \<in> set (AllSecrets (cfg_InternalAuth c)). \<not> weakSecret s) \<and> ia_AllowedServices (cfg_InternalAuth c) \<noteq> [] \<and>
        0 < ia_MaxSkewSeconds (cfg_InternalAuth c))"
  by (auto simp: validate_auth_def Let_def providers_loop_Nil auth_ok_def auth_secrets_def list_ex_iff)

lemma validate_drivers_multi:
  assumes "validate_drivers ps c = []"
  shows "bus_Driver (cfg_Bus c) \<in> {''redis'', ''postgres'', ''local''}" "ca_Driver (cfg_Cache c) \<in> {''redis'', ''pg'', ''local''}"
    "bus_Driver (cfg_Bus c) \<noteq> ''local'' \<Longrightarrow> ca_Driver (cfg_Cache c) = ''local'' \<Longrightarrow>
       ''native'' \<notin> set (au_Providers (cfg_Auth c)) \<and> \<not> ia_Enabled (cfg_InternalAuth c)"
    "0 < os_RenewInterval (cfg_OnlineStore c)" "os_RenewInterval (cfg_OnlineStore c) < os_Ttl (cfg_OnlineStore c)"
  using assms by (simp_all add: validate_drivers_def Let_def oneOf_def)

lemma validate_limits_Nil:
  assumes "validate_limits c = []"
  shows "0 < MaxContentBytes (cfg_Limits c)" "0 < PullPageMax (cfg_Limits c)" "0 < ConversationPageMax (cfg_Limits c)"
    "0 < MaxSeqsPageMax (cfg_Limits c)" "0 < GroupMaxMembers (cfg_Limits c)" "0 < ws_SendQueue (cfg_Ws c)"
    "0 < ws_DeliverWorkers (cfg_Ws c)" "0 < ws_DeliverQueue (cfg_Ws c)"
  using assms by (simp_all add: validate_limits_def Let_def)

lemma Validate_None: "Validate ps c = None \<longleftrightarrow> validate_drivers ps c = [] \<and> validate_auth c = [] \<and> validate_limits c = []"
  by (simp add: Validate_def Let_def)

text \<open>A working configuration: the defaults with a database and a secret.\<close>

definition demo_parsers :: "unit Parsers" where
  "demo_parsers = \<lparr>ParseCIDR = (\<lambda>_. Inr ()), ParseDSN = (\<lambda>_. Inr (False, True))\<rparr>"

definition demo_config :: Config where
  "demo_config = (let c = Default ''host'' in
     c\<lparr>cfg_Db := (cfg_Db c)\<lparr>db_Dsn := ''postgres://db''\<rparr>,
       cfg_Auth := (cfg_Auth c)\<lparr>au_Native := \<lparr>na_Secret = ''0123456789abcdef0123456789abcdef'', na_ExpireHours = 1\<rparr>\<rparr>\<rparr>)"

lemma demo_config_valid: "Validate demo_parsers demo_config = None"
  by code_simp

text \<open>C23: a configuration passes validation only if the secrets of the listed providers, each of
  them, are at least 32 characters long, not published in the repository, and pairwise different,
  so that a token of one provider never verifies as another's; and on a node that shares its bus
  with others, native tokens and nonces are never kept in the process.\<close>

theorem validated_secrets:
  assumes "Validate ps c = None"
  shows "(\<forall>p \<in> set (au_Providers (cfg_Auth c)). p = ''external_jwt'' \<or> p = ''native'') \<and>
    (\<forall>s \<in> set (auth_secrets (cfg_Auth c)). 32 \<le> length s \<and> s \<notin> set devSecrets) \<and> distinct (auth_secrets (cfg_Auth c)) \<and>
    (bus_Driver (cfg_Bus c) \<noteq> ''local'' \<and>
       (''native'' \<in> set (au_Providers (cfg_Auth c)) \<or> ia_Enabled (cfg_InternalAuth c)) \<longrightarrow>
     ca_Driver (cfg_Cache c) \<in> {''redis'', ''pg''})"
proof -
  have auth: "auth_ok (cfg_Auth c)"
    using assms by (simp add: Validate_None validate_auth_Nil)
  have multi: "validate_drivers ps c = []"
    using assms by (simp add: Validate_None)
  have "32 \<le> length s \<and> s \<notin> set devSecrets" if "s \<in> set (auth_secrets (cfg_Auth c))" for s
    using auth that by (auto simp: auth_ok_def weakSecret_def minSecretLen_def)
  then show ?thesis
    using auth validate_drivers_multi(2,3) [OF multi] by (auto simp: auth_ok_def provider_ok_def)
qed

theorem validated_secrets_witness:
  "Validate demo_parsers demo_config = None \<and> list_all (\<lambda>s. 32 \<le> length s) (auth_secrets (cfg_Auth demo_config))"
  using demo_config_valid validated_secrets [OF demo_config_valid] unfolding list_all_iff by blast

text \<open>The secrets of a configuration, and what of it is not secret.\<close>

definition config_secrets :: "Config \<Rightarrow> string list" where
  "config_secrets c = [redis_Password (cfg_Redis c), db_Dsn (cfg_Db c), op_WebhookSecret (cfg_OfflinePush c),
     na_Secret (au_Native (cfg_Auth c)), ia_Secret (cfg_InternalAuth c)] @
     ia_Secrets (cfg_InternalAuth c) @ xj_Secrets (au_ExternalJwt (cfg_Auth c))"

definition config_public :: "Config \<Rightarrow> Config" where
  "config_public c = c\<lparr>
     cfg_Redis := (cfg_Redis c)\<lparr>redis_Password := []\<rparr>,
     cfg_Db := (cfg_Db c)\<lparr>db_Dsn := []\<rparr>,
     cfg_OfflinePush := (cfg_OfflinePush c)\<lparr>op_WebhookSecret := []\<rparr>,
     cfg_Auth := (cfg_Auth c)\<lparr>
       au_Native := (au_Native (cfg_Auth c))\<lparr>na_Secret := []\<rparr>,
       au_ExternalJwt := (au_ExternalJwt (cfg_Auth c))\<lparr>xj_Secrets := map (\<lambda>_. []) (xj_Secrets (au_ExternalJwt (cfg_Auth c)))\<rparr>\<rparr>,
     cfg_InternalAuth := (cfg_InternalAuth c)\<lparr>ia_Secret := [], ia_Secrets := map (\<lambda>_. []) (ia_Secrets (cfg_InternalAuth c))\<rparr>\<rparr>"

text \<open>A masked secret shows whether the secret is set, and nothing else.\<close>

lemma mask_eq: "mask_str s = mask_str s' \<longleftrightarrow> (s = [] \<longleftrightarrow> s' = [])"
  by (simp add: mask_str_def)

lemma masks_eq: "map mask_str xs = map mask_str ys \<longleftrightarrow> map (\<lambda>s. s = []) xs = map (\<lambda>s. s = []) ys"
  by (induction xs arbitrary: ys) (auto simp: mask_eq Cons_eq_map_conv)

lemma redacted_public: "config_public (Redacted c) = config_public c"
  by (simp add: config_public_def Redacted_def comp_def)

lemma redacted_secrets: "config_secrets (Redacted c) = map mask_str (config_secrets c)"
  by (simp add: config_secrets_def Redacted_def)

definition restored :: "Config \<Rightarrow> Config \<Rightarrow> Config" where
  "restored k c = c\<lparr>
     cfg_Redis := (cfg_Redis c)\<lparr>redis_Password := redis_Password (cfg_Redis k)\<rparr>,
     cfg_Db := (cfg_Db c)\<lparr>db_Dsn := db_Dsn (cfg_Db k)\<rparr>,
     cfg_OfflinePush := (cfg_OfflinePush c)\<lparr>op_WebhookSecret := op_WebhookSecret (cfg_OfflinePush k)\<rparr>,
     cfg_Auth := (cfg_Auth c)\<lparr>
       au_Native := (au_Native (cfg_Auth c))\<lparr>na_Secret := na_Secret (au_Native (cfg_Auth k))\<rparr>,
       au_ExternalJwt := (au_ExternalJwt (cfg_Auth c))\<lparr>xj_Secrets := xj_Secrets (au_ExternalJwt (cfg_Auth k))\<rparr>\<rparr>,
     cfg_InternalAuth := (cfg_InternalAuth c)\<lparr>ia_Secret := ia_Secret (cfg_InternalAuth k), ia_Secrets := ia_Secrets (cfg_InternalAuth k)\<rparr>\<rparr>"

lemma restored_public: "restored c (config_public c) = c"
  by (simp add: restored_def config_public_def)

lemma config_eqI:
  assumes "config_public c = config_public c'" "config_secrets c = config_secrets c'"
  shows "c = c'"
proof -
  have len: "length (ia_Secrets (cfg_InternalAuth c)) = length (ia_Secrets (cfg_InternalAuth c'))"
    using assms(1) map_eq_imp_length_eq unfolding config_public_def by (auto dest!: arg_cong [of _ _ cfg_InternalAuth] arg_cong [of _ _ ia_Secrets])
  have "redis_Password (cfg_Redis c) = redis_Password (cfg_Redis c')" "db_Dsn (cfg_Db c) = db_Dsn (cfg_Db c')"
    "op_WebhookSecret (cfg_OfflinePush c) = op_WebhookSecret (cfg_OfflinePush c')"
    "na_Secret (au_Native (cfg_Auth c)) = na_Secret (au_Native (cfg_Auth c'))"
    "ia_Secret (cfg_InternalAuth c) = ia_Secret (cfg_InternalAuth c')"
    "ia_Secrets (cfg_InternalAuth c) = ia_Secrets (cfg_InternalAuth c')"
    "xj_Secrets (au_ExternalJwt (cfg_Auth c)) = xj_Secrets (au_ExternalJwt (cfg_Auth c'))"
    using assms(2) len by (simp_all add: config_secrets_def)
  then have "restored c = restored c'"
    unfolding restored_def by simp
  then have "restored c (config_public c) = restored c' (config_public c')"
    using assms(1) by metis
  then show ?thesis
    unfolding restored_public .
qed

text \<open>C24: what is logged of a configuration tells no secret: two configurations that differ only in
  the values of passwords, DSN and secrets, with the same ones set, have the same redacted form,
  and redacting changes nothing but the secrets.\<close>

theorem redacted_holds_no_secret:
  assumes "config_public c = config_public c'"
    and "map (\<lambda>s. s = []) (config_secrets c) = map (\<lambda>s. s = []) (config_secrets c')"
  shows "Redacted c = Redacted c' \<and> config_public (Redacted c) = config_public c"
proof -
  have "Redacted c = Redacted c'"
    by (rule config_eqI) (simp_all add: redacted_public redacted_secrets assms masks_eq)
  then show ?thesis
    using redacted_public by blast
qed

theorem redacted_holds_no_secret_witness:
  "Redacted (demo_config\<lparr>cfg_Redis := (cfg_Redis demo_config)\<lparr>redis_Password := ''hunter2''\<rparr>\<rparr>) =
   Redacted (demo_config\<lparr>cfg_Redis := (cfg_Redis demo_config)\<lparr>redis_Password := ''swordfish''\<rparr>\<rparr>)"
proof -
  let ?c = "\<lambda>s. demo_config\<lparr>cfg_Redis := (cfg_Redis demo_config)\<lparr>redis_Password := s\<rparr>\<rparr>"
  have "config_public (?c ''hunter2'') = config_public (?c ''swordfish'')"
    "map (\<lambda>s. s = []) (config_secrets (?c ''hunter2'')) = map (\<lambda>s. s = []) (config_secrets (?c ''swordfish''))"
    by (simp_all add: config_public_def config_secrets_def)
  from redacted_holds_no_secret [OF this] show ?thesis
    by simp
qed

end
