(* ===== verification/UserMap.thy ===== *)
theory UserMap
  imports Auth Config "HOL-Library.Multiset"
begin

text \<open>
  \<^verbatim>\<open>internal/gateway/usermap.go\<close> and \<^verbatim>\<open>upgrade.go\<close>: the node's registry of connections, with the
  slots that bound them, and the reservation that carries a slot across a WebSocket upgrade.
  A client is identified by its connection id, a fresh UUID, which stands for the pointer the
  code compares. The code holds one lock per operation, so each operation is a function on the
  registry; the order in which several connections' operations interleave is the step relation
  \<^verbatim>\<open>conn_step\<close>.
\<close>

section \<open>usermap.go\<close>

text \<open>What of a client never changes.\<close>

record Client =
  cl_Id :: string
  cl_Ip :: string
  cl_Identity :: AuthIdentity

definition cl_UserId :: "Client \<Rightarrow> string" where
  "cl_UserId c = id_UserId (cl_Identity c)"

record Slot =
  sl_UserId :: string
  sl_TokenId :: string
  sl_Ip :: string

definition slot :: "Client \<Rightarrow> Slot" where
  "slot c = \<lparr>sl_UserId = cl_UserId c, sl_TokenId = id_TokenId (cl_Identity c), sl_Ip = cl_Ip c\<rparr>"

record UserMap =
  um_limits :: LimitsConfig
  um_byUser :: "string \<rightharpoonup> Client list"
  um_byUserN :: "string \<rightharpoonup> int"
  um_byToken :: "string \<rightharpoonup> int"
  um_byIp :: "string \<rightharpoonup> int"
  um_total :: int
  um_closing :: bool

definition NewUserMap :: "LimitsConfig \<Rightarrow> UserMap" where
  "NewUserMap limits = \<lparr>um_limits = limits, um_byUser = Map.empty, um_byUserN = Map.empty, um_byToken = Map.empty,
     um_byIp = Map.empty, um_total = 0, um_closing = False\<rparr>"

text \<open>Reading a Go map gives the zero value for a key that is not there.\<close>

definition n_at :: "(string \<rightharpoonup> int) \<Rightarrow> string \<Rightarrow> int" where
  "n_at m k = (case m k of None \<Rightarrow> 0 | Some n \<Rightarrow> n)"

definition conns_of :: "UserMap \<Rightarrow> string \<Rightarrow> Client list" where
  "conns_of m u = (case um_byUser m u of None \<Rightarrow> [] | Some cs \<Rightarrow> cs)"

definition over :: "int \<Rightarrow> int \<Rightarrow> bool" where
  "over n limit \<longleftrightarrow> limit > 0 \<and> n \<ge> limit"

definition incr :: "(string \<rightharpoonup> int) \<Rightarrow> string \<Rightarrow> (string \<rightharpoonup> int)" where
  "incr m k = (if k \<noteq> [] then m(k \<mapsto> n_at m k + 1) else m)"

definition decr :: "(string \<rightharpoonup> int) \<Rightarrow> string \<Rightarrow> (string \<rightharpoonup> int)" where
  "decr m k = (if k = [] then m else if n_at m k \<le> 1 then m(k := None) else m(k \<mapsto> n_at m k - 1))"

definition reserve_error :: "UserMap \<Rightarrow> Slot \<Rightarrow> Error option" where
  "reserve_error m s =
     (let l = um_limits m in
      if um_closing m then Some ErrNodeDraining
      else if over (um_total m) (WsConnsTotal l) then Some (WithMessage ErrConnOverLimit ''node connection limit reached'')
      else if over (n_at (um_byUserN m) (sl_UserId s)) (WsConnsPerUser l)
        then Some (WithMessage ErrConnOverLimit ''too many connections for this user'')
      else if sl_TokenId s \<noteq> [] \<and> over (n_at (um_byToken m) (sl_TokenId s)) (WsConnsPerToken l)
        then Some (WithMessage ErrConnOverLimit ''too many connections for this token'')
      else if sl_Ip s \<noteq> [] \<and> over (n_at (um_byIp m) (sl_Ip s)) (WsConnsPerIp l)
        then Some (WithMessage ErrConnOverLimit ''too many connections from this address'')
      else None)"

definition take_slot :: "Slot \<Rightarrow> UserMap \<Rightarrow> UserMap" where
  "take_slot s m = m\<lparr>um_byUserN := (um_byUserN m)(sl_UserId s \<mapsto> n_at (um_byUserN m) (sl_UserId s) + 1),
     um_byToken := incr (um_byToken m) (sl_TokenId s), um_byIp := incr (um_byIp m) (sl_Ip s), um_total := um_total m + 1\<rparr>"

definition Reserve :: "Slot \<Rightarrow> UserMap \<Rightarrow> unit result \<times> UserMap" where
  "Reserve s m = (case reserve_error m s of Some e \<Rightarrow> (Inl (Of_errcode e), m) | None \<Rightarrow> (Inr (), take_slot s m))"

definition Release :: "Slot \<Rightarrow> UserMap \<Rightarrow> UserMap" where
  "Release s m = m\<lparr>um_byUserN := decr (um_byUserN m) (sl_UserId s), um_byToken := decr (um_byToken m) (sl_TokenId s),
     um_byIp := decr (um_byIp m) (sl_Ip s), um_total := um_total m - 1\<rparr>"

text \<open>\<^verbatim>\<open>closed\<close> is whether the client's channel is closed at the time of the call.\<close>

definition adopt_error :: "bool \<Rightarrow> UserMap \<Rightarrow> Error option" where
  "adopt_error closed m = (if closed then Some ErrConnClosed else if um_closing m then Some ErrNodeDraining else None)"

definition Adopt :: "bool \<Rightarrow> Client \<Rightarrow> UserMap \<Rightarrow> unit result \<times> UserMap" where
  "Adopt closed c m =
     (case adopt_error closed m of
        Some e \<Rightarrow> (Inl (Of_errcode e), Release (slot c) m)
      | None \<Rightarrow> (Inr (), m\<lparr>um_byUser := (um_byUser m)(cl_UserId c \<mapsto> conns_of m (cl_UserId c) @ [c])\<rparr>))"

definition Register_conn :: "bool \<Rightarrow> Client \<Rightarrow> UserMap \<Rightarrow> unit result \<times> UserMap" where
  "Register_conn closed c m =
     (case Reserve (slot c) m of
        (Inl e, m') \<Rightarrow> (Inl e, m')
      | (Inr _, m') \<Rightarrow> Adopt closed c m')"

text \<open>The order in which Go walks a map is a parameter: a list of the keys.\<close>

definition All_conns :: "string list \<Rightarrow> UserMap \<Rightarrow> Client list" where
  "All_conns ks m = concat (map (conns_of m) ks)"

definition Close_map :: "string list \<Rightarrow> UserMap \<Rightarrow> Client list \<times> UserMap" where
  "Close_map ks m = (All_conns ks m, m\<lparr>um_closing := True\<rparr>)"

definition Unregister :: "Client \<Rightarrow> UserMap \<Rightarrow> UserMap" where
  "Unregister c m =
     (let conns = conns_of m (cl_UserId c) in
      if c \<notin> set conns then m
      else let rest = remove1 c conns in
        Release (slot c) (m\<lparr>um_byUser := (um_byUser m)(cl_UserId c := (if rest = [] then None else Some rest))\<rparr>))"

definition Get_conns :: "string \<Rightarrow> UserMap \<Rightarrow> Client list" where
  "Get_conns userId m = conns_of m userId"

definition Count :: "UserMap \<Rightarrow> int" where
  "Count m = um_total m"

definition OnlineExcept :: "string list \<Rightarrow> string \<Rightarrow> UserMap \<Rightarrow> string list" where
  "OnlineExcept userIds exceptConnId m =
     filter (\<lambda>u. let conns = conns_of m u in
       length conns > 1 \<or> (length conns = 1 \<and> cl_Id (conns ! 0) \<noteq> exceptConnId)) userIds"

section \<open>upgrade.go\<close>

record Reservation =
  rv_slot :: Slot
  rv_settled :: bool

definition claim :: "Reservation \<Rightarrow> bool \<times> Reservation" where
  "claim r = (if rv_settled r then (False, r) else (True, r\<lparr>rv_settled := True\<rparr>))"

definition release_reservation :: "Reservation \<Rightarrow> UserMap \<Rightarrow> Reservation \<times> UserMap" where
  "release_reservation r m = (case claim r of (won, r') \<Rightarrow> (r', if won then Release (rv_slot r) m else m))"

section \<open>The counters\<close>

text \<open>The counters say exactly how many slots are held, and no limit is exceeded.\<close>

definition count_by :: "('a \<Rightarrow> string) \<Rightarrow> 'a multiset \<Rightarrow> string \<Rightarrow> int" where
  "count_by f M k = int (size (filter_mset (\<lambda>s. f s = k) M))"

definition counts :: "(string \<rightharpoonup> int) \<Rightarrow> (Slot \<Rightarrow> string) \<Rightarrow> Slot multiset \<Rightarrow> bool" where
  "counts m f held \<longleftrightarrow> (\<forall>k. m k = (if k = [] \<or> count_by f held k = 0 then None else Some (count_by f held k)))"

definition within :: "int \<Rightarrow> int \<Rightarrow> bool" where
  "within n limit \<longleftrightarrow> limit > 0 \<longrightarrow> n \<le> limit"

definition limits_ok :: "LimitsConfig \<Rightarrow> Slot multiset \<Rightarrow> bool" where
  "limits_ok l held \<longleftrightarrow> within (int (size held)) (WsConnsTotal l) \<and>
     (\<forall>k. k \<noteq> [] \<longrightarrow> within (count_by sl_UserId held k) (WsConnsPerUser l) \<and>
        within (count_by sl_TokenId held k) (WsConnsPerToken l) \<and> within (count_by sl_Ip held k) (WsConnsPerIp l))"

definition slots_inv :: "UserMap \<Rightarrow> Slot multiset \<Rightarrow> bool" where
  "slots_inv m held \<longleftrightarrow> counts (um_byUserN m) sl_UserId held \<and> counts (um_byToken m) sl_TokenId held \<and>
     counts (um_byIp m) sl_Ip held \<and> um_total m = int (size held) \<and> limits_ok (um_limits m) held \<and>
     (\<forall>s \<in># held. sl_UserId s \<noteq> [])"

lemma count_by_simps [simp]:
  "count_by f {#} k = 0" "count_by f (add_mset s M) k = count_by f M k + (if f s = k then 1 else 0)"
  by (simp_all add: count_by_def)

lemma count_by_nonneg [simp]: "0 \<le> count_by f M k"
  by (simp add: count_by_def)

lemma count_by_succ [simp]: "count_by f M k + 1 \<noteq> 0" "count_by f M k \<le> 0 \<longleftrightarrow> count_by f M k = 0"
  using count_by_nonneg [of f M k] by linarith+

lemma n_at_counts: "counts m f held \<Longrightarrow> k \<noteq> [] \<Longrightarrow> n_at m k = count_by f held k"
  by (auto simp: counts_def n_at_def)

lemma counts_incr: "counts m f held \<Longrightarrow> counts (incr m (f s)) f (add_mset s held)"
  using n_at_counts [of m f held "f s"] by (auto simp: counts_def incr_def)

lemma counts_decr:
  assumes "counts m f (add_mset s held)"
  shows "counts (decr m (f s)) f held"
proof -
  have "n_at m (f s) = count_by f held (f s) + 1" if "f s \<noteq> []"
    using n_at_counts [OF assms that] by simp
  then show ?thesis
    using assms by (auto simp: counts_def decr_def)
qed

lemma within_add:
  "within n limit \<Longrightarrow> (b \<Longrightarrow> \<not> over n limit) \<Longrightarrow> within (n + (if b then 1 else 0)) limit"
  by (auto simp: within_def over_def)

lemma within_count:
  assumes "\<forall>k. k \<noteq> [] \<longrightarrow> within (count_by f held k) limit" "f s \<noteq> [] \<Longrightarrow> \<not> over (count_by f held (f s)) limit" "k \<noteq> []"
  shows "within (count_by f (add_mset s held) k) limit"
  unfolding count_by_simps using assms by (intro within_add) auto

lemma within_less: "within (n + (if b then 1 else 0)) limit \<Longrightarrow> within n limit"
  by (auto simp: within_def split: if_splits)

lemma slots_take:
  assumes "slots_inv m held" "reserve_error m s = None" "sl_UserId s \<noteq> []"
  shows "slots_inv (take_slot s m) (add_mset s held)"
proof -
  have "um_byUserN (take_slot s m) = incr (um_byUserN m) (sl_UserId s)"
    using assms(3) by (simp add: take_slot_def incr_def)
  moreover have free: "\<not> over (int (size held)) (WsConnsTotal (um_limits m))"
    "\<not> over (count_by sl_UserId held (sl_UserId s)) (WsConnsPerUser (um_limits m))"
    "sl_TokenId s \<noteq> [] \<Longrightarrow> \<not> over (count_by sl_TokenId held (sl_TokenId s)) (WsConnsPerToken (um_limits m))"
    "sl_Ip s \<noteq> [] \<Longrightarrow> \<not> over (count_by sl_Ip held (sl_Ip s)) (WsConnsPerIp (um_limits m))"
    using assms n_at_counts by (auto simp: reserve_error_def slots_inv_def Let_def split: if_splits)
  have "limits_ok (um_limits m) (add_mset s held)"
  proof -
    have "within (int (size held) + 1) (WsConnsTotal (um_limits m))"
      using assms(1) free(1) within_add [of "int (size held)" _ True] by (simp add: slots_inv_def limits_ok_def)
    then show ?thesis
      using assms(1) free(2-4) unfolding slots_inv_def limits_ok_def
      by (auto simp del: count_by_simps simp: add.commute intro!: within_count)
  qed
  ultimately show ?thesis
    using assms(1,3) by (auto simp: slots_inv_def take_slot_def counts_incr)
qed

lemma limits_ok_less: "limits_ok l (add_mset s held) \<Longrightarrow> limits_ok l held"
  using within_less [of "int (size held)" True] unfolding limits_ok_def count_by_simps
  by (auto simp: add.commute dest: within_less)

lemma slots_release: "slots_inv m (add_mset s held) \<Longrightarrow> slots_inv (Release s m) held"
  using limits_ok_less by (auto simp: slots_inv_def Release_def counts_decr)

text \<open>The connections of each user are those adopted, in the order of adoption.\<close>

definition conns_inv :: "UserMap \<Rightarrow> Client list \<Rightarrow> bool" where
  "conns_inv m adopted \<longleftrightarrow> distinct adopted \<and>
     (\<forall>u. um_byUser m u = (let cs = filter (\<lambda>c. cl_UserId c = u) adopted in if cs = [] then None else Some cs))"

lemma conns_of_adopted: "conns_inv m adopted \<Longrightarrow> conns_of m u = filter (\<lambda>c. cl_UserId c = u) adopted"
  by (auto simp: conns_inv_def conns_of_def Let_def split: if_splits)

lemma filter_remove1: "filter P (remove1 x xs) = (if P x then remove1 x (filter P xs) else filter P xs)"
  by (induction xs) auto

lemma conns_adopt:
  assumes "conns_inv m adopted" "c \<notin> set adopted"
  shows "conns_inv (m\<lparr>um_byUser := (um_byUser m)(cl_UserId c \<mapsto> conns_of m (cl_UserId c) @ [c])\<rparr>) (adopted @ [c])"
  using assms by (auto simp: conns_inv_def conns_of_adopted [OF assms(1)] Let_def)

lemma conns_drop:
  assumes "conns_inv m adopted" "c \<in> set adopted"
  shows "conns_inv (Unregister c m) (remove1 c adopted)"
  using assms
  by (auto simp: Unregister_def conns_inv_def conns_of_adopted [OF assms(1)] Let_def Release_def filter_remove1)

section \<open>Connections in any interleaving\<close>

text \<open>The registry, the reservations made so far, and the clients whose upgrade has claimed its
  reservation but which are not adopted yet.\<close>

record Conns =
  cn_users :: UserMap
  cn_res :: "Reservation list"
  cn_claimed :: "Client list"

text \<open>A request reserves; any of the watchers gives a reservation back; the upgrade callback claims
  it for a client with a fresh connection id, adopts the client, and a close unregisters it.\<close>

inductive conn_step :: "Conns \<Rightarrow> Conns \<Rightarrow> bool" where
  reserved: "Reserve s (cn_users st) = (Inr (), m) \<Longrightarrow> sl_UserId s \<noteq> [] \<Longrightarrow>
    conn_step st (st\<lparr>cn_users := m, cn_res := cn_res st @ [\<lparr>rv_slot = s, rv_settled = False\<rparr>]\<rparr>)"
| refused: "Reserve s (cn_users st) = (Inl e, m) \<Longrightarrow> conn_step st (st\<lparr>cn_users := m\<rparr>)"
| given_back: "i < length (cn_res st) \<Longrightarrow> release_reservation (cn_res st ! i) (cn_users st) = (r, m) \<Longrightarrow>
    conn_step st (st\<lparr>cn_users := m, cn_res := (cn_res st)[i := r]\<rparr>)"
| claimed: "i < length (cn_res st) \<Longrightarrow> claim (cn_res st ! i) = (True, r) \<Longrightarrow> slot c = rv_slot r \<Longrightarrow>
    c \<notin> set (cn_claimed st) \<Longrightarrow> c \<notin> set (conns_of (cn_users st) (cl_UserId c)) \<Longrightarrow>
    conn_step st (st\<lparr>cn_res := (cn_res st)[i := r], cn_claimed := c # cn_claimed st\<rparr>)"
| adopted: "c \<in> set (cn_claimed st) \<Longrightarrow> Adopt closed c (cn_users st) = (x, m) \<Longrightarrow>
    conn_step st (st\<lparr>cn_users := m, cn_claimed := remove1 c (cn_claimed st)\<rparr>)"
| unregistered: "conn_step st (st\<lparr>cn_users := Unregister c (cn_users st)\<rparr>)"
| closed: "conn_step st (st\<lparr>cn_users := snd (Close_map ks (cn_users st))\<rparr>)"

definition no_conns :: "LimitsConfig \<Rightarrow> Conns" where
  "no_conns l = \<lparr>cn_users = NewUserMap l, cn_res = [], cn_claimed = []\<rparr>"

text \<open>The slots held: by reservations not settled, by claimed clients, by adopted clients.\<close>

definition open_slots :: "Reservation list \<Rightarrow> Slot multiset" where
  "open_slots rs = mset (map rv_slot (filter (\<lambda>r. \<not> rv_settled r) rs))"

definition held_slots :: "Conns \<Rightarrow> Client list \<Rightarrow> Slot multiset" where
  "held_slots st ad = open_slots (cn_res st) + image_mset slot (mset (cn_claimed st)) + image_mset slot (mset ad)"

definition conn_inv :: "Conns \<Rightarrow> bool" where
  "conn_inv st \<longleftrightarrow> (\<exists>ad. conns_inv (cn_users st) ad \<and> distinct (cn_claimed st) \<and> set (cn_claimed st) \<inter> set ad = {} \<and>
     slots_inv (cn_users st) (held_slots st ad))"

lemma open_slots_update:
  assumes "i < length rs" "\<not> rv_settled (rs ! i)" "rv_settled r"
  shows "open_slots rs = add_mset (rv_slot (rs ! i)) (open_slots (rs[i := r]))"
proof -
  have "open_slots rs = open_slots (take i rs @ rs ! i # drop (Suc i) rs)"
    by (rule arg_cong [OF id_take_nth_drop [OF assms(1)]])
  also have "\<dots> = add_mset (rv_slot (rs ! i)) (open_slots (take i rs @ r # drop (Suc i) rs))"
    using assms(2,3) by (simp add: open_slots_def)
  also have "take i rs @ r # drop (Suc i) rs = rs[i := r]"
    using assms(1) by (simp add: upd_conv_take_nth_drop)
  finally show ?thesis .
qed

lemma conns_inv_cong: "conns_inv m ad \<Longrightarrow> um_byUser m' = um_byUser m \<Longrightarrow> conns_inv m' ad"
  by (simp add: conns_inv_def)

lemma conn_invI:
  "conns_inv (cn_users st) ad \<Longrightarrow> distinct (cn_claimed st) \<Longrightarrow> set (cn_claimed st) \<inter> set ad = {} \<Longrightarrow>
     slots_inv (cn_users st) (held_slots st ad) \<Longrightarrow> conn_inv st"
  by (auto simp: conn_inv_def)

lemma Release_byUser [simp]: "um_byUser (Release s m) = um_byUser m"
  by (simp add: Release_def)

lemma slots_inv_byUser [simp]: "slots_inv (m\<lparr>um_byUser := x\<rparr>) held = slots_inv m held"
  "slots_inv (m\<lparr>um_closing := b\<rparr>) held = slots_inv m held"
  by (simp_all add: slots_inv_def)

lemma conn_step_inv:
  assumes "conn_step st st'" "conn_inv st"
  shows "conn_inv st'"
proof -
  obtain ad where ad: "conns_inv (cn_users st) ad" "distinct (cn_claimed st)" "set (cn_claimed st) \<inter> set ad = {}"
      "slots_inv (cn_users st) (held_slots st ad)"
    using assms(2) by (auto simp: conn_inv_def)
  show ?thesis
    using assms(1)
  proof (cases rule: conn_step.cases)
    case (reserved s m)
    then have "m = take_slot s (cn_users st)" "reserve_error (cn_users st) s = None"
      by (auto simp: Reserve_def split: option.splits)
    moreover have "held_slots st' ad = add_mset s (held_slots st ad)"
      using reserved(1) by (simp add: held_slots_def open_slots_def)
    ultimately have "slots_inv (cn_users st') (held_slots st' ad)" "um_byUser (cn_users st') = um_byUser (cn_users st)"
      using reserved slots_take [OF ad(4)] by (simp_all add: take_slot_def)
    then show ?thesis
      using ad(2,3) reserved(1) conns_inv_cong [OF ad(1)] by (intro conn_invI [where ad = ad]) simp_all
  next
    case (refused s e m)
    then show ?thesis
      using assms(2) by (auto simp: Reserve_def split: option.splits)
  next
    case (given_back i r m)
    show ?thesis
    proof (cases "rv_settled (cn_res st ! i)")
      case True
      then have "st' = st"
        using given_back by (auto simp: release_reservation_def claim_def)
      then show ?thesis
        using assms(2) by simp
    next
      case False
      then have r: "r = (cn_res st ! i)\<lparr>rv_settled := True\<rparr>" "m = Release (rv_slot (cn_res st ! i)) (cn_users st)"
        using given_back(3) by (auto simp: release_reservation_def claim_def)
      then have "held_slots st ad = add_mset (rv_slot (cn_res st ! i)) (held_slots st' ad)"
        using open_slots_update [OF given_back(2) False, of r] given_back(1) by (simp add: held_slots_def)
      then have "slots_inv m (held_slots st' ad)"
        using slots_release ad(4) r(2) by simp
      then show ?thesis
        using ad(2,3) given_back(1) r(2) conns_inv_cong [OF ad(1)] by (intro conn_invI [where ad = ad]) simp_all
    qed
  next
    case (claimed i r c)
    then have r: "\<not> rv_settled (cn_res st ! i)" "r = (cn_res st ! i)\<lparr>rv_settled := True\<rparr>"
      by (auto simp: claim_def split: if_splits)
    then have "held_slots st' ad = held_slots st ad"
      using open_slots_update [OF claimed(2) r(1), of r] claimed(1,4) by (simp add: held_slots_def)
    moreover have "c \<notin> set ad"
      using claimed(6) conns_of_adopted [OF ad(1)] by auto
    ultimately show ?thesis
      using ad claimed(1,5) by (intro conn_invI [where ad = ad]) simp_all
  next
    case (adopted c closed x m)
    have claimed: "image_mset slot (mset (cn_claimed st)) = add_mset (slot c) (image_mset slot (mset (remove1 c (cn_claimed st))))"
      using adopted(2) by (simp flip: image_mset_add_mset)
    show ?thesis
    proof (cases "adopt_error closed (cn_users st)")
      case None
      then have m: "m = (cn_users st)\<lparr>um_byUser := (um_byUser (cn_users st))(cl_UserId c \<mapsto> conns_of (cn_users st) (cl_UserId c) @ [c])\<rparr>"
        using adopted(3) by (auto simp: Adopt_def)
      have "held_slots st' (ad @ [c]) = held_slots st ad"
        using adopted(1) claimed by (simp add: held_slots_def)
      moreover have "conns_inv m (ad @ [c])"
        using conns_adopt [OF ad(1)] adopted(2) ad(3) m by auto
      ultimately show ?thesis
        using ad adopted(1) m set_remove1_subset [of c "cn_claimed st"]
        by (intro conn_invI [where ad = "ad @ [c]"]) auto
    next
      case (Some e)
      then have m: "m = Release (slot c) (cn_users st)"
        using adopted(3) by (auto simp: Adopt_def)
      have "held_slots st ad = add_mset (slot c) (held_slots st' ad)"
        using adopted(1) claimed by (simp add: held_slots_def)
      then have "slots_inv m (held_slots st' ad)"
        using slots_release ad(4) m by simp
      then show ?thesis
        using ad(2,3) adopted(1) m conns_inv_cong [OF ad(1)] set_remove1_subset [of c "cn_claimed st"]
        by (intro conn_invI [where ad = ad]) auto
    qed
  next
    case (unregistered c)
    show ?thesis
    proof (cases "c \<in> set ad")
      case True
      then have "image_mset slot (mset ad) = add_mset (slot c) (image_mset slot (mset (remove1 c ad)))"
        by (simp flip: image_mset_add_mset)
      then have "held_slots st ad = add_mset (slot c) (held_slots st' (remove1 c ad))"
        using unregistered by (simp add: held_slots_def)
      then have "slots_inv (Unregister c (cn_users st)) (held_slots st' (remove1 c ad))"
        using ad(4) True conns_of_adopted [OF ad(1)] slots_release [of _ "slot c"]
        by (auto simp: Unregister_def Let_def)
      then show ?thesis
        using ad(2,3) unregistered conns_drop [OF ad(1) True] set_remove1_subset [of c ad]
        by (intro conn_invI [where ad = "remove1 c ad"]) auto
    next
      case False
      then have "Unregister c (cn_users st) = cn_users st"
        using conns_of_adopted [OF ad(1)] by (simp add: Unregister_def)
      then show ?thesis
        using assms(2) unregistered by simp
    qed
  next
    case (closed ks)
    then show ?thesis
      using ad(2-4) conns_inv_cong [OF ad(1)] by (intro conn_invI [where ad = ad]) (simp_all add: Close_map_def held_slots_def)
  qed
qed

lemma conn_inv_start: "conn_inv (no_conns l)"
  unfolding conn_inv_def
  by (rule exI [of _ "[]"]) (simp add: no_conns_def NewUserMap_def conns_inv_def held_slots_def open_slots_def
      slots_inv_def counts_def limits_ok_def within_def)

lemma conn_steps_inv: "conn_step\<^sup>*\<^sup>* st st' \<Longrightarrow> conn_inv st \<Longrightarrow> conn_inv st'"
  by (induction rule: rtranclp_induct) (auto intro: conn_step_inv)

lemma count_by_mset: "count_by f (mset xs) k = int (length (filter (\<lambda>x. f x = k) xs))"
  by (simp add: count_by_def flip: mset_filter)

text \<open>The slots held, as a list: those of the open reservations, of the claimed and of the registered clients.\<close>

definition slots_of :: "Conns \<Rightarrow> Client list \<Rightarrow> Slot list" where
  "slots_of st ad = map rv_slot (filter (\<lambda>r. \<not> rv_settled r) (cn_res st)) @ map slot (cn_claimed st) @ map slot ad"

lemma held_slots_of: "held_slots st ad = mset (slots_of st ad)"
  by (simp add: held_slots_def slots_of_def open_slots_def)

text \<open>What a counter of the map and its limit say about the slots held.\<close>

definition exact :: "(string \<rightharpoonup> int) \<Rightarrow> (Slot \<Rightarrow> string) \<Rightarrow> int \<Rightarrow> Slot list \<Rightarrow> bool" where
  "exact m f limit held \<longleftrightarrow> (\<forall>k. k \<noteq> [] \<longrightarrow>
     n_at m k = int (length (filter (\<lambda>s. f s = k) held)) \<and> within (int (length (filter (\<lambda>s. f s = k) held))) limit)"

lemma exactI:
  assumes "counts m f (mset held)" "\<forall>k. k \<noteq> [] \<longrightarrow> within (count_by f (mset held) k) limit"
  shows "exact m f limit held"
  using assms n_at_counts [OF assms(1)] unfolding exact_def count_by_mset by simp

lemma exactD: "exact m f limit held \<Longrightarrow> k \<noteq> [] \<Longrightarrow> n_at m k = int (length (filter (\<lambda>s. f s = k) held))"
  by (simp add: exact_def)

lemma counts_none: "counts m f (mset []) \<Longrightarrow> m = Map.empty"
  by (auto simp: counts_def)

lemma conn_step_limits: "conn_step st st' \<Longrightarrow> um_limits (cn_users st') = um_limits (cn_users st)"
  by (cases rule: conn_step.cases, assumption)
    (auto simp: Reserve_def take_slot_def release_reservation_def claim_def Release_def Adopt_def Unregister_def Let_def
      Close_map_def split: option.splits if_splits)

lemma conn_steps_limits: "conn_step\<^sup>*\<^sup>* st st' \<Longrightarrow> um_limits (cn_users st') = um_limits (cn_users st)"
  by (induction rule: rtranclp_induct) (auto dest: conn_step_limits)

text \<open>C25: whatever the connections of a node do and however their handshakes, upgrades, closes and the
  shutdown interleave, the node's counters, in total and by user, by token and by address, are the
  numbers of slots that open reservations, claimed and registered connections hold, and none of
  them passes its configured limit. Every slot is given back exactly once: when none is held, all
  counters are empty.\<close>

theorem slots_never_leak:
  assumes "conn_step\<^sup>*\<^sup>* (no_conns l) st"
  shows "\<exists>ad. distinct ad \<and> (\<forall>u. conns_of (cn_users st) u = filter (\<lambda>c. cl_UserId c = u) ad) \<and>
    (let held = slots_of st ad; m = cn_users st in
     Count m = int (length held) \<and> within (Count m) (WsConnsTotal l) \<and>
     exact (um_byUserN m) sl_UserId (WsConnsPerUser l) held \<and> exact (um_byToken m) sl_TokenId (WsConnsPerToken l) held \<and>
     exact (um_byIp m) sl_Ip (WsConnsPerIp l) held \<and>
     (held = [] \<longrightarrow> um_byUserN m = Map.empty \<and> um_byToken m = Map.empty \<and> um_byIp m = Map.empty))"
proof -
  have l: "um_limits (cn_users st) = l"
    using conn_steps_limits [OF assms] by (simp add: no_conns_def NewUserMap_def)
  obtain ad where ad: "conns_inv (cn_users st) ad" "slots_inv (cn_users st) (mset (slots_of st ad))"
    using conn_steps_inv [OF assms conn_inv_start] by (auto simp: conn_inv_def held_slots_of)
  have c: "counts (um_byUserN (cn_users st)) sl_UserId (mset (slots_of st ad))"
      "counts (um_byToken (cn_users st)) sl_TokenId (mset (slots_of st ad))"
      "counts (um_byIp (cn_users st)) sl_Ip (mset (slots_of st ad))"
      "Count (cn_users st) = int (length (slots_of st ad))" "limits_ok l (mset (slots_of st ad))"
    using ad(2) by (simp_all add: slots_inv_def l Count_def)
  have "exact (um_byUserN (cn_users st)) sl_UserId (WsConnsPerUser l) (slots_of st ad)"
      "exact (um_byToken (cn_users st)) sl_TokenId (WsConnsPerToken l) (slots_of st ad)"
      "exact (um_byIp (cn_users st)) sl_Ip (WsConnsPerIp l) (slots_of st ad)"
    using c(5) by (intro exactI c(1-3); simp add: limits_ok_def)+
  moreover have "slots_of st ad = [] \<Longrightarrow> um_byUserN (cn_users st) = Map.empty \<and> um_byToken (cn_users st) = Map.empty \<and> um_byIp (cn_users st) = Map.empty"
    using c(1-3) counts_none by metis
  moreover have "within (Count (cn_users st)) (WsConnsTotal l)" "distinct ad" "\<forall>u. conns_of (cn_users st) u = filter (\<lambda>c. cl_UserId c = u) ad"
    using c(4,5) ad(1) conns_of_adopted [OF ad(1)] by (simp_all add: limits_ok_def conns_inv_def)
  ultimately show ?thesis
    using c(4) unfolding Let_def by blast
qed

definition demo_client :: "string \<Rightarrow> Client" where
  "demo_client i = \<lparr>cl_Id = i, cl_Ip = ''10.0.0.1'', cl_Identity = \<lparr>id_UserId = ''u___1'', id_Role = ''user'', id_PlatformId = 1,
     id_TokenId = ''t1'', id_ExpiresAt = 0, id_Source = ''external''\<rparr>\<rparr>"

definition demo_slot :: Slot where
  "demo_slot = slot (demo_client ''c1'')"

definition demo_limits :: LimitsConfig where
  "demo_limits = cfg_Limits (Default ''host'')"

definition demo_reserved :: Conns where
  "demo_reserved = \<lparr>cn_users = snd (Reserve demo_slot (NewUserMap demo_limits)), cn_res = [\<lparr>rv_slot = demo_slot, rv_settled = False\<rparr>],
     cn_claimed = []\<rparr>"

lemma demo_reserved_step: "conn_step (no_conns demo_limits) demo_reserved"
proof -
  have "Reserve demo_slot (NewUserMap demo_limits) = (Inr (), snd (Reserve demo_slot (NewUserMap demo_limits)))"
    by (simp add: Reserve_def reserve_error_def over_def NewUserMap_def demo_limits_def Default_def n_at_def)
  moreover have "sl_UserId demo_slot \<noteq> []"
    by (simp add: demo_slot_def slot_def demo_client_def cl_UserId_def)
  ultimately show ?thesis
    using conn_step.reserved [of demo_slot "no_conns demo_limits"] by (simp add: no_conns_def demo_reserved_def)
qed

theorem slots_never_leak_witness:
  "n_at (um_byUserN (cn_users demo_reserved)) ''u___1'' = 1 \<and> n_at (um_byToken (cn_users demo_reserved)) ''t1'' = 1 \<and>
   n_at (um_byIp (cn_users demo_reserved)) ''10.0.0.1'' = 1"
proof -
  have "conn_step\<^sup>*\<^sup>* (no_conns demo_limits) demo_reserved"
    using demo_reserved_step by blast
  from slots_never_leak [OF this] obtain ad where ad: "\<forall>u. conns_of (cn_users demo_reserved) u = filter (\<lambda>c. cl_UserId c = u) ad"
      "exact (um_byUserN (cn_users demo_reserved)) sl_UserId (WsConnsPerUser demo_limits) (slots_of demo_reserved ad)"
      "exact (um_byToken (cn_users demo_reserved)) sl_TokenId (WsConnsPerToken demo_limits) (slots_of demo_reserved ad)"
      "exact (um_byIp (cn_users demo_reserved)) sl_Ip (WsConnsPerIp demo_limits) (slots_of demo_reserved ad)"
    unfolding Let_def by blast
  have "conns_of (cn_users demo_reserved) u = []" for u
    by (simp add: demo_reserved_def Reserve_def reserve_error_def over_def NewUserMap_def demo_limits_def Default_def n_at_def take_slot_def conns_of_def)
  then have "filter (\<lambda>c'. cl_UserId c' = cl_UserId (hd ad)) ad = []"
    using ad(1) by metis
  then have "ad = []"
    by (cases ad) auto
  then have held: "slots_of demo_reserved ad = [demo_slot]"
    by (simp add: slots_of_def demo_reserved_def)
  show ?thesis
    using ad(2-4) [unfolded held, THEN exactD] by (simp add: demo_slot_def slot_def demo_client_def cl_UserId_def)
qed

end
