(* ===== verification/SendQueue.thy ===== *)
theory SendQueue
  imports UserMap
begin

text \<open>
  \<^verbatim>\<open>internal/gateway/budget.go\<close> and the outbound queue of \<^verbatim>\<open>client.go\<close>: the node's byte budget, a
  connection's queue with its own count, and the pieces in which \<^verbatim>\<open>Send\<close>, \<^verbatim>\<open>Push\<close>, \<^verbatim>\<open>queueFrame\<close>,
  \<^verbatim>\<open>write\<close> and \<^verbatim>\<open>close\<close> change them: each piece is one atomic operation on the budget or one
  section under \<^verbatim>\<open>sendMu\<close>. The functions are the compositions of their pieces; \<^verbatim>\<open>send_step\<close>
  interleaves the pieces of any number of goroutines. The counters are integers here: they count
  bytes in memory, so the code's \<^verbatim>\<open>int64\<close> does not wrap.
\<close>

section \<open>budget.go\<close>

record Budget =
  b_limit :: int64
  b_queued :: int64
  b_slowConsumers :: int64
  b_rateLimited :: int64
  b_dropped :: int64

definition newSendBudget :: "int64 \<Rightarrow> Budget" where
  "newSendBudget limit = \<lparr>b_limit = limit, b_queued = 0, b_slowConsumers = 0, b_rateLimited = 0, b_dropped = 0\<rparr>"

definition budget_take :: "int64 \<Rightarrow> Budget \<Rightarrow> Budget" where
  "budget_take n b = b\<lparr>b_queued := b_queued b + n\<rparr>"

definition budget_release :: "int64 \<Rightarrow> Budget \<Rightarrow> Budget" where
  "budget_release n b = b\<lparr>b_queued := b_queued b - n\<rparr>"

text \<open>\<^verbatim>\<open>tryTake\<close> adds first and looks at the sum; when that is over the cap it takes the bytes back.\<close>

definition tryTake_add :: "int64 \<Rightarrow> Budget \<Rightarrow> bool \<times> Budget" where
  "tryTake_add n b = (let b1 = budget_take n b in (b_limit b > 0 \<and> b_queued b1 > b_limit b, b1))"

definition tryTake_back :: "int64 \<Rightarrow> Budget \<Rightarrow> Budget" where
  "tryTake_back n b = (budget_release n b)\<lparr>b_dropped := b_dropped b + 1\<rparr>"

definition tryTake :: "int64 \<Rightarrow> Budget \<Rightarrow> bool \<times> Budget" where
  "tryTake n b = (case tryTake_add n b of (True, b1) \<Rightarrow> (False, tryTake_back n b1) | (False, b1) \<Rightarrow> (True, b1))"

section \<open>The queue of a connection\<close>

text \<open>The channel with its capacity, the byte count under \<^verbatim>\<open>sendMu\<close>, and the frame the writer has
  received from the channel and not accounted for yet.\<close>

record SendState =
  q_send :: "string list"
  q_cap :: int
  q_queued :: int64
  q_closing :: bool
  q_writing :: "string option"

definition new_queue :: "int \<Rightarrow> SendState" where
  "new_queue cap = \<lparr>q_send = [], q_cap = cap, q_queued = 0, q_closing = False, q_writing = None\<rparr>"

definition bytes :: "string \<Rightarrow> int64" where
  "bytes f = int (length f)"

datatype queue_result = Queued | WasClosing | QueueFull

text \<open>\<^verbatim>\<open>queueFrame\<close>: the section under the lock, then what it does to the budget.\<close>

definition queue_section :: "string \<Rightarrow> SendState \<Rightarrow> queue_result \<times> SendState" where
  "queue_section frame q =
     (if q_closing q then (WasClosing, q)
      else if int (length (q_send q)) < q_cap q
      then (Queued, q\<lparr>q_send := q_send q @ [frame], q_queued := q_queued q + bytes frame\<rparr>)
      else (QueueFull, q))"

definition queue_end :: "queue_result \<Rightarrow> string \<Rightarrow> Budget \<Rightarrow> (bool \<times> Error option) \<times> Budget" where
  "queue_end r frame b =
     (case r of
        Queued \<Rightarrow> ((False, None), b)
      | WasClosing \<Rightarrow> ((False, Some ErrConnClosed), budget_release (bytes frame) b)
      | QueueFull \<Rightarrow> ((True, Some (WithMessage ErrConnClosed ''send queue full'')),
          (budget_release (bytes frame) b)\<lparr>b_slowConsumers := b_slowConsumers b + 1\<rparr>))"

definition queueFrame :: "string \<Rightarrow> SendState \<Rightarrow> Budget \<Rightarrow> (bool \<times> Error option) \<times> SendState \<times> Budget" where
  "queueFrame frame q b =
     (case queue_section frame q of (r, q') \<Rightarrow> case queue_end r frame b of (res, b') \<Rightarrow> (res, q', b'))"

text \<open>The writer receives a frame; \<^verbatim>\<open>write\<close> then accounts for it.\<close>

definition receive :: "SendState \<Rightarrow> SendState" where
  "receive q = (case q_send q of [] \<Rightarrow> q | f # rest \<Rightarrow> q\<lparr>q_send := rest, q_writing := Some f\<rparr>)"

definition write_queue :: "SendState \<Rightarrow> int64 option \<times> SendState" where
  "write_queue q =
     (case q_writing q of
        None \<Rightarrow> (None, q)
      | Some f \<Rightarrow>
          if q_closing q then (None, q\<lparr>q_writing := None\<rparr>)
          else (Some (bytes f), q\<lparr>q_writing := None, q_queued := q_queued q - bytes f\<rparr>))"

definition write_section :: "SendState \<Rightarrow> Budget \<Rightarrow> SendState \<times> Budget" where
  "write_section q b = (case write_queue q of (None, q') \<Rightarrow> (q', b) | (Some n, q') \<Rightarrow> (q', budget_release n b))"

text \<open>The section of \<^verbatim>\<open>close\<close>: the bytes it returns are released after it.\<close>

definition close_section :: "SendState \<Rightarrow> int64 \<times> SendState" where
  "close_section q = (q_queued q, q\<lparr>q_closing := True, q_queued := 0\<rparr>)"

section \<open>The bytes of a queue\<close>

definition held_bytes :: "SendState \<Rightarrow> int64" where
  "held_bytes q = sum_list (map bytes (q_send q)) + (case q_writing q of None \<Rightarrow> 0 | Some f \<Rightarrow> bytes f)"

definition queue_inv :: "SendState \<Rightarrow> bool" where
  "queue_inv q \<longleftrightarrow> q_queued q = (if q_closing q then 0 else held_bytes q) \<and> int (length (q_send q)) \<le> q_cap q"

definition frames :: "SendState \<Rightarrow> string list" where
  "frames q = (case q_writing q of None \<Rightarrow> [] | Some f \<Rightarrow> [f]) @ q_send q"

lemma bytes_nonneg [simp]: "0 \<le> bytes f"
  by (simp add: bytes_def)

lemma held_frames: "held_bytes q = sum_list (map bytes (frames q))"
  by (simp add: held_bytes_def frames_def split: option.split)

lemma queued_nonneg: "queue_inv q \<Longrightarrow> 0 \<le> q_queued q"
  by (auto simp: queue_inv_def held_frames intro!: sum_list_nonneg)

lemma queue_section_inv:
  assumes "queue_section frame q = (Queued, q')" "queue_inv q"
  shows "queue_inv q'" "q_queued q' = q_queued q + bytes frame"
  using assms by (auto simp: queue_section_def queue_inv_def held_bytes_def split: if_splits)

lemma queue_section_cases:
  assumes "queue_section frame q = (r, q')"
  shows "r \<noteq> Queued \<Longrightarrow> q' = q" "r = Queued \<Longrightarrow> frames q' = frames q @ [frame] \<and> \<not> q_closing q \<and> \<not> q_closing q'"
  using assms by (auto simp: queue_section_def frames_def split: if_splits)

lemma receive_inv:
  assumes "queue_inv q" "q_writing q = None"
  shows "queue_inv (receive q)" "q_queued (receive q) = q_queued q"
  using assms by (auto simp: receive_def queue_inv_def held_bytes_def split: list.split)

lemma receive_frames:
  assumes "q_writing q = None"
  shows "frames (receive q) = frames q" "q_closing (receive q) = q_closing q"
  using assms by (auto simp: receive_def frames_def split: list.split)

lemma write_section_inv:
  assumes "write_section q b = (q', b')" "queue_inv q"
  shows "queue_inv q'" "b_queued b' - q_queued q' = b_queued b - q_queued q"
  using assms
  by (auto simp: write_section_def write_queue_def queue_inv_def held_bytes_def budget_release_def split: option.splits if_splits)

lemma write_queue_inv:
  assumes "write_queue q = (n, q')" "queue_inv q"
  shows "queue_inv q'" "q_queued q' + (case n of None \<Rightarrow> 0 | Some n \<Rightarrow> n) = q_queued q" "\<And>k. n = Some k \<Longrightarrow> 0 \<le> k"
  using assms by (auto simp: write_queue_def queue_inv_def held_bytes_def split: option.splits if_splits)

lemma close_section_inv:
  assumes "close_section q = (leaked, q')" "queue_inv q"
  shows "queue_inv q'" "q_queued q' + leaked = q_queued q"
  using assms by (auto simp: close_section_def queue_inv_def)

section \<open>Interleavings\<close>

text \<open>Where a goroutine stands between two pieces, with the connection it works on: the bytes of a
  frame are charged and it is about to be queued (the flag says that it is a push the cap let
  through); a push was found over the cap; its bytes were taken back and the resync is due;
  \<^verbatim>\<open>queueFrame\<close> has left the lock; bytes are about to be released.\<close>

datatype Task = Enqueue nat string bool | OverCap nat string | ResyncDue nat | Unlocked queue_result nat string | ToRelease int64

text \<open>A connection with, for each frame it holds, whether that is a push.\<close>

record Sends =
  ss_budget :: Budget
  ss_conns :: "(SendState \<times> bool list) list"
  ss_tasks :: "Task multiset"

definition no_sends :: "int64 \<Rightarrow> Sends" where
  "no_sends limit = \<lparr>ss_budget = newSendBudget limit, ss_conns = [], ss_tasks = {#}\<rparr>"

definition move :: "Task \<Rightarrow> Task multiset \<Rightarrow> Budget \<Rightarrow> Sends \<Rightarrow> Sends" where
  "move t next b st = st\<lparr>ss_budget := b, ss_tasks := ss_tasks st - {#t#} + next\<rparr>"

definition start :: "Task \<Rightarrow> Budget \<Rightarrow> Sends \<Rightarrow> Sends" where
  "start t b st = st\<lparr>ss_budget := b, ss_tasks := add_mset t (ss_tasks st)\<rparr>"

definition set_conn :: "nat \<Rightarrow> SendState \<Rightarrow> bool list \<Rightarrow> Sends \<Rightarrow> Sends" where
  "set_conn i q ms st = st\<lparr>ss_conns := (ss_conns st)[i := (q, ms)]\<rparr>"

text \<open>\<^verbatim>\<open>sent\<close> and \<^verbatim>\<open>pushed\<close> begin \<^verbatim>\<open>Send\<close> and \<^verbatim>\<open>Push\<close>; the closing of a slow consumer is one of the closes,
  which can come at any moment, once per connection.\<close>

inductive send_step :: "Sends \<Rightarrow> Sends \<Rightarrow> bool" where
  opened: "0 < cap \<Longrightarrow> send_step st (st\<lparr>ss_conns := ss_conns st @ [(new_queue cap, [])]\<rparr>)"
| sent: "i < length (ss_conns st) \<Longrightarrow>
    send_step st (start (Enqueue i f False) (budget_take (bytes f) (ss_budget st)) st)"
| pushed: "i < length (ss_conns st) \<Longrightarrow> tryTake_add (bytes f) (ss_budget st) = (past, b) \<Longrightarrow>
    send_step st (start (if past then OverCap i f else Enqueue i f True) b st)"
| taken_back: "OverCap i f \<in># ss_tasks st \<Longrightarrow>
    send_step st (move (OverCap i f) {#ResyncDue i#} (tryTake_back (bytes f) (ss_budget st)) st)"
| resynced: "ResyncDue i \<in># ss_tasks st \<Longrightarrow>
    send_step st (move (ResyncDue i) {#Enqueue i f False#} (budget_take (bytes f) (ss_budget st)) st)"
| locked: "Enqueue i f p \<in># ss_tasks st \<Longrightarrow> i < length (ss_conns st) \<Longrightarrow> ss_conns st ! i = (q, ms) \<Longrightarrow>
    queue_section f q = (r, q') \<Longrightarrow>
    send_step st (set_conn i q' (if r = Queued then ms @ [p] else ms) (move (Enqueue i f p) {#Unlocked r i f#} (ss_budget st) st))"
| ended: "Unlocked r i f \<in># ss_tasks st \<Longrightarrow> queue_end r f (ss_budget st) = (res, b) \<Longrightarrow>
    send_step st (move (Unlocked r i f) {#} b st)"
| received: "i < length (ss_conns st) \<Longrightarrow> ss_conns st ! i = (q, ms) \<Longrightarrow> q_writing q = None \<Longrightarrow>
    send_step st (set_conn i (receive q) ms st)"
| written: "i < length (ss_conns st) \<Longrightarrow> ss_conns st ! i = (q, ms) \<Longrightarrow> write_queue q = (n, q') \<Longrightarrow>
    send_step st (set_conn i q' (if q_writing q = None then ms else tl ms)
      (case n of None \<Rightarrow> st | Some k \<Rightarrow> start (ToRelease k) (ss_budget st) st))"
| closing: "i < length (ss_conns st) \<Longrightarrow> ss_conns st ! i = (q, ms) \<Longrightarrow> \<not> q_closing q \<Longrightarrow> close_section q = (leaked, q') \<Longrightarrow>
    send_step st (set_conn i q' ms (start (ToRelease leaked) (ss_budget st) st))"
| released: "ToRelease n \<in># ss_tasks st \<Longrightarrow>
    send_step st (move (ToRelease n) {#} (budget_release n (ss_budget st)) st)"

section \<open>Accounting\<close>

text \<open>The bytes a goroutine has charged and that are in no queue, and those of pushes among them.\<close>

fun debt :: "Task \<Rightarrow> int64" where
  "debt (Enqueue i f p) = bytes f"
| "debt (OverCap i f) = bytes f"
| "debt (ResyncDue i) = 0"
| "debt (Unlocked r i f) = (if r = Queued then 0 else bytes f)"
| "debt (ToRelease n) = n"

fun push_debt :: "Task \<Rightarrow> int64" where
  "push_debt (Enqueue i f p) = (if p then bytes f else 0)"
| "push_debt _ = 0"

definition debts :: "Sends \<Rightarrow> int64" where
  "debts st = sum_mset (image_mset debt (ss_tasks st))"

definition queued_total :: "Sends \<Rightarrow> int64" where
  "queued_total st = sum_list (map (q_queued \<circ> fst) (ss_conns st))"

text \<open>The bytes of the pushes an open connection holds.\<close>

definition marked :: "bool list \<Rightarrow> string list \<Rightarrow> int64" where
  "marked ms fs = sum_list (map (\<lambda>(m, f). if m then bytes f else 0) (zip ms fs))"

definition pushes_held :: "SendState \<times> bool list \<Rightarrow> int64" where
  "pushes_held c = (case c of (q, ms) \<Rightarrow> if q_closing q then 0 else marked ms (frames q))"

definition pushed_bytes :: "Sends \<Rightarrow> int64" where
  "pushed_bytes st = sum_list (map pushes_held (ss_conns st)) + sum_mset (image_mset push_debt (ss_tasks st))"

definition conn_ok :: "SendState \<times> bool list \<Rightarrow> bool" where
  "conn_ok c \<longleftrightarrow> queue_inv (fst c) \<and> length (snd c) = length (frames (fst c))"

definition sends_inv :: "Sends \<Rightarrow> bool" where
  "sends_inv st \<longleftrightarrow> (\<forall>c \<in> set (ss_conns st). conn_ok c) \<and> (\<forall>t \<in># ss_tasks st. 0 \<le> debt t) \<and>
     b_queued (ss_budget st) = queued_total st + debts st"

definition capped :: "Sends \<Rightarrow> bool" where
  "capped st \<longleftrightarrow> (if b_limit (ss_budget st) > 0 then pushed_bytes st \<le> b_limit (ss_budget st)
     else \<forall>i f. OverCap i f \<notin># ss_tasks st)"

lemma sum_list_replace:
  "i < length xs \<Longrightarrow> sum_list (map f (xs[i := x])) = sum_list (map f xs) - f (xs ! i) + (f x :: int)"
proof (induction xs arbitrary: i)
  case (Cons y ys)
  then show ?case
    by (cases i) auto
qed simp

lemma sum_list_zero: "(\<And>x. x \<in> set xs \<Longrightarrow> f x = (0 :: int)) \<Longrightarrow> sum_list (map f xs) = 0"
  by (induction xs) auto

lemma sum_image_remove: "t \<in># M \<Longrightarrow> sum_mset (image_mset g (M - {#t#})) = sum_mset (image_mset g M) - (g t :: int)"
  by (auto dest!: multi_member_split)

lemma debts_start [simp]: "debts (start t b st) = debts st + debt t" "queued_total (start t b st) = queued_total st"
  by (simp_all add: debts_def start_def queued_total_def)

lemma debts_move:
  "t \<in># ss_tasks st \<Longrightarrow> debts (move t next b st) = debts st - debt t + sum_mset (image_mset debt next)"
  by (simp add: debts_def move_def sum_image_remove)

lemma queued_move [simp]: "queued_total (move t next b st) = queued_total st"
  by (simp add: move_def queued_total_def)

lemma set_conn_totals:
  "debts (set_conn i q ms st) = debts st"
  "i < length (ss_conns st) \<Longrightarrow> queued_total (set_conn i q ms st) = queued_total st - q_queued (fst (ss_conns st ! i)) + q_queued q"
  by (simp_all add: set_conn_def debts_def queued_total_def sum_list_replace)

lemma inv_start:
  assumes "sends_inv st" "0 \<le> debt t" "b_queued b = b_queued (ss_budget st) + debt t"
  shows "sends_inv (start t b st)"
  using assms debts_start [of t b st] by (simp add: sends_inv_def) (simp add: start_def)

lemma inv_move:
  assumes "sends_inv st" "t \<in># ss_tasks st" "\<forall>u \<in># next. 0 \<le> debt u"
    "b_queued b = b_queued (ss_budget st) - debt t + sum_mset (image_mset debt next)"
  shows "sends_inv (move t next b st)"
proof -
  have "\<forall>u \<in># ss_tasks (move t next b st). 0 \<le> debt u"
    using assms(1,3) by (auto simp: move_def sends_inv_def dest: in_diffD)
  then show ?thesis
    using assms debts_move [OF assms(2), of "next" b] by (simp add: sends_inv_def) (simp add: move_def)
qed

text \<open>A connection changes by \<^verbatim>\<open>d\<close> bytes; the state \<^verbatim>\<open>st'\<close> has the other changes.\<close>

definition off_by :: "int64 \<Rightarrow> Sends \<Rightarrow> bool" where
  "off_by d st \<longleftrightarrow> sends_inv (st\<lparr>ss_budget := (ss_budget st)\<lparr>b_queued := b_queued (ss_budget st) - d\<rparr>\<rparr>)"

lemma inv_set_conn:
  assumes "i < length (ss_conns st)" "ss_conns st ! i = (q, ms)" "conn_ok (q', ms')" "off_by (q_queued q' - q_queued q) st"
  shows "sends_inv (set_conn i q' ms' st)"
proof -
  have "\<forall>c \<in> set (ss_conns (set_conn i q' ms' st)). conn_ok c"
    using assms(3,4) set_update_subset_insert [of "ss_conns st" i "(q', ms')"] by (auto simp: set_conn_def off_by_def sends_inv_def)
  moreover have "b_queued (ss_budget st) = queued_total (set_conn i q' ms' st) + debts (set_conn i q' ms' st)"
    using assms by (simp add: set_conn_totals) (simp add: off_by_def sends_inv_def queued_total_def debts_def)
  ultimately show ?thesis
    using assms(4) by (simp add: sends_inv_def off_by_def) (simp add: set_conn_def)
qed

lemma set_budget [simp]:
  "(start t b st)\<lparr>ss_budget := b'\<rparr> = start t b' st" "(move t next b st)\<lparr>ss_budget := b'\<rparr> = move t next b' st"
  "ss_budget (start t b st) = b" "ss_budget (move t next b st) = b"
  "ss_conns (start t b st) = ss_conns st" "ss_conns (move t next b st) = ss_conns st"
  by (simp_all add: start_def move_def)

lemma off_by_start: "sends_inv st \<Longrightarrow> 0 \<le> debt t \<Longrightarrow> off_by (- debt t) (start t (ss_budget st) st)"
  using inv_start [of st t "(ss_budget st)\<lparr>b_queued := b_queued (ss_budget st) + debt t\<rparr>"] by (simp add: off_by_def)

lemma off_by_move:
  assumes "sends_inv st" "t \<in># ss_tasks st" "0 \<le> debt u"
  shows "off_by (debt t - debt u) (move t {#u#} (ss_budget st) st)"
  using inv_move [OF assms(1,2), of "{#u#}" "(ss_budget st)\<lparr>b_queued := b_queued (ss_budget st) - debt t + debt u\<rparr>"] assms(3)
  by (simp add: off_by_def algebra_simps)

lemma write_queue_frames:
  assumes "write_queue q = (n, q')"
  shows "frames q' = (if q_writing q = None then frames q else tl (frames q))" "q_closing q' = q_closing q"
  using assms by (auto simp: write_queue_def frames_def split: option.splits if_splits)

lemma close_section_frames:
  assumes "close_section q = (leaked, q')"
  shows "frames q' = frames q" "q_closing q'"
  using assms by (auto simp: close_section_def frames_def)

lemma conn_in:
  assumes "sends_inv st" "i < length (ss_conns st)" "ss_conns st ! i = (q, ms)"
  shows "queue_inv q" "length ms = length (frames q)"
  using assms nth_mem [OF assms(2)] by (auto simp: sends_inv_def conn_ok_def)

lemma queue_end_bytes:
  "queue_end r f b = (res, b') \<Longrightarrow> b_queued b' = b_queued b - debt (Unlocked r i f) \<and> b_limit b' = b_limit b"
  by (auto simp: queue_end_def budget_release_def split: queue_result.splits)

lemma tryTake_add_bytes:
  "tryTake_add n b = (past, b') \<Longrightarrow> b_queued b' = b_queued b + n \<and> b_limit b' = b_limit b \<and> (past \<longleftrightarrow> b_limit b > 0 \<and> b_queued b' > b_limit b)"
  by (auto simp: tryTake_add_def budget_take_def Let_def)

lemma send_step_inv:
  assumes "send_step st st'" "sends_inv st"
  shows "sends_inv st'"
  using assms(1)
proof (cases rule: send_step.cases)
  case (opened cap)
  then show ?thesis
    using assms(2)
    by (simp add: sends_inv_def new_queue_def conn_ok_def queue_inv_def held_bytes_def frames_def queued_total_def debts_def)
next
  case (sent i f)
  then show ?thesis
    using inv_start [OF assms(2)] by (simp add: budget_take_def)
next
  case (pushed i f past b)
  then show ?thesis
    using inv_start [OF assms(2)] tryTake_add_bytes [OF pushed(3)] by simp
next
  case (taken_back i f)
  then show ?thesis
    using inv_move [OF assms(2) taken_back(2)] by (simp add: tryTake_back_def budget_release_def)
next
  case (resynced i f)
  then show ?thesis
    using inv_move [OF assms(2) resynced(2)] by (simp add: budget_take_def)
next
  case (locked i f p q ms r q')
  note q = conn_in [OF assms(2) locked(3,4)]
  have "conn_ok (q', if r = Queued then ms @ [p] else ms) \<and> q_queued q' - q_queued q = debt (Enqueue i f p) - debt (Unlocked r i f)"
    using q locked(5) queue_section_cases [OF locked(5)] queue_section_inv [of f q q'] by (cases r) (auto simp: conn_ok_def)
  then show ?thesis
    using locked inv_set_conn [of i "move (Enqueue i f p) {#Unlocked r i f#} (ss_budget st) st" q ms]
      off_by_move [OF assms(2) locked(2), of "Unlocked r i f"] by simp
next
  case (ended r i f res b)
  then show ?thesis
    using inv_move [OF assms(2) ended(2)] queue_end_bytes [OF ended(3), of i] by simp
next
  case (received i q ms)
  have "conn_ok (receive q, ms)" "q_queued (receive q) = q_queued q"
    using conn_in [OF assms(2) received(2,3)] receive_inv [of q] receive_frames [of q] received(4) by (simp_all add: conn_ok_def)
  then show ?thesis
    using received inv_set_conn [of i st q ms] assms(2) by (simp add: off_by_def)
next
  case (written i q ms n q')
  note q = conn_in [OF assms(2) written(2,3)]
  have ok: "conn_ok (q', if q_writing q = None then ms else tl ms)"
    using q write_queue_inv(1) [OF written(4) q(1)] write_queue_frames [OF written(4)] by (simp add: conn_ok_def)
  show ?thesis
  proof (cases n)
    case None
    then show ?thesis
      using written inv_set_conn [OF written(2,3) ok] write_queue_inv(2) [OF written(4) q(1)] assms(2) by (simp add: off_by_def)
  next
    case (Some k)
    then have d: "q_queued q' - q_queued q = - k" "0 \<le> k"
      using write_queue_inv(2,3) [OF written(4) q(1)] by auto
    show ?thesis
      using Some written(1-3) inv_set_conn [of i "start (ToRelease k) (ss_budget st) st" q ms, OF _ _ ok]
        d off_by_start [OF assms(2), of "ToRelease k"] by simp
  qed
next
  case (closing i q ms leaked q')
  note q = conn_in [OF assms(2) closing(2,3)]
  have "conn_ok (q', ms)" "q_queued q' - q_queued q = - leaked" "0 \<le> leaked"
    using q close_section_inv [OF closing(5) q(1)] close_section_frames [OF closing(5)] queued_nonneg [OF q(1)] closing(5)
    by (auto simp: conn_ok_def close_section_def)
  then show ?thesis
    using closing inv_set_conn [of i "start (ToRelease leaked) (ss_budget st) st" q ms]
      off_by_start [OF assms(2), of "ToRelease leaked"] by simp
next
  case (released n)
  then show ?thesis
    using inv_move [OF assms(2) released(2)] by (simp add: budget_release_def)
qed

lemma no_sends_inv: "sends_inv (no_sends limit)"
  by (simp add: no_sends_def newSendBudget_def sends_inv_def queued_total_def debts_def)

lemma send_steps_inv: "send_step\<^sup>*\<^sup>* (no_sends limit) st \<Longrightarrow> sends_inv st"
  by (induction rule: rtranclp_induct) (use no_sends_inv send_step_inv in auto)

section \<open>The cap on pushes\<close>

lemma marked_bounds:
  "length ms = length fs \<Longrightarrow> 0 \<le> marked ms fs \<and> marked ms fs \<le> sum_list (map bytes fs)"
  by (induction ms fs rule: list_induct2) (auto simp: marked_def add_increasing)

lemma marked_snoc: "length ms = length fs \<Longrightarrow> marked (ms @ [p]) (fs @ [f]) = marked ms fs + (if p then bytes f else 0)"
  by (simp add: marked_def)

lemma marked_tl: "length ms = length fs \<Longrightarrow> marked (tl ms) (tl fs) \<le> marked ms fs"
  by (cases ms; cases fs) (auto simp: marked_def)

lemma pushes_held_le: "conn_ok c \<Longrightarrow> pushes_held c \<le> q_queued (fst c)"
  using marked_bounds [of "snd c" "frames (fst c)"]
  by (auto simp: conn_ok_def pushes_held_def queue_inv_def held_frames split: prod.split)

lemma push_debt_le: "0 \<le> debt t \<Longrightarrow> push_debt t \<le> debt t"
  by (cases t) auto

lemma pushed_bytes_le:
  assumes "sends_inv st"
  shows "pushed_bytes st \<le> b_queued (ss_budget st)"
proof -
  have "sum_list (map pushes_held (ss_conns st)) \<le> queued_total st"
    using assms pushes_held_le unfolding queued_total_def comp_def by (intro sum_list_mono) (auto simp: sends_inv_def)
  moreover have "sum_mset (image_mset push_debt (ss_tasks st)) \<le> debts st"
    using assms push_debt_le unfolding debts_def by (intro sum_mset_mono) (auto simp: sends_inv_def)
  ultimately show ?thesis
    using assms by (simp add: sends_inv_def pushed_bytes_def)
qed

lemma pushed_start: "pushed_bytes (start t b st) = pushed_bytes st + push_debt t"
  by (simp add: pushed_bytes_def start_def)

lemma pushed_move:
  "t \<in># ss_tasks st \<Longrightarrow> pushed_bytes (move t next b st) = pushed_bytes st - push_debt t + sum_mset (image_mset push_debt next)"
  by (simp add: pushed_bytes_def move_def sum_image_remove)

lemma pushed_set_conn:
  "i < length (ss_conns st) \<Longrightarrow> pushed_bytes (set_conn i q ms st) = pushed_bytes st - pushes_held (ss_conns st ! i) + pushes_held (q, ms)"
  by (simp add: pushed_bytes_def set_conn_def sum_list_replace)

lemma set_conn_simps [simp]: "ss_budget (set_conn i q ms st) = ss_budget st" "ss_tasks (set_conn i q ms st) = ss_tasks st"
  by (simp_all add: set_conn_def)

text \<open>Every step but a push that the cap lets through leaves the bytes of pushes or lowers them.\<close>

lemma send_step_pushed:
  assumes "send_step st st'" "sends_inv st"
  shows "b_limit (ss_budget st') = b_limit (ss_budget st) \<and>
    (pushed_bytes st' \<le> pushed_bytes st \<or> b_limit (ss_budget st) \<le> 0 \<or> b_queued (ss_budget st') \<le> b_limit (ss_budget st)) \<and>
    (\<forall>i f. OverCap i f \<in># ss_tasks st' \<longrightarrow> OverCap i f \<in># ss_tasks st \<or> b_limit (ss_budget st) > 0)"
  using assms(1)
proof (cases rule: send_step.cases)
  case (opened cap)
  then show ?thesis
    by (simp add: pushed_bytes_def pushes_held_def marked_def)
next
  case (sent i f)
  then show ?thesis
    by (simp add: pushed_start budget_take_def) (simp add: start_def)
next
  case (pushed i f past b)
  then show ?thesis
    using tryTake_add_bytes [OF pushed(3)] by (auto simp: pushed_start) (auto simp: start_def)
next
  case (taken_back i f)
  then show ?thesis
    by (auto simp: pushed_move tryTake_back_def budget_release_def) (auto simp: move_def dest: in_diffD)
next
  case (resynced i f)
  then show ?thesis
    by (auto simp: pushed_move budget_take_def) (auto simp: move_def dest: in_diffD)
next
  case (locked i f p q ms r q')
  note q = conn_in [OF assms(2) locked(3,4)]
  have "pushes_held (q', if r = Queued then ms @ [p] else ms) \<le> pushes_held (q, ms) + push_debt (Enqueue i f p)"
    using queue_section_cases [OF locked(5)] q(2) by (cases "r = Queued") (auto simp: pushes_held_def marked_snoc)
  then show ?thesis
    using locked(1-4) by (simp add: pushed_set_conn pushed_move) (auto simp: move_def dest: in_diffD)
next
  case (ended r i f res b)
  then show ?thesis
    using queue_end_bytes [OF ended(3)] by (auto simp: pushed_move) (auto simp: move_def dest: in_diffD)
next
  case (received i q ms)
  then show ?thesis
    using receive_frames [of q] by (simp add: pushed_set_conn pushes_held_def)
next
  case (written i q ms n q')
  have "pushes_held (q', if q_writing q = None then ms else tl ms) \<le> pushes_held (q, ms)"
    using write_queue_frames [OF written(4)] marked_tl conn_in(2) [OF assms(2) written(2,3)] by (simp add: pushes_held_def)
  then show ?thesis
    using written(1-3) by (cases n) (auto simp: pushed_set_conn pushed_start, auto simp: start_def)
next
  case (closing i q ms leaked q')
  have "pushes_held (q', ms) \<le> pushes_held (q, ms)"
    using close_section_frames [OF closing(5)] marked_bounds conn_in(2) [OF assms(2) closing(2,3)] by (simp add: pushes_held_def)
  then show ?thesis
    using closing(1-3) by (auto simp: pushed_set_conn pushed_start, auto simp: start_def)
next
  case (released n)
  then show ?thesis
    by (auto simp: pushed_move budget_release_def) (auto simp: move_def dest: in_diffD)
qed

lemma send_step_capped:
  assumes "send_step st st'" "sends_inv st" "capped st"
  shows "capped st'"
proof (cases "b_limit (ss_budget st) > 0")
  case True
  then show ?thesis
    using send_step_pushed [OF assms(1,2)] pushed_bytes_le [OF send_step_inv [OF assms(1,2)]] assms(3) by (auto simp: capped_def)
next
  case False
  then show ?thesis
    using send_step_pushed [OF assms(1,2)] assms(3) by (auto simp: capped_def)
qed

lemma send_steps_capped: "send_step\<^sup>*\<^sup>* (no_sends limit) st \<Longrightarrow> capped st \<and> b_limit (ss_budget st) = limit"
proof (induction rule: rtranclp_induct)
  case base
  show ?case
    by (simp add: no_sends_def newSendBudget_def capped_def pushed_bytes_def)
next
  case (step st st')
  then show ?case
    using send_step_capped send_step_pushed send_steps_inv by metis
qed

section \<open>The budget\<close>

text \<open>C26: however Send, Push, write and close interleave, piece by piece, the node's outbound
  byte count is the sum of the connections' own counts and of what goroutines have charged and are
  about to queue or to give back; a connection's count is the bytes in its queue and in its
  writer's hands, and nothing once it closes; no queue passes its capacity; and when every
  connection is closed and every operation has finished, the node's count is zero.\<close>

theorem send_bytes_accounted:
  assumes "send_step\<^sup>*\<^sup>* (no_sends limit) st"
  shows "b_queued (ss_budget st) = queued_total st + debts st \<and>
    (\<forall>(q, ms) \<in> set (ss_conns st). q_queued q = (if q_closing q then 0 else held_bytes q) \<and> int (length (q_send q)) \<le> q_cap q) \<and>
    ((\<forall>(q, ms) \<in> set (ss_conns st). q_closing q) \<and> ss_tasks st = {#} \<longrightarrow> b_queued (ss_budget st) = 0)"
proof -
  have inv: "\<forall>(q, ms) \<in> set (ss_conns st). queue_inv q" "b_queued (ss_budget st) = queued_total st + debts st"
    using send_steps_inv [OF assms] by (auto simp: sends_inv_def conn_ok_def)
  have "queued_total st = 0" if "\<forall>(q, ms) \<in> set (ss_conns st). q_closing q"
    using that inv(1) unfolding queued_total_def by (intro sum_list_zero) (fastforce simp: queue_inv_def)
  then show ?thesis
    using inv by (auto simp: queue_inv_def debts_def)
qed

text \<open>A push is queued and the next one is over the cap.\<close>

definition demo_open :: Sends where
  "demo_open = (no_sends 5)\<lparr>ss_conns := [(new_queue 4, [])]\<rparr>"

definition demo_pushed :: Sends where
  "demo_pushed = start (Enqueue 0 ''abc'' True) (budget_take 3 (ss_budget demo_open)) demo_open"

definition demo_locked :: Sends where
  "demo_locked = set_conn 0 (snd (queue_section ''abc'' (new_queue 4))) [True]
     (move (Enqueue 0 ''abc'' True) {#Unlocked Queued 0 ''abc''#} (ss_budget demo_pushed) demo_pushed)"

definition demo_over :: Sends where
  "demo_over = start (OverCap 0 ''abc'') (budget_take 3 (ss_budget demo_locked)) demo_locked"

lemmas demo_sends_defs = demo_over_def demo_locked_def demo_pushed_def demo_open_def no_sends_def newSendBudget_def budget_take_def bytes_def

lemma demo_sends_run: "send_step\<^sup>*\<^sup>* (no_sends 5) demo_over"
proof -
  have "send_step (no_sends 5) demo_open"
    using send_step.opened [of 4 "no_sends 5"] by (simp add: demo_open_def no_sends_def)
  moreover have "send_step demo_open demo_pushed"
    using send_step.pushed [of 0 demo_open "''abc''" False] by (simp add: demo_sends_defs tryTake_add_def)
  moreover have "send_step demo_pushed demo_locked"
    using send_step.locked [of 0 "''abc''" True demo_pushed "new_queue 4" "[]" Queued "snd (queue_section ''abc'' (new_queue 4))"]
    by (simp add: demo_locked_def queue_section_def new_queue_def) (simp add: demo_pushed_def start_def demo_open_def new_queue_def)
  moreover have "send_step demo_locked demo_over"
    using send_step.pushed [of 0 demo_locked "''abc''" True]
    by (simp add: demo_sends_defs tryTake_add_def) (simp add: set_conn_def)
  ultimately show ?thesis
    by (meson rtranclp.rtrancl_into_rtrancl rtranclp.rtrancl_refl)
qed

theorem send_bytes_accounted_witness:
  "b_queued (ss_budget demo_over) = 6 \<and> queued_total demo_over = 3 \<and> debts demo_over = 3 \<and>
   list_all (\<lambda>(q, ms). q_queued q = 3 \<and> held_bytes q = 3) (ss_conns demo_over)"
  using send_bytes_accounted [OF demo_sends_run]
  by (simp add: demo_sends_defs set_conn_def start_def move_def queued_total_def debts_def queue_section_def new_queue_def held_bytes_def)

text \<open>C27: with a byte cap, however Push and the other operations interleave, the bytes of pushes in the
  queues and in the writers' hands of open connections together with those let through and about to
  be queued never pass the cap; replies, kicks and resyncs are outside it. Without a cap no push is refused.\<close>

theorem push_within_cap:
  assumes "send_step\<^sup>*\<^sup>* (no_sends limit) st"
  shows "if limit > 0 then pushed_bytes st \<le> limit else \<forall>i f. OverCap i f \<notin># ss_tasks st"
  using send_steps_capped [OF assms] unfolding capped_def by metis

theorem push_within_cap_witness:
  "pushed_bytes demo_over = 3 \<and> pushed_bytes demo_over \<le> 5 \<and> b_queued (ss_budget demo_over) > 5"
proof -
  have "pushed_bytes demo_over = 3" "b_queued (ss_budget demo_over) = 6"
    by (simp_all add: demo_sends_defs set_conn_def start_def move_def pushed_bytes_def pushes_held_def marked_def frames_def
        queue_section_def new_queue_def)
  moreover have "pushed_bytes demo_over \<le> 5"
    using push_within_cap [OF demo_sends_run] by simp
  ultimately show ?thesis
    by simp
qed

end
