(* ===== verification/Heap.thy ===== *)
theory Heap
  imports Prelude "HOL-Library.Multiset"
begin

text \<open>
  The part of Go's \<^verbatim>\<open>container/heap\<close> the refresh queue uses, on a list ordered by a key: pushing,
  popping, removing at an index and fixing an index. Each keeps the heap order and the elements;
  the head of a heap has the least key.
\<close>

definition swap :: "'a list \<Rightarrow> nat \<Rightarrow> nat \<Rightarrow> 'a list" where
  "swap xs i j = xs[i := xs ! j, j := xs ! i]"

definition parent :: "nat \<Rightarrow> nat" where
  "parent j = (j - 1) div 2"

function up :: "('a \<Rightarrow> 'k :: linorder) \<Rightarrow> 'a list \<Rightarrow> nat \<Rightarrow> 'a list" where
  "up key xs j =
     (let i = parent j in
      if i = j \<or> \<not> key (xs ! j) < key (xs ! i) then xs else up key (swap xs i j) i)"
  by pat_completeness auto
termination
  by (relation "measure (\<lambda>(key, xs, j). j)") (auto simp: parent_def)

definition lesser_child :: "('a \<Rightarrow> 'k :: linorder) \<Rightarrow> 'a list \<Rightarrow> nat \<Rightarrow> nat \<Rightarrow> nat" where
  "lesser_child key xs i n =
     (let j1 = 2 * i + 1; j2 = j1 + 1 in if j2 < n \<and> key (xs ! j2) < key (xs ! j1) then j2 else j1)"

text \<open>The list after sifting down, and where the element ended.\<close>

function down :: "('a \<Rightarrow> 'k :: linorder) \<Rightarrow> 'a list \<Rightarrow> nat \<Rightarrow> nat \<Rightarrow> 'a list \<times> nat" where
  "down key xs i n =
     (let j = lesser_child key xs i n in
      if 2 * i + 1 \<ge> n \<or> \<not> key (xs ! j) < key (xs ! i) then (xs, i) else down key (swap xs i j) j n)"
  by pat_completeness auto
termination
  by (relation "measure (\<lambda>(key, xs, i, n). n - i)") (auto simp: lesser_child_def Let_def)

declare up.simps [simp del] down.simps [simp del]

definition heap_Push :: "('a \<Rightarrow> 'k :: linorder) \<Rightarrow> 'a \<Rightarrow> 'a list \<Rightarrow> 'a list" where
  "heap_Push key x xs = up key (xs @ [x]) (length xs)"

definition heap_Fix :: "('a \<Rightarrow> 'k :: linorder) \<Rightarrow> nat \<Rightarrow> 'a list \<Rightarrow> 'a list" where
  "heap_Fix key i xs = (case down key xs i (length xs) of (ys, i') \<Rightarrow> if i' > i then ys else up key ys i)"

definition heap_Remove :: "('a \<Rightarrow> 'k :: linorder) \<Rightarrow> nat \<Rightarrow> 'a list \<Rightarrow> 'a list" where
  "heap_Remove key i xs =
     (let n = length xs - 1 in
      if n = i then butlast xs
      else case down key (swap xs i n) i n of (ys, i') \<Rightarrow> butlast (if i' > i then ys else up key ys i))"

definition heap_Pop :: "('a \<Rightarrow> 'k :: linorder) \<Rightarrow> 'a list \<Rightarrow> 'a list" where
  "heap_Pop key xs = (let n = length xs - 1 in butlast (fst (down key (swap xs 0 n) 0 n)))"

section \<open>The elements\<close>

lemma length_swap [simp]: "length (swap xs i j) = length xs"
  by (simp add: swap_def)

lemma mset_swap' [simp]: "i < length xs \<Longrightarrow> j < length xs \<Longrightarrow> mset (swap xs i j) = mset xs"
  by (simp add: swap_def mset_swap)

lemma swap_nth:
  "i < length xs \<Longrightarrow> j < length xs \<Longrightarrow> swap xs i j ! k = (if k = j then xs ! i else if k = i then xs ! j else xs ! k)"
  by (auto simp: swap_def nth_list_update)

lemma parent_less: "0 < j \<Longrightarrow> parent j < j" "parent j \<le> j" "parent j = j \<longleftrightarrow> j = 0"
  by (auto simp: parent_def)

lemma parent_iff: "0 < k \<Longrightarrow> parent k = i \<longleftrightarrow> k = 2 * i + 1 \<or> k = 2 * i + 2"
  by (auto simp: parent_def)

lemma lesser_child_cases:
  assumes "2 * i + 1 < n"
  shows "lesser_child key xs i n < n" "parent (lesser_child key xs i n) = i" "i < lesser_child key xs i n"
    "0 < k \<Longrightarrow> k < n \<Longrightarrow> parent k = i \<Longrightarrow> key (xs ! lesser_child key xs i n) \<le> key (xs ! k)"
proof -
  show "lesser_child key xs i n < n" "parent (lesser_child key xs i n) = i" "i < lesser_child key xs i n"
    using assms by (auto simp: lesser_child_def Let_def parent_def)
  assume k: "0 < k" "k < n" "parent k = i"
  then have "k = 2 * i + 1 \<or> k = 2 * i + 2"
    by (simp add: parent_iff)
  then show "key (xs ! lesser_child key xs i n) \<le> key (xs ! k)"
    using k(2) by (auto simp: lesser_child_def Let_def)
qed

lemma mset_up: "j < length xs \<Longrightarrow> mset (up key xs j) = mset xs"
proof (induction key xs j rule: up.induct)
  case (1 key xs j)
  then show ?case
    using parent_less(2) [of j] by (subst up.simps) (auto simp: Let_def)
qed

lemma mset_down: "i < n \<Longrightarrow> n \<le> length xs \<Longrightarrow> mset (fst (down key xs i n)) = mset xs"
proof (induction key xs i n rule: down.induct)
  case (1 key xs i n)
  then show ?case
    using lesser_child_cases(1) [of i n key xs] by (subst down.simps) (auto simp: Let_def)
qed

lemma length_up [simp]: "j < length xs \<Longrightarrow> length (up key xs j) = length xs"
  using mset_up [of j xs key] by (metis size_mset)

lemma length_down: "i < n \<Longrightarrow> n \<le> length xs \<Longrightarrow> length (fst (down key xs i n)) = length xs"
  using mset_down [of i n xs key] by (metis size_mset)

text \<open>Sifting down within the first \<^verbatim>\<open>n\<close> leaves the rest alone, as does sifting up.\<close>

lemma down_beyond: "i < n \<Longrightarrow> n \<le> length xs \<Longrightarrow> n \<le> k \<Longrightarrow> fst (down key xs i n) ! k = xs ! k"
proof (induction key xs i n rule: down.induct)
  case (1 key xs i n)
  then show ?case
    using lesser_child_cases(1) [of i n key xs] by (subst down.simps) (auto simp: Let_def swap_nth)
qed

lemma up_beyond: "j < length xs \<Longrightarrow> j < k \<Longrightarrow> up key xs j ! k = xs ! k"
proof (induction key xs j rule: up.induct)
  case (1 key xs j)
  then show ?case
    using parent_less(2) [of j] by (subst up.simps) (auto simp: Let_def swap_nth)
qed

section \<open>The order\<close>

definition ordered :: "('a \<Rightarrow> 'k :: linorder) \<Rightarrow> 'a list \<Rightarrow> nat \<Rightarrow> bool" where
  "ordered key xs n \<longleftrightarrow> (\<forall>k. 0 < k \<longrightarrow> k < n \<longrightarrow> key (xs ! parent k) \<le> key (xs ! k))"

text \<open>Ordered but for the element at \<^verbatim>\<open>i\<close>, whose children are above its parent.\<close>

definition almost :: "('a \<Rightarrow> 'k :: linorder) \<Rightarrow> 'a list \<Rightarrow> nat \<Rightarrow> nat \<Rightarrow> bool" where
  "almost key xs i n \<longleftrightarrow>
     (\<forall>k. 0 < k \<longrightarrow> k < n \<longrightarrow> k \<noteq> i \<longrightarrow> parent k \<noteq> i \<longrightarrow> key (xs ! parent k) \<le> key (xs ! k)) \<and>
     (\<forall>k. 0 < k \<longrightarrow> k < n \<longrightarrow> parent k = i \<longrightarrow> 0 < i \<longrightarrow> key (xs ! parent i) \<le> key (xs ! k))"

definition below_children :: "('a \<Rightarrow> 'k :: linorder) \<Rightarrow> 'a list \<Rightarrow> nat \<Rightarrow> nat \<Rightarrow> bool" where
  "below_children key xs i n \<longleftrightarrow> (\<forall>k. 0 < k \<longrightarrow> k < n \<longrightarrow> parent k = i \<longrightarrow> key (xs ! i) \<le> key (xs ! k))"

definition above_parent :: "('a \<Rightarrow> 'k :: linorder) \<Rightarrow> 'a list \<Rightarrow> nat \<Rightarrow> bool" where
  "above_parent key xs i \<longleftrightarrow> (0 < i \<longrightarrow> key (xs ! parent i) \<le> key (xs ! i))"

lemma orderedI: "almost key xs i n \<Longrightarrow> below_children key xs i n \<Longrightarrow> above_parent key xs i \<Longrightarrow> ordered key xs n"
  unfolding ordered_def
proof (intro allI impI)
  fix k
  assume "almost key xs i n" "below_children key xs i n" "above_parent key xs i" "0 < k" "k < n"
  then show "key (xs ! parent k) \<le> key (xs ! k)"
    by (cases "k = i"; cases "parent k = i") (simp_all add: almost_def below_children_def above_parent_def)
qed

lemma ordered_almost: "ordered key xs n \<Longrightarrow> almost key xs i n"
proof -
  assume o: "ordered key xs n"
  have "key (xs ! parent i) \<le> key (xs ! k)" if "0 < k" "k < n" "parent k = i" "0 < i" for k
  proof -
    have "i < n"
      using that parent_less(1) [of k] by simp
    then have "key (xs ! parent i) \<le> key (xs ! i)" "key (xs ! i) \<le> key (xs ! k)"
      using o that by (auto simp: ordered_def)
    then show ?thesis
      by simp
  qed
  then show ?thesis
    using o by (auto simp: almost_def ordered_def)
qed

lemma below_lesser:
  assumes "\<not> key (xs ! lesser_child key xs i n) < key (xs ! i)"
  shows "below_children key xs i n"
  unfolding below_children_def
proof (intro allI impI)
  fix k
  assume k: "0 < k" "k < n" "parent k = i"
  then have "2 * i + 1 < n"
    using parent_iff [of k i] by auto
  then show "key (xs ! i) \<le> key (xs ! k)"
    using lesser_child_cases(4) [of i n k key xs] k assms by simp
qed

lemma swap_down:
  assumes "almost key xs i n" "2 * i + 1 < n" "n \<le> length xs" "j = lesser_child key xs i n" "key (xs ! j) < key (xs ! i)"
  shows "almost key (swap xs i j) j n" "above_parent key (swap xs i j) j" "above_parent key (swap xs i j) i"
proof -
  note j = lesser_child_cases [OF assms(2), where key = key and xs = xs, folded assms(4)]
  have ys: "swap xs i j ! k = (if k = j then xs ! i else if k = i then xs ! j else xs ! k)" for k
    using j(1,3) assms(3) by (simp add: swap_nth)
  show pj: "above_parent key (swap xs i j) j"
    using j assms(5) by (simp add: above_parent_def ys)
  show pi: "above_parent key (swap xs i j) i"
    using assms(1) j parent_less [of i] unfolding almost_def above_parent_def ys by auto
  have "key (swap xs i j ! parent k) \<le> key (swap xs i j ! k)" if k: "0 < k" "k < n" "k \<noteq> j" "parent k \<noteq> j" for k
  proof (cases "k = i \<or> parent k = i")
    case True
    then show ?thesis
      using pi k j(4) [of k] parent_less(1) [of k] by (auto simp: above_parent_def ys)
  next
    case False
    then show ?thesis
      using assms(1) k by (simp add: almost_def ys)
  qed
  moreover have "key (swap xs i j ! parent j) \<le> key (swap xs i j ! k)" if k: "0 < k" "k < n" "parent k = j" for k
  proof -
    have "j < k" "k \<noteq> i" "parent k \<noteq> i"
      using k parent_less(1) [of k] j(3) by auto
    then have "key (xs ! j) \<le> key (xs ! k)"
      using assms(1) k unfolding almost_def by blast
    then show ?thesis
      using j \<open>j < k\<close> by (simp add: ys)
  qed
  ultimately show "almost key (swap xs i j) j n"
    by (auto simp: almost_def)
qed

lemma down_ordered:
  "almost key xs i n \<Longrightarrow> above_parent key xs i \<Longrightarrow> i < n \<Longrightarrow> n \<le> length xs \<Longrightarrow> ordered key (fst (down key xs i n)) n"
proof (induction key xs i n rule: down.induct)
  case (1 key xs i n)
  let ?j = "lesser_child key xs i n"
  show ?case
  proof (cases "2 * i + 1 \<ge> n \<or> \<not> key (xs ! ?j) < key (xs ! i)")
    case True
    moreover have "below_children key xs i n" if "2 * i + 1 \<ge> n"
      using that by (auto simp: below_children_def parent_iff)
    ultimately show ?thesis
      using orderedI [OF "1.prems"(1) _ "1.prems"(2)] below_lesser [of key xs i n] by (subst down.simps) (auto simp: Let_def)
  next
    case False
    then have c: "2 * i + 1 < n" "key (xs ! ?j) < key (xs ! i)"
      by simp_all
    note sw = swap_down [OF "1.prems"(1) c(1) "1.prems"(4) refl c(2)]
    have "ordered key (fst (down key (swap xs i ?j) ?j n)) n"
      using "1.IH" [OF refl] False sw(1,2) lesser_child_cases(1) [OF c(1), of key xs] "1.prems"(4) by simp
    then show ?thesis
      using False by (subst down.simps) (simp add: Let_def)
  qed
qed

text \<open>Sifting down either leaves an element that is below its children, or makes a heap.\<close>

lemma down_almost:
  assumes "almost key xs i n" "i < n" "n \<le> length xs" "down key xs i n = (ys, i')"
  shows "i' \<le> i \<Longrightarrow> ys = xs \<and> below_children key xs i n" "i < i' \<Longrightarrow> ordered key ys n"
proof -
  let ?j = "lesser_child key xs i n"
  have bounds: "i \<le> snd (down key xs i n)" for key :: "'a \<Rightarrow> 'b" and xs i n
  proof (induction key xs i n rule: down.induct)
    case (1 key xs i n)
    then show ?case
      using lesser_child_cases(3) [of i n key xs] by (subst down.simps) (fastforce simp: Let_def)
  qed
  have "(i' \<le> i \<longrightarrow> ys = xs \<and> below_children key xs i n) \<and> (i < i' \<longrightarrow> ordered key ys n)"
  proof (cases "2 * i + 1 \<ge> n \<or> \<not> key (xs ! ?j) < key (xs ! i)")
    case True
    moreover have "below_children key xs i n" if "2 * i + 1 \<ge> n"
      using that by (auto simp: below_children_def parent_iff)
    ultimately show ?thesis
      using assms(4) below_lesser [of key xs i n] by (subst (asm) down.simps) (auto simp: Let_def)
  next
    case False
    then have c: "2 * i + 1 < n" "key (xs ! ?j) < key (xs ! i)"
      by simp_all
    have run: "down key (swap xs i ?j) ?j n = (ys, i')"
      using assms(4) False by (subst (asm) down.simps) (simp add: Let_def)
    then have "i < i'"
      using bounds [of ?j key "swap xs i ?j" n] lesser_child_cases(3) [OF c(1), of key xs] by simp
    moreover note sw = swap_down [OF assms(1) c(1) assms(3) refl c(2)]
    ultimately show ?thesis
      using down_ordered [OF sw(1,2)] lesser_child_cases(1) [OF c(1), of key xs] assms(3) run by simp
  qed
  then show "i' \<le> i \<Longrightarrow> ys = xs \<and> below_children key xs i n" "i < i' \<Longrightarrow> ordered key ys n"
    by blast+
qed

lemma up_ordered:
  "almost key xs j n \<Longrightarrow> below_children key xs j n \<Longrightarrow> j < n \<Longrightarrow> n \<le> length xs \<Longrightarrow> ordered key (up key xs j) n"
proof (induction key xs j rule: up.induct)
  case (1 key xs j)
  let ?i = "parent j" and ?ys = "swap xs (parent j) j"
  show ?case
  proof (cases "?i = j \<or> \<not> key (xs ! j) < key (xs ! ?i)")
    case True
    then have "above_parent key xs j"
      by (auto simp: above_parent_def parent_less)
    then show ?thesis
      using orderedI [OF "1.prems"(1,2)] True by (subst up.simps) (auto simp: Let_def)
  next
    case False
    then have j: "0 < j" "?i < j" "key (xs ! j) < key (xs ! ?i)"
      by (auto simp: parent_less)
    have ys: "?ys ! k = (if k = j then xs ! ?i else if k = ?i then xs ! j else xs ! k)" for k
      using j(2) "1.prems"(3,4) by (simp add: swap_nth)
    have ok: "key (xs ! parent k) \<le> key (xs ! k)" if "0 < k" "k < n" "k \<noteq> j" for k
      using "1.prems"(1,2) that by (cases "parent k = j") (simp_all add: almost_def below_children_def)
    have "almost key ?ys ?i n"
      unfolding almost_def
    proof (intro conjI allI impI)
      fix k
      assume k: "0 < k" "k < n" "k \<noteq> ?i" "parent k \<noteq> ?i"
      then have "k \<noteq> j"
        by auto
      then show "key (?ys ! parent k) \<le> key (?ys ! k)"
        using ok [OF k(1,2)] k "1.prems"(1) j(1) unfolding almost_def ys by auto
    next
      fix k
      assume k: "0 < k" "k < n" "parent k = ?i" "0 < ?i"
      have "parent ?i \<noteq> ?i" "parent ?i \<noteq> j" "k \<noteq> ?i"
        using k j parent_less(1) [of ?i] parent_less(1) [of k] by auto
      then have "key (xs ! parent ?i) \<le> key (xs ! ?i)"
        using ok [of ?i] k j "1.prems"(3) by simp
      then show "key (?ys ! parent ?i) \<le> key (?ys ! k)"
        using ok [of k] k \<open>parent ?i \<noteq> ?i\<close> \<open>parent ?i \<noteq> j\<close> \<open>k \<noteq> ?i\<close> unfolding ys by (auto intro: order_trans)
    qed
    moreover have "below_children key ?ys ?i n"
      unfolding below_children_def
    proof (intro allI impI)
      fix k
      assume k: "0 < k" "k < n" "parent k = ?i"
      then show "key (?ys ! ?i) \<le> key (?ys ! k)"
        using ok [of k] j parent_less(1) [of k] unfolding ys by (auto intro: order_trans less_imp_le)
    qed
    ultimately have "ordered key (up key ?ys ?i) n"
      using "1.IH" [OF refl False] j "1.prems"(3,4) by simp
    then show ?thesis
      using False by (subst up.simps) (simp add: Let_def)
  qed
qed

section \<open>The operations\<close>

abbreviation is_heap :: "('a \<Rightarrow> 'k :: linorder) \<Rightarrow> 'a list \<Rightarrow> bool" where
  "is_heap key xs \<equiv> ordered key xs (length xs)"

lemma heap_least: "is_heap key xs \<Longrightarrow> i < length xs \<Longrightarrow> key (xs ! 0) \<le> key (xs ! i)"
proof (induction i rule: less_induct)
  case (less i)
  show ?case
  proof (cases "i = 0")
    case False
    then have "key (xs ! parent i) \<le> key (xs ! i)" "parent i < i"
      using less.prems by (auto simp: ordered_def parent_less)
    then show ?thesis
      using less.IH [of "parent i"] less.prems by auto
  qed simp
qed

lemma ordered_take: "ordered key xs n \<Longrightarrow> n \<le> length xs \<Longrightarrow> is_heap key (take n xs)"
  unfolding ordered_def
proof (intro allI impI)
  fix k
  assume o: "\<forall>k. 0 < k \<longrightarrow> k < n \<longrightarrow> key (xs ! parent k) \<le> key (xs ! k)" "n \<le> length xs"
    and k: "0 < k" "k < length (take n xs)"
  then have "k < n" "parent k < n"
    using parent_less(1) [of k] by simp_all
  then show "key (take n xs ! parent k) \<le> key (take n xs ! k)"
    using o k by simp
qed

lemma heap_Push_ok: "is_heap key xs \<Longrightarrow> is_heap key (heap_Push key x xs)" "mset (heap_Push key x xs) = add_mset x (mset xs)"
proof -
  have new: "k = length xs" if "0 < k" "k < Suc (length xs)" "parent k = length xs" for k
    using parent_less(1) [OF that(1)] that by simp
  have "almost key (xs @ [x]) (length xs) (Suc (length xs))" if heap: "is_heap key xs"
    unfolding almost_def
  proof (intro conjI allI impI)
    fix k
    assume k: "0 < k" "k < Suc (length xs)" "k \<noteq> length xs"
    then have "k < length xs" "parent k < length xs"
      using parent_less(2) [of k] by simp_all
    then show "key ((xs @ [x]) ! parent k) \<le> key ((xs @ [x]) ! k)"
      using heap k(1) by (simp add: ordered_def nth_append)
  next
    fix k
    assume "0 < k" "k < Suc (length xs)" "parent k = length xs"
    then show "key ((xs @ [x]) ! parent (length xs)) \<le> key ((xs @ [x]) ! k)"
      using parent_less(1) [of k] by simp
  qed
  moreover have "below_children key (xs @ [x]) (length xs) (Suc (length xs))"
    using new parent_less(1) unfolding below_children_def by blast
  ultimately show "is_heap key xs \<Longrightarrow> is_heap key (heap_Push key x xs)"
    using up_ordered [of key "xs @ [x]" "length xs" "Suc (length xs)"] by (simp add: heap_Push_def)
  show "mset (heap_Push key x xs) = add_mset x (mset xs)"
    by (simp add: heap_Push_def mset_up)
qed

text \<open>Fixing after the key at \<^verbatim>\<open>i\<close> changed.\<close>

lemma sift_ok:
  assumes "almost key xs i n" "i < n" "n \<le> length xs" "down key xs i n = (ys, i')"
  shows "ordered key (if i' > i then ys else up key ys i) n" "mset (if i' > i then ys else up key ys i) = mset xs"
    "n \<le> k \<Longrightarrow> (if i' > i then ys else up key ys i) ! k = xs ! k"
proof -
  show "ordered key (if i' > i then ys else up key ys i) n"
    using down_almost [OF assms] up_ordered [OF assms(1) _ assms(2,3)] by auto
  show "mset (if i' > i then ys else up key ys i) = mset xs"
    using down_almost(1) [OF assms] mset_down [OF assms(2,3), of key] mset_up [of i xs key] assms by (auto simp: not_less)
  show "n \<le> k \<Longrightarrow> (if i' > i then ys else up key ys i) ! k = xs ! k"
    using down_almost(1) [OF assms] down_beyond [OF assms(2,3), of k key] up_beyond [of i xs k key] assms by (auto simp: not_less)
qed

lemma heap_Fix_ok:
  assumes "almost key xs i (length xs)" "i < length xs"
  shows "is_heap key (heap_Fix key i xs)" "mset (heap_Fix key i xs) = mset xs"
proof -
  obtain ys i' where d: "down key xs i (length xs) = (ys, i')"
    by fastforce
  note ok = sift_ok [OF assms order_refl d]
  show elems: "mset (heap_Fix key i xs) = mset xs"
    using ok(2) d by (simp add: heap_Fix_def)
  have "ordered key (heap_Fix key i xs) (length xs)"
    using ok(1) d by (simp add: heap_Fix_def)
  then show "is_heap key (heap_Fix key i xs)"
    using mset_eq_length [OF elems] by simp
qed

lemma butlast_take: "butlast xs = take (length xs - 1) xs"
  by (simp add: butlast_conv_take)

lemma mset_butlast: "xs \<noteq> [] \<Longrightarrow> mset (butlast xs) = mset xs - {#last xs#}"
  by (cases xs rule: rev_cases) simp_all

lemma almost_cong:
  assumes "almost key xs i n" "\<And>k. k < n \<Longrightarrow> k \<noteq> i \<Longrightarrow> key' (ys ! k) = key (xs ! k)"
  shows "almost key' ys i n"
  unfolding almost_def
proof (intro conjI allI impI)
  fix k
  assume k: "0 < k" "k < n" "k \<noteq> i" "parent k \<noteq> i"
  then have "parent k < n"
    using parent_less(2) [of k] by simp
  then show "key' (ys ! parent k) \<le> key' (ys ! k)"
    using assms k by (simp add: almost_def)
next
  fix k
  assume k: "0 < k" "k < n" "parent k = i" "0 < i"
  then have "parent i < n" "parent i \<noteq> i" "k \<noteq> i"
    using parent_less(1) [of k] parent_less(1) [of i] by auto
  then show "key' (ys ! parent i) \<le> key' (ys ! k)"
    using assms k by (simp add: almost_def)
qed

lemma ordered_less: "ordered key xs n \<Longrightarrow> m \<le> n \<Longrightarrow> ordered key xs m"
  by (auto simp: ordered_def)

lemma drop_last_ok:
  assumes "ordered key ys n" "length ys = Suc n"
  shows "is_heap key (butlast ys)" "mset (butlast ys) = mset ys - {#ys ! n#}"
proof -
  have "ys \<noteq> []"
    using assms(2) by auto
  then have "butlast ys = take n ys" "last ys = ys ! n"
    using assms(2) by (simp_all add: butlast_take last_conv_nth)
  then show "is_heap key (butlast ys)" "mset (butlast ys) = mset ys - {#ys ! n#}"
    using ordered_take [OF assms(1)] assms(2) mset_butlast [OF \<open>ys \<noteq> []\<close>] by simp_all
qed

lemma swapped_almost:
  assumes "is_heap key xs" "length xs = Suc n" "i < n"
  shows "almost key (swap xs i n) i n" "mset (swap xs i n) = mset xs" "swap xs i n ! n = xs ! i"
proof -
  have "almost key xs i n"
    using ordered_almost [OF ordered_less [OF assms(1)]] assms(2) by simp
  then show "almost key (swap xs i n) i n"
    by (rule almost_cong) (use assms(2,3) in \<open>simp add: swap_nth\<close>)
qed (use assms(2,3) in \<open>simp_all add: swap_nth\<close>)

lemma heap_Remove_ok:
  assumes "is_heap key xs" "i < length xs"
  shows "is_heap key (heap_Remove key i xs)" "mset (heap_Remove key i xs) = mset xs - {#xs ! i#}"
proof -
  obtain n where n: "length xs = Suc n"
    using assms(2) by (cases "length xs") auto
  have "is_heap key (heap_Remove key i xs) \<and> mset (heap_Remove key i xs) = mset xs - {#xs ! i#}"
  proof (cases "n = i")
    case True
    then show ?thesis
      using drop_last_ok [OF ordered_less [OF assms(1)] n] n by (simp add: heap_Remove_def)
  next
    case False
    then have i: "i < n"
      using assms(2) n by simp
    note zs = swapped_almost [OF assms(1) n i]
    obtain ys i' where d: "down key (swap xs i n) i n = (ys, i')"
      by fastforce
    define rs where "rs = (if i' > i then ys else up key ys i)"
    have run: "heap_Remove key i xs = butlast rs"
      using n d False by (simp add: heap_Remove_def rs_def)
    have "n \<le> length (swap xs i n)"
      using n by simp
    note ok = sift_ok [OF zs(1) i this d, folded rs_def]
    have elems: "mset rs = mset xs" "rs ! n = xs ! i"
      using ok(2,3) zs(2,3) by simp_all
    have "length rs = Suc n"
      using mset_eq_length [OF elems(1)] n by simp
    from drop_last_ok [OF ok(1) this] show ?thesis
      using run elems by simp
  qed
  then show "is_heap key (heap_Remove key i xs)" "mset (heap_Remove key i xs) = mset xs - {#xs ! i#}"
    by blast+
qed

lemma heap_Pop_ok:
  assumes "is_heap key xs" "xs \<noteq> []"
  shows "is_heap key (heap_Pop key xs)" "mset (heap_Pop key xs) = mset xs - {#xs ! 0#}"
proof -
  obtain n where n: "length xs = Suc n"
    using assms(2) by (cases "length xs") auto
  have "is_heap key (heap_Pop key xs) \<and> mset (heap_Pop key xs) = mset xs - {#xs ! 0#}"
  proof (cases "n = 0")
    case True
    then obtain x where "xs = [x]"
      using n by (auto simp: length_Suc_conv)
    then show ?thesis
      by (simp add: heap_Pop_def swap_def down.simps ordered_def)
  next
    case False
    then have i: "0 < n"
      by simp
    note zs = swapped_almost [OF assms(1) n i]
    have "above_parent key (swap xs 0 n) 0"
      by (simp add: above_parent_def)
    from down_ordered [OF zs(1) this i] mset_down [OF i, of "swap xs 0 n" key] down_beyond [OF i, of "swap xs 0 n" n key]
    show ?thesis
      using drop_last_ok [of key "fst (down key (swap xs 0 n) 0 n)" n] length_down [OF i, of "swap xs 0 n" key] zs n
      by (simp add: heap_Pop_def Let_def)
  qed
  then show "is_heap key (heap_Pop key xs)" "mset (heap_Pop key xs) = mset xs - {#xs ! 0#}"
    by blast+
qed

end
