(* ===== verification/Presence.thy ===== *)
theory Presence
  imports Heap UserMap "HOL-Library.Product_Lexorder"
begin

text \<open>
  \<^verbatim>\<open>internal/gateway/presence.go\<close>: the online-status subscriptions of a node. The subscription
  objects live in a store by address; a client points at its object, the active ones are indexed
  by client and by the users they watch, and those waiting for a refresh are in a heap. Every
  function runs under the one mutex, so each is a function on \<^verbatim>\<open>Subs\<close>; \<^verbatim>\<open>subs_run\<close> is any order of
  calls, in which the node may also start closing and a connection end at any time.
  The \<^verbatim>\<open>index\<close> field of an object is its position in the heap, which \<^verbatim>\<open>Swap\<close>, \<^verbatim>\<open>Push\<close> and \<^verbatim>\<open>Pop\<close>
  maintain; the model reads the position. The frame limiter of \<^verbatim>\<open>x/time/rate\<close> is a parameter.
\<close>

section \<open>Subscriptions\<close>

definition maxOnlineSubscriptions :: int where "maxOnlineSubscriptions = 100"
definition maxOnlineSubscriptionRefs :: int where "maxOnlineSubscriptionRefs = 100000"
definition onlineSnapshotInterval :: duration where "onlineSnapshotInterval = 30 * second"
definition onlineStaleAfter :: duration where "onlineStaleAfter = 3 * onlineSnapshotInterval"
definition onlineRefreshMinInterval :: duration where "onlineRefreshMinInterval = second"
definition onlineRefreshWorkers :: int where "onlineRefreshWorkers = 4"

record SubscriptionRequest =
  sq_Revision :: int64
  sq_UserIds :: "string list"

record SubscriptionAck =
  sa_Revision :: int64
  sa_SnapshotIntervalMs :: int64

record 'item Snapshot =
  sn_Revision :: int64
  sn_Items :: "'item list"
  sn_Stale :: bool

record Subscription =
  sb_client :: Client
  sb_revision :: int64
  sb_userIds :: "string list"
  sb_cancel :: bool
  sb_readyAt :: time
  sb_seq :: nat
  sb_remark :: bool
  sb_nextAttempt :: time
  sb_lastSuccess :: time

definition new_subscription :: "Client \<Rightarrow> Subscription" where
  "new_subscription c = \<lparr>sb_client = c, sb_revision = 0, sb_userIds = [], sb_cancel = False, sb_readyAt = time_zero,
     sb_seq = 0, sb_remark = False, sb_nextAttempt = time_zero, sb_lastSuccess = time_zero\<rparr>"

record OnlineRead =
  or_sub :: nat
  or_revision :: int64
  or_userIds :: "string list"

text \<open>\<^verbatim>\<open>sp_onlineSub\<close> is the clients' \<^verbatim>\<open>onlineSub\<close> field; \<^verbatim>\<open>sp_jobs\<close> the reads handed to the pool and not
  finished; \<^verbatim>\<open>sp_closing\<close> the gateway's flag; \<^verbatim>\<open>sp_ended\<close> the clients whose \<^verbatim>\<open>activeCtx\<close> is done.\<close>

record Subs =
  sp_subs :: "nat \<rightharpoonup> Subscription"
  sp_next :: nat
  sp_onlineSub :: "Client \<rightharpoonup> nat"
  sp_active :: "Client \<rightharpoonup> nat"
  sp_byUser :: "string \<rightharpoonup> Client set"
  sp_due :: "nat list"
  sp_seq :: nat
  sp_reads :: int
  sp_refs :: int
  sp_stopped :: bool
  sp_jobs :: "OnlineRead list"
  sp_wake :: bool
  sp_closing :: bool
  sp_ended :: "Client set"

definition newOnlineSubscriptions :: Subs where
  "newOnlineSubscriptions = \<lparr>sp_subs = Map.empty, sp_next = 0, sp_onlineSub = Map.empty, sp_active = Map.empty,
     sp_byUser = Map.empty, sp_due = [], sp_seq = 0, sp_reads = 0, sp_refs = 0, sp_stopped = False, sp_jobs = [],
     sp_wake = False, sp_closing = False, sp_ended = {}\<rparr>"

definition sub_at :: "Subs \<Rightarrow> nat \<Rightarrow> Subscription" where
  "sub_at p a = the (sp_subs p a)"

definition set_sub :: "nat \<Rightarrow> Subscription \<Rightarrow> Subs \<Rightarrow> Subs" where
  "set_sub a s p = p\<lparr>sp_subs := (sp_subs p)(a \<mapsto> s)\<rparr>"

section \<open>The refresh queue\<close>

text \<open>\<^verbatim>\<open>onlineDue.Less\<close>: by \<^verbatim>\<open>readyAt\<close>, then by \<^verbatim>\<open>seq\<close>.\<close>

definition due_key :: "Subs \<Rightarrow> nat \<Rightarrow> time \<times> nat" where
  "due_key p a = (sb_readyAt (sub_at p a), sb_seq (sub_at p a))"

fun position :: "'a \<Rightarrow> 'a list \<Rightarrow> nat" where
  "position x [] = 0"
| "position x (y # ys) = (if x = y then 0 else Suc (position x ys))"

definition notify :: "Subs \<Rightarrow> Subs" where
  "notify p = p\<lparr>sp_wake := True\<rparr>"

definition notify_head :: "nat \<Rightarrow> Subs \<Rightarrow> Subs" where
  "notify_head a p = (if position a (sp_due p) = 0 then notify p else p)"

definition requeue :: "nat \<Rightarrow> time \<Rightarrow> Subs \<Rightarrow> Subs" where
  "requeue a at0 p =
     (let s = sub_at p a; at = (if at0 < sb_nextAttempt s then sb_nextAttempt s else at0) in
      if a \<in> set (sp_due p) then
        if at \<ge> sb_readyAt s then p
        else let p1 = set_sub a (s\<lparr>sb_readyAt := at\<rparr>) p
          in notify_head a (p1\<lparr>sp_due := heap_Fix (due_key p1) (position a (sp_due p)) (sp_due p)\<rparr>)
      else let p1 = (set_sub a (s\<lparr>sb_readyAt := at, sb_seq := sp_seq p\<rparr>) p)\<lparr>sp_seq := sp_seq p + 1\<rparr>
        in notify_head a (p1\<lparr>sp_due := heap_Push (due_key p1) a (sp_due p)\<rparr>))"

definition mark :: "nat \<Rightarrow> time \<Rightarrow> Subs \<Rightarrow> Subs" where
  "mark a now p =
     (let s = sub_at p a in
      if sb_cancel s then set_sub a (s\<lparr>sb_remark := True\<rparr>) p else requeue a now p)"

section \<open>Subscribing\<close>

definition drop_user :: "Client \<Rightarrow> string \<Rightarrow> (string \<rightharpoonup> Client set) \<Rightarrow> (string \<rightharpoonup> Client set)" where
  "drop_user c u m =
     (let rest = (case m u of None \<Rightarrow> {} | Some cs \<Rightarrow> cs) - {c} in m(u := (if rest = {} then None else Some rest)))"

definition add_user :: "Client \<Rightarrow> string \<Rightarrow> (string \<rightharpoonup> Client set) \<Rightarrow> (string \<rightharpoonup> Client set)" where
  "add_user c u m = m(u \<mapsto> insert c (case m u of None \<Rightarrow> {} | Some cs \<Rightarrow> cs))"

definition remove_sub :: "nat \<Rightarrow> Subs \<Rightarrow> Subs" where
  "remove_sub a p =
     (let s = sub_at p a; c = sb_client s;
          p1 = (if a \<in> set (sp_due p)
                then p\<lparr>sp_due := heap_Remove (due_key p) (position a (sp_due p)) (sp_due p)\<rparr> else p);
          p2 = set_sub a (s\<lparr>sb_remark := False\<rparr>) p1 in
      if sp_active p c = None then p2
      else p2\<lparr>sp_active := (sp_active p)(c := None), sp_refs := sp_refs p - int (length (sb_userIds s)),
              sp_byUser := fold (drop_user c) (sb_userIds s) (sp_byUser p)\<rparr>)"

definition attach :: "nat \<Rightarrow> time \<Rightarrow> Subs \<Rightarrow> Subs" where
  "attach a now p =
     (let s = sub_at p a; c = sb_client s; ids = sb_userIds s in
      if ids = [] then p
      else mark a now (p\<lparr>sp_active := (sp_active p)(c \<mapsto> a), sp_refs := sp_refs p + int (length ids),
                         sp_byUser := fold (add_user c) ids (sp_byUser p)\<rparr>))"

text \<open>The object of a client, allocated when it has none.\<close>

definition client_sub :: "Client \<Rightarrow> Subs \<Rightarrow> nat \<times> Subs" where
  "client_sub c p =
     (case sp_onlineSub p c of
        Some a \<Rightarrow> (a, p)
      | None \<Rightarrow> (sp_next p, (set_sub (sp_next p) (new_subscription c) p)\<lparr>sp_next := sp_next p + 1\<rparr>))"

definition subscription_ids :: "string list \<Rightarrow> string list" where
  "subscription_ids ids = remdups_adj (sort ids)"

definition replace_sub :: "nat \<Rightarrow> int64 \<Rightarrow> string list \<Rightarrow> time \<Rightarrow> Subs \<Rightarrow> Subs" where
  "replace_sub a revision ids now p =
     (let p1 = remove_sub a p;
          s = (sub_at p1 a)\<lparr>sb_revision := revision, sb_userIds := ids, sb_lastSuccess := time_zero\<rparr>;
          p2 = (set_sub a s p1)\<lparr>sp_onlineSub := (sp_onlineSub p1)(sb_client s \<mapsto> a)\<rparr>
      in attach a now p2)"

text \<open>\<^verbatim>\<open>available\<close>: the gateway has an online store and a user service.\<close>

definition setOnlineSubscriptions ::
    "bool \<Rightarrow> Client \<Rightarrow> SubscriptionRequest \<Rightarrow> time \<Rightarrow> Subs \<Rightarrow> SubscriptionAck result \<times> Subs" where
  "setOnlineSubscriptions available c inp now p =
     (let ack = \<lparr>sa_Revision = sq_Revision inp, sa_SnapshotIntervalMs = onlineSnapshotInterval div millisecond\<rparr>;
          err = (\<lambda>e. (Inl (Of_errcode e), p)) in
      if \<not> available then err (WithMessage ErrInvalidProtocol ''online subscriptions unavailable'')
      else if sq_Revision inp \<le> 0 \<or> int (length (sq_UserIds inp)) > maxOnlineSubscriptions
        then err (WithMessage ErrInvalidParam ''positive revision and at most 100 user_ids required'')
      else if find (\<lambda>i. \<not> Valid i) (sq_UserIds inp) \<noteq> None
        then err (WithMessage ErrInvalidParam (''invalid user id: '' @ the (find (\<lambda>i. \<not> Valid i) (sq_UserIds inp))))
      else let ids = subscription_ids (sq_UserIds inp) in
        if sp_stopped p \<or> sp_closing p then err ErrNodeDraining
        else if c \<in> sp_ended p then err ErrConnClosed
        else let (a, p1) = client_sub c p; s = sub_at p1 a in
          if sq_Revision inp < sb_revision s then err (WithMessage ErrInvalidParam ''old subscription revision'')
          else if sq_Revision inp = sb_revision s
            then if ids \<noteq> sb_userIds s then err (WithMessage ErrInvalidParam ''revision already used for another set'')
                 else (Inr ack, p)
          else if sp_refs p - int (length (sb_userIds s)) + int (length ids) > maxOnlineSubscriptionRefs
            then err ErrTooManyRequests
          else (Inr ack, replace_sub a (sq_Revision inp) ids now p1))"

definition removeOnlineSubscriptions :: "Client \<Rightarrow> Subs \<Rightarrow> Subs" where
  "removeOnlineSubscriptions c p =
     (case sp_onlineSub p c of
        None \<Rightarrow> p
      | Some a \<Rightarrow> (remove_sub a p)\<lparr>sp_onlineSub := (sp_onlineSub p)(c := None)\<rparr>)"

text \<open>The order in which Go walks a set of clients is a parameter.\<close>

definition mark_user :: "(Client set \<Rightarrow> Client list) \<Rightarrow> time \<Rightarrow> string \<Rightarrow> Subs \<Rightarrow> Subs" where
  "mark_user walk now u p =
     (case sp_byUser p u of
        None \<Rightarrow> p
      | Some cs \<Rightarrow> fold (\<lambda>c p. case sp_active p c of None \<Rightarrow> p | Some a \<Rightarrow> mark a now p) (walk cs) p)"

definition markOnlineChanged :: "(Client set \<Rightarrow> Client list) \<Rightarrow> time \<Rightarrow> string list \<Rightarrow> Subs \<Rightarrow> Subs" where
  "markOnlineChanged walk now userIds p =
     (if sp_stopped p \<or> sp_closing p then p else fold (mark_user walk now) userIds p)"

section \<open>Refreshing\<close>

text \<open>The deferred function of \<^verbatim>\<open>runOnlineSubscriptions\<close>.\<close>

definition stop_subs :: "Client list \<Rightarrow> Subs \<Rightarrow> Subs" where
  "stop_subs cs p =
     fold (\<lambda>c p. case sp_active p c of
         None \<Rightarrow> p
       | Some a \<Rightarrow> (remove_sub a p)\<lparr>sp_onlineSub := (sp_onlineSub p)(c := None)\<rparr>)
       cs (p\<lparr>sp_stopped := True\<rparr>)"

text \<open>\<^verbatim>\<open>ReserveN\<close> gives whether the reservation is possible, its delay and the limiter after it;
  cancelling an unused reservation restores the limiter.\<close>

definition start_read :: "nat \<Rightarrow> time \<Rightarrow> Subs \<Rightarrow> Subs" where
  "start_read a now p =
     (let s = sub_at p a in
      (set_sub a (s\<lparr>sb_cancel := True, sb_remark := False, sb_nextAttempt := now + onlineRefreshMinInterval\<rparr>) p)\<lparr>
        sp_jobs := sp_jobs p @ [\<lparr>or_sub = a, or_revision = sb_revision s, or_userIds = sb_userIds s\<rparr>],
        sp_due := heap_Pop (due_key p) (sp_due p), sp_reads := sp_reads p + 1\<rparr>)"

fun dispatch_loop :: "('l \<Rightarrow> time \<Rightarrow> bool \<times> duration \<times> 'l) \<Rightarrow> nat \<Rightarrow> time \<Rightarrow> 'l \<Rightarrow> Subs \<Rightarrow> duration \<times> 'l \<times> Subs" where
  "dispatch_loop reserveN 0 now lim p = (0, lim, p)"
| "dispatch_loop reserveN (Suc fuel) now lim p =
     (case sp_due p of
        [] \<Rightarrow> (0, lim, p)
      | a # _ \<Rightarrow>
          let d = sb_readyAt (sub_at p a) - now in
          if d > 0 then (d, lim, p)
          else if sp_reads p = onlineRefreshWorkers then (0, lim, p)
          else (case reserveN lim now of (ok, delay, lim') \<Rightarrow>
            if \<not> ok then (0, lim', p)
            else if delay > 0 then (delay, lim, p)
            else dispatch_loop reserveN fuel now lim' (start_read a now p)))"

definition dispatchOnline :: "('l \<Rightarrow> time \<Rightarrow> bool \<times> duration \<times> 'l) \<Rightarrow> time \<Rightarrow> 'l \<Rightarrow> Subs \<Rightarrow> duration \<times> 'l \<times> Subs" where
  "dispatchOnline reserveN now lim p =
     (if sp_closing p \<or> sp_stopped p then (0, lim, p)
      else dispatch_loop reserveN (Suc (length (sp_due p))) now lim p)"

text \<open>What a finished read hands back: the snapshot to queue, if any, and whether it counts as a
  refresh and as a failure.\<close>

definition finish_current :: "OnlineRead \<Rightarrow> 'item list result \<Rightarrow> time \<Rightarrow> Subs \<Rightarrow> 'item Snapshot option \<times> Subs" where
  "finish_current job r now p =
     (let a = or_sub job; s = sub_at p a;
          next_at = (if sb_remark s then now else now + onlineSnapshotInterval);
          p1 = requeue a next_at (set_sub a (s\<lparr>sb_remark := False\<rparr>) p);
          s1 = sub_at p1 a in
      if sb_revision s1 \<noteq> or_revision job then (None, p1)
      else case r of
        Inl _ \<Rightarrow>
          if sb_lastSuccess s1 = time_zero \<or> now - sb_lastSuccess s1 < onlineStaleAfter then (None, p1)
          else (Some \<lparr>sn_Revision = sb_revision s1, sn_Items = [], sn_Stale = True\<rparr>, p1)
      | Inr items \<Rightarrow> (Some \<lparr>sn_Revision = sb_revision s1, sn_Items = items, sn_Stale = False\<rparr>,
          set_sub a (s1\<lparr>sb_lastSuccess := now\<rparr>) p1))"

definition finishOnlineRead :: "OnlineRead \<Rightarrow> 'item list result \<Rightarrow> time \<Rightarrow> Subs \<Rightarrow> 'item Snapshot option \<times> Subs" where
  "finishOnlineRead job r now p =
     (let a = or_sub job; s = (sub_at p a)\<lparr>sb_cancel := False\<rparr>;
          p1 = (set_sub a s p)\<lparr>sp_jobs := remove1 job (sp_jobs p)\<rparr>;
          active = (\<not> sp_stopped p \<and> \<not> sp_closing p \<and> sb_client s \<notin> sp_ended p);
          current = (sp_onlineSub p (sb_client s) = Some a \<and> sb_userIds s \<noteq> []);
          (x, p2) = (if \<not> active \<or> \<not> current then (None, p1) else finish_current job r now p1)
      in (x, notify (p2\<lparr>sp_reads := sp_reads p2 - 1\<rparr>)))"

section \<open>The invariant\<close>

text \<open>The queue is a heap of distinct active subscriptions that are not being read, none of them due
  before its connection's minimum interval has passed.\<close>

definition queue_ok :: "Subs \<Rightarrow> bool" where
  "queue_ok p \<longleftrightarrow> is_heap (due_key p) (sp_due p) \<and> distinct (sp_due p) \<and>
     (\<forall>a \<in> set (sp_due p). \<exists>s. sp_subs p a = Some s \<and> sp_active p (sb_client s) = Some a \<and> \<not> sb_cancel s \<and>
        sb_nextAttempt s \<le> sb_readyAt s)"

text \<open>A client's object is its own, and is active when it watches anybody; the clients of \<^verbatim>\<open>X\<close> are
  between a removal and what follows it.\<close>

definition owner_ok :: "Client set \<Rightarrow> Subs \<Rightarrow> bool" where
  "owner_ok X p \<longleftrightarrow>
     (\<forall>c a. sp_onlineSub p c = Some a \<longrightarrow> (\<exists>s. sp_subs p a = Some s \<and> sb_client s = c \<and> distinct (sb_userIds s) \<and>
        (c \<notin> X \<longrightarrow> (sp_active p c = Some a \<longleftrightarrow> sb_userIds s \<noteq> [])))) \<and>
     (\<forall>c a. sp_active p c = Some a \<longrightarrow> sp_onlineSub p c = Some a \<and> c \<notin> X)"

text \<open>The reads in flight: at most one of a subscription, and no more than the pool has workers.\<close>

definition jobs_ok :: "Subs \<Rightarrow> bool" where
  "jobs_ok p \<longleftrightarrow> distinct (map or_sub (sp_jobs p)) \<and>
     (\<forall>a. (\<exists>s. sp_subs p a = Some s \<and> sb_cancel s) \<longleftrightarrow> a \<in> or_sub ` set (sp_jobs p)) \<and>
     sp_reads p = int (length (sp_jobs p)) \<and> sp_reads p \<le> onlineRefreshWorkers"

definition watched :: "Subs \<Rightarrow> Client \<Rightarrow> string list" where
  "watched p c = (case sp_active p c of None \<Rightarrow> [] | Some a \<Rightarrow> sb_userIds (sub_at p a))"

text \<open>The reference count and the index by user say exactly what the active subscriptions watch.\<close>

definition index_ok :: "Subs \<Rightarrow> bool" where
  "index_ok p \<longleftrightarrow> finite (dom (sp_active p)) \<and> sp_refs p = (\<Sum>c \<in> dom (sp_active p). int (length (watched p c))) \<and>
     (\<forall>u. sp_byUser p u = (let cs = {c. u \<in> set (watched p c)} in if cs = {} then None else Some cs))"

definition alloc_ok :: "Subs \<Rightarrow> bool" where
  "alloc_ok p \<longleftrightarrow> (\<forall>a. sp_next p \<le> a \<longrightarrow> sp_subs p a = None)"

text \<open>While the node and the connection live, an active subscription is queued or being read.\<close>

definition waiting_ok :: "Subs \<Rightarrow> bool" where
  "waiting_ok p \<longleftrightarrow> (\<forall>c a. sp_active p c = Some a \<longrightarrow> \<not> sp_stopped p \<longrightarrow> \<not> sp_closing p \<longrightarrow> c \<notin> sp_ended p \<longrightarrow>
     a \<in> set (sp_due p) \<or> sb_cancel (sub_at p a))"

definition subs_inv :: "Client set \<Rightarrow> Subs \<Rightarrow> bool" where
  "subs_inv X p \<longleftrightarrow> queue_ok p \<and> owner_ok X p \<and> jobs_ok p \<and> index_ok p \<and> alloc_ok p \<and> waiting_ok p"

lemmas subs_inv_defs = queue_ok_def owner_ok_def jobs_ok_def index_ok_def alloc_ok_def waiting_ok_def

subsection \<open>Congruence\<close>

text \<open>What the other parts of the invariant see of a subscription.\<close>

definition core :: "Subscription \<Rightarrow> Client \<times> string list \<times> bool" where
  "core s = (sb_client s, sb_userIds s, sb_cancel s)"

definition same_core :: "Subs \<Rightarrow> Subs \<Rightarrow> bool" where
  "same_core p p' \<longleftrightarrow> (\<forall>a. map_option core (sp_subs p' a) = map_option core (sp_subs p a)) \<and>
     sp_next p' = sp_next p \<and> sp_onlineSub p' = sp_onlineSub p \<and> sp_active p' = sp_active p \<and> sp_byUser p' = sp_byUser p \<and>
     sp_reads p' = sp_reads p \<and> sp_refs p' = sp_refs p \<and> sp_jobs p' = sp_jobs p \<and> sp_stopped p' = sp_stopped p \<and>
     sp_closing p' = sp_closing p \<and> sp_ended p' = sp_ended p"

lemma same_core_refl [simp]: "same_core p p"
  by (simp add: same_core_def)

lemma same_core_trans: "same_core p q \<Longrightarrow> same_core q r \<Longrightarrow> same_core p r"
  by (simp add: same_core_def)

lemma same_core_at:
  assumes "same_core p p'" "sp_subs p a = Some s"
  obtains s' where "sp_subs p' a = Some s'" "sb_client s' = sb_client s" "sb_userIds s' = sb_userIds s" "sb_cancel s' = sb_cancel s"
proof -
  have "map_option core (sp_subs p' a) = Some (core s)"
    using assms by (simp add: same_core_def)
  then show thesis
    using that by (auto simp: core_def)
qed

lemma same_core_sym: "same_core p p' \<Longrightarrow> same_core p' p"
  by (simp add: same_core_def)

lemma same_core_owner:
  assumes "same_core p p'" "owner_ok X p"
  shows "owner_ok X p'"
proof -
  have "\<exists>s'. sp_subs p' a = Some s' \<and> sb_client s' = c \<and> distinct (sb_userIds s') \<and>
      (c \<notin> X \<longrightarrow> (sp_active p c = Some a \<longleftrightarrow> sb_userIds s' \<noteq> []))"
    if "sp_onlineSub p c = Some a" for c a
  proof -
    obtain s where s: "sp_subs p a = Some s" "sb_client s = c" "distinct (sb_userIds s)"
        "c \<notin> X \<longrightarrow> (sp_active p c = Some a \<longleftrightarrow> sb_userIds s \<noteq> [])"
      using assms(2) \<open>sp_onlineSub p c = Some a\<close> unfolding owner_ok_def by blast
    obtain s' where "sp_subs p' a = Some s'" "sb_client s' = sb_client s" "sb_userIds s' = sb_userIds s"
      using same_core_at [OF assms(1) s(1)] .
    then show ?thesis
      using s by simp
  qed
  then show ?thesis
    using assms by (simp add: owner_ok_def same_core_def)
qed

lemma same_core_cancel:
  assumes "same_core p p'" "sp_subs p a = Some s" "sb_cancel s"
  shows "\<exists>s'. sp_subs p' a = Some s' \<and> sb_cancel s'"
proof -
  obtain s' where "sp_subs p' a = Some s'" "sb_cancel s' = sb_cancel s"
    using same_core_at [OF assms(1,2)] .
  then show ?thesis
    using assms(3) by simp
qed

lemma same_core_jobs:
  assumes "same_core p p'" "jobs_ok p"
  shows "jobs_ok p'"
proof -
  have "(\<exists>s. sp_subs p' a = Some s \<and> sb_cancel s) \<longleftrightarrow> (\<exists>s. sp_subs p a = Some s \<and> sb_cancel s)" for a
    using same_core_cancel [OF assms(1), of a] same_core_cancel [OF same_core_sym [OF assms(1)], of a] by blast
  then show ?thesis
    using assms by (simp add: jobs_ok_def same_core_def)
qed

lemma same_core_watched:
  assumes "same_core p p'" "owner_ok X p"
  shows "watched p' = watched p"
proof
  fix c
  show "watched p' c = watched p c"
  proof (cases "sp_active p c")
    case None
    then show ?thesis
      using assms(1) by (simp add: watched_def same_core_def)
  next
    case (Some a)
    then obtain s where s: "sp_subs p a = Some s"
      using assms(2) unfolding owner_ok_def by blast
    obtain s' where "sp_subs p' a = Some s'" "sb_userIds s' = sb_userIds s"
      using same_core_at [OF assms(1) s] .
    then show ?thesis
      using assms(1) Some s by (simp add: watched_def same_core_def sub_at_def)
  qed
qed

lemma same_core_rest:
  assumes "same_core p p'" "owner_ok X p" "jobs_ok p" "index_ok p" "alloc_ok p"
  shows "owner_ok X p'" "jobs_ok p'" "index_ok p'" "alloc_ok p'"
proof -
  show "index_ok p'"
    using same_core_watched [OF assms(1,2)] assms(1,4) by (simp add: index_ok_def same_core_def)
  have "sp_subs p' a = None \<longleftrightarrow> sp_subs p a = None" for a
    using assms(1) by (metis same_core_def map_option_is_None)
  then show "alloc_ok p'"
    using assms(1,5) by (simp add: alloc_ok_def same_core_def)
qed (use assms same_core_owner same_core_jobs in blast)+

lemma same_core_waiting:
  assumes "same_core p p'" "owner_ok X p" "waiting_ok p" "set (sp_due p) \<subseteq> set (sp_due p')"
  shows "waiting_ok p'"
  unfolding waiting_ok_def
proof (intro allI impI)
  fix c a
  assume a: "sp_active p' c = Some a" "\<not> sp_stopped p'" "\<not> sp_closing p'" "c \<notin> sp_ended p'"
  then have a': "sp_active p c = Some a"
    using assms(1) by (simp add: same_core_def)
  then obtain s where s: "sp_subs p a = Some s"
    using assms(2) unfolding owner_ok_def by blast
  obtain s' where s': "sp_subs p' a = Some s'" "sb_cancel s' = sb_cancel s"
    using same_core_at [OF assms(1) s] .
  have "a \<in> set (sp_due p) \<or> sb_cancel (sub_at p a)"
    using assms(1,3) a a' by (simp add: waiting_ok_def same_core_def)
  then show "a \<in> set (sp_due p') \<or> sb_cancel (sub_at p' a)"
    using assms(4) s s' by (auto simp: sub_at_def)
qed

subsection \<open>Queueing\<close>

lemma position_in: "x \<in> set xs \<Longrightarrow> position x xs < length xs" "x \<in> set xs \<Longrightarrow> xs ! position x xs = x"
  by (induction xs) auto

lemma sub_at_set [simp]: "sub_at (set_sub a s p) b = (if b = a then s else sub_at p b)"
  by (simp add: sub_at_def set_sub_def)

lemma sub_at_update [simp]:
  "sub_at (p\<lparr>sp_due := d\<rparr>) a = sub_at p a" "sub_at (p\<lparr>sp_seq := q\<rparr>) a = sub_at p a" "sub_at (p\<lparr>sp_wake := w\<rparr>) a = sub_at p a"
  "sub_at (p\<lparr>sp_jobs := j\<rparr>) a = sub_at p a" "sub_at (p\<lparr>sp_reads := r\<rparr>) a = sub_at p a" "sub_at (p\<lparr>sp_next := n\<rparr>) a = sub_at p a"
  "sub_at (p\<lparr>sp_active := x\<rparr>) a = sub_at p a" "sub_at (p\<lparr>sp_refs := f\<rparr>) a = sub_at p a" "sub_at (p\<lparr>sp_byUser := y\<rparr>) a = sub_at p a"
  "sub_at (p\<lparr>sp_onlineSub := z\<rparr>) a = sub_at p a" "sub_at (notify p) a = sub_at p a" "sub_at (notify_head b p) a = sub_at p a"
  by (simp_all add: sub_at_def notify_head_def notify_def)

lemma notify_head_simps [simp]:
  "sp_due (notify_head a p) = sp_due p" "sp_subs (notify_head a p) = sp_subs p" "sp_active (notify_head a p) = sp_active p"
  "same_core (notify_head a p) q = same_core p q" "same_core q (notify_head a p) = same_core q p"
  by (simp_all add: notify_head_def notify_def same_core_def)

lemma due_key_cong: "(\<And>a. a \<in> set xs \<Longrightarrow> key' a = key a) \<Longrightarrow> is_heap key' xs \<longleftrightarrow> is_heap key xs"
proof -
  assume "\<And>a. a \<in> set xs \<Longrightarrow> key' a = key a"
  then have "key' (xs ! k) = key (xs ! k)" "key' (xs ! parent k) = key (xs ! parent k)" if "k < length xs" for k
    using that parent_less(2) [of k] by simp_all
  then show ?thesis
    by (auto simp: ordered_def)
qed

lemma due_key_subs: "sp_subs p' = sp_subs p \<Longrightarrow> due_key p' = due_key p"
  by (simp add: due_key_def sub_at_def fun_eq_iff)

lemma requeued:
  assumes "queue_ok p" "sp_subs p a = Some s" "sp_active p (sb_client s) = Some a" "\<not> sb_cancel s"
    and "core s' = core s" "sb_nextAttempt s' \<le> sb_readyAt s'"
    and "sp_subs p' = (sp_subs p)(a \<mapsto> s')" "sp_active p' = sp_active p" "mset (sp_due p') = mset d" "is_heap (due_key p') (sp_due p')"
    and "distinct d" "set d = insert a (set (sp_due p))"
  shows "queue_ok p'" "set (sp_due p') = insert a (set (sp_due p))"
proof -
  have d: "set (sp_due p') = set d" "distinct (sp_due p') = distinct d"
    using mset_eq_setD [OF assms(9)] mset_eq_imp_distinct_iff [OF assms(9)] by simp_all
  then show "set (sp_due p') = insert a (set (sp_due p))"
    using assms(12) by simp
  have "\<exists>s. sp_subs p' b = Some s \<and> sp_active p' (sb_client s) = Some b \<and> \<not> sb_cancel s \<and> sb_nextAttempt s \<le> sb_readyAt s"
    if "b \<in> insert a (set (sp_due p))" for b
    using that assms(1-8) by (cases "b = a") (auto simp: queue_ok_def core_def)
  then show "queue_ok p'"
    using d assms(10-12) by (simp add: queue_ok_def)
qed

lemma requeue_cases:
  fixes p a at0
  defines "s \<equiv> sub_at p a"
  defines "at \<equiv> if at0 < sb_nextAttempt s then sb_nextAttempt s else at0"
  obtains (kept) "requeue a at0 p = p" "a \<in> set (sp_due p)"
  | (sooner) d p1 where "a \<in> set (sp_due p)" "sp_subs p1 = (sp_subs p)(a \<mapsto> s\<lparr>sb_readyAt := at\<rparr>)"
      "requeue a at0 p = notify_head a (p\<lparr>sp_subs := sp_subs p1, sp_due := d\<rparr>)"
      "d = heap_Fix (due_key p1) (position a (sp_due p)) (sp_due p)"
  | (new) d p1 where "a \<notin> set (sp_due p)" "sp_subs p1 = (sp_subs p)(a \<mapsto> s\<lparr>sb_readyAt := at, sb_seq := sp_seq p\<rparr>)"
      "requeue a at0 p = notify_head a (p\<lparr>sp_subs := sp_subs p1, sp_seq := sp_seq p + 1, sp_due := d\<rparr>)"
      "d = heap_Push (due_key p1) a (sp_due p)"
proof (cases "a \<in> set (sp_due p)")
  case True
  show thesis
  proof (cases "at \<ge> sb_readyAt s")
    case later: True
    then have "requeue a at0 p = p"
      using True unfolding requeue_def s_def at_def Let_def by simp
    then show thesis
      using True kept by blast
  next
    case False
    then show thesis
      using True sooner [of "set_sub a (s\<lparr>sb_readyAt := at\<rparr>) p"] unfolding requeue_def s_def at_def Let_def
      by (simp add: set_sub_def)
  qed
next
  case False
  then show thesis
    using new [of "(set_sub a (s\<lparr>sb_readyAt := at, sb_seq := sp_seq p\<rparr>) p)\<lparr>sp_seq := sp_seq p + 1\<rparr>"]
    unfolding requeue_def s_def at_def Let_def by (simp add: set_sub_def)
qed

lemma same_core_set:
  "sp_subs p a = Some s \<Longrightarrow> core s' = core s \<Longrightarrow> same_core p (p\<lparr>sp_subs := (sp_subs p)(a \<mapsto> s'), sp_due := d\<rparr>)"
  "sp_subs p a = Some s \<Longrightarrow> core s' = core s \<Longrightarrow> same_core p (p\<lparr>sp_subs := (sp_subs p)(a \<mapsto> s'), sp_seq := q, sp_due := d\<rparr>)"
  by (simp_all add: same_core_def)

lemma requeue_ok:
  assumes "queue_ok p" "sp_subs p a = Some s" "sp_active p (sb_client s) = Some a" "\<not> sb_cancel s"
  shows "same_core p (requeue a at0 p) \<and> queue_ok (requeue a at0 p) \<and> set (sp_due (requeue a at0 p)) = insert a (set (sp_due p)) \<and>
    (\<exists>s'. sp_subs (requeue a at0 p) a = Some s' \<and> sb_revision s' = sb_revision s \<and> sb_lastSuccess s' = sb_lastSuccess s)"
proof -
  have s: "sub_at p a = s"
    using assms(2) by (simp add: sub_at_def)
  have heap: "is_heap (due_key p) (sp_due p)" and dist: "distinct (sp_due p)"
    using assms(1) by (auto simp: queue_ok_def)
  show ?thesis
  proof (cases rule: requeue_cases [of a at0 p])
    case kept
    then show ?thesis
      using assms(1,2) by auto
  next
    case (sooner d p1)
    let ?s' = "s\<lparr>sb_readyAt := if at0 < sb_nextAttempt s then sb_nextAttempt s else at0\<rparr>" and ?i = "position a (sp_due p)"
    have core: "core ?s' = core s"
      by (simp add: core_def)
    have key: "due_key p1 b = due_key p b" if "b \<noteq> a" for b
      using sooner(2) that by (simp add: due_key_def sub_at_def)
    have "almost (due_key p1) (sp_due p) ?i (length (sp_due p))"
    proof (rule almost_cong [OF ordered_almost [OF heap]])
      fix k
      assume k: "k < length (sp_due p)" "k \<noteq> ?i"
      then have "sp_due p ! k \<noteq> a"
        using nth_eq_iff_index_eq [OF dist k(1) position_in(1) [OF sooner(1)]] position_in(2) [OF sooner(1)] by simp
      then show "due_key p1 (sp_due p ! k) = due_key p (sp_due p ! k)"
        by (rule key)
    qed
    note fix_ok = heap_Fix_ok [OF this position_in(1) [OF sooner(1)], folded sooner(4)]
    have "is_heap (due_key (requeue a at0 p)) d"
      using fix_ok(1) due_key_subs [of "requeue a at0 p" p1] sooner(3) by simp
    then show ?thesis
      using requeued [OF assms core, where p' = "requeue a at0 p" and d = "sp_due p"] same_core_set(1) [OF assms(2) core] fix_ok(2)
        sooner(1,2,3) dist s by (auto simp: insert_absorb)
  next
    case (new d p1)
    let ?s' = "s\<lparr>sb_readyAt := if at0 < sb_nextAttempt s then sb_nextAttempt s else at0, sb_seq := sp_seq p\<rparr>"
    have core: "core ?s' = core s"
      by (simp add: core_def)
    have "due_key p1 b = due_key p b" if "b \<in> set (sp_due p)" for b
      using new(1,2) that by (auto simp: due_key_def sub_at_def)
    then have "is_heap (due_key p1) (sp_due p)"
      using heap due_key_cong [of "sp_due p" "due_key p1" "due_key p"] by simp
    then have push: "is_heap (due_key p1) d" "mset d = mset (a # sp_due p)"
      using heap_Push_ok new(4) by auto
    have "is_heap (due_key (requeue a at0 p)) d"
      using push(1) due_key_subs [of "requeue a at0 p" p1] new(3) by simp
    then show ?thesis
      using requeued [OF assms core, where p' = "requeue a at0 p" and d = "a # sp_due p"] same_core_set(2) [OF assms(2) core] push(2)
        new(1,2,3) dist s by auto
  qed
qed

lemma same_core_inv:
  assumes "subs_inv X p" "same_core p p'" "queue_ok p'" "set (sp_due p) \<subseteq> set (sp_due p')"
  shows "subs_inv X p'"
proof -
  have inv: "owner_ok X p" "jobs_ok p" "index_ok p" "alloc_ok p" "waiting_ok p"
    using assms(1) by (simp_all add: subs_inv_def)
  show ?thesis
    using assms(3) same_core_rest [OF assms(2) inv(1-4)] same_core_waiting [OF assms(2) inv(1,5) assms(4)]
    by (simp add: subs_inv_def)
qed

lemma mark_ok:
  assumes "subs_inv X p" "sp_active p c = Some a"
  shows "subs_inv X (mark a now p) \<and> same_core p (mark a now p)"
proof -
  obtain s where s: "sp_subs p a = Some s" "sb_client s = c"
    using assms unfolding subs_inv_def owner_ok_def by blast
  have at: "sub_at p a = s"
    using s by (simp add: sub_at_def)
  show ?thesis
  proof (cases "sb_cancel s")
    case True
    let ?p = "set_sub a (s\<lparr>sb_remark := True\<rparr>) p"
    have core: "same_core p ?p"
      using s(1) by (simp add: same_core_def set_sub_def core_def)
    have "due_key ?p = due_key p"
      using at by (simp add: due_key_def fun_eq_iff)
    then have "queue_ok ?p"
      using assms(1) s(1) True by (auto simp: subs_inv_def queue_ok_def set_sub_def)
    then show ?thesis
      using same_core_inv [OF assms(1) core] core True at by (simp add: mark_def set_sub_def)
  next
    case False
    have "queue_ok p"
      using assms(1) by (simp add: subs_inv_def)
    from requeue_ok [OF this s(1) _ False, of now] show ?thesis
      using assms s(2) same_core_inv [OF assms(1)] False at by (auto simp: mark_def)
  qed
qed

subsection \<open>Removing\<close>

definition watchers :: "(string \<rightharpoonup> Client set) \<Rightarrow> string \<Rightarrow> Client set" where
  "watchers m u = (case m u of None \<Rightarrow> {} | Some cs \<Rightarrow> cs)"

definition nonempty :: "'a set \<Rightarrow> 'a set option" where
  "nonempty A = (if A = {} then None else Some A)"

lemma watchers_nonempty [simp]: "m u = nonempty A \<Longrightarrow> watchers m u = A"
  by (simp add: watchers_def nonempty_def)

lemma fold_drop_user:
  "fold (drop_user c) ids m u = (if u \<in> set ids then nonempty (watchers m u - {c}) else m u)"
proof (induction ids arbitrary: m)
  case (Cons i ids)
  have "drop_user c i m = m(i := nonempty (watchers m i - {c}))"
    by (simp add: drop_user_def watchers_def nonempty_def)
  then show ?case
    by (auto simp: Cons.IH watchers_def nonempty_def)
qed simp

lemma fold_add_user:
  "fold (add_user c) ids m u = (if u \<in> set ids then nonempty (insert c (watchers m u)) else m u)"
proof (induction ids arbitrary: m)
  case (Cons i ids)
  have "add_user c i m = m(i := nonempty (insert c (watchers m i)))"
    by (simp add: add_user_def watchers_def nonempty_def)
  then show ?case
    by (auto simp: Cons.IH watchers_def nonempty_def)
qed simp

lemma index_ok_iff:
  "index_ok p \<longleftrightarrow> finite (dom (sp_active p)) \<and> sp_refs p = (\<Sum>c \<in> dom (sp_active p). int (length (watched p c))) \<and>
     (\<forall>u. sp_byUser p u = nonempty {c. u \<in> set (watched p c)})"
  by (simp add: index_ok_def nonempty_def Let_def)

lemma byUser_drop:
  assumes "\<forall>u. m u = nonempty {d. u \<in> set (w d)}"
  shows "fold (drop_user c) (w c) m u = nonempty {d. u \<in> set ((w(c := [])) d)}"
proof -
  have "{d. u \<in> set ((w(c := [])) d)} = (if u \<in> set (w c) then {d. u \<in> set (w d)} - {c} else {d. u \<in> set (w d)})"
    by auto
  moreover have "watchers m u = {d. u \<in> set (w d)}"
    using assms by (intro watchers_nonempty) simp
  ultimately show ?thesis
    unfolding fold_drop_user using assms by (cases "u \<in> set (w c)") simp_all
qed

lemma byUser_add:
  assumes "\<forall>u. m u = nonempty {d. u \<in> set (w d)}" "w c = []"
  shows "fold (add_user c) ids m u = nonempty {d. u \<in> set ((w(c := ids)) d)}"
proof -
  have "{d. u \<in> set ((w(c := ids)) d)} = (if u \<in> set ids then insert c {d. u \<in> set (w d)} else {d. u \<in> set (w d)})"
    using assms(2) by auto
  moreover have "watchers m u = {d. u \<in> set (w d)}"
    using assms by (intro watchers_nonempty) simp
  ultimately show ?thesis
    unfolding fold_add_user using assms(1) by (cases "u \<in> set ids") simp_all
qed

text \<open>Exchanging what one client watches.\<close>

lemma index_exchange:
  assumes "index_ok p" "watched p' = (watched p)(c := ids)" "dom (sp_active p') - {c} = dom (sp_active p) - {c}"
    and "c \<notin> dom (sp_active p') \<Longrightarrow> ids = []"
    and "sp_refs p' = sp_refs p - int (length (watched p c)) + int (length ids)"
    and "\<And>u. sp_byUser p' u = nonempty {d. u \<in> set (watched p' d)}"
  shows "index_ok p'"
proof -
  let ?A = "dom (sp_active p)" and ?A' = "dom (sp_active p')"
  have fin: "finite (?A - {c})" "finite ?A"
    using assms(1) by (simp_all add: index_ok_iff)
  then have fin': "finite ?A'"
    using assms(3) finite_insert [of c "?A' - {c}"] finite_subset [of ?A' "insert c (?A' - {c})"] by auto
  have "c \<notin> ?A \<Longrightarrow> watched p c = []"
    by (auto simp: watched_def split: option.split)
  then have "(\<Sum>d \<in> ?A. int (length (watched p d))) = int (length (watched p c)) + (\<Sum>d \<in> ?A - {c}. int (length (watched p d)))"
    using fin sum.remove [of ?A c "\<lambda>d. int (length (watched p d))"] by (cases "c \<in> ?A") auto
  moreover have "(\<Sum>d \<in> ?A'. int (length (watched p' d))) = int (length ids) + (\<Sum>d \<in> ?A' - {c}. int (length (watched p' d)))"
    using fin' assms(2,4) sum.remove [of ?A' c "\<lambda>d. int (length (watched p' d))"] by (cases "c \<in> ?A'") auto
  moreover have "(\<Sum>d \<in> ?A' - {c}. int (length (watched p' d))) = (\<Sum>d \<in> ?A - {c}. int (length (watched p d)))"
    using assms(2,3) by (intro sum.cong) auto
  ultimately show ?thesis
    using assms(1,5,6) fin' by (simp add: index_ok_iff)
qed

lemma jobs_cong:
  assumes "jobs_ok p" "\<forall>a. map_option core (sp_subs p' a) = map_option core (sp_subs p a)" "sp_jobs p' = sp_jobs p" "sp_reads p' = sp_reads p"
  shows "jobs_ok p'"
proof -
  have "(\<exists>s. sp_subs p' a = Some s \<and> sb_cancel s) \<longleftrightarrow> (\<exists>s. sp_subs p a = Some s \<and> sb_cancel s)" for a
  proof -
    have "map_option core (sp_subs p' a) = map_option core (sp_subs p a)"
      using assms(2) by simp
    then show ?thesis
      by (cases "sp_subs p a"; cases "sp_subs p' a") (auto simp: core_def)
  qed
  then show ?thesis
    using assms by (simp add: jobs_ok_def)
qed

lemma active_owner:
  assumes "owner_ok X p" "sp_active p c = Some a"
  obtains s where "sp_subs p a = Some s" "sb_client s = c" "sp_onlineSub p c = Some a"
proof -
  have on: "sp_onlineSub p c = Some a"
    using assms by (simp add: owner_ok_def)
  then obtain s where "sp_subs p a = Some s" "sb_client s = c"
    using assms(1) unfolding owner_ok_def by blast
  then show thesis
    using that on by blast
qed

lemma own_object:
  assumes "owner_ok X p" "sp_onlineSub p c = Some a"
  obtains s where "sp_subs p a = Some s" "sb_client s = c" "sub_at p a = s" "distinct (sb_userIds s)"
    "sp_active p c \<noteq> None \<Longrightarrow> sp_active p c = Some a" "sp_active p c = None \<Longrightarrow> c \<notin> X \<Longrightarrow> sb_userIds s = []"
proof -
  obtain s where s: "sp_subs p a = Some s" "sb_client s = c" "distinct (sb_userIds s)"
      "c \<notin> X \<longrightarrow> (sp_active p c = Some a \<longleftrightarrow> sb_userIds s \<noteq> [])"
    using assms unfolding owner_ok_def by blast
  have "sp_active p c = Some a" if "sp_active p c \<noteq> None"
    using assms that by (auto simp: owner_ok_def)
  then show thesis
    using that s by (auto simp: sub_at_def)
qed

lemma remove_sub_ok:
  assumes inv: "subs_inv {} p" and on: "sp_onlineSub p c = Some a"
  defines "p' \<equiv> remove_sub a p"
  shows "subs_inv {c} p'" "sp_active p' = (sp_active p)(c := None)" "sp_onlineSub p' = sp_onlineSub p"
    "sp_subs p' = (sp_subs p)(a \<mapsto> (sub_at p a)\<lparr>sb_remark := False\<rparr>)" "sp_refs p' = sp_refs p - int (length (watched p c))"
    "sp_next p' = sp_next p" "sp_stopped p' = sp_stopped p"
proof -
  have inv': "queue_ok p" "owner_ok {} p" "jobs_ok p" "index_ok p" "alloc_ok p" "waiting_ok p"
    using inv by (simp_all add: subs_inv_def)
  obtain s where s: "sp_subs p a = Some s" "sb_client s = c" "sub_at p a = s" "distinct (sb_userIds s)"
      "sp_active p c \<noteq> None \<Longrightarrow> sp_active p c = Some a" "sp_active p c = None \<Longrightarrow> sb_userIds s = []"
    using own_object [OF inv'(2) on] by blast
  have w: "watched p c = sb_userIds s"
    using s(3,5,6) by (auto simp: watched_def split: option.split)
  define d where "d = (if a \<in> set (sp_due p) then heap_Remove (due_key p) (position a (sp_due p)) (sp_due p) else sp_due p)"
  have run: "p' = p\<lparr>sp_due := d, sp_subs := (sp_subs p)(a \<mapsto> s\<lparr>sb_remark := False\<rparr>), sp_active := (sp_active p)(c := None),
      sp_refs := sp_refs p - int (length (sb_userIds s)), sp_byUser := fold (drop_user c) (sb_userIds s) (sp_byUser p)\<rparr>"
    using s(2,3,6) unfolding p'_def remove_sub_def d_def
    by (cases "sp_active p c") (auto simp: Let_def set_sub_def fun_upd_idem)
  show fields: "sp_active p' = (sp_active p)(c := None)" "sp_onlineSub p' = sp_onlineSub p"
    "sp_subs p' = (sp_subs p)(a \<mapsto> (sub_at p a)\<lparr>sb_remark := False\<rparr>)" "sp_refs p' = sp_refs p - int (length (watched p c))"
    "sp_next p' = sp_next p" "sp_stopped p' = sp_stopped p"
    using run w s(3) by simp_all
  have same: "sp_due p' = d" "sp_jobs p' = sp_jobs p" "sp_reads p' = sp_reads p" "sp_closing p' = sp_closing p"
    "sp_ended p' = sp_ended p" "sp_byUser p' = fold (drop_user c) (watched p c) (sp_byUser p)"
    using run w by simp_all
  have due: "is_heap (due_key p) d" "distinct d" "set d = set (sp_due p) - {a}"
  proof -
    have heap: "is_heap (due_key p) (sp_due p)" "distinct (sp_due p)"
      using inv'(1) by (simp_all add: queue_ok_def)
    show "is_heap (due_key p) d"
      using heap_Remove_ok(1) [OF heap(1) position_in(1)] heap(1) by (auto simp: d_def)
    have elems: "mset d = mset (remove1 a (sp_due p))"
      using heap_Remove_ok(2) [OF heap(1) position_in(1)] position_in(2) [of a "sp_due p"] by (auto simp: d_def)
    then show "set d = set (sp_due p) - {a}"
      using mset_eq_setD [OF elems] heap(2) by simp
    show "distinct d"
      using mset_eq_imp_distinct_iff [OF elems] heap(2) by simp
  qed
  have key: "due_key p' = due_key p"
    using fields(3) s(3) by (simp add: due_key_def sub_at_def fun_eq_iff)
  have other: "b \<noteq> a" if act: "sp_active p e = Some b" and ne: "e \<noteq> c" for e b
  proof -
    obtain t where "sp_subs p b = Some t" "sb_client t = e"
      using active_owner [OF inv'(2) act] .
    then show ?thesis
      using s(1,2) ne by auto
  qed
  have "queue_ok p'"
  proof -
    have "\<exists>t. sp_subs p' b = Some t \<and> sp_active p' (sb_client t) = Some b \<and> \<not> sb_cancel t \<and> sb_nextAttempt t \<le> sb_readyAt t"
      if b: "b \<in> set (sp_due p)" "b \<noteq> a" for b
    proof -
      obtain t where t: "sp_subs p b = Some t" "sp_active p (sb_client t) = Some b" "\<not> sb_cancel t" "sb_nextAttempt t \<le> sb_readyAt t"
        using inv'(1) b(1) unfolding queue_ok_def by blast
      have "sb_client t \<noteq> c"
        using t(2) s(5) b(2) by auto
      then show ?thesis
        using t b(2) fields(1,3) by simp
    qed
    then show ?thesis
      using due key same(1) by (simp add: queue_ok_def)
  qed
  moreover have "owner_ok {c} p'"
  proof -
    have "\<exists>t. sp_subs p' b = Some t \<and> sb_client t = e \<and> distinct (sb_userIds t) \<and>
        (e \<notin> {c} \<longrightarrow> (sp_active p' e = Some b \<longleftrightarrow> sb_userIds t \<noteq> []))" if e: "sp_onlineSub p e = Some b" for e b
    proof (cases "e = c")
      case True
      then show ?thesis
        using e on s fields(3) by simp
    next
      case False
      obtain t where t: "sp_subs p b = Some t" "sb_client t = e" "distinct (sb_userIds t)" "sp_active p e = Some b \<longleftrightarrow> sb_userIds t \<noteq> []"
        using inv'(2) e unfolding owner_ok_def by blast
      then have "b \<noteq> a"
        using s(1,2) False by auto
      then show ?thesis
        using t False fields(1,3) by simp
    qed
    then show ?thesis
      using inv'(2) fields(1,2) by (auto simp: owner_ok_def)
  qed
  moreover have "jobs_ok p'"
  proof (rule jobs_cong [OF inv'(3) _ same(2,3)])
    show "\<forall>b. map_option core (sp_subs p' b) = map_option core (sp_subs p b)"
      using s(1,3) fields(3) by (simp add: core_def)
  qed
  moreover have w': "watched p' = (watched p)(c := [])"
    using fields(1,3) s(3) by (auto simp: watched_def sub_at_def fun_eq_iff split: option.split)
  have "index_ok p'"
  proof (rule index_exchange [OF inv'(4) w'])
    have "\<forall>u. sp_byUser p u = nonempty {d. u \<in> set (watched p d)}"
      using inv'(4) by (simp add: index_ok_iff)
    from byUser_drop [OF this, of c] show "sp_byUser p' u = nonempty {d. u \<in> set (watched p' d)}" for u
      unfolding w' same(6) by simp
  qed (use fields(1,4) in auto)
  moreover have "alloc_ok p'"
    using inv'(5) s(1) fields(3,5) by (auto simp: alloc_ok_def)
  moreover have "waiting_ok p'"
    unfolding waiting_ok_def
  proof (intro allI impI)
    fix e b
    assume e: "sp_active p' e = Some b" "\<not> sp_stopped p'" "\<not> sp_closing p'" "e \<notin> sp_ended p'"
    then have "e \<noteq> c" "sp_active p e = Some b"
      using fields(1) by (auto split: if_splits)
    then have "b \<noteq> a" "b \<in> set (sp_due p) \<or> sb_cancel (sub_at p b)"
      using other inv'(6) e(2-4) fields(6) same(4,5) by (auto simp: waiting_ok_def)
    then show "b \<in> set (sp_due p') \<or> sb_cancel (sub_at p' b)"
      using due(3) same(1) fields(3) by (auto simp: sub_at_def)
  qed
  ultimately show "subs_inv {c} p'"
    by (simp add: subs_inv_def)
qed

subsection \<open>Subscribing\<close>

text \<open>A detached object that is its client's own, and not active.\<close>

definition detached :: "Client \<Rightarrow> nat \<Rightarrow> Subs \<Rightarrow> bool" where
  "detached c a p \<longleftrightarrow> subs_inv {c} p \<and> sp_onlineSub p c = Some a \<and> sp_active p c = None \<and>
     (\<exists>s. sp_subs p a = Some s \<and> sb_client s = c \<and> distinct (sb_userIds s))"

lemma attach_ok:
  assumes "detached c a p"
  shows "subs_inv {} (attach a now p)" "sp_refs (attach a now p) = sp_refs p + int (length (sb_userIds (sub_at p a)))"
    "sp_onlineSub (attach a now p) = sp_onlineSub p"
proof -
  obtain s where s: "sp_subs p a = Some s" "sb_client s = c" "distinct (sb_userIds s)" "sub_at p a = s"
    using assms by (auto simp: detached_def sub_at_def)
  have inv: "queue_ok p" "owner_ok {c} p" "jobs_ok p" "index_ok p" "alloc_ok p" "waiting_ok p"
    and on: "sp_onlineSub p c = Some a" "sp_active p c = None"
    using assms by (simp_all add: detached_def subs_inv_def)
  show "subs_inv {} (attach a now p)"
  proof (cases "sb_userIds s = []")
    case True
    have "owner_ok {} p"
      unfolding owner_ok_def
    proof (intro conjI allI impI)
      fix e b
      assume "sp_onlineSub p e = Some b"
      then show "\<exists>t. sp_subs p b = Some t \<and> sb_client t = e \<and> distinct (sb_userIds t) \<and>
          (e \<notin> {} \<longrightarrow> (sp_active p e = Some b) = (sb_userIds t \<noteq> []))"
        using inv(2) s True on by (cases "e = c") (auto simp: owner_ok_def)
    next
      fix e b
      assume "sp_active p e = Some b"
      then show "sp_onlineSub p e = Some b" "e \<notin> {}"
        using inv(2) by (auto simp: owner_ok_def)
    qed
    then show ?thesis
      using inv True s(4) by (simp add: attach_def subs_inv_def)
  next
    case False
    let ?p = "p\<lparr>sp_active := (sp_active p)(c \<mapsto> a), sp_refs := sp_refs p + int (length (sb_userIds s)),
      sp_byUser := fold (add_user c) (sb_userIds s) (sp_byUser p)\<rparr>"
    have run: "attach a now p = mark a now ?p"
      using False s(2,4) by (simp add: attach_def Let_def)
    have "sp_active p (sb_client t) = Some b \<Longrightarrow> sb_client t \<noteq> c" for t b
      using on(2) by auto
    then have queue: "queue_ok ?p"
      using inv(1) due_key_subs [of ?p p] unfolding queue_ok_def by (auto dest!: bspec)
    have "owner_ok {} ?p"
      unfolding owner_ok_def
    proof (intro conjI allI impI)
      fix e b
      assume "sp_onlineSub ?p e = Some b"
      then show "\<exists>t. sp_subs ?p b = Some t \<and> sb_client t = e \<and> distinct (sb_userIds t) \<and>
          (e \<notin> {} \<longrightarrow> (sp_active ?p e = Some b) = (sb_userIds t \<noteq> []))"
        using inv(2) s False on by (cases "e = c") (auto simp: owner_ok_def)
    next
      fix e b
      assume "sp_active ?p e = Some b"
      then show "sp_onlineSub ?p e = Some b" "e \<notin> {}"
        using inv(2) on by (auto simp: owner_ok_def split: if_splits)
    qed
    moreover have "jobs_ok ?p"
      using inv(3) by (simp add: jobs_ok_def)
    moreover have w: "watched ?p = (watched p)(c := sb_userIds s)"
      using s(4) by (auto simp: watched_def fun_eq_iff split: option.split)
    have "watched p c = []"
      using on(2) by (simp add: watched_def)
    have "index_ok ?p"
    proof (rule index_exchange [OF inv(4) w])
      have "\<forall>u. sp_byUser p u = nonempty {d. u \<in> set (watched p d)}"
        using inv(4) by (simp add: index_ok_iff)
      from byUser_add [OF this \<open>watched p c = []\<close>] show "sp_byUser ?p u = nonempty {d. u \<in> set (watched ?p d)}" for u
        unfolding w by simp
    qed (use \<open>watched p c = []\<close> in auto)
    moreover have "alloc_ok ?p"
      using inv(5) by (simp add: alloc_ok_def)
    ultimately have rest: "owner_ok {} ?p" "jobs_ok ?p" "index_ok ?p" "alloc_ok ?p"
      by blast+
    have act: "sp_active ?p (sb_client s) = Some a"
      using s(2) by simp
    show ?thesis
    proof (cases "sb_cancel s")
      case True
      have "waiting_ok ?p"
        using inv(6) True s(4) by (auto simp: waiting_ok_def)
      then have "subs_inv {} ?p"
        using queue rest by (simp add: subs_inv_def)
      then show ?thesis
        unfolding run using mark_ok [of "{}" ?p c a now] by simp
    next
      case False
      have obj: "sp_subs ?p a = Some s"
        using s(1) by simp
      note rq = requeue_ok [OF queue obj act False, of now]
      have "waiting_ok (requeue a now ?p)"
        unfolding waiting_ok_def
      proof (intro allI impI)
        fix e b
        assume e: "sp_active (requeue a now ?p) e = Some b" "\<not> sp_stopped (requeue a now ?p)"
          "\<not> sp_closing (requeue a now ?p)" "e \<notin> sp_ended (requeue a now ?p)"
        have core: "same_core ?p (requeue a now ?p)"
          using rq by simp
        then have act: "sp_active ?p e = Some b" "\<not> sp_stopped ?p" "\<not> sp_closing ?p" "e \<notin> sp_ended ?p"
          using e by (simp_all add: same_core_def)
        show "b \<in> set (sp_due (requeue a now ?p)) \<or> sb_cancel (sub_at (requeue a now ?p) b)"
        proof (cases "e = c")
          case False
          then have b: "sp_active p e = Some b"
            using act(1) by simp
          obtain t where t: "sp_subs p b = Some t"
            using active_owner [OF inv(2) b] by metis
          have "\<not> sp_stopped p" "\<not> sp_closing p" "e \<notin> sp_ended p"
            using act by simp_all
          then have "b \<in> set (sp_due p) \<or> sb_cancel (sub_at p b)"
            using inv(6) b unfolding waiting_ok_def by blast
          then have "b \<in> set (sp_due p) \<or> sb_cancel t"
            using t by (simp add: sub_at_def)
          then show ?thesis
          proof
            assume "sb_cancel t"
            then obtain t' where "sp_subs (requeue a now ?p) b = Some t'" "sb_cancel t'"
              using same_core_cancel [OF core, of b t] t by auto
            then show ?thesis
              by (simp add: sub_at_def)
          qed (use rq in simp)
        qed (use act(1) rq in simp)
      qed
      then have "subs_inv {} (requeue a now ?p)"
        using rq same_core_rest [OF _ rest, of "requeue a now ?p"] by (simp add: subs_inv_def)
      then show ?thesis
        unfolding run using False s(4) by (simp add: mark_def)
    qed
  qed
  have "sp_refs (mark a now q) = sp_refs q" "sp_onlineSub (mark a now q) = sp_onlineSub q" for q
    by (simp_all add: mark_def requeue_def Let_def set_sub_def notify_head_def notify_def)
  then show "sp_refs (attach a now p) = sp_refs p + int (length (sb_userIds (sub_at p a)))"
    "sp_onlineSub (attach a now p) = sp_onlineSub p"
    using s(2,4) by (simp_all add: attach_def Let_def)
qed

lemma not_due:
  assumes "queue_ok p" "sp_subs p a = Some s" "sp_active p (sb_client s) \<noteq> Some a"
  shows "a \<notin> set (sp_due p)"
  using assms by (auto simp: queue_ok_def)

text \<open>Giving a detached object a new set of users.\<close>

lemma retarget_ok:
  assumes "subs_inv {c} p" "sp_onlineSub p c = Some a" "sp_active p c = None" "sp_subs p a = Some s" "sb_client s = c"
    and "sb_client s' = c" "sb_cancel s' = sb_cancel s" "distinct (sb_userIds s')"
  shows "detached c a (set_sub a s' p)"
proof -
  let ?p = "set_sub a s' p"
  have inv: "queue_ok p" "owner_ok {c} p" "jobs_ok p" "index_ok p" "alloc_ok p" "waiting_ok p"
    using assms(1) by (simp_all add: subs_inv_def)
  have fields: "sp_subs ?p = (sp_subs p)(a \<mapsto> s')" "sp_due ?p = sp_due p" "sp_active ?p = sp_active p" "sp_onlineSub ?p = sp_onlineSub p"
    "sp_jobs ?p = sp_jobs p" "sp_reads ?p = sp_reads p" "sp_refs ?p = sp_refs p" "sp_byUser ?p = sp_byUser p" "sp_next ?p = sp_next p"
    "sp_stopped ?p = sp_stopped p" "sp_closing ?p = sp_closing p" "sp_ended ?p = sp_ended p"
    by (simp_all add: set_sub_def)
  have due: "a \<notin> set (sp_due p)"
    using not_due [OF inv(1) assms(4)] assms(3,5) by simp
  have other: "sub_at ?p b = sub_at p b" if "sp_active p e = Some b" for e b
  proof -
    have "sp_onlineSub p e = Some b" "e \<noteq> c"
      using inv(2) that assms(3) by (auto simp: owner_ok_def)
    then obtain t where "sp_subs p b = Some t" "sb_client t = e"
      using inv(2) unfolding owner_ok_def by blast
    then have "b \<noteq> a"
      using assms(4,5) \<open>e \<noteq> c\<close> by auto
    then show ?thesis
      by simp
  qed
  have "due_key ?p b = due_key p b" if "b \<in> set (sp_due p)" for b
    using that due by (auto simp: due_key_def)
  then have "is_heap (due_key ?p) (sp_due p)"
    using due_key_cong [of "sp_due p" "due_key ?p" "due_key p"] inv(1) by (simp add: queue_ok_def)
  moreover have "\<exists>t. sp_subs ?p b = Some t \<and> sp_active p (sb_client t) = Some b \<and> \<not> sb_cancel t \<and> sb_nextAttempt t \<le> sb_readyAt t"
    if b: "b \<in> set (sp_due p)" for b
  proof -
    have "b \<noteq> a"
      using b due by auto
    then show ?thesis
      using inv(1) b fields(1) by (simp add: queue_ok_def)
  qed
  ultimately have "queue_ok ?p"
    using inv(1) fields(2,3) by (simp add: queue_ok_def)
  moreover have "owner_ok {c} ?p"
    unfolding owner_ok_def
  proof (intro conjI allI impI)
    fix e b
    assume e: "sp_onlineSub ?p e = Some b"
    show "\<exists>t. sp_subs ?p b = Some t \<and> sb_client t = e \<and> distinct (sb_userIds t) \<and>
        (e \<notin> {c} \<longrightarrow> (sp_active ?p e = Some b) = (sb_userIds t \<noteq> []))"
    proof (cases "e = c")
      case True
      then show ?thesis
        using e assms(2,6,8) fields by simp
    next
      case False
      then obtain t where t: "sp_subs p b = Some t" "sb_client t = e" "distinct (sb_userIds t)" "(sp_active p e = Some b) = (sb_userIds t \<noteq> [])"
        using inv(2) e fields(4) unfolding owner_ok_def by auto
      then have "b \<noteq> a"
        using assms(4,5) False by auto
      then show ?thesis
        using t fields by simp
    qed
  next
    fix e b
    assume "sp_active ?p e = Some b"
    then show "sp_onlineSub ?p e = Some b" "e \<notin> {c}"
      using inv(2) fields(3,4) by (auto simp: owner_ok_def)
  qed
  moreover have "jobs_ok ?p"
  proof -
    have "(\<exists>t. sp_subs ?p b = Some t \<and> sb_cancel t) \<longleftrightarrow> (\<exists>t. sp_subs p b = Some t \<and> sb_cancel t)" for b
      using assms(4,7) fields(1) by simp
    then show ?thesis
      using inv(3) fields by (simp add: jobs_ok_def)
  qed
  moreover have "watched ?p = watched p"
    using other fields(3) by (auto simp: watched_def fun_eq_iff split: option.split)
  then have "index_ok ?p"
    using inv(4) fields by (simp add: index_ok_def)
  moreover have "alloc_ok ?p"
    using inv(5) assms(4) fields by (auto simp: alloc_ok_def)
  moreover have "waiting_ok ?p"
    using inv(6) other fields unfolding waiting_ok_def by metis
  ultimately show ?thesis
    using assms fields by (simp add: detached_def subs_inv_def)
qed

lemma replace_sub_ok:
  assumes inv: "subs_inv {} p" and on: "sp_onlineSub p c = Some a" and ids: "distinct ids"
  shows "subs_inv {} (replace_sub a r ids now p)"
    "sp_refs (replace_sub a r ids now p) = sp_refs p - int (length (watched p c)) + int (length ids)"
proof -
  let ?p1 = "remove_sub a p"
  note rm = remove_sub_ok [OF inv on]
  have "owner_ok {} p"
    using inv by (simp add: subs_inv_def)
  then obtain s where s: "sp_subs p a = Some s" "sb_client s = c" "sub_at p a = s"
    using own_object [OF _ on] by blast
  let ?s = "(sub_at ?p1 a)\<lparr>sb_revision := r, sb_userIds := ids, sb_lastSuccess := time_zero\<rparr>"
  have s1: "sp_subs ?p1 a = Some (s\<lparr>sb_remark := False\<rparr>)" "sub_at ?p1 a = s\<lparr>sb_remark := False\<rparr>"
    using rm(4) s by (simp_all add: sub_at_def)
  have "detached c a (set_sub a ?s ?p1)"
    using retarget_ok [OF rm(1) _ _ s1(1), where s' = ?s] rm(2,3) on s s1(2) ids by simp
  moreover have "(set_sub a ?s ?p1)\<lparr>sp_onlineSub := (sp_onlineSub ?p1)(sb_client ?s \<mapsto> a)\<rparr> = set_sub a ?s ?p1"
    using rm(3) on s(2) s1(2) by (simp add: set_sub_def fun_upd_idem)
  moreover have "replace_sub a r ids now p =
      attach a now ((set_sub a ?s ?p1)\<lparr>sp_onlineSub := (sp_onlineSub ?p1)(sb_client ?s \<mapsto> a)\<rparr>)"
    by (simp add: replace_sub_def Let_def)
  ultimately have det: "detached c a (set_sub a ?s ?p1)" and run: "replace_sub a r ids now p = attach a now (set_sub a ?s ?p1)"
    by simp_all
  show "subs_inv {} (replace_sub a r ids now p)"
    unfolding run by (rule attach_ok(1) [OF det])
  have "sp_refs (set_sub a ?s ?p1) = sp_refs ?p1"
    by (simp add: set_sub_def)
  then show "sp_refs (replace_sub a r ids now p) = sp_refs p - int (length (watched p c)) + int (length ids)"
    unfolding run attach_ok(2) [OF det] using rm(5) by simp
qed

lemma client_sub_ok:
  assumes inv: "subs_inv {} p" and run: "client_sub c p = (a, p1)"
  defines "p0 \<equiv> p1\<lparr>sp_onlineSub := (sp_onlineSub p1)(c \<mapsto> a)\<rparr>"
  shows "subs_inv {} p0" "sp_onlineSub p0 c = Some a" "sp_refs p0 = sp_refs p"
    "replace_sub a r ids now p1 = replace_sub a r ids now p0" "sub_at p0 = sub_at p1" "watched p0 c = sb_userIds (sub_at p1 a)"
proof -
  have inv': "queue_ok p" "owner_ok {} p" "jobs_ok p" "index_ok p" "alloc_ok p" "waiting_ok p"
    using inv by (simp_all add: subs_inv_def)
  have at0: "sub_at p0 = sub_at p1"
    by (simp add: p0_def fun_eq_iff sub_at_def)
  show "sp_onlineSub p0 c = Some a"
    by (simp add: p0_def)
  show "sub_at p0 = sub_at p1"
    by (rule at0)
  have all: "subs_inv {} p0 \<and> sp_refs p0 = sp_refs p \<and> sb_client (sub_at p1 a) = c \<and> watched p0 c = sb_userIds (sub_at p1 a)"
  proof (cases "sp_onlineSub p c")
    case (Some b)
    then have p0: "p0 = p" "a = b" "p1 = p"
      using run by (simp_all add: client_sub_def p0_def fun_upd_idem)
    obtain s where s: "sub_at p b = s" "sb_client s = c" "sp_active p c \<noteq> None \<Longrightarrow> sp_active p c = Some b"
        "sp_active p c = None \<Longrightarrow> sb_userIds s = []"
      using own_object [OF inv'(2) Some] by blast
    have "watched p c = sb_userIds s"
      using s by (auto simp: watched_def split: option.split)
    then show ?thesis
      using inv p0 s by simp
  next
    case None
    let ?s = "new_subscription c"
    have p0: "a = sp_next p" "p0 = p\<lparr>sp_subs := (sp_subs p)(sp_next p \<mapsto> ?s), sp_next := sp_next p + 1,
        sp_onlineSub := (sp_onlineSub p)(c \<mapsto> sp_next p)\<rparr>" "sub_at p1 a = ?s"
      using None run by (auto simp: client_sub_def set_sub_def p0_def sub_at_def)
    have fields: "sp_subs p0 = (sp_subs p)(a \<mapsto> ?s)" "sp_due p0 = sp_due p" "sp_active p0 = sp_active p"
      "sp_onlineSub p0 = (sp_onlineSub p)(c \<mapsto> a)" "sp_jobs p0 = sp_jobs p" "sp_reads p0 = sp_reads p" "sp_refs p0 = sp_refs p"
      "sp_byUser p0 = sp_byUser p" "sp_next p0 = sp_next p + 1" "sp_stopped p0 = sp_stopped p" "sp_closing p0 = sp_closing p"
      "sp_ended p0 = sp_ended p"
      using p0(1,2) by simp_all
    have fresh: "sp_subs p a = None"
      using inv'(5) p0(1) by (simp add: alloc_ok_def)
    have idle: "sp_active p c = None"
      using inv'(2) None by (cases "sp_active p c") (auto simp: owner_ok_def)
    have old: "sub_at p0 b = sub_at p b" if "sp_subs p b \<noteq> None" for b
      using that fresh fields(1) by (auto simp: sub_at_def)
    have active: "sp_subs p b \<noteq> None" if act: "sp_active p e = Some b" for e b
    proof -
      obtain t where "sp_subs p b = Some t"
        using active_owner [OF inv'(2) act] .
      then show ?thesis
        by simp
    qed
    have queued: "sp_subs p b \<noteq> None" if "b \<in> set (sp_due p)" for b
      using inv'(1) that by (auto simp: queue_ok_def)
    have "due_key p0 b = due_key p b" if "b \<in> set (sp_due p)" for b
      using old [OF queued [OF that]] by (simp add: due_key_def)
    then have "is_heap (due_key p0) (sp_due p)"
      using due_key_cong [of "sp_due p" "due_key p0" "due_key p"] inv'(1) by (simp add: queue_ok_def)
    moreover have "sp_subs p0 b = sp_subs p b" if "b \<in> set (sp_due p)" for b
      using queued [OF that] fresh fields(1) by auto
    ultimately have "queue_ok p0"
      using inv'(1) fields(2,3) by (simp add: queue_ok_def)
    moreover have "owner_ok {} p0"
      unfolding owner_ok_def
    proof (intro conjI allI impI)
      fix e b
      assume e: "sp_onlineSub p0 e = Some b"
      show "\<exists>t. sp_subs p0 b = Some t \<and> sb_client t = e \<and> distinct (sb_userIds t) \<and>
          (e \<notin> {} \<longrightarrow> (sp_active p0 e = Some b) = (sb_userIds t \<noteq> []))"
      proof (cases "e = c")
        case True
        then show ?thesis
          using e fields idle by (simp add: new_subscription_def)
      next
        case False
        then obtain t where t: "sp_subs p b = Some t" "sb_client t = e" "distinct (sb_userIds t)" "(sp_active p e = Some b) = (sb_userIds t \<noteq> [])"
          using inv'(2) e fields(4) unfolding owner_ok_def by auto
        then have "b \<noteq> a"
          using fresh by auto
        then show ?thesis
          using t fields by simp
      qed
    next
      fix e b
      assume e: "sp_active p0 e = Some b"
      then have "e \<noteq> c"
        using fields(3) idle by auto
      then show "sp_onlineSub p0 e = Some b"
        using inv'(2) e fields(3,4) by (simp add: owner_ok_def)
    qed simp
    moreover have "jobs_ok p0"
    proof -
      have "(\<exists>t. sp_subs p0 b = Some t \<and> sb_cancel t) \<longleftrightarrow> (\<exists>t. sp_subs p b = Some t \<and> sb_cancel t)" for b
        using fresh fields(1) by (simp add: new_subscription_def)
      then show ?thesis
        using inv'(3) fields by (simp add: jobs_ok_def)
    qed
    moreover have w: "watched p0 = watched p"
      using old active fields(3) by (fastforce simp: watched_def fun_eq_iff split: option.split)
    then have "index_ok p0"
      using inv'(4) fields by (simp add: index_ok_def)
    moreover have "alloc_ok p0"
      using inv'(5) p0(1) fields by (auto simp: alloc_ok_def)
    moreover have "waiting_ok p0"
      using inv'(6) old active fields unfolding waiting_ok_def by metis
    moreover have "watched p c = []"
      using idle by (simp add: watched_def)
    ultimately show ?thesis
      using fields(7) p0(3) w by (simp add: subs_inv_def new_subscription_def)
  qed
  then show "subs_inv {} p0" "sp_refs p0 = sp_refs p" "watched p0 c = sb_userIds (sub_at p1 a)"
    by blast+
  have "remove_sub a p0 = (remove_sub a p1)\<lparr>sp_onlineSub := (sp_onlineSub p1)(c \<mapsto> a)\<rparr>"
    unfolding p0_def by (simp add: remove_sub_def Let_def set_sub_def due_key_subs [of "p1\<lparr>sp_onlineSub := _\<rparr>" p1])
  moreover have "sp_onlineSub (remove_sub a p1) = sp_onlineSub p1" "sb_client (sub_at (remove_sub a p1) a) = sb_client (sub_at p1 a)"
    by (simp_all add: remove_sub_def Let_def set_sub_def sub_at_def)
  ultimately show "replace_sub a r ids now p1 = replace_sub a r ids now p0"
    using all by (simp add: replace_sub_def Let_def set_sub_def)
qed

lemma distinct_sorted_remdups_adj: "sorted xs \<Longrightarrow> distinct (remdups_adj xs)"
  by (induction xs rule: remdups_adj.induct) force+

lemma distinct_subscription_ids [simp]: "distinct (subscription_ids ids)"
  by (simp add: subscription_ids_def distinct_sorted_remdups_adj)

lemma length_subscription_ids: "length (subscription_ids ids) \<le> length ids"
  using remdups_adj_length [of "sort ids"] by (simp add: subscription_ids_def)

definition subs_ok :: "Subs \<Rightarrow> bool" where
  "subs_ok p \<longleftrightarrow> subs_inv {} p \<and> sp_refs p \<le> maxOnlineSubscriptionRefs"

lemma setOnlineSubscriptions_ok:
  assumes "subs_ok p" "setOnlineSubscriptions available c inp now p = (x, p')"
  shows "subs_ok p'"
proof (cases "p' = p")
  case False
  obtain a p1 where run: "client_sub c p = (a, p1)"
    by fastforce
  let ?ids = "subscription_ids (sq_UserIds inp)"
  have p': "p' = replace_sub a (sq_Revision inp) ?ids now p1"
    "sp_refs p - int (length (sb_userIds (sub_at p1 a))) + int (length ?ids) \<le> maxOnlineSubscriptionRefs"
    using assms(2) False run by (auto simp: setOnlineSubscriptions_def Let_def split: if_splits)
  have inv: "subs_inv {} p"
    using assms(1) by (simp add: subs_ok_def)
  note c = client_sub_ok [OF inv run]
  show ?thesis
    using replace_sub_ok [OF c(1,2) distinct_subscription_ids] p' c(3,4,6) by (simp add: subs_ok_def)
qed (use assms(1) in simp)

lemma detach_ok:
  assumes "subs_inv {} p" "sp_onlineSub p c = Some a"
  shows "subs_inv {} ((remove_sub a p)\<lparr>sp_onlineSub := (sp_onlineSub p)(c := None)\<rparr>)"
proof -
  let ?p1 = "remove_sub a p"
  let ?p = "?p1\<lparr>sp_onlineSub := (sp_onlineSub p)(c := None)\<rparr>"
  note rm = remove_sub_ok [OF assms]
  have inv: "queue_ok ?p1" "owner_ok {c} ?p1" "jobs_ok ?p1" "index_ok ?p1" "alloc_ok ?p1" "waiting_ok ?p1"
    using rm(1) by (simp_all add: subs_inv_def)
  have "owner_ok {} ?p"
    using inv(2) rm(2,3) by (auto simp: owner_ok_def)
  moreover have "watched ?p = watched ?p1"
    by (simp add: watched_def fun_eq_iff split: option.split)
  then have "index_ok ?p"
    using inv(4) by (simp add: index_ok_def)
  moreover have "due_key ?p = due_key ?p1"
    by (rule due_key_subs) simp
  then have "queue_ok ?p"
    using inv(1) by (simp add: queue_ok_def)
  ultimately show ?thesis
    using inv(3,5,6) by (simp add: subs_inv_def jobs_ok_def alloc_ok_def waiting_ok_def)
qed

lemma detach_refs: "subs_inv {} p \<Longrightarrow> sp_onlineSub p c = Some a \<Longrightarrow> sp_refs (remove_sub a p) \<le> sp_refs p"
  using remove_sub_ok(5) by simp

lemma removeOnlineSubscriptions_ok: "subs_ok p \<Longrightarrow> subs_ok (removeOnlineSubscriptions c p)"
  using detach_ok detach_refs by (fastforce simp: removeOnlineSubscriptions_def subs_ok_def split: option.split)

end
