(* ===== verification/PresenceSteps.thy ===== *)
theory PresenceSteps
  imports Presence UserService
begin

text \<open>
  Any order of calls on the subscriptions of \<^verbatim>\<open>Presence\<close> is a run of \<^verbatim>\<open>subs_run\<close>, which also keeps
  the log of the reads started. Every operation preserves the invariant; the log shows the
  minimum interval between the reads of a subscription.
\<close>

section \<open>Marking and stopping\<close>

definition subs_kept :: "Subs \<Rightarrow> Subs \<Rightarrow> bool" where
  "subs_kept p p' \<longleftrightarrow> subs_inv {} p' \<and> same_core p p'"

lemma mark_fold_ok:
  "subs_inv {} p \<Longrightarrow> subs_kept p (fold (\<lambda>c p. case sp_active p c of None \<Rightarrow> p | Some a \<Rightarrow> mark a now p) cs p)"
proof (induction cs arbitrary: p)
  case (Cons c cs)
  show ?case
  proof (cases "sp_active p c")
    case None
    then show ?thesis
      using Cons by simp
  next
    case (Some a)
    note m = mark_ok [OF Cons.prems Some, of now]
    show ?thesis
      using Cons.IH [of "mark a now p"] m Some same_core_trans unfolding subs_kept_def by auto
  qed
qed (simp add: subs_kept_def)

lemma mark_user_ok: "subs_inv {} p \<Longrightarrow> subs_kept p (mark_user walk now u p)"
  using mark_fold_ok by (simp add: mark_user_def subs_kept_def split: option.split)

lemma markOnlineChanged_ok:
  assumes "subs_ok p"
  shows "subs_ok (markOnlineChanged walk now us p)"
proof -
  have "subs_kept p (fold (mark_user walk now) us p)" if "subs_inv {} p" for p
    using that
  proof (induction us arbitrary: p)
    case (Cons u us)
    have "subs_kept p (mark_user walk now u p)"
      by (rule mark_user_ok [OF Cons.prems])
    then show ?case
      using Cons.IH [of "mark_user walk now u p"] same_core_trans unfolding subs_kept_def by auto
  qed (simp add: subs_kept_def)
  then show ?thesis
    using assms by (auto simp: markOnlineChanged_def subs_ok_def subs_kept_def same_core_def)
qed

lemma flags_ok:
  assumes "subs_ok p" "sp_subs p' = sp_subs p" "sp_next p' = sp_next p" "sp_onlineSub p' = sp_onlineSub p" "sp_active p' = sp_active p"
    "sp_byUser p' = sp_byUser p" "sp_due p' = sp_due p" "sp_reads p' = sp_reads p" "sp_refs p' = sp_refs p" "sp_jobs p' = sp_jobs p"
    "sp_stopped p \<longrightarrow> sp_stopped p'" "sp_closing p \<longrightarrow> sp_closing p'" "sp_ended p \<subseteq> sp_ended p'"
  shows "subs_ok p'"
proof -
  have at: "sub_at p' = sub_at p"
    using assms(2) by (simp add: sub_at_def fun_eq_iff)
  have "watched p' = watched p"
    unfolding watched_def at assms(5) ..
  moreover have "waiting_ok p'"
    using assms at by (auto simp: subs_ok_def subs_inv_def waiting_ok_def)
  ultimately show ?thesis
    using assms(1-10) due_key_subs [OF assms(2)]
    by (simp add: subs_ok_def subs_inv_def queue_ok_def owner_ok_def jobs_ok_def index_ok_def alloc_ok_def)
qed

lemma stop_fold_ok:
  assumes "subs_ok p"
  defines "f \<equiv> \<lambda>c p. case sp_active p c of None \<Rightarrow> p | Some a \<Rightarrow> (remove_sub a p)\<lparr>sp_onlineSub := (sp_onlineSub p)(c := None)\<rparr>"
  shows "subs_ok (fold f cs p) \<and> dom (sp_active (fold f cs p)) \<subseteq> dom (sp_active p) - set cs \<and>
    sp_stopped (fold f cs p) = sp_stopped p"
  using assms(1)
proof (induction cs arbitrary: p)
  case (Cons c cs)
  show ?case
  proof (cases "sp_active p c")
    case None
    then show ?thesis
      using Cons.IH [OF Cons.prems] by (auto simp: f_def)
  next
    case (Some a)
    have inv: "subs_inv {} p"
      using Cons.prems by (simp add: subs_ok_def)
    then have on: "sp_onlineSub p c = Some a"
      using Some by (simp add: subs_inv_def owner_ok_def)
    have "subs_ok (f c p)"
      using detach_ok [OF inv on] detach_refs [OF inv on] Cons.prems Some by (simp add: f_def subs_ok_def)
    moreover have "sp_active (f c p) = (sp_active p)(c := None)" and stop: "sp_stopped (f c p) = sp_stopped p"
      using remove_sub_ok(2,7) [OF inv on] Some by (simp_all add: f_def)
    then have "dom (sp_active (f c p)) = dom (sp_active p) - {c}"
      by simp
    ultimately show ?thesis
      using Cons.IH [of "f c p"] stop by (simp add: Diff_insert2 [symmetric] insert_commute)
  qed
qed simp

lemma stop_subs_ok:
  assumes "subs_ok p"
  shows "subs_ok (stop_subs cs p)" "dom (sp_active (stop_subs cs p)) \<subseteq> dom (sp_active p) - set cs" "sp_stopped (stop_subs cs p)"
proof -
  have "subs_ok (p\<lparr>sp_stopped := True\<rparr>)"
    by (rule flags_ok [OF assms]) simp_all
  from stop_fold_ok [OF this, of cs] show "subs_ok (stop_subs cs p)"
      "dom (sp_active (stop_subs cs p)) \<subseteq> dom (sp_active p) - set cs" "sp_stopped (stop_subs cs p)"
    by (simp_all add: stop_subs_def)
qed

section \<open>Starting and finishing a read\<close>

lemma recancel:
  assumes "owner_ok X p" "index_ok p" "alloc_ok p" "sp_subs p a = Some s" "sb_client s' = sb_client s" "sb_userIds s' = sb_userIds s"
    "sp_subs p' = (sp_subs p)(a \<mapsto> s')" "sp_active p' = sp_active p" "sp_onlineSub p' = sp_onlineSub p" "sp_refs p' = sp_refs p"
    "sp_byUser p' = sp_byUser p" "sp_next p' = sp_next p"
  shows "owner_ok X p'" "index_ok p'" "alloc_ok p'"
proof -
  show "owner_ok X p'"
    unfolding owner_ok_def
  proof (intro conjI allI impI)
    fix c b
    assume "sp_onlineSub p' c = Some b"
    then obtain t where t: "sp_subs p b = Some t" "sb_client t = c" "distinct (sb_userIds t)"
        "c \<notin> X \<longrightarrow> (sp_active p c = Some b \<longleftrightarrow> sb_userIds t \<noteq> [])"
      using assms(1,9) unfolding owner_ok_def by auto
    show "\<exists>t. sp_subs p' b = Some t \<and> sb_client t = c \<and> distinct (sb_userIds t) \<and>
        (c \<notin> X \<longrightarrow> (sp_active p' c = Some b \<longleftrightarrow> sb_userIds t \<noteq> []))"
      using t assms(4-8) by (cases "b = a") simp_all
  qed (use assms(1,8,9) in \<open>auto simp: owner_ok_def\<close>)
  have "watched p' = watched p"
    using assms(4,6-8) by (auto simp: watched_def sub_at_def fun_eq_iff split: option.split)
  then show "index_ok p'"
    using assms(2,8,10,11) by (simp add: index_ok_def)
  show "alloc_ok p'"
    using assms(3,4,7,12) by (auto simp: alloc_ok_def)
qed

lemma queue_cong:
  assumes "queue_ok p" "is_heap (due_key p) d" "distinct d" "set d \<subseteq> set (sp_due p) - {a}" "sp_due p' = d"
    "\<And>b. b \<noteq> a \<Longrightarrow> sp_subs p' b = sp_subs p b" "sp_active p' = sp_active p"
  shows "queue_ok p'"
proof -
  have in_d: "b \<in> set (sp_due p)" "sp_subs p' b = sp_subs p b" if "b \<in> set d" for b
    using assms(4) assms(6) [of b] that by auto
  then have "due_key p' b = due_key p b" if "b \<in> set d" for b
    using that by (simp add: due_key_def sub_at_def)
  then have "is_heap (due_key p') d"
    using due_key_cong [of d "due_key p'" "due_key p"] assms(2) by simp
  then show ?thesis
    using assms(1,3,5,7) in_d unfolding queue_ok_def by simp
qed

lemma start_read_ok:
  assumes "subs_ok p" "sp_due p = a # rest" "sp_reads p \<noteq> onlineRefreshWorkers"
  shows "subs_ok (start_read a now p)" "length (sp_due (start_read a now p)) = length rest"
proof -
  let ?p = "start_read a now p" and ?d = "heap_Pop (due_key p) (sp_due p)"
  have inv: "queue_ok p" "owner_ok {} p" "jobs_ok p" "index_ok p" "alloc_ok p" "waiting_ok p"
    using assms(1) by (simp_all add: subs_ok_def subs_inv_def)
  obtain s where s: "sp_subs p a = Some s" "\<not> sb_cancel s"
    using inv(1) assms(2) by (auto simp: queue_ok_def)
  let ?s = "s\<lparr>sb_cancel := True, sb_remark := False, sb_nextAttempt := now + onlineRefreshMinInterval\<rparr>"
  have fields: "sp_subs ?p = (sp_subs p)(a \<mapsto> ?s)" "sp_active ?p = sp_active p" "sp_onlineSub ?p = sp_onlineSub p" "sp_refs ?p = sp_refs p"
    "sp_byUser ?p = sp_byUser p" "sp_next ?p = sp_next p" "sp_due ?p = ?d" "sp_reads ?p = sp_reads p + 1"
    "sp_jobs ?p = sp_jobs p @ [\<lparr>or_sub = a, or_revision = sb_revision s, or_userIds = sb_userIds s\<rparr>]"
    "sp_stopped ?p = sp_stopped p" "sp_closing ?p = sp_closing p" "sp_ended ?p = sp_ended p"
    using s(1) by (simp_all add: start_read_def Let_def set_sub_def sub_at_def)
  have heap: "is_heap (due_key p) (sp_due p)" "distinct (sp_due p)" "sp_due p \<noteq> []"
    using inv(1) assms(2) by (auto simp: queue_ok_def)
  note pop = heap_Pop_ok [OF heap(1,3)]
  have d: "mset ?d = mset rest"
    using pop(2) assms(2) by simp
  then have set_d: "set ?d = set rest" "distinct ?d" "length ?d = length rest"
    using mset_eq_setD [OF d] mset_eq_imp_distinct_iff [OF d] mset_eq_length [OF d] heap(2) assms(2) by simp_all
  show "length (sp_due ?p) = length rest"
    using fields(7) set_d(3) by simp
  have "queue_ok ?p"
    by (rule queue_cong [OF inv(1) pop(1), where a = a])
      (use fields set_d heap(2) assms(2) in auto)
  moreover note recancel [OF inv(2,4,5) s(1) _ _ fields(1-6)]
  moreover have "jobs_ok ?p"
  proof -
    have "(\<exists>t. sp_subs p a = Some t \<and> sb_cancel t) \<longleftrightarrow> a \<in> or_sub ` set (sp_jobs p)"
      using inv(3) unfolding jobs_ok_def by blast
    then have new: "a \<notin> or_sub ` set (sp_jobs p)"
      using s by simp
    have "(\<exists>t. sp_subs ?p b = Some t \<and> sb_cancel t) \<longleftrightarrow> b \<in> or_sub ` set (sp_jobs ?p)" for b
      using inv(3) fields(1,9) by (simp add: jobs_ok_def)
    then show ?thesis
      using inv(3) new fields(8,9) assms(3) by (simp add: jobs_ok_def)
  qed
  moreover have "waiting_ok ?p"
    using inv(6) fields set_d(1) assms(2) by (auto simp: waiting_ok_def sub_at_def)
  ultimately show "subs_ok ?p"
    using assms(1) fields(4) by (simp add: subs_ok_def subs_inv_def)
qed

text \<open>A change of the fields nothing of the invariant reads.\<close>

lemma quiet_ok:
  assumes "subs_inv X p" "sp_subs p a = Some s" "core s' = core s" "sb_readyAt s' = sb_readyAt s" "sb_seq s' = sb_seq s"
    "sb_nextAttempt s' = sb_nextAttempt s"
  shows "subs_inv X (set_sub a s' p)"
proof -
  have "same_core p (set_sub a s' p)"
    using assms(2,3) by (simp add: same_core_def set_sub_def)
  moreover have "due_key (set_sub a s' p) = due_key p"
    using assms(2,4,5) by (simp add: due_key_def set_sub_def sub_at_def fun_eq_iff)
  then have "queue_ok (set_sub a s' p)"
    using assms by (auto simp: subs_inv_def queue_ok_def set_sub_def core_def)
  ultimately show ?thesis
    using same_core_inv [OF assms(1)] by (simp add: set_sub_def)
qed

text \<open>The state in which a read has given back its slot and its subscription is not queued yet.\<close>

definition freed :: "OnlineRead \<Rightarrow> bool \<Rightarrow> Subs \<Rightarrow> Subs" where
  "freed job m p =
     (set_sub (or_sub job) ((sub_at p (or_sub job))\<lparr>sb_cancel := False, sb_remark := m\<rparr>) p)\<lparr>
        sp_jobs := remove1 job (sp_jobs p), sp_reads := sp_reads p - 1\<rparr>"

lemma distinct_map_remove1:
  assumes "distinct (map f xs)" "x \<in> set xs"
  shows "distinct (map f (remove1 x xs))" "f ` set (remove1 x xs) = f ` set xs - {f x}"
  using assms by (induction xs) (auto simp: image_iff)

lemma job_sub:
  assumes "subs_ok p" "job \<in> set (sp_jobs p)"
  shows "sp_subs p (or_sub job) = Some (sub_at p (or_sub job))" "sb_cancel (sub_at p (or_sub job))"
proof -
  have "\<exists>t. sp_subs p (or_sub job) = Some t \<and> sb_cancel t"
    using assms by (auto simp: subs_ok_def subs_inv_def jobs_ok_def)
  then show "sp_subs p (or_sub job) = Some (sub_at p (or_sub job))" "sb_cancel (sub_at p (or_sub job))"
    by (auto simp: sub_at_def)
qed

lemma freed_ok:
  fixes m :: bool
  assumes "subs_ok p" "job \<in> set (sp_jobs p)"
  defines "q \<equiv> freed job m p" and "a \<equiv> or_sub job" and "s \<equiv> sub_at p (or_sub job)"
  shows "queue_ok q" "owner_ok {} q" "jobs_ok q" "index_ok q" "alloc_ok q"
    "sp_subs q = (sp_subs p)(a \<mapsto> s\<lparr>sb_cancel := False, sb_remark := m\<rparr>)" "sp_onlineSub q = sp_onlineSub p" "sp_active q = sp_active p"
    "sp_refs q = sp_refs p" "sp_due q = sp_due p" "sp_stopped q = sp_stopped p" "sp_closing q = sp_closing p" "sp_ended q = sp_ended p"
    "\<And>c b. sp_active q c = Some b \<Longrightarrow> b \<noteq> a \<Longrightarrow> \<not> sp_stopped q \<Longrightarrow> \<not> sp_closing q \<Longrightarrow> c \<notin> sp_ended q \<Longrightarrow>
      b \<in> set (sp_due q) \<or> sb_cancel (sub_at q b)"
proof -
  have inv: "queue_ok p" "owner_ok {} p" "jobs_ok p" "index_ok p" "alloc_ok p" "waiting_ok p"
    using assms(1) by (simp_all add: subs_ok_def subs_inv_def)
  have jobs: "distinct (map or_sub (sp_jobs p))" "\<And>b. (\<exists>t. sp_subs p b = Some t \<and> sb_cancel t) \<longleftrightarrow> b \<in> or_sub ` set (sp_jobs p)"
      "sp_reads p = int (length (sp_jobs p))" "sp_reads p \<le> onlineRefreshWorkers"
    using inv(3) unfolding jobs_ok_def by blast+
  have t: "sp_subs p a = Some s" "sb_cancel s"
    using job_sub [OF assms(1,2)] by (simp_all add: a_def s_def)
  note s = t(1)
  show fields: "sp_subs q = (sp_subs p)(a \<mapsto> s\<lparr>sb_cancel := False, sb_remark := m\<rparr>)" "sp_onlineSub q = sp_onlineSub p"
    "sp_active q = sp_active p" "sp_refs q = sp_refs p" "sp_due q = sp_due p" "sp_stopped q = sp_stopped p" "sp_closing q = sp_closing p"
    "sp_ended q = sp_ended p"
    by (simp_all add: q_def freed_def set_sub_def s_def a_def)
  have more: "sp_byUser q = sp_byUser p" "sp_next q = sp_next p" "sp_jobs q = remove1 job (sp_jobs p)" "sp_reads q = sp_reads p - 1"
    by (simp_all add: q_def freed_def set_sub_def)
  show "owner_ok {} q" "index_ok q" "alloc_ok q"
    using recancel [OF inv(2,4,5) s _ _ fields(1,3,2,4) more(1,2)] by simp_all
  have idle: "a \<notin> set (sp_due p)"
    using inv(1) t by (auto simp: queue_ok_def)
  show "queue_ok q"
    by (rule queue_cong [OF inv(1), where d = "sp_due p" and a = a]) (use inv(1) idle fields in \<open>auto simp: queue_ok_def\<close>)
  note rm = distinct_map_remove1 [OF jobs(1) assms(2)]
  have "(\<exists>t. sp_subs q b = Some t \<and> sb_cancel t) \<longleftrightarrow> b \<in> or_sub ` set (sp_jobs q)" for b
    using jobs(2) [of b] fields(1) rm(2) more(3) by (simp add: a_def)
  moreover have "int (length (remove1 job (sp_jobs p))) = int (length (sp_jobs p)) - 1"
    using assms(2) length_pos_if_in_set [OF assms(2)] by (simp add: length_remove1 of_nat_diff Suc_le_eq)
  ultimately show "jobs_ok q"
    using rm(1) more(3,4) jobs(3,4) by (simp add: jobs_ok_def)
  show "b \<in> set (sp_due q) \<or> sb_cancel (sub_at q b)" if b: "sp_active q c = Some b" "b \<noteq> a" "\<not> sp_stopped q" "\<not> sp_closing q" "c \<notin> sp_ended q" for c b
    using inv(6) b fields by (simp add: waiting_ok_def sub_at_def)
qed

lemma requeue_reads: "requeue a t (p\<lparr>sp_reads := n\<rparr>) = (requeue a t p)\<lparr>sp_reads := n\<rparr>"
  by (simp add: requeue_def Let_def set_sub_def sub_at_def notify_head_def notify_def due_key_def [abs_def])

lemma requeue_reads_eq: "sp_reads (requeue a t p) = sp_reads p"
  by (simp add: requeue_def Let_def set_sub_def notify_head_def notify_def)

text \<open>How a read ends: its subscription is not served any more, or it is queued again and the
  result is used when the revision is still the one that was read.\<close>

definition served :: "nat \<Rightarrow> Subs \<Rightarrow> bool" where
  "served a p \<longleftrightarrow> \<not> sp_stopped p \<and> \<not> sp_closing p \<and> sb_client (sub_at p a) \<notin> sp_ended p \<and>
     sp_onlineSub p (sb_client (sub_at p a)) = Some a \<and> sb_userIds (sub_at p a) \<noteq> []"

definition read_again :: "OnlineRead \<Rightarrow> time \<Rightarrow> Subs \<Rightarrow> Subs" where
  "read_again job now p = requeue (or_sub job)
     (if sb_remark (sub_at p (or_sub job)) then now else now + onlineSnapshotInterval) (freed job False p)"

lemma finishOnlineRead_dropped:
  assumes "\<not> served (or_sub job) p"
  shows "finishOnlineRead job r now p = (None, notify (freed job (sb_remark (sub_at p (or_sub job))) p))"
  using assms by (auto simp: finishOnlineRead_def served_def Let_def freed_def set_sub_def)

lemma finishOnlineRead_served:
  fixes now :: time
  assumes "served (or_sub job) p"
  defines "q \<equiv> read_again job now p" and "a \<equiv> or_sub job"
  shows "finishOnlineRead job r now p =
    (if sb_revision (sub_at q a) \<noteq> or_revision job then (None, notify q)
     else case r of
       Inl _ \<Rightarrow>
         (if sb_lastSuccess (sub_at q a) = time_zero \<or> now - sb_lastSuccess (sub_at q a) < onlineStaleAfter then None
          else Some \<lparr>sn_Revision = or_revision job, sn_Items = [], sn_Stale = True\<rparr>, notify q)
     | Inr items \<Rightarrow> (Some \<lparr>sn_Revision = or_revision job, sn_Items = items, sn_Stale = False\<rparr>,
         notify (set_sub a ((sub_at q a)\<lparr>sb_lastSuccess := now\<rparr>) q)))"
proof -
  let ?p1 = "(set_sub a ((sub_at p a)\<lparr>sb_cancel := False\<rparr>) p)\<lparr>sp_jobs := remove1 job (sp_jobs p)\<rparr>"
  let ?t = "if sb_remark (sub_at p a) then now else now + onlineSnapshotInterval"
  let ?p2 = "requeue a ?t (set_sub a ((sub_at ?p1 a)\<lparr>sb_remark := False\<rparr>) ?p1)"
  have "set_sub a ((sub_at ?p1 a)\<lparr>sb_remark := False\<rparr>) ?p1 = (freed job False p)\<lparr>sp_reads := sp_reads p\<rparr>"
    by (simp add: freed_def set_sub_def sub_at_def a_def)
  then have p2: "?p2 = q\<lparr>sp_reads := sp_reads p\<rparr>"
    by (simp add: q_def read_again_def requeue_reads a_def)
  have reads: "sp_reads q = sp_reads p - 1"
    by (simp add: q_def read_again_def requeue_reads_eq freed_def)
  have same: "q\<lparr>sp_reads := sp_reads p - 1\<rparr> = q" "q\<lparr>sp_subs := m, sp_reads := sp_reads p - 1\<rparr> = q\<lparr>sp_subs := m\<rparr>" for m
    by (simp_all flip: reads)
  have at: "sub_at (q\<lparr>sp_reads := n\<rparr>) = sub_at q" "sb_remark (sub_at ?p1 a) = sb_remark (sub_at p a)" for n
    by (simp_all add: sub_at_def fun_eq_iff set_sub_def)
  have "finishOnlineRead job r now p =
      (case finish_current job r now ?p1 of (x, p2) \<Rightarrow> (x, notify (p2\<lparr>sp_reads := sp_reads p2 - 1\<rparr>)))"
    using assms(1) by (simp add: finishOnlineRead_def served_def Let_def a_def)
  also have "finish_current job r now ?p1 =
    (if sb_revision (sub_at q a) \<noteq> or_revision job then (None, q\<lparr>sp_reads := sp_reads p\<rparr>)
     else case r of
       Inl _ \<Rightarrow>
         (if sb_lastSuccess (sub_at q a) = time_zero \<or> now - sb_lastSuccess (sub_at q a) < onlineStaleAfter
          then (None, q\<lparr>sp_reads := sp_reads p\<rparr>)
          else (Some \<lparr>sn_Revision = sb_revision (sub_at q a), sn_Items = [], sn_Stale = True\<rparr>, q\<lparr>sp_reads := sp_reads p\<rparr>))
     | Inr items \<Rightarrow> (Some \<lparr>sn_Revision = sb_revision (sub_at q a), sn_Items = items, sn_Stale = False\<rparr>,
         set_sub a ((sub_at q a)\<lparr>sb_lastSuccess := now\<rparr>) (q\<lparr>sp_reads := sp_reads p\<rparr>)))"
    unfolding finish_current_def Let_def a_def [symmetric] at(2) p2 at(1) ..
  finally show ?thesis
    using same by (simp add: set_sub_def split: sum.split)
qed

lemma notify_ok: "subs_ok (notify p) = subs_ok p"
proof -
  have "subs_ok (notify p)" if "subs_ok p"
    by (rule flags_ok [OF that]) (simp_all add: notify_def)
  moreover have "subs_ok p" if "subs_ok (notify p)"
    by (rule flags_ok [OF that]) (simp_all add: notify_def)
  ultimately show ?thesis
    by blast
qed

lemma freed_dropped_ok:
  assumes "subs_ok p" "job \<in> set (sp_jobs p)" "\<not> served (or_sub job) p"
  shows "subs_ok (freed job m p)"
proof -
  note q = freed_ok [OF assms(1,2), of m]
  have "waiting_ok (freed job m p)"
    unfolding waiting_ok_def
  proof (intro allI impI)
    fix c b
    assume b: "sp_active (freed job m p) c = Some b" "\<not> sp_stopped (freed job m p)" "\<not> sp_closing (freed job m p)"
      "c \<notin> sp_ended (freed job m p)"
    have "b \<noteq> or_sub job"
    proof
      assume a: "b = or_sub job"
      have "owner_ok {} p"
        using assms(1) by (simp add: subs_ok_def subs_inv_def)
      then have "sp_onlineSub p c = Some b \<and> sb_client (sub_at p b) = c \<and> sb_userIds (sub_at p b) \<noteq> []"
        using b(1) q(8) unfolding owner_ok_def by (force simp: sub_at_def)
      then show False
        using assms(3) a b(2-4) q(11-13) by (simp add: served_def)
    qed
    then show "b \<in> set (sp_due (freed job m p)) \<or> sb_cancel (sub_at (freed job m p) b)"
      using q(14) b by blast
  qed
  then show ?thesis
    using q(1-5,9) assms(1) by (simp add: subs_ok_def subs_inv_def)
qed

lemma read_again_ok:
  assumes "subs_ok p" "job \<in> set (sp_jobs p)" "served (or_sub job) p"
  shows "subs_ok (read_again job now p)" "\<exists>s. sp_subs (read_again job now p) (or_sub job) = Some s \<and>
    sb_revision s = sb_revision (sub_at p (or_sub job)) \<and> sb_userIds s = sb_userIds (sub_at p (or_sub job)) \<and>
    sb_lastSuccess s = sb_lastSuccess (sub_at p (or_sub job))"
proof -
  let ?a = "or_sub job" and ?q = "freed job False p" and ?r = "read_again job now p"
  let ?s = "(sub_at p ?a)\<lparr>sb_cancel := False, sb_remark := False\<rparr>"
  note q = freed_ok [OF assms(1,2), of False]
  have s: "sp_subs ?q ?a = Some ?s"
    using q(6) by simp
  have "owner_ok {} p"
    using assms(1) by (simp add: subs_ok_def subs_inv_def)
  then have "sp_active p (sb_client ?s) = Some ?a"
    using assms(3) job_sub(1) [OF assms(1,2)] unfolding served_def owner_ok_def by force
  then have act: "sp_active ?q (sb_client ?s) = Some ?a"
    using q(8) by simp
  note r = requeue_ok [OF q(1) s act, of "if sb_remark (sub_at p ?a) then now else now + onlineSnapshotInterval", folded read_again_def, simplified]
  have core: "same_core ?q ?r" and due: "set (sp_due ?r) = insert ?a (set (sp_due ?q))" and "queue_ok ?r"
    using r by blast+
  have "waiting_ok ?r"
    unfolding waiting_ok_def
  proof (intro allI impI)
    fix c b
    assume b: "sp_active ?r c = Some b" "\<not> sp_stopped ?r" "\<not> sp_closing ?r" "c \<notin> sp_ended ?r"
    have b': "sp_active ?q c = Some b" "\<not> sp_stopped ?q" "\<not> sp_closing ?q" "c \<notin> sp_ended ?q"
      using b core by (simp_all add: same_core_def)
    show "b \<in> set (sp_due ?r) \<or> sb_cancel (sub_at ?r b)"
    proof (cases "b = ?a")
      case False
      obtain t where t: "sp_subs ?q b = Some t"
        using active_owner [OF q(2) b'(1)] .
      obtain t' where "sp_subs ?r b = Some t'" "sb_cancel t' = sb_cancel t"
        using same_core_at [OF core t] .
      then show ?thesis
        using q(14) [OF b'(1) False b'(2-4)] due t by (auto simp: sub_at_def)
    qed (use due in simp)
  qed
  then show "subs_ok ?r"
    using same_core_rest [OF core q(2-5)] \<open>queue_ok ?r\<close> core q(9) assms(1) by (simp add: subs_ok_def subs_inv_def same_core_def)
  obtain s' where s': "sp_subs ?r ?a = Some s'" "sb_userIds s' = sb_userIds ?s"
    using same_core_at [OF core s] .
  then show "\<exists>s. sp_subs ?r ?a = Some s \<and> sb_revision s = sb_revision (sub_at p ?a) \<and> sb_userIds s = sb_userIds (sub_at p ?a) \<and>
      sb_lastSuccess s = sb_lastSuccess (sub_at p ?a)"
    using r by auto
qed

lemma finishOnlineRead_ok:
  assumes "subs_ok p" "job \<in> set (sp_jobs p)"
  shows "subs_ok (snd (finishOnlineRead job r now p))"
proof (cases "served (or_sub job) p")
  case True
  note again = read_again_ok [OF assms True, of now]
  obtain s where s: "sp_subs (read_again job now p) (or_sub job) = Some s"
    using again(2) by blast
  have at: "sub_at (read_again job now p) (or_sub job) = s"
    using s by (simp add: sub_at_def)
  have "subs_ok (set_sub (or_sub job) (s\<lparr>sb_lastSuccess := now\<rparr>) (read_again job now p))"
    using quiet_ok [OF _ s, of "{}" "s\<lparr>sb_lastSuccess := now\<rparr>"] again(1) by (simp add: subs_ok_def core_def set_sub_def)
  then show ?thesis
    using again(1) unfolding finishOnlineRead_served [OF True] at by (simp add: notify_ok split: sum.split)
next
  case False
  then show ?thesis
    using freed_dropped_ok [OF assms False] by (simp add: finishOnlineRead_dropped notify_ok)
qed

section \<open>Dispatching\<close>

text \<open>Why a dispatch stops: nothing waits, the first of the queue is not due, every worker is busy, or
  the limiter has no token.\<close>

definition dispatched :: "('l \<Rightarrow> time \<Rightarrow> bool \<times> duration \<times> 'l) \<Rightarrow> time \<Rightarrow> duration \<Rightarrow> Subs \<Rightarrow> bool" where
  "dispatched reserveN now w p \<longleftrightarrow>
     (case sp_due p of
        [] \<Rightarrow> w = 0
      | a # _ \<Rightarrow>
          let at = sb_readyAt (sub_at p a) in
          if at > now then w = at - now
          else sp_reads p = onlineRefreshWorkers \<and> w = 0 \<or>
            (\<exists>lim ok d lim'. reserveN lim now = (ok, d, lim') \<and> (if ok then d > 0 \<and> w = d else w = 0)))"

lemma dispatch_loop_ok:
  assumes "subs_ok p" "length (sp_due p) < fuel" "dispatch_loop reserveN fuel now lim p = (w, lim', p')"
  shows "subs_ok p' \<and> dispatched reserveN now w p'"
  using assms
proof (induction fuel arbitrary: p lim)
  case (Suc fuel)
  show ?case
  proof (cases "sp_due p")
    case Nil
    then show ?thesis
      using Suc.prems by (simp add: dispatched_def)
  next
    case (Cons a rest)
    let ?at = "sb_readyAt (sub_at p a)"
    obtain ok d lim1 where lim: "reserveN lim now = (ok, d, lim1)"
      by (cases "reserveN lim now") auto
    consider (later) "?at > now" | (busy) "?at \<le> now" "sp_reads p = onlineRefreshWorkers"
      | (limited) "?at \<le> now" "sp_reads p \<noteq> onlineRefreshWorkers" "\<not> ok \<or> d > 0"
      | (read) "?at \<le> now" "sp_reads p \<noteq> onlineRefreshWorkers" "ok" "\<not> d > 0"
      by linarith
    then show ?thesis
    proof cases
      case read
      then have "dispatch_loop reserveN fuel now lim1 (start_read a now p) = (w, lim', p')"
        using Suc.prems(3) Cons lim by (simp add: Let_def)
      then show ?thesis
        using Suc.IH start_read_ok [OF Suc.prems(1) Cons read(2), of now] Suc.prems(2) Cons by simp
    next
      case limited
      then have "p' = p" and w: "if ok then d > 0 \<and> w = d else w = 0"
        using Suc.prems(3) Cons lim by (auto simp: Let_def split: if_splits)
      have "\<exists>lim ok d lim'. reserveN lim now = (ok, d, lim') \<and> (if ok then d > 0 \<and> w = d else w = 0)"
        using lim w by blast
      then show ?thesis
        using Suc.prems(1) limited(1) Cons \<open>p' = p\<close> by (simp add: dispatched_def Let_def)
    next
      case later
      then have "p' = p" "w = ?at - now"
        using Suc.prems(3) Cons by (auto simp: Let_def)
      then show ?thesis
        using Suc.prems(1) later Cons by (simp add: dispatched_def Let_def)
    next
      case busy
      then have "p' = p" "w = 0"
        using Suc.prems(3) Cons by (simp_all add: Let_def)
      then show ?thesis
        using Suc.prems(1) busy Cons by (simp add: dispatched_def Let_def)
    qed
  qed
qed simp

lemma dispatchOnline_ok:
  assumes "subs_ok p" "dispatchOnline reserveN now lim p = (w, lim', p')"
  shows "subs_ok p'" "\<not> sp_closing p \<Longrightarrow> \<not> sp_stopped p \<Longrightarrow> dispatched reserveN now w p'"
  using assms dispatch_loop_ok [OF assms(1) lessI, of reserveN now lim w lim' p']
  by (auto simp: dispatchOnline_def simp del: dispatch_loop.simps split: if_splits)

section \<open>What outlives a step\<close>

definition ages :: "Subscription \<Rightarrow> Subscription \<Rightarrow> bool" where
  "ages s s' \<longleftrightarrow> sb_nextAttempt s' = sb_nextAttempt s \<and> sb_revision s \<le> sb_revision s' \<and>
     (sb_revision s' = sb_revision s \<longrightarrow> sb_userIds s' = sb_userIds s)"

definition later :: "Subs \<Rightarrow> Subs \<Rightarrow> bool" where
  "later p p' \<longleftrightarrow> (\<forall>a s. sp_subs p a = Some s \<longrightarrow> (\<exists>s'. sp_subs p' a = Some s' \<and> ages s s')) \<and>
     set (sp_jobs p') \<subseteq> set (sp_jobs p)"

lemma ages_refl [simp]: "ages s s"
  by (simp add: ages_def)

lemma ages_trans: "ages s t \<Longrightarrow> ages t u \<Longrightarrow> ages s u"
  by (auto simp: ages_def)

lemma later_refl [simp]: "later p p"
  by (simp add: later_def)

lemma later_trans [trans]: "later p q \<Longrightarrow> later q r \<Longrightarrow> later p r"
  unfolding later_def using ages_trans by (meson subset_trans)

lemma later_set:
  assumes "\<And>s. sp_subs p a = Some s \<Longrightarrow> ages s s'" "sp_subs p' = (sp_subs p)(a \<mapsto> s')" "set (sp_jobs p') \<subseteq> set (sp_jobs p)"
  shows "later p p'"
  using assms by (simp add: later_def)

lemma later_same: "sp_subs p' = sp_subs p \<Longrightarrow> set (sp_jobs p') \<subseteq> set (sp_jobs p) \<Longrightarrow> later p p'"
  by (simp add: later_def)

lemma later_requeue: "later p (requeue a t p)"
  by (auto simp: later_def requeue_def Let_def set_sub_def notify_head_def notify_def ages_def sub_at_def)

lemma later_mark: "later p (mark a now p)"
  using later_requeue by (auto simp: mark_def Let_def set_sub_def ages_def sub_at_def intro!: later_set)

lemma later_remove_sub: "later p (remove_sub a p)"
  by (auto simp: later_def remove_sub_def Let_def set_sub_def ages_def sub_at_def)

lemma later_attach: "later p (attach a now p)"
proof -
  let ?s = "sub_at p a"
  have "later p (p\<lparr>sp_active := (sp_active p)(sb_client ?s \<mapsto> a), sp_refs := sp_refs p + int (length (sb_userIds ?s)),
      sp_byUser := fold (add_user (sb_client ?s)) (sb_userIds ?s) (sp_byUser p)\<rparr>)"
    by (rule later_same) simp_all
  from later_trans [OF this later_mark [of _ a now]] show ?thesis
    by (simp add: attach_def Let_def)
qed

lemma later_mark_user: "later p (mark_user walk now u p)"
proof -
  have "later p (fold (\<lambda>c p. case sp_active p c of None \<Rightarrow> p | Some a \<Rightarrow> mark a now p) cs p)" for cs p
  proof (induction cs arbitrary: p)
    case (Cons c cs)
    have "later p (case sp_active p c of None \<Rightarrow> p | Some a \<Rightarrow> mark a now p)"
      using later_mark by (simp split: option.split)
    from later_trans [OF this Cons.IH] show ?case
      by simp
  qed simp
  then show ?thesis
    by (simp add: mark_user_def split: option.split)
qed

lemma later_changed: "later p (markOnlineChanged walk now us p)"
proof -
  have "later p (fold (mark_user walk now) us p)" for p
  proof (induction us arbitrary: p)
    case (Cons u us)
    from later_trans [OF later_mark_user [of p walk now u] Cons.IH] show ?case
      by simp
  qed simp
  then show ?thesis
    by (simp add: markOnlineChanged_def)
qed

lemma later_detach: "later p ((remove_sub a p)\<lparr>sp_onlineSub := m\<rparr>)"
  by (rule later_trans [OF later_remove_sub [of p a]]) (simp add: later_same)

lemma later_stop: "later p (stop_subs cs p)"
proof -
  let ?f = "\<lambda>c p. case sp_active p c of None \<Rightarrow> p | Some a \<Rightarrow> (remove_sub a p)\<lparr>sp_onlineSub := (sp_onlineSub p)(c := None)\<rparr>"
  have "later p (fold ?f cs p)" for p
  proof (induction cs arbitrary: p)
    case (Cons c cs)
    have "later p (?f c p)"
      using later_detach by (simp split: option.split)
    from later_trans [OF this Cons.IH] show ?case
      by simp
  qed simp
  from later_trans [OF later_same this, of "p\<lparr>sp_stopped := True\<rparr>" p] show ?thesis
    by (simp add: stop_subs_def)
qed

lemma later_set_subscriptions:
  assumes "subs_ok p" "setOnlineSubscriptions available c inp now p = (x, p')"
  shows "later p p'"
proof (cases "p' = p")
  case False
  obtain a p1 where run: "client_sub c p = (a, p1)"
    by fastforce
  let ?ids = "subscription_ids (sq_UserIds inp)" and ?r = "sq_Revision inp"
  have p': "p' = replace_sub a ?r ?ids now p1" "sb_revision (sub_at p1 a) < ?r"
    using assms(2) False run by (auto simp: setOnlineSubscriptions_def Let_def split: if_splits)
  have "later p p1"
    using run assms(1)
    by (auto simp: client_sub_def later_def set_sub_def subs_ok_def subs_inv_def alloc_ok_def split: option.splits)
  also have "later p1 p'"
  proof -
    let ?q = "remove_sub a p1"
    let ?s = "(sub_at ?q a)\<lparr>sb_revision := ?r, sb_userIds := ?ids, sb_lastSuccess := time_zero\<rparr>"
    have q: "sp_subs ?q = (sp_subs p1)(a \<mapsto> (sub_at p1 a)\<lparr>sb_remark := False\<rparr>)" "sp_jobs ?q = sp_jobs p1"
      by (simp_all add: remove_sub_def Let_def set_sub_def)
    have "later p1 ((set_sub a ?s ?q)\<lparr>sp_onlineSub := m\<rparr>)" for m
      by (rule later_set [of _ a ?s]) (use q p'(2) in \<open>auto simp: ages_def sub_at_def set_sub_def\<close>)
    from later_trans [OF this later_attach] show ?thesis
      by (simp add: p'(1) replace_sub_def Let_def)
  qed
  finally show ?thesis .
qed simp

lemma later_finish: "later p (snd (finishOnlineRead job r now p))"
proof -
  have free: "later p (freed job m p)" for m
    by (rule later_set [of _ "or_sub job"]) (auto simp: freed_def set_sub_def ages_def sub_at_def dest: in_set_remove1 set_remove1_subset [THEN subsetD])
  have woken: "later p (notify q)" if "later p q" for q
    using that by (simp add: notify_def later_def)
  have again: "later p (read_again job now p)"
    unfolding read_again_def using later_trans [OF free later_requeue] .
  have "later (read_again job now p) (set_sub a ((sub_at (read_again job now p) a)\<lparr>sb_lastSuccess := now\<rparr>) (read_again job now p))" for a
    by (rule later_set [of _ a]) (auto simp: set_sub_def ages_def sub_at_def)
  from later_trans [OF again this] show ?thesis
    using woken free again
    by (cases "served (or_sub job) p") (simp_all add: finishOnlineRead_served finishOnlineRead_dropped split: sum.split)
qed

section \<open>Runs\<close>

text \<open>Any order of calls from the empty state; the list is the log of the reads started, oldest first:
  the subscription and the time of the dispatch.\<close>

inductive subs_run :: "('l \<Rightarrow> time \<Rightarrow> bool \<times> duration \<times> 'l) \<Rightarrow> (nat \<times> time) list \<Rightarrow> Subs \<Rightarrow> bool" for reserveN where
  start: "subs_run reserveN [] newOnlineSubscriptions"
| subscribe: "subs_run reserveN h p \<Longrightarrow> setOnlineSubscriptions available c inp now p = (x, p') \<Longrightarrow> subs_run reserveN h p'"
| unsubscribe: "subs_run reserveN h p \<Longrightarrow> subs_run reserveN h (removeOnlineSubscriptions c p)"
| changed: "subs_run reserveN h p \<Longrightarrow> subs_run reserveN h (markOnlineChanged walk now us p)"
| dispatch: "subs_run reserveN h p \<Longrightarrow> dispatchOnline reserveN now lim p = (w, lim', p') \<Longrightarrow>
    subs_run reserveN (h @ map (\<lambda>j. (or_sub j, now)) (drop (length (sp_jobs p)) (sp_jobs p'))) p'"
| finish: "subs_run reserveN h p \<Longrightarrow> job \<in> set (sp_jobs p) \<Longrightarrow>
    finishOnlineRead job (r :: OnlineStatus_row list result) now p = (x, p') \<Longrightarrow> subs_run reserveN h p'"
| stop: "subs_run reserveN h p \<Longrightarrow> subs_run reserveN h (stop_subs cs p)"
| closing: "subs_run reserveN h p \<Longrightarrow> subs_run reserveN h (p\<lparr>sp_closing := True\<rparr>)"
| ended: "subs_run reserveN h p \<Longrightarrow> subs_run reserveN h (p\<lparr>sp_ended := insert c (sp_ended p)\<rparr>)"
| woken: "subs_run reserveN h p \<Longrightarrow> subs_run reserveN h (p\<lparr>sp_wake := False\<rparr>)"

text \<open>Every read was started, and waits for its interval; the job of a subscription's present revision
  reads its present users.\<close>

definition log_ok :: "(nat \<times> time) list \<Rightarrow> Subs \<Rightarrow> bool" where
  "log_ok h p \<longleftrightarrow> (\<forall>(a, t) \<in> set h. \<exists>s. sp_subs p a = Some s \<and> t + onlineRefreshMinInterval \<le> sb_nextAttempt s) \<and>
     sorted_wrt (\<lambda>(a, t) (b, u). a = b \<longrightarrow> t + onlineRefreshMinInterval \<le> u) h"

definition job_ok :: "Subs \<Rightarrow> OnlineRead \<Rightarrow> bool" where
  "job_ok p j \<longleftrightarrow> (\<exists>s. sp_subs p (or_sub j) = Some s \<and> or_revision j \<le> sb_revision s \<and>
     (or_revision j = sb_revision s \<longrightarrow> or_userIds j = sb_userIds s))"

lemma later_log:
  assumes "log_ok h p" "later p p'"
  shows "log_ok h p'"
proof -
  have "\<exists>s'. sp_subs p' a = Some s' \<and> t + onlineRefreshMinInterval \<le> sb_nextAttempt s'" if h: "(a, t) \<in> set h" for a t
  proof -
    obtain s where s: "sp_subs p a = Some s" "t + onlineRefreshMinInterval \<le> sb_nextAttempt s"
      using assms(1) h unfolding log_ok_def by blast
    obtain s' where "sp_subs p' a = Some s'" "ages s s'"
      using assms(2) s(1) unfolding later_def by blast
    then show ?thesis
      using s(2) by (simp add: ages_def)
  qed
  then show ?thesis
    using assms(1) by (auto simp: log_ok_def)
qed

lemma later_job:
  assumes "job_ok p j" "later p p'"
  shows "job_ok p' j"
proof -
  obtain s where s: "sp_subs p (or_sub j) = Some s" "or_revision j \<le> sb_revision s" "or_revision j = sb_revision s \<longrightarrow> or_userIds j = sb_userIds s"
    using assms(1) unfolding job_ok_def by blast
  obtain s' where "sp_subs p' (or_sub j) = Some s'" "ages s s'"
    using assms(2) s(1) unfolding later_def by blast
  then show ?thesis
    using s by (auto simp: job_ok_def ages_def)
qed

definition run_ok :: "(nat \<times> time) list \<Rightarrow> Subs \<Rightarrow> bool" where
  "run_ok h p \<longleftrightarrow> subs_ok p \<and> log_ok h p \<and> list_all (job_ok p) (sp_jobs p)"

lemma later_run:
  assumes "run_ok h p" "later p p'" "subs_ok p'"
  shows "run_ok h p'"
proof -
  have "job_ok p' j" if j: "j \<in> set (sp_jobs p')" for j
  proof (rule later_job [OF _ assms(2)])
    have "j \<in> set (sp_jobs p)"
      using assms(2) j unfolding later_def by blast
    then show "job_ok p j"
      using assms(1) by (simp add: run_ok_def list_all_iff)
  qed
  then show ?thesis
    using assms(1,3) later_log [OF _ assms(2)] by (simp add: run_ok_def list_all_iff)
qed

lemma start_read_run:
  assumes "run_ok h p" "sp_due p = a # rest" "sp_reads p \<noteq> onlineRefreshWorkers" "sb_readyAt (sub_at p a) \<le> now"
  shows "run_ok (h @ [(a, now)]) (start_read a now p)"
    "sp_jobs (start_read a now p) = sp_jobs p @ [\<lparr>or_sub = a, or_revision = sb_revision (sub_at p a), or_userIds = sb_userIds (sub_at p a)\<rparr>]"
proof -
  let ?p = "start_read a now p" and ?j = "\<lparr>or_sub = a, or_revision = sb_revision (sub_at p a), or_userIds = sb_userIds (sub_at p a)\<rparr>"
  have ok: "subs_ok p" "log_ok h p" "list_all (job_ok p) (sp_jobs p)"
    using assms(1) by (simp_all add: run_ok_def)
  obtain s where s: "sp_subs p a = Some s" "sb_nextAttempt s \<le> sb_readyAt s"
    using ok(1) assms(2) by (auto simp: subs_ok_def subs_inv_def queue_ok_def)
  have at: "sub_at p a = s"
    using s(1) by (simp add: sub_at_def)
  let ?s = "s\<lparr>sb_cancel := True, sb_remark := False, sb_nextAttempt := now + onlineRefreshMinInterval\<rparr>"
  have subs: "sp_subs ?p = (sp_subs p)(a \<mapsto> ?s)"
    by (simp add: start_read_def Let_def set_sub_def at)
  show jobs: "sp_jobs ?p = sp_jobs p @ [?j]"
    by (simp add: start_read_def Let_def set_sub_def)
  have logged: "\<exists>s. sp_subs p b = Some s \<and> t + onlineRefreshMinInterval \<le> sb_nextAttempt s" if "(b, t) \<in> set h" for b t
    using ok(2) that unfolding log_ok_def by blast
  have past: "t + onlineRefreshMinInterval \<le> now" if h: "(a, t) \<in> set h" for t
  proof -
    have "t + onlineRefreshMinInterval \<le> sb_nextAttempt s"
      using logged [OF h] s(1) by simp
    then show ?thesis
      using s(2) assms(4) at by simp
  qed
  have "\<exists>s'. sp_subs ?p b = Some s' \<and> t + onlineRefreshMinInterval \<le> sb_nextAttempt s'" if h: "(b, t) \<in> set h" for b t
  proof (cases "b = a")
    case True
    then show ?thesis
      using past [of t] h subs by (simp add: onlineRefreshMinInterval_def second_def)
  next
    case False
    then show ?thesis
      using logged [OF h] subs by simp
  qed
  moreover have "sorted_wrt (\<lambda>(a, t) (b, u). a = b \<longrightarrow> t + onlineRefreshMinInterval \<le> u) (h @ [(a, now)])"
    using ok(2) past by (auto simp: log_ok_def sorted_wrt_append)
  ultimately have "log_ok (h @ [(a, now)]) ?p"
    using subs unfolding log_ok_def by auto
  moreover have "job_ok ?p j" if "job_ok p j" for j
    using that s(1) subs by (auto simp: job_ok_def)
  moreover have "job_ok ?p ?j"
    using subs by (simp add: job_ok_def at)
  ultimately show "run_ok (h @ [(a, now)]) ?p"
    using start_read_ok(1) [OF ok(1) assms(2,3)] ok(3) jobs by (auto simp: run_ok_def list_all_iff)
qed

lemma dispatch_loop_run:
  assumes "run_ok h p" "dispatch_loop reserveN fuel now lim p = (w, lim', p')"
  shows "\<exists>js. sp_jobs p' = sp_jobs p @ js \<and> run_ok (h @ map (\<lambda>j. (or_sub j, now)) js) p'"
  using assms
proof (induction fuel arbitrary: h p lim)
  case (Suc fuel)
  show ?case
  proof (cases "p' = p")
    case False
    then obtain a rest ok d lim1 where a: "sp_due p = a # rest" "sb_readyAt (sub_at p a) \<le> now" "sp_reads p \<noteq> onlineRefreshWorkers"
        "dispatch_loop reserveN fuel now lim1 (start_read a now p) = (w, lim', p')"
      using Suc.prems(2) by (auto simp: Let_def split: list.splits if_splits prod.splits)
    note s = start_read_run [OF Suc.prems(1) a(1,3,2)]
    obtain js where "sp_jobs p' = sp_jobs (start_read a now p) @ js" "run_ok ((h @ [(a, now)]) @ map (\<lambda>j. (or_sub j, now)) js) p'"
      using Suc.IH [OF s(1) a(4)] by blast
    then show ?thesis
      using s(2) by (intro exI [of _ "_ # js"]) auto
  qed (use Suc.prems(1) in auto)
qed auto

lemma dispatchOnline_run:
  assumes "run_ok h p" "dispatchOnline reserveN now lim p = (w, lim', p')"
  shows "run_ok (h @ map (\<lambda>j. (or_sub j, now)) (drop (length (sp_jobs p)) (sp_jobs p'))) p'"
proof (cases "p' = p")
  case False
  then have "dispatch_loop reserveN (Suc (length (sp_due p))) now lim p = (w, lim', p')"
    using assms(2) by (auto simp: dispatchOnline_def simp del: dispatch_loop.simps split: if_splits)
  then show ?thesis
    using dispatch_loop_run [OF assms(1)] by fastforce
qed (use assms(1) in simp)

lemma new_run_ok: "run_ok [] newOnlineSubscriptions"
  by (simp add: run_ok_def subs_ok_def subs_inv_def queue_ok_def owner_ok_def jobs_ok_def index_ok_def alloc_ok_def waiting_ok_def
      log_ok_def newOnlineSubscriptions_def ordered_def watched_def onlineRefreshWorkers_def maxOnlineSubscriptionRefs_def)

lemma subs_run_ok: "subs_run reserveN h p \<Longrightarrow> run_ok h p"
proof (induction rule: subs_run.induct)
  case (subscribe h p available c inp now x p')
  have "subs_ok p"
    using subscribe.IH by (simp add: run_ok_def)
  then show ?case
    using later_run [OF subscribe.IH] later_set_subscriptions setOnlineSubscriptions_ok subscribe.hyps(2) by blast
next
  case (unsubscribe h p c)
  have "later p (removeOnlineSubscriptions c p)"
    using later_detach by (simp add: removeOnlineSubscriptions_def split: option.split)
  then show ?case
    using later_run [OF unsubscribe.IH] removeOnlineSubscriptions_ok unsubscribe.IH by (simp add: run_ok_def)
next
  case (changed h p walk now us)
  then show ?case
    using later_run [OF changed.IH later_changed] markOnlineChanged_ok by (simp add: run_ok_def)
next
  case (dispatch h p now lim w lim' p')
  show ?case
    by (rule dispatchOnline_run [OF dispatch.IH dispatch.hyps(2)])
next
  case (finish h p job r now x p')
  then show ?case
    using later_run [OF finish.IH, of p'] later_finish [of p job r now] finishOnlineRead_ok [of p job r now] by (simp add: run_ok_def)
next
  case (stop h p cs)
  then show ?case
    using later_run [OF stop.IH later_stop] stop_subs_ok(1) by (simp add: run_ok_def)
next
  case (closing h p)
  have "subs_ok (p\<lparr>sp_closing := True\<rparr>)"
    by (rule flags_ok [of p]) (use closing.IH in \<open>simp_all add: run_ok_def\<close>)
  then show ?case
    using later_run [OF closing.IH later_same] by simp
next
  case (ended h p c)
  have "subs_ok (p\<lparr>sp_ended := insert c (sp_ended p)\<rparr>)"
    by (rule flags_ok [of p]) (use ended.IH in \<open>auto simp: run_ok_def\<close>)
  then show ?case
    using later_run [OF ended.IH later_same] by simp
next
  case (woken h p)
  have "subs_ok (p\<lparr>sp_wake := False\<rparr>)"
    by (rule flags_ok [of p]) (use woken.IH in \<open>simp_all add: run_ok_def\<close>)
  then show ?case
    using later_run [OF woken.IH later_same] by simp
qed (rule new_run_ok)

lemma tracked:
  assumes "subs_run reserveN h p"
  shows "sp_active p c = Some a \<Longrightarrow> \<not> sp_stopped p \<Longrightarrow> \<not> sp_closing p \<Longrightarrow> c \<notin> sp_ended p \<Longrightarrow>
      a \<in> set (sp_due p) \<or> a \<in> or_sub ` set (sp_jobs p)"
    and "distinct (map or_sub (sp_jobs p)) \<and> length (sp_jobs p) \<le> 4"
    and "sp_refs p = (\<Sum>c \<in> dom (sp_active p). int (length (watched p c))) \<and> sp_refs p \<le> 100000"
    and "watchers (sp_byUser p) u = {c. u \<in> set (watched p c)}"
proof -
  have inv: "owner_ok {} p" "jobs_ok p" "index_ok p" "waiting_ok p" "sp_refs p \<le> maxOnlineSubscriptionRefs"
    using subs_run_ok [OF assms] by (simp_all add: run_ok_def subs_ok_def subs_inv_def)
  show "distinct (map or_sub (sp_jobs p)) \<and> length (sp_jobs p) \<le> 4"
    using inv(2) by (simp add: jobs_ok_def onlineRefreshWorkers_def)
  show "sp_refs p = (\<Sum>c \<in> dom (sp_active p). int (length (watched p c))) \<and> sp_refs p \<le> 100000"
    using inv(3,5) by (simp add: index_ok_def maxOnlineSubscriptionRefs_def)
  show "watchers (sp_byUser p) u = {c. u \<in> set (watched p c)}"
    using inv(3) by (auto simp: index_ok_def watchers_def Let_def split: if_splits)
  show "a \<in> set (sp_due p) \<or> a \<in> or_sub ` set (sp_jobs p)"
    if a: "sp_active p c = Some a" "\<not> sp_stopped p" "\<not> sp_closing p" "c \<notin> sp_ended p"
  proof -
    obtain s where "sp_subs p a = Some s"
      using active_owner [OF inv(1) a(1)] .
    then show ?thesis
      using inv(2,4) a unfolding waiting_ok_def jobs_ok_def by (metis option.sel sub_at_def)
  qed
qed

section \<open>Properties\<close>

text \<open>A run: a client watches two users, the dispatcher starts the read, it finishes, and half a minute
  later the next one starts.\<close>

definition demo_reserveN :: "unit \<Rightarrow> time \<Rightarrow> bool \<times> duration \<times> unit" where
  "demo_reserveN l now = (True, 0, l)"

definition demo_subs1 :: Subs where
  "demo_subs1 = snd (setOnlineSubscriptions True (demo_client ''c1'') \<lparr>sq_Revision = 1, sq_UserIds = [''u___3'', ''u___2'']\<rparr>
     (10 * second) newOnlineSubscriptions)"

definition demo_subs2 :: Subs where
  "demo_subs2 = snd (snd (dispatchOnline demo_reserveN (10 * second) () demo_subs1))"

definition demo_job :: OnlineRead where
  "demo_job = \<lparr>or_sub = 0, or_revision = 1, or_userIds = [''u___2'', ''u___3'']\<rparr>"

definition demo_rows :: "OnlineStatus_row list result" where
  "demo_rows = Inr (map (online_status Map.empty) [''u___2'', ''u___3''])"

definition demo_subs3 :: Subs where
  "demo_subs3 = snd (finishOnlineRead demo_job demo_rows (11 * second) demo_subs2)"

definition demo_subs4 :: Subs where
  "demo_subs4 = snd (snd (dispatchOnline demo_reserveN (41 * second) () demo_subs3))"

lemma demo_jobs: "sp_jobs demo_subs1 = []" "sp_jobs demo_subs2 = [demo_job]" "sp_jobs demo_subs3 = []" "sp_jobs demo_subs4 = [demo_job]"
  by code_simp+

lemma demo_run1: "subs_run demo_reserveN [] demo_subs1"
  using subs_run.subscribe [OF subs_run.start prod.collapse [symmetric]] unfolding demo_subs1_def .

lemma demo_run2: "subs_run demo_reserveN [(0, 10 * second)] demo_subs2"
proof -
  have "dispatchOnline demo_reserveN (10 * second) () demo_subs1 =
      (fst (dispatchOnline demo_reserveN (10 * second) () demo_subs1), (), demo_subs2)"
    by (simp add: demo_subs2_def prod_eq_iff)
  from subs_run.dispatch [OF demo_run1 this] show ?thesis
    by (simp add: demo_jobs demo_job_def)
qed

lemma demo_run3: "subs_run demo_reserveN [(0, 10 * second)] demo_subs3"
proof -
  have "demo_job \<in> set (sp_jobs demo_subs2)"
    by (simp add: demo_jobs)
  from subs_run.finish [OF demo_run2 this prod.collapse [symmetric]] show ?thesis
    unfolding demo_subs3_def .
qed

lemma demo_run4: "subs_run demo_reserveN [(0, 10 * second), (0, 41 * second)] demo_subs4"
proof -
  have "dispatchOnline demo_reserveN (41 * second) () demo_subs3 =
      (fst (dispatchOnline demo_reserveN (41 * second) () demo_subs3), (), demo_subs4)"
    by (simp add: demo_subs4_def prod_eq_iff)
  from subs_run.dispatch [OF demo_run3 this] show ?thesis
    by (simp add: demo_jobs demo_job_def)
qed

text \<open>C28: in every run, while the node serves, a subscription of a live connection is queued or being
  read, so no refresh is ever lost; no subscription is read twice at once and no more reads run than
  the pool has workers; the reference count is the number of watched users and within its limit; and
  the index by user has exactly the connections that watch the user.\<close>

theorem subscriptions_tracked:
  assumes "subs_run reserveN h p"
  shows "(\<forall>c a. sp_active p c = Some a \<longrightarrow> \<not> sp_stopped p \<longrightarrow> \<not> sp_closing p \<longrightarrow> c \<notin> sp_ended p \<longrightarrow>
      a \<in> set (sp_due p) \<or> a \<in> or_sub ` set (sp_jobs p)) \<and>
    distinct (map or_sub (sp_jobs p)) \<and> length (sp_jobs p) \<le> 4 \<and>
    sp_refs p = (\<Sum>c \<in> dom (sp_active p). int (length (watched p c))) \<and> sp_refs p \<le> 100000 \<and>
    (\<forall>u. watchers (sp_byUser p) u = {c. u \<in> set (watched p c)})"
  using tracked [OF assms] by blast

theorem subscriptions_tracked_witness: "0 \<in> set (sp_due demo_subs3) \<or> (0 :: nat) \<in> or_sub ` set (sp_jobs demo_subs3)"
proof -
  have "sp_active demo_subs3 (demo_client ''c1'') = Some 0" "\<not> sp_stopped demo_subs3" "\<not> sp_closing demo_subs3"
    "demo_client ''c1'' \<notin> sp_ended demo_subs3"
    by code_simp+
  then show ?thesis
    using subscriptions_tracked [OF demo_run3] by blast
qed

text \<open>C29: in every run, two reads of the same subscription start at least the minimum interval apart,
  whatever was marked or subscribed in between.\<close>

theorem refresh_interval:
  assumes "subs_run reserveN h p" "i < j" "j < length h" "fst (h ! i) = fst (h ! j)"
  shows "snd (h ! i) + second \<le> snd (h ! j)"
proof -
  have "sorted_wrt (\<lambda>(a, t) (b, u). a = b \<longrightarrow> t + onlineRefreshMinInterval \<le> u) h"
    using subs_run_ok [OF assms(1)] by (simp add: run_ok_def log_ok_def)
  then show ?thesis
    using sorted_wrt_nth_less [OF _ assms(2,3)] assms(4) by (fastforce simp: onlineRefreshMinInterval_def case_prod_beta)
qed

theorem refresh_interval_witness: "snd ([(0 :: nat, 10 * second), (0, 41 * second)] ! 0) + second \<le> snd ([(0 :: nat, 10 * second), (0, 41 * second)] ! 1)"
  by (rule refresh_interval [OF demo_run4]) simp_all

text \<open>C30: a dispatch in a run never stops early: when it returns, nothing waits, or the subscription
  due first is not due yet and the wait is the time until then, or every worker is busy, or the
  limiter gave no token; and no other subscription is due before the first.\<close>

theorem dispatch_complete:
  assumes "subs_run reserveN h p" "\<not> sp_closing p" "\<not> sp_stopped p" "dispatchOnline reserveN now lim p = (w, lim', p')"
  shows "dispatched reserveN now w p' \<and> (\<forall>a \<in> set (sp_due p'). sb_readyAt (sub_at p' (hd (sp_due p'))) \<le> sb_readyAt (sub_at p' a))"
proof -
  have ok: "subs_ok p"
    using subs_run_ok [OF assms(1)] by (simp add: run_ok_def)
  note d = dispatchOnline_ok [OF ok assms(4)]
  have "is_heap (due_key p') (sp_due p')"
    using d(1) by (simp add: subs_ok_def subs_inv_def queue_ok_def)
  from heap_least [OF this] have "due_key p' (sp_due p' ! 0) \<le> due_key p' a" if "a \<in> set (sp_due p')" for a
    using that by (metis in_set_conv_nth)
  then have "sb_readyAt (sub_at p' (hd (sp_due p'))) \<le> sb_readyAt (sub_at p' a)" if "a \<in> set (sp_due p')" for a
    using that by (cases "sp_due p'") (fastforce simp: due_key_def less_eq_prod_def)+
  then show ?thesis
    using d(2) assms(2,3) by blast
qed

theorem dispatch_complete_witness: "dispatched demo_reserveN (41 * second) 0 demo_subs4"
proof -
  have "dispatchOnline demo_reserveN (41 * second) () demo_subs3 =
      (fst (dispatchOnline demo_reserveN (41 * second) () demo_subs3), (), demo_subs4)"
    by (simp add: demo_subs4_def prod_eq_iff)
  moreover have "fst (dispatchOnline demo_reserveN (41 * second) () demo_subs3) = 0" "\<not> sp_closing demo_subs3" "\<not> sp_stopped demo_subs3"
    by code_simp+
  ultimately show ?thesis
    using dispatch_complete [OF demo_run3, of "41 * second" "()" 0 "()" demo_subs4] by simp
qed

text \<open>C31: the snapshot a finished read sends is of the connection's current subscription: the node and
  the connection are live, the revision is the present one, and the users read are the users it
  watches now. A read of a replaced or removed subscription sends nothing, and a failed read sends
  only the stale mark, after a success that is old.\<close>

theorem snapshot_current:
  assumes "subs_run reserveN h p" "job \<in> set (sp_jobs p)"
    "finishOnlineRead job (r :: OnlineStatus_row list result) now p = (Some sn, p')"
  shows "\<not> sp_stopped p \<and> \<not> sp_closing p \<and> sb_client (sub_at p (or_sub job)) \<notin> sp_ended p \<and>
    sp_active p (sb_client (sub_at p (or_sub job))) = Some (or_sub job) \<and>
    sn_Revision sn = sb_revision (sub_at p (or_sub job)) \<and> or_userIds job = sb_userIds (sub_at p (or_sub job)) \<and>
    (case r of Inr items \<Rightarrow> sn_Items sn = items \<and> \<not> sn_Stale sn
     | Inl _ \<Rightarrow> sn_Items sn = [] \<and> sn_Stale sn \<and> now - sb_lastSuccess (sub_at p (or_sub job)) \<ge> 90 * second)"
proof -
  let ?a = "or_sub job" and ?q = "read_again job now p"
  have ok: "subs_ok p" "job_ok p job"
    using subs_run_ok [OF assms(1)] assms(2) by (simp_all add: run_ok_def list_all_iff)
  have served: "served ?a p"
    using assms(3) finishOnlineRead_dropped [of job p r now] by fastforce
  obtain s where s: "sp_subs ?q ?a = Some s" "sb_revision s = sb_revision (sub_at p ?a)"
      "sb_lastSuccess s = sb_lastSuccess (sub_at p ?a)"
    using read_again_ok(2) [OF ok(1) assms(2) served, of now] by blast
  have at: "sub_at ?q ?a = s"
    using s(1) by (simp add: sub_at_def)
  have rev: "or_revision job = sb_revision (sub_at p ?a)" and sn: "sn_Revision sn = or_revision job"
      "case r of Inr items \<Rightarrow> sn_Items sn = items \<and> \<not> sn_Stale sn
       | Inl _ \<Rightarrow> sn_Items sn = [] \<and> sn_Stale sn \<and> now - sb_lastSuccess (sub_at p ?a) \<ge> 90 * second"
    using assms(3) unfolding finishOnlineRead_served [OF served] at s(2,3)
    by (auto simp: onlineStaleAfter_def onlineSnapshotInterval_def split: if_splits sum.splits)
  have "sp_active p (sb_client (sub_at p ?a)) = Some ?a"
    using ok(1) served job_sub(1) [OF ok(1) assms(2)] unfolding served_def subs_ok_def subs_inv_def owner_ok_def by force
  moreover have "or_userIds job = sb_userIds (sub_at p ?a)"
    using ok(2) rev unfolding job_ok_def by (auto simp: sub_at_def)
  ultimately show ?thesis
    using served sn rev by (simp add: served_def)
qed

theorem snapshot_current_witness:
  "sn_Revision (the (fst (finishOnlineRead demo_job demo_rows (11 * second) demo_subs2))) = sb_revision (sub_at demo_subs2 0)"
proof -
  have "demo_job \<in> set (sp_jobs demo_subs2)"
    by (simp add: demo_jobs)
  moreover have "fst (finishOnlineRead demo_job demo_rows (11 * second) demo_subs2) \<noteq> None"
    by code_simp
  then have "finishOnlineRead demo_job demo_rows (11 * second) demo_subs2 =
      (Some (the (fst (finishOnlineRead demo_job demo_rows (11 * second) demo_subs2))), demo_subs3)"
    by (simp add: demo_subs3_def prod_eq_iff)
  ultimately show ?thesis
    using snapshot_current [OF demo_run2] by (simp add: demo_job_def)
qed

end
