(* ===== verification/Gateway.thy ===== *)
theory Gateway
  imports SendQueue PresenceSteps MessageService
begin

text \<open>
  \<^verbatim>\<open>internal/gateway/{client,push,kick,frame,handle}.go\<close>: what a node does with its connections. \<^verbatim>\<open>Node\<close>
  gathers the fields the functions share: the connection map, each connection's send queue, the
  byte budget, the presence subscriptions, and of each \<^verbatim>\<open>Client\<close> whether it is closed (\<^verbatim>\<open>connCtx\<close>),
  draining, told to flush and close (\<^verbatim>\<open>drain\<close>), its over-limit run and its requests in flight.
  That a connection's \<^verbatim>\<open>activeCtx\<close> is done, and that the node is closing, are fields of \<^verbatim>\<open>Subs\<close>.
  The JSON encoders and decoders, the random op ids, the clock and the frame limiter are parameters;
  the socket is I/O. Each function is its effect when it runs alone.
\<close>

section \<open>frame.go\<close>

definition ReqGetMaxSeqs :: int where "ReqGetMaxSeqs = 1001"
definition ReqPullMsgBySeqRange :: int where "ReqPullMsgBySeqRange = 1002"
definition ReqSendMsg :: int where "ReqSendMsg = 1003"
definition ReqMarkRead :: int where "ReqMarkRead = 1004"
definition ReqGetConversation :: int where "ReqGetConversation = 1005"
definition ReqSetOnlineSubscriptions :: int where "ReqSetOnlineSubscriptions = 1006"
definition PushMsg :: int where "PushMsg = 2001"
definition KickOnline :: int where "KickOnline = 2002"
definition ConvRead :: int where "ConvRead = 2003"
definition Resync :: int where "Resync = 2004"
definition OnlineChanged :: int where "OnlineChanged = 2005"

record Request =
  rq_ReqId :: int
  rq_OpId :: string
  rq_MsgIncr :: string
  rq_Data :: string

definition empty_request :: Request where
  "empty_request = \<lparr>rq_ReqId = 0, rq_OpId = [], rq_MsgIncr = [], rq_Data = []\<rparr>"

text \<open>\<^verbatim>\<open>None\<close> is the empty object of a failure.\<close>

record 'd Response =
  rs_ReqId :: int
  rs_OpId :: string
  rs_MsgIncr :: string
  rs_Code :: int
  rs_Message :: string
  rs_Data :: "'d option"

datatype PushData = MsgData DtoMessage | ReasonData string | ReadData string int64

record Push =
  pu_ReqId :: int
  pu_OpId :: string
  pu_Data :: PushData

definition decodeRequest :: "(string \<Rightarrow> Request \<times> go_error option) \<Rightarrow> string \<Rightarrow> Request \<times> go_error option" where
  "decodeRequest unmarshal raw =
     (case unmarshal raw of
        (req, Some e) \<Rightarrow> (req, Some (Of_errcode (Wrap ErrInvalidProtocol (Some e))))
      | (req, None) \<Rightarrow>
          if rq_ReqId req = 0 then (req, Some (Of_errcode (WithMessage ErrInvalidProtocol ''req_id is required''))) else (req, None))"

definition reply :: "Request \<Rightarrow> 'd \<Rightarrow> 'd Response" where
  "reply r data = \<lparr>rs_ReqId = rq_ReqId r, rs_OpId = rq_OpId r, rs_MsgIncr = rq_MsgIncr r, rs_Code = 0, rs_Message = [],
     rs_Data = Some data\<rparr>"

definition fail_response :: "Request \<Rightarrow> go_error \<Rightarrow> 'd Response" where
  "fail_response r err =
     (let e = the (From (Some err)) in
      \<lparr>rs_ReqId = rq_ReqId r, rs_OpId = rq_OpId r, rs_MsgIncr = rq_MsgIncr r, rs_Code = Code e, rs_Message = ErrMessage e, rs_Data = None\<rparr>)"

text \<open>The encoders, and the decoder of a request.\<close>

record Wire =
  wi_push :: "Push \<Rightarrow> string"
  wi_fail :: "unit Response \<Rightarrow> string"
  wi_request :: "string \<Rightarrow> Request \<times> go_error option"

definition pushFrame :: "Wire \<Rightarrow> string \<Rightarrow> int \<Rightarrow> PushData \<Rightarrow> string" where
  "pushFrame wi opId reqId data = wi_push wi \<lparr>pu_ReqId = reqId, pu_OpId = opId, pu_Data = data\<rparr>"

section \<open>The node\<close>

record Node =
  nd_limits :: LimitsConfig
  nd_users :: UserMap
  nd_queue :: "Client \<Rightarrow> SendState"
  nd_budget :: Budget
  nd_subs :: Subs
  nd_closed :: "Client set"
  nd_draining :: "Client set"
  nd_flush :: "Client set"
  nd_overRun :: "Client \<Rightarrow> int"
  nd_inflight :: "Client \<Rightarrow> int"
  nd_fails :: "Client \<Rightarrow> int"

definition nd_closing :: "Node \<Rightarrow> bool" where
  "nd_closing n = sp_closing (nd_subs n)"

definition end_active :: "Client \<Rightarrow> Subs \<Rightarrow> Subs" where
  "end_active c p = p\<lparr>sp_ended := insert c (sp_ended p)\<rparr>"

section \<open>client.go\<close>

definition overLimitCloseAt :: int where "overLimitCloseAt = 3"

text \<open>The cleanup runs once per connection.\<close>

definition Close_client :: "Client \<Rightarrow> Node \<Rightarrow> Node" where
  "Close_client c n =
     (if c \<in> nd_closed n then n
      else let (leaked, q) = close_section (nd_queue n c) in
        n\<lparr>nd_closed := insert c (nd_closed n), nd_queue := (nd_queue n)(c := q), nd_budget := budget_release leaked (nd_budget n),
          nd_users := Unregister c (nd_users n), nd_subs := removeOnlineSubscriptions c (end_active c (nd_subs n))\<rparr>)"

definition enqueue :: "Client \<Rightarrow> string \<Rightarrow> Node \<Rightarrow> Error option \<times> Node" where
  "enqueue c frame n =
     (case queueFrame frame (nd_queue n c) (nd_budget n) of
        ((full, err), q, b) \<Rightarrow>
          let n1 = n\<lparr>nd_queue := (nd_queue n)(c := q), nd_budget := b\<rparr>
          in (err, if full then Close_client c n1 else n1))"

definition Send_frame :: "Client \<Rightarrow> string \<Rightarrow> Node \<Rightarrow> Error option \<times> Node" where
  "Send_frame c frame n = enqueue c frame (n\<lparr>nd_budget := budget_take (bytes frame) (nd_budget n)\<rparr>)"

definition resync :: "Wire \<Rightarrow> string \<Rightarrow> Client \<Rightarrow> string \<Rightarrow> Node \<Rightarrow> Error option \<times> Node" where
  "resync wi opId c reason n = Send_frame c (pushFrame wi opId Resync (ReasonData reason)) n"

definition Push_frame :: "Wire \<Rightarrow> string \<Rightarrow> Client \<Rightarrow> string \<Rightarrow> Node \<Rightarrow> Error option \<times> Node" where
  "Push_frame wi opId c frame n =
     (case tryTake (bytes frame) (nd_budget n) of
        (False, b) \<Rightarrow> resync wi opId c ''send_bytes_over_cap'' (n\<lparr>nd_budget := b\<rparr>)
      | (True, b) \<Rightarrow> enqueue c frame (n\<lparr>nd_budget := b\<rparr>))"

section \<open>kick.go\<close>

definition beginDrain :: "Client \<Rightarrow> Node \<Rightarrow> bool \<times> Node" where
  "beginDrain c n =
     (if c \<in> nd_closed n \<or> c \<in> nd_draining n then (False, n)
      else (True, n\<lparr>nd_draining := insert c (nd_draining n), nd_subs := end_active c (nd_subs n)\<rparr>))"

definition finishDrain :: "Client \<Rightarrow> string option \<Rightarrow> Node \<Rightarrow> Node" where
  "finishDrain c final n =
     (let n1 = n\<lparr>nd_subs := removeOnlineSubscriptions c (nd_subs n)\<rparr>;
          n2 = (case final of None \<Rightarrow> n1 | Some frame \<Rightarrow> snd (Send_frame c frame n1))
      in n2\<lparr>nd_flush := insert c (nd_flush n2)\<rparr>)"

definition closeAfterFlush :: "Client \<Rightarrow> string option \<Rightarrow> Node \<Rightarrow> Node" where
  "closeAfterFlush c final n = (case beginDrain c n of (started, n1) \<Rightarrow> if started then finishDrain c final n1 else n1)"

definition kick_client :: "Wire \<Rightarrow> string \<Rightarrow> string \<Rightarrow> Client \<Rightarrow> Node \<Rightarrow> Node" where
  "kick_client wi opId reason c n = closeAfterFlush c (Some (pushFrame wi opId KickOnline (ReasonData reason))) n"

text \<open>The loop under \<^verbatim>\<open>kickMu\<close>: the connections it takes, and the node.\<close>

fun kick_targets :: "int \<Rightarrow> string \<Rightarrow> Client list \<Rightarrow> Node \<Rightarrow> Client list \<times> Node" where
  "kick_targets platformId keepTokenId [] n = ([], n)"
| "kick_targets platformId keepTokenId (c # cs) n =
     (if id_PlatformId (cl_Identity c) = platformId \<and> id_TokenId (cl_Identity c) \<noteq> keepTokenId
      then (case beginDrain c n of (started, n1) \<Rightarrow>
        case kick_targets platformId keepTokenId cs n1 of (ts, n2) \<Rightarrow> (if started then c # ts else ts, n2))
      else kick_targets platformId keepTokenId cs n)"

text \<open>\<^verbatim>\<open>ended\<close>: the caller's context is done.\<close>

definition kick :: "Wire \<Rightarrow> (Client \<Rightarrow> string) \<Rightarrow> bool \<Rightarrow> string \<Rightarrow> int \<Rightarrow> string \<Rightarrow> Node \<Rightarrow> Node" where
  "kick wi opId ended userId platformId keepTokenId n =
     (if ended \<or> nd_closing n then n
      else case kick_targets platformId keepTokenId (Get_conns userId (nd_users n)) n of
        (ts, n1) \<Rightarrow> fold (\<lambda>c. finishDrain c (Some (pushFrame wi (opId c) KickOnline (ReasonData ''new_login'')))) ts n1)"

definition recheckFailLimit :: int where "recheckFailLimit = 3"

text \<open>\<^verbatim>\<open>check\<close> is what the token store answers, \<^verbatim>\<open>None\<close> when the node has no native provider;
  \<^verbatim>\<open>closing\<close> that the connection's context ended during the call.\<close>

definition tokenDead :: "int64 \<Rightarrow> AuthIdentity \<Rightarrow> unit result option \<Rightarrow> bool \<Rightarrow> int \<Rightarrow> bool \<times> int" where
  "tokenDead now_ms i check closing fails =
     (if id_ExpiresAt i > 0 \<and> now_ms > id_ExpiresAt i then (True, fails)
      else if id_Source i \<noteq> SourceNative \<or> check = None then (False, fails)
      else if closing then (False, fails)
      else case the check of
        Inr _ \<Rightarrow> (False, 0)
      | Inl e \<Rightarrow>
          if errors_Is e (Sentinel auth_ErrUnavailable) then (fails + 1 \<ge> recheckFailLimit, fails + 1) else (True, 0))"

text \<open>\<^verbatim>\<open>recheckLoop\<close> over its ticks: the number of the tick that kicks.\<close>

fun recheck_ticks :: "AuthIdentity \<Rightarrow> (int64 \<times> unit result option \<times> bool) list \<Rightarrow> int \<Rightarrow> nat option" where
  "recheck_ticks i [] fails = None"
| "recheck_ticks i ((now_ms, check, closing) # ticks) fails =
     (case tokenDead now_ms i check closing fails of
        (True, _) \<Rightarrow> Some 0
      | (False, fails') \<Rightarrow> map_option Suc (recheck_ticks i ticks fails'))"

section \<open>Inbound frames\<close>

definition overLimit :: "Wire \<Rightarrow> Client \<Rightarrow> Request \<Rightarrow> Node \<Rightarrow> bool \<times> Node" where
  "overLimit wi c req n =
     (let n1 = n\<lparr>nd_overRun := (nd_overRun n)(c := nd_overRun n c + 1), nd_budget := (nd_budget n)\<lparr>b_rateLimited := b_rateLimited (nd_budget n) + 1\<rparr>\<rparr>;
          n2 = snd (Send_frame c (wi_fail wi (fail_response req (Of_errcode ErrTooManyRequests))) n1)
      in if nd_overRun n2 c \<ge> overLimitCloseAt then (False, Close_client c n2) else (True, n2))"

text \<open>\<^verbatim>\<open>allow\<close> is the limiter's answer, \<^verbatim>\<open>begun\<close> whether the node still takes work. The result says
  whether the connection reads on, and gives the request a handler was started for.\<close>

definition admit :: "Wire \<Rightarrow> string \<Rightarrow> bool \<Rightarrow> int64 \<Rightarrow> bool \<Rightarrow> Client \<Rightarrow> string \<Rightarrow> Node \<Rightarrow> (bool \<times> Request option) \<times> Node" where
  "admit wi opId allow now_ms begun c raw n =
     (if c \<in> nd_draining n \<or> c \<in> nd_closed n then ((False, None), n)
      else if \<not> allow then map_prod (\<lambda>on. (on, None)) id (overLimit wi c empty_request n)
      else case decodeRequest (wi_request wi) raw of
        (req, Some e) \<Rightarrow>
          ((True, None), snd (Send_frame c (wi_fail wi (fail_response req e)) (n\<lparr>nd_overRun := (nd_overRun n)(c := 0)\<rparr>)))
      | (req, None) \<Rightarrow>
          if id_ExpiresAt (cl_Identity c) > 0 \<and> now_ms > id_ExpiresAt (cl_Identity c)
          then ((True, None), kick_client wi opId ''token_expired'' c
                  (snd (Send_frame c (wi_fail wi (fail_response req (Of_errcode ErrTokenExpired))) n)))
          else if nd_inflight n c \<ge> max (WsInflightPerConn (nd_limits n)) 1
          then map_prod (\<lambda>on. (on, None)) id (overLimit wi c req n)
          else let n1 = n\<lparr>nd_overRun := (nd_overRun n)(c := 0)\<rparr> in
            if \<not> begun then ((False, None), n1)
            else ((True, Some req), n1\<lparr>nd_inflight := (nd_inflight n1)(c := nd_inflight n1 c + 1)\<rparr>))"

text \<open>The handler's end: the answer is sent, the place is given back.\<close>

definition handled :: "Client \<Rightarrow> string \<Rightarrow> Node \<Rightarrow> Node" where
  "handled c answer n =
     (let n1 = snd (Send_frame c answer n) in n1\<lparr>nd_inflight := (nd_inflight n1)(c := nd_inflight n1 c - 1)\<rparr>)"

section \<open>push.go\<close>

definition fanout :: "Wire \<Rightarrow> (Client \<Rightarrow> string) \<Rightarrow> string \<Rightarrow> string \<Rightarrow> string \<Rightarrow> Node \<Rightarrow> Node" where
  "fanout wi opId userId exceptConnId frame n =
     fold (\<lambda>c n. if cl_Id c \<noteq> exceptConnId then snd (Push_frame wi (opId c) c frame n) else n)
       (Get_conns userId (nd_users n)) n"

definition ConversationRead :: "Wire \<Rightarrow> (Client \<Rightarrow> string) \<Rightarrow> string \<Rightarrow> string \<Rightarrow> string \<Rightarrow> string \<Rightarrow> int64 \<Rightarrow> Node \<Rightarrow> Node" where
  "ConversationRead wi opId op userId readerConnId conversationId readSeq n =
     fanout wi opId userId readerConnId (pushFrame wi op ConvRead (ReadData conversationId readSeq)) n"

definition ResyncAll :: "Wire \<Rightarrow> string list \<Rightarrow> string \<Rightarrow> string \<Rightarrow> Node \<Rightarrow> Node" where
  "ResyncAll wi ks op reason n =
     fold (\<lambda>c n. snd (Send_frame c (pushFrame wi op Resync (ReasonData reason)) n)) (All_conns ks (nd_users n)) n"

definition Deliver :: "('db, 'z) StoreOps_scheme \<Rightarrow> Wire \<Rightarrow> (Client \<Rightarrow> string) \<Rightarrow> string \<Rightarrow> PushEvent \<Rightarrow> time \<Rightarrow> time \<Rightarrow> time \<Rightarrow>
    'db \<times> 'lim MsgState \<Rightarrow> Node \<Rightarrow> ('db \<times> 'lim MsgState) \<times> Node" where
  "Deliver st wi opId op ev now1 now2 now3 s n =
     (case run_state (Recipients st ev now1 now2 now3) s of
        (Inl _, s1) \<Rightarrow> (s1, n)
      | (Inr candidates, (d1, w1)) \<Rightarrow>
          let locals = OnlineExcept candidates (pe_SenderConnId ev) (nd_users n) in
          if locals = [] then ((d1, w1), n)
          else case run_state (VisibleTo st (pe_ConversationId ev) locals (dm_Seq (pe_Message ev))) d1 of
            (Inl _, d2) \<Rightarrow> ((d2, w1), n)
          | (Inr targets, d2) \<Rightarrow>
              let frame = pushFrame wi op PushMsg (MsgData (pe_Message ev))
              in ((d2, w1), fold (\<lambda>u. fanout wi opId u (pe_SenderConnId ev) frame) targets n))"

definition deliverOne :: "('db, 'z) StoreOps_scheme \<Rightarrow> Wire \<Rightarrow> (Client \<Rightarrow> string) \<Rightarrow> string \<Rightarrow> PushPayload \<Rightarrow> time \<Rightarrow> time \<Rightarrow> time \<Rightarrow>
    'db \<times> 'lim MsgState \<Rightarrow> Node \<Rightarrow> ('db \<times> 'lim MsgState) \<times> Node" where
  "deliverOne st wi opId op p now1 now2 now3 s n =
     (case run_state (ResolvePush st p) (fst s) of
        (Inl _, d1) \<Rightarrow> ((d1, snd s), n)
      | (Inr ev, d1) \<Rightarrow> Deliver st wi opId op ev now1 now2 now3 (d1, snd s) n)"

section \<open>The invariant\<close>

text \<open>A closed connection is out of the map and its queue shut; one that is closed or draining watches
  nobody, but for those of \<^verbatim>\<open>D\<close>, whose drain has only begun; the requests in flight are within their
  limit. An open connection has had fewer than three frames over the limit in a row.\<close>

definition registered :: "Node \<Rightarrow> Client set" where
  "registered n = {c. c \<in> set (conns_of (nd_users n) (cl_UserId c))}"

definition own_conns :: "UserMap \<Rightarrow> bool" where
  "own_conns m \<longleftrightarrow> (\<forall>u. distinct (conns_of m u) \<and> (\<forall>c \<in> set (conns_of m u). cl_UserId c = u))"

definition node_inv :: "Client set \<Rightarrow> Node \<Rightarrow> bool" where
  "node_inv D n \<longleftrightarrow> subs_ok (nd_subs n) \<and> own_conns (nd_users n) \<and> (\<forall>c. queue_inv (nd_queue n c)) \<and>
     (\<forall>c \<in> nd_closed n. c \<notin> registered n \<and> q_closing (nd_queue n c) \<and> c \<in> sp_ended (nd_subs n)) \<and>
     (\<forall>c \<in> nd_draining n. c \<in> sp_ended (nd_subs n)) \<and>
     (\<forall>c \<in> sp_ended (nd_subs n). c \<notin> D \<longrightarrow> sp_onlineSub (nd_subs n) c = None) \<and>
     (\<forall>c. nd_inflight n c \<le> max (WsInflightPerConn (nd_limits n)) 1)"

definition runs_ok :: "Node \<Rightarrow> bool" where
  "runs_ok n \<longleftrightarrow> (\<forall>c. c \<notin> nd_closed n \<longrightarrow> nd_overRun n c < overLimitCloseAt)"

lemma set_remove1_bounds: "set (remove1 x xs) \<subseteq> set xs" "set xs \<subseteq> insert x (set (remove1 x xs))"
  by (induction xs) auto

lemma conns_of_Unregister:
  "conns_of (Unregister c m) u = (if u = cl_UserId c then remove1 c (conns_of m u) else conns_of m u)"
  by (auto simp: Unregister_def Let_def conns_of_def Release_def remove1_idem split: option.splits)

lemma own_conns_Unregister: "own_conns m \<Longrightarrow> own_conns (Unregister c m)"
  using set_remove1_bounds(1) [where x = c] by (fastforce simp: own_conns_def conns_of_Unregister)

lemma registered_Unregister:
  "own_conns (nd_users n) \<Longrightarrow> nd_users n' = Unregister c (nd_users n) \<Longrightarrow> registered n' = registered n - {c}"
  by (auto simp: registered_def conns_of_Unregister own_conns_def)

lemma sp_removeOnline [simp]:
  "sp_ended (removeOnlineSubscriptions c p) = sp_ended p" "sp_closing (removeOnlineSubscriptions c p) = sp_closing p"
  "sp_onlineSub (removeOnlineSubscriptions c p) = (sp_onlineSub p)(c := None)"
  by (auto simp: removeOnlineSubscriptions_def remove_sub_def Let_def set_sub_def fun_eq_iff split: option.split)

lemma end_active_simps [simp]:
  "sp_ended (end_active c p) = insert c (sp_ended p)" "sp_closing (end_active c p) = sp_closing p" "sp_onlineSub (end_active c p) = sp_onlineSub p"
  by (simp_all add: end_active_def)

lemma end_active_ok [simp]: "subs_ok p \<Longrightarrow> subs_ok (end_active c p)"
  by (rule flags_ok [of p]) (auto simp: end_active_def)

lemma removed_ok [simp]: "subs_ok p \<Longrightarrow> subs_ok (removeOnlineSubscriptions c p)"
  by (rule removeOnlineSubscriptions_ok)

text \<open>What an operation on some connections leaves alone: the other connections, and the limits.\<close>

definition only :: "Client set \<Rightarrow> Node \<Rightarrow> Node \<Rightarrow> bool" where
  "only S n n' \<longleftrightarrow> nd_limits n' = nd_limits n \<and> nd_closing n' = nd_closing n \<and> nd_draining n' = nd_draining n \<and>
     nd_inflight n' = nd_inflight n \<and> nd_overRun n' = nd_overRun n \<and> nd_closed n \<subseteq> nd_closed n' \<and>
     (\<forall>u. set (conns_of (nd_users n') u) \<subseteq> set (conns_of (nd_users n) u) \<and> set (conns_of (nd_users n) u) \<subseteq> S \<union> set (conns_of (nd_users n') u)) \<and>
     (\<forall>d. d \<notin> S \<longrightarrow> nd_queue n' d = nd_queue n d \<and> (d \<in> nd_closed n' \<longleftrightarrow> d \<in> nd_closed n) \<and>
        (d \<in> sp_ended (nd_subs n') \<longleftrightarrow> d \<in> sp_ended (nd_subs n)))"

lemma only_refl [simp]: "only S n n"
  by (auto simp: only_def)

lemma only_trans: "only S n n1 \<Longrightarrow> only S n1 n2 \<Longrightarrow> only S n n2"
  unfolding only_def by (simp add: subset_iff) blast

lemma only_mono: "only S n n' \<Longrightarrow> S \<subseteq> S' \<Longrightarrow> only S' n n'"
  unfolding only_def by (simp add: subset_iff) blast

lemma Close_client_ok:
  assumes "node_inv D n"
  shows "node_inv D (Close_client c n)" "only {c} n (Close_client c n)" "c \<in> nd_closed (Close_client c n)" "nd_closed n \<subseteq> nd_closed (Close_client c n)"
proof -
  show "c \<in> nd_closed (Close_client c n)" "nd_closed n \<subseteq> nd_closed (Close_client c n)"
    by (auto simp: Close_client_def close_section_def)
  show "only {c} n (Close_client c n)"
    using set_remove1_bounds [where x = c and xs = "conns_of (nd_users n) (cl_UserId c)"]
    by (simp add: only_def Close_client_def close_section_def nd_closing_def conns_of_Unregister subset_insertI)
  have "node_inv D (Close_client c n)" if c: "c \<notin> nd_closed n"
  proof -
    have own: "own_conns (nd_users n)"
      using assms by (simp add: node_inv_def)
    let ?n = "Close_client c n"
    have n: "nd_users ?n = Unregister c (nd_users n)" "nd_closed ?n = insert c (nd_closed n)"
      "nd_queue ?n = (nd_queue n)(c := snd (close_section (nd_queue n c)))" "nd_draining ?n = nd_draining n" "nd_limits ?n = nd_limits n"
      "nd_inflight ?n = nd_inflight n" "nd_overRun ?n = nd_overRun n"
      "nd_subs ?n = removeOnlineSubscriptions c (end_active c (nd_subs n))"
      using c by (simp_all add: Close_client_def close_section_def)
    show ?thesis
      using assms n own_conns_Unregister [OF own] registered_Unregister [OF own n(1)] close_section_inv(1) [of "nd_queue n c"]
      by (auto simp: node_inv_def close_section_def queue_inv_def)
  qed
  then show "node_inv D (Close_client c n)"
    using assms by (cases "c \<in> nd_closed n") (simp_all add: Close_client_def)
qed

text \<open>What a frame does to a queue that is not closing: it is appended, or the queue was full.\<close>

lemma enqueue_ok:
  assumes "node_inv D n"
  shows "node_inv D (snd (enqueue c frame n))" "only {c} n (snd (enqueue c frame n))" "nd_closed n \<subseteq> nd_closed (snd (enqueue c frame n))"
    "q_closing (nd_queue (snd (enqueue c frame n)) c) \<or> q_send (nd_queue (snd (enqueue c frame n)) c) = q_send (nd_queue n c) @ [frame]"
proof -
  obtain r q where sec: "queue_section frame (nd_queue n c) = (r, q)"
    by fastforce
  have inv: "queue_inv (nd_queue n c)"
    using assms by (simp add: node_inv_def)
  obtain full err b where run: "queueFrame frame (nd_queue n c) (nd_budget n) = ((full, err), q, b)"
    using sec by (cases r) (auto simp: queueFrame_def queue_end_def)
  let ?n = "n\<lparr>nd_queue := (nd_queue n)(c := q), nd_budget := b\<rparr>"
  have q: "queue_inv q" "q_closing q = q_closing (nd_queue n c)" "r \<noteq> Queued \<Longrightarrow> q = nd_queue n c"
      "r = Queued \<Longrightarrow> q_send q = q_send (nd_queue n c) @ [frame]" "r = WasClosing \<Longrightarrow> q_closing q" "full \<longleftrightarrow> r = QueueFull"
    using sec inv queue_section_inv(1) [of frame "nd_queue n c" q] run
    by (auto simp: queue_section_def queueFrame_def queue_end_def split: if_splits)
  have n: "node_inv D ?n"
    using assms q(1,2) by (simp add: node_inv_def registered_def)
  have o: "only {c} n ?n"
    by (simp add: only_def nd_closing_def subset_insertI)
  have run': "snd (enqueue c frame n) = (if full then Close_client c ?n else ?n)"
    by (simp add: enqueue_def run Let_def)
  note cl = Close_client_ok [OF n, of c]
  show "node_inv D (snd (enqueue c frame n))" "only {c} n (snd (enqueue c frame n))"
    using n o cl(1) only_trans [OF o cl(2)] by (simp_all add: run')
  show "nd_closed n \<subseteq> nd_closed (snd (enqueue c frame n))"
    using cl(4) by (simp add: run')
  have "q_closing (nd_queue (Close_client c ?n) c)"
    using cl(1,3) by (simp add: node_inv_def)
  then show "q_closing (nd_queue (snd (enqueue c frame n)) c) \<or> q_send (nd_queue (snd (enqueue c frame n)) c) = q_send (nd_queue n c) @ [frame]"
    using q(4-6) by (cases r) (simp_all add: run')
qed

lemma budget_node_inv [simp]: "node_inv D (n\<lparr>nd_budget := b\<rparr>) = node_inv D n"
  by (simp add: node_inv_def registered_def)

lemma flush_node_inv [simp]: "node_inv D (n\<lparr>nd_flush := F\<rparr>) = node_inv D n" "only S n (n'\<lparr>nd_flush := F\<rparr>) = only S n n'"
  by (simp_all add: node_inv_def registered_def only_def nd_closing_def)

lemma budget_only: "only S (n\<lparr>nd_budget := b\<rparr>) n' = only S n n'"
  by (simp add: only_def nd_closing_def)

definition takes :: "Client \<Rightarrow> string set \<Rightarrow> Node \<Rightarrow> Node \<Rightarrow> bool" where
  "takes c fs n n' \<longleftrightarrow> q_closing (nd_queue n' c) \<or> (\<exists>f \<in> fs. q_send (nd_queue n' c) = q_send (nd_queue n c) @ [f])"

lemma Send_frame_ok:
  assumes "node_inv D n"
  shows "node_inv D (snd (Send_frame c frame n))" "only {c} n (snd (Send_frame c frame n))" "takes c {frame} n (snd (Send_frame c frame n))"
    "nd_closed n \<subseteq> nd_closed (snd (Send_frame c frame n))"
  using enqueue_ok [of D "n\<lparr>nd_budget := budget_take (bytes frame) (nd_budget n)\<rparr>" c frame] assms
  by (simp_all add: Send_frame_def budget_only takes_def)

text \<open>The resync a push becomes when the node is over its byte cap.\<close>

definition over_cap_frame :: "Wire \<Rightarrow> string \<Rightarrow> string" where
  "over_cap_frame wi opId = pushFrame wi opId Resync (ReasonData ''send_bytes_over_cap'')"

lemma Push_frame_ok:
  assumes "node_inv D n"
  shows "node_inv D (snd (Push_frame wi opId c frame n)) \<and> only {c} n (snd (Push_frame wi opId c frame n)) \<and>
    takes c {frame, over_cap_frame wi opId} n (snd (Push_frame wi opId c frame n))"
proof -
  obtain ok b where take: "tryTake (bytes frame) (nd_budget n) = (ok, b)"
    by fastforce
  have n: "node_inv D (n\<lparr>nd_budget := b\<rparr>)"
    using assms by simp
  show ?thesis
  proof (cases ok)
    case True
    then have run: "snd (Push_frame wi opId c frame n) = snd (enqueue c frame (n\<lparr>nd_budget := b\<rparr>))"
      by (simp add: Push_frame_def take)
    note e = enqueue_ok [OF n, of c frame]
    show ?thesis
      using e unfolding run takes_def budget_only by (simp, blast)
  next
    case False
    then have run: "snd (Push_frame wi opId c frame n) = snd (Send_frame c (over_cap_frame wi opId) (n\<lparr>nd_budget := b\<rparr>))"
      by (simp add: Push_frame_def take resync_def over_cap_frame_def)
    note e = Send_frame_ok [OF n, of c "over_cap_frame wi opId"]
    show ?thesis
      using e unfolding run takes_def budget_only by (simp, blast)
  qed
qed

section \<open>Pushing\<close>

lemma takes_only: "takes c fs n n1 \<Longrightarrow> only S n1 n2 \<Longrightarrow> c \<notin> S \<Longrightarrow> takes c fs n n2"
  by (simp add: takes_def only_def)

lemma only_takes: "only S n n1 \<Longrightarrow> takes c fs n1 n2 \<Longrightarrow> c \<notin> S \<Longrightarrow> takes c fs n n2"
  by (simp add: takes_def only_def)

definition push_all :: "Wire \<Rightarrow> (Client \<Rightarrow> string) \<Rightarrow> string \<Rightarrow> string \<Rightarrow> Client list \<Rightarrow> Node \<Rightarrow> Node" where
  "push_all wi opId ex frame cs n =
     fold (\<lambda>c n. if cl_Id c \<noteq> ex then snd (Push_frame wi (opId c) c frame n) else n) cs n"

lemma push_all_ok:
  fixes ex :: string
  assumes "node_inv D n" "distinct cs"
  defines "S \<equiv> {c \<in> set cs. cl_Id c \<noteq> ex}"
  shows "node_inv D (push_all wi opId ex frame cs n) \<and> only S n (push_all wi opId ex frame cs n) \<and>
    (\<forall>c \<in> S. takes c {frame, over_cap_frame wi (opId c)} n (push_all wi opId ex frame cs n))"
  using assms(1,2) unfolding S_def
proof (induction cs arbitrary: n)
  case (Cons c cs)
  let ?S = "{c \<in> set cs. cl_Id c \<noteq> ex}"
  show ?case
  proof (cases "cl_Id c = ex")
    case True
    then have "{d \<in> set (c # cs). cl_Id d \<noteq> ex} = ?S"
      by auto
    then show ?thesis
      using Cons True by (simp add: push_all_def)
  next
    case False
    let ?n1 = "snd (Push_frame wi (opId c) c frame n)"
    note 1 = Push_frame_ok [OF Cons.prems(1), of wi "opId c" c frame]
    have rest: "node_inv D (push_all wi opId ex frame cs ?n1)" "only ?S ?n1 (push_all wi opId ex frame cs ?n1)"
      "\<forall>d \<in> ?S. takes d {frame, over_cap_frame wi (opId d)} ?n1 (push_all wi opId ex frame cs ?n1)"
      using Cons.IH [of ?n1] 1 Cons.prems(2) by simp_all
    have S: "{d \<in> set (c # cs). cl_Id d \<noteq> ex} = insert c ?S"
      using False by auto
    have run: "push_all wi opId ex frame (c # cs) n = push_all wi opId ex frame cs ?n1"
      using False by (simp add: push_all_def)
    have c: "c \<notin> ?S"
      using Cons.prems(2) by simp
    have "takes c {frame, over_cap_frame wi (opId c)} n (push_all wi opId ex frame cs ?n1)"
      using takes_only [OF _ rest(2) c] 1 by blast
    moreover have "takes d {frame, over_cap_frame wi (opId d)} n (push_all wi opId ex frame cs ?n1)" if d: "d \<in> ?S" for d
    proof (rule only_takes [where S = "{c}"])
      show "only {c} n ?n1"
        using 1 by blast
      show "takes d {frame, over_cap_frame wi (opId d)} ?n1 (push_all wi opId ex frame cs ?n1)"
        using rest(3) d by blast
      show "d \<notin> {c}"
        using c d by blast
    qed
    moreover have "only (insert c ?S) n (push_all wi opId ex frame cs ?n1)"
      using only_trans [OF only_mono only_mono] 1 rest(2) by blast
    ultimately show ?thesis
      unfolding run S using rest(1) by blast
  qed
qed (simp add: push_all_def)

lemma fanout_push_all: "fanout wi opId u ex frame n = push_all wi opId ex frame (conns_of (nd_users n) u) n"
  by (simp add: fanout_def push_all_def Get_conns_def)

definition push_targets :: "Node \<Rightarrow> string set \<Rightarrow> string \<Rightarrow> Client set" where
  "push_targets n us ex = {c. cl_UserId c \<in> us \<and> c \<in> registered n \<and> cl_Id c \<noteq> ex}"

lemma own_conns_of: "own_conns m \<Longrightarrow> c \<in> set (conns_of m u) \<longleftrightarrow> cl_UserId c = u \<and> c \<in> set (conns_of m (cl_UserId c))"
  by (auto simp: own_conns_def)

lemma fanout_ok:
  assumes "node_inv D n"
  shows "node_inv D (fanout wi opId u ex frame n) \<and> only (push_targets n {u} ex) n (fanout wi opId u ex frame n) \<and>
    (\<forall>c \<in> push_targets n {u} ex. takes c {frame, over_cap_frame wi (opId c)} n (fanout wi opId u ex frame n))"
proof -
  have own: "own_conns (nd_users n)"
    using assms by (simp add: node_inv_def)
  then have "distinct (conns_of (nd_users n) u)"
    by (simp add: own_conns_def)
  moreover have S: "{c \<in> set (conns_of (nd_users n) u). cl_Id c \<noteq> ex} = push_targets n {u} ex"
    using own_conns_of [OF own, of _ u] by (auto simp: push_targets_def registered_def)
  ultimately show ?thesis
    using push_all_ok [OF assms, where cs = "conns_of (nd_users n) u" and ex = ex and wi = wi and opId = opId and frame = frame] unfolding fanout_push_all S by blast
qed

lemma fanouts_ok:
  assumes "node_inv D n" "distinct us"
  shows "node_inv D (fold (\<lambda>u. fanout wi opId u ex frame) us n) \<and>
    only (push_targets n (set us) ex) n (fold (\<lambda>u. fanout wi opId u ex frame) us n) \<and>
    (\<forall>c \<in> push_targets n (set us) ex. takes c {frame, over_cap_frame wi (opId c)} n (fold (\<lambda>u. fanout wi opId u ex frame) us n))"
  using assms
proof (induction us arbitrary: n)
  case (Cons u us)
  let ?n1 = "fanout wi opId u ex frame n" and ?n2 = "fold (\<lambda>u. fanout wi opId u ex frame) us (fanout wi opId u ex frame n)"
  have one: "node_inv D ?n1" "only (push_targets n {u} ex) n ?n1"
      "\<forall>c \<in> push_targets n {u} ex. takes c {frame, over_cap_frame wi (opId c)} n ?n1"
    using fanout_ok [OF Cons.prems(1), of wi opId u ex frame] by blast+
  have rest: "node_inv D ?n2" "only (push_targets ?n1 (set us) ex) ?n1 ?n2"
      "\<forall>c \<in> push_targets ?n1 (set us) ex. takes c {frame, over_cap_frame wi (opId c)} ?n1 ?n2"
    using Cons.IH [OF one(1)] Cons.prems(2) by auto
  have apart: "u \<notin> set us"
    using Cons.prems(2) by simp
  have "c \<in> registered ?n1 \<longleftrightarrow> c \<in> registered n" if "c \<notin> push_targets n {u} ex" for c
    using one(2) that unfolding only_def registered_def by blast
  moreover have "c \<notin> push_targets n {u} ex" if "cl_UserId c \<in> set us" for c
    using apart that by (auto simp: push_targets_def)
  ultimately have same: "push_targets ?n1 (set us) ex = push_targets n (set us) ex"
    unfolding push_targets_def by blast
  have union: "push_targets n (set (u # us)) ex = push_targets n {u} ex \<union> push_targets n (set us) ex"
    by (auto simp: push_targets_def)
  have "only (push_targets n (set (u # us)) ex) n ?n2"
    unfolding union by (rule only_trans [OF only_mono [OF one(2)] only_mono [OF rest(2) [unfolded same]]]) auto
  moreover have "takes c {frame, over_cap_frame wi (opId c)} n ?n2" if c: "c \<in> push_targets n {u} ex" for c
  proof (rule takes_only [OF _ rest(2)])
    show "takes c {frame, over_cap_frame wi (opId c)} n ?n1"
      using one(3) c by blast
    show "c \<notin> push_targets ?n1 (set us) ex"
      using c apart by (auto simp: push_targets_def)
  qed
  moreover have "takes c {frame, over_cap_frame wi (opId c)} n ?n2" if c: "c \<in> push_targets n (set us) ex" for c
  proof (rule only_takes [OF one(2)])
    show "takes c {frame, over_cap_frame wi (opId c)} ?n1 ?n2"
      using rest(3) c unfolding same by blast
    show "c \<notin> push_targets n {u} ex"
      using c apart by (auto simp: push_targets_def)
  qed
  ultimately show ?case
    using rest(1) unfolding union by (simp, blast)
qed (simp add: push_targets_def)

section \<open>Draining\<close>

lemma beginDrain_ok:
  assumes "node_inv D n" "beginDrain c n = (started, n')"
  shows "started \<longleftrightarrow> c \<notin> nd_closed n \<and> c \<notin> nd_draining n" "node_inv (if started then insert c D else D) n'"
    "nd_draining n' = (if started then insert c (nd_draining n) else nd_draining n)" "nd_users n' = nd_users n" "nd_queue n' = nd_queue n"
    "nd_closed n' = nd_closed n" "nd_closing n' = nd_closing n"
  using assms by (auto simp: beginDrain_def node_inv_def registered_def nd_closing_def split: if_splits)

lemma drop_subscription:
  assumes "node_inv D n" "c \<in> sp_ended (nd_subs n)"
  shows "node_inv (D - {c}) (n\<lparr>nd_subs := removeOnlineSubscriptions c (nd_subs n)\<rparr>)"
  using assms by (auto simp: node_inv_def registered_def)

lemma finishDrain_ok:
  assumes "node_inv D n" "c \<in> sp_ended (nd_subs n)"
  shows "node_inv (D - {c}) (finishDrain c final n) \<and> only {c} n (finishDrain c final n) \<and> nd_closed n \<subseteq> nd_closed (finishDrain c final n)"
proof -
  let ?n1 = "n\<lparr>nd_subs := removeOnlineSubscriptions c (nd_subs n)\<rparr>"
  let ?n2 = "case final of None \<Rightarrow> ?n1 | Some frame \<Rightarrow> snd (Send_frame c frame ?n1)"
  note inv = drop_subscription [OF assms]
  have o: "only {c} n ?n1"
    by (simp add: only_def nd_closing_def subset_insertI)
  have "node_inv (D - {c}) ?n2 \<and> only {c} n ?n2 \<and> nd_closed n \<subseteq> nd_closed ?n2"
  proof (cases final)
    case (Some frame)
    note e = Send_frame_ok [OF inv, of c frame]
    show ?thesis
      using e(1,4) only_trans [OF o e(2)] Some by simp
  qed (use inv o in simp)
  moreover have "finishDrain c final n = ?n2\<lparr>nd_flush := insert c (nd_flush ?n2)\<rparr>"
    by (simp add: finishDrain_def Let_def)
  ultimately show ?thesis
    by simp
qed

lemma closeAfterFlush_ok:
  assumes "node_inv {} n"
  shows "node_inv {} (closeAfterFlush c final n)"
proof -
  obtain started n1 where run: "beginDrain c n = (started, n1)"
    by fastforce
  note b = beginDrain_ok [OF assms run]
  show ?thesis
  proof (cases started)
    case True
    then have "c \<in> sp_ended (nd_subs n1)"
      using b(2,3) by (simp add: node_inv_def)
    then have "node_inv ({c} - {c}) (finishDrain c final n1)"
      using finishDrain_ok [of "{c}" n1 c final] b(2) True by simp
    then show ?thesis
      using True run by (simp add: closeAfterFlush_def)
  qed (use b(2) run in \<open>simp add: closeAfterFlush_def\<close>)
qed

text \<open>The connections a kick is for.\<close>

definition kicked :: "int \<Rightarrow> string \<Rightarrow> Client \<Rightarrow> bool" where
  "kicked platformId keepTokenId c \<longleftrightarrow> id_PlatformId (cl_Identity c) = platformId \<and> id_TokenId (cl_Identity c) \<noteq> keepTokenId"

lemma kick_targets_ok:
  assumes "node_inv D n" "kick_targets platformId keepTokenId cs n = (ts, n')"
  shows "node_inv (D \<union> set ts) n' \<and> distinct ts \<and>
    set ts = {c \<in> set cs. kicked platformId keepTokenId c} - nd_closed n - nd_draining n \<and>
    nd_draining n' = nd_draining n \<union> set ts \<and> nd_users n' = nd_users n \<and> nd_queue n' = nd_queue n \<and> nd_closed n' = nd_closed n"
  using assms
proof (induction cs arbitrary: D n ts)
  case (Cons c cs)
  show ?case
  proof (cases "kicked platformId keepTokenId c")
    case False
    then show ?thesis
      using Cons.IH [OF Cons.prems(1)] Cons.prems(2) by (auto simp: kicked_def)
  next
    case True
    obtain started n1 where b: "beginDrain c n = (started, n1)"
      by fastforce
    obtain ts1 where r: "kick_targets platformId keepTokenId cs n1 = (ts1, n')" and ts: "ts = (if started then c # ts1 else ts1)"
      using Cons.prems(2) True b by (auto simp: kicked_def split: prod.splits)
    note 1 = beginDrain_ok [OF Cons.prems(1) b]
    have 2: "node_inv ((if started then insert c D else D) \<union> set ts1) n'" "distinct ts1"
        "set ts1 = {c \<in> set cs. kicked platformId keepTokenId c} - nd_closed n1 - nd_draining n1"
        "nd_draining n' = nd_draining n1 \<union> set ts1" "nd_users n' = nd_users n1" "nd_queue n' = nd_queue n1" "nd_closed n' = nd_closed n1"
      using Cons.IH [OF 1(2) r] by blast+
    show ?thesis
    proof (cases started)
      case started: True
      have "set ts = {d \<in> set (c # cs). kicked platformId keepTokenId d} - nd_closed n - nd_draining n"
        using 2(3) 1(1,3,6) ts True started by auto
      moreover have "node_inv (D \<union> set ts) n'" "nd_draining n' = nd_draining n \<union> set ts"
        using 2(1,4) 1(3) ts started by simp_all
      moreover have "distinct ts"
        using 2(2,3) 1(3) ts started by simp
      ultimately show ?thesis
        using 2(5-7) 1(4-6) by simp
    next
      case False
      have "set ts = {d \<in> set (c # cs). kicked platformId keepTokenId d} - nd_closed n - nd_draining n"
        using 2(3) 1(1,3,6) ts True False by auto
      then show ?thesis
        using 2 1(3-6) ts False by simp
    qed
  qed
qed simp

lemma finishDrains_ok:
  assumes "node_inv (set ts) n" "distinct ts" "set ts \<subseteq> sp_ended (nd_subs n)"
  shows "node_inv {} (fold (\<lambda>c. finishDrain c (f c)) ts n) \<and> only (set ts) n (fold (\<lambda>c. finishDrain c (f c)) ts n) \<and>
    nd_closed n \<subseteq> nd_closed (fold (\<lambda>c. finishDrain c (f c)) ts n)"
  using assms
proof (induction ts arbitrary: n)
  case (Cons c ts)
  let ?n1 = "finishDrain c (f c) n"
  have 1: "node_inv (set (c # ts) - {c}) ?n1" "only {c} n ?n1" "nd_closed n \<subseteq> nd_closed ?n1"
    using finishDrain_ok [OF Cons.prems(1), of c "f c"] Cons.prems(3) by auto
  have "set (c # ts) - {c} = set ts"
    using Cons.prems(2) by auto
  then have inv: "node_inv (set ts) ?n1"
    using 1(1) by simp
  have "set ts \<subseteq> sp_ended (nd_subs ?n1)"
    using 1(2) Cons.prems(2,3) unfolding only_def by auto
  note 2 = Cons.IH [OF inv _ this]
  have o: "only (set (c # ts)) n ?n1"
    by (rule only_mono [OF 1(2)]) simp
  have rest: "node_inv {} (fold (\<lambda>c. finishDrain c (f c)) ts ?n1)" "only (set ts) ?n1 (fold (\<lambda>c. finishDrain c (f c)) ts ?n1)"
      "nd_closed ?n1 \<subseteq> nd_closed (fold (\<lambda>c. finishDrain c (f c)) ts ?n1)"
    using 2 Cons.prems(2) by simp_all
  have "only (set (c # ts)) ?n1 (fold (\<lambda>c. finishDrain c (f c)) ts ?n1)"
    by (rule only_mono [OF rest(2)]) auto
  from only_trans [OF o this] show ?case
    using rest(1) subset_trans [OF 1(3) rest(3)] by simp
qed simp

lemma kick_ok:
  fixes u k :: string and p :: int
  assumes "node_inv {} n" "\<not> nd_closing n"
  defines "T \<equiv> {c \<in> set (conns_of (nd_users n) u). kicked p k c} - nd_closed n - nd_draining n"
  shows "node_inv {} (kick wi opId False u p k n) \<and> nd_draining (kick wi opId False u p k n) = nd_draining n \<union> T \<and>
    (\<forall>c. c \<notin> T \<longrightarrow> nd_queue (kick wi opId False u p k n) c = nd_queue n c \<and>
       (c \<in> registered (kick wi opId False u p k n) \<longleftrightarrow> c \<in> registered n))"
proof -
  obtain ts n1 where run: "kick_targets p k (conns_of (nd_users n) u) n = (ts, n1)"
    by fastforce
  note t = kick_targets_ok [OF assms(1) run]
  let ?f = "\<lambda>c. Some (pushFrame wi (opId c) KickOnline (ReasonData ''new_login''))"
  let ?n = "fold (\<lambda>c. finishDrain c (?f c)) ts n1"
  have n: "kick wi opId False u p k n = ?n"
    using assms(2) run by (simp add: kick_def Get_conns_def)
  have T: "set ts = T"
    using t unfolding T_def by blast
  have "node_inv ({} \<union> set ts) n1"
    using t by blast
  then have inv: "node_inv (set ts) n1"
    by simp
  have "set ts \<subseteq> sp_ended (nd_subs n1)"
    using t inv unfolding node_inv_def by blast
  note f = finishDrains_ok [OF inv _ this, of ?f]
  have o: "only (set ts) n1 ?n" and i: "node_inv {} ?n"
    using f t by blast+
  have "nd_draining ?n = nd_draining n1"
    using o unfolding only_def by blast
  moreover have "nd_queue ?n c = nd_queue n1 c \<and> (c \<in> registered ?n \<longleftrightarrow> c \<in> registered n1)" if "c \<notin> set ts" for c
    using o that unfolding only_def registered_def by blast
  moreover have "registered n1 = registered n"
    using t by (simp add: registered_def)
  ultimately show ?thesis
    using i t unfolding n T by simp
qed

lemma only_runs: "only S n n' \<Longrightarrow> runs_ok n \<Longrightarrow> runs_ok n'"
  by (auto simp: only_def runs_ok_def)

section \<open>Admission\<close>

definition node_ok :: "Node \<Rightarrow> bool" where
  "node_ok n \<longleftrightarrow> node_inv {} n \<and> runs_ok n"

lemma count_node_inv [simp]:
  "node_inv D (n\<lparr>nd_overRun := r\<rparr>) = node_inv D n" "node_inv D (n\<lparr>nd_overRun := r, nd_budget := b\<rparr>) = node_inv D n"
  "node_inv D (n\<lparr>nd_fails := f\<rparr>) = node_inv D n"
  by (simp_all add: node_inv_def registered_def)

lemma Send_frame_keeps: "node_ok n \<Longrightarrow> node_ok (snd (Send_frame c frame n))"
  using Send_frame_ok [of "{}" n c frame] only_runs by (auto simp: node_ok_def)

lemma closeAfterFlush_keeps:
  assumes "node_ok n"
  shows "node_ok (closeAfterFlush c final n)"
proof -
  obtain started n1 where run: "beginDrain c n = (started, n1)"
    by fastforce
  have inv: "node_inv {} n" "runs_ok n"
    using assms by (simp_all add: node_ok_def)
  note b = beginDrain_ok [OF inv(1) run]
  have n1: "runs_ok n1"
    using run inv(2) by (auto simp: beginDrain_def runs_ok_def split: if_splits)
  have "runs_ok (finishDrain c final n1)" if started
  proof -
    have "c \<in> sp_ended (nd_subs n1)"
      using b(2,3) that by (simp add: node_inv_def)
    then show ?thesis
      using finishDrain_ok [OF b(2), of c final] only_runs [OF _ n1] by blast
  qed
  then have "runs_ok (closeAfterFlush c final n)"
    using n1 run by (simp add: closeAfterFlush_def)
  then show ?thesis
    using closeAfterFlush_ok [OF inv(1)] by (simp add: node_ok_def)
qed

lemma overLimit_keeps:
  assumes "node_ok n"
  shows "node_ok (snd (overLimit wi c req n))" "fst (overLimit wi c req n) = (nd_overRun n c + 1 < overLimitCloseAt)"
    "\<not> fst (overLimit wi c req n) \<Longrightarrow> c \<in> nd_closed (snd (overLimit wi c req n))"
proof -
  let ?n1 = "n\<lparr>nd_overRun := (nd_overRun n)(c := nd_overRun n c + 1), nd_budget := (nd_budget n)\<lparr>b_rateLimited := b_rateLimited (nd_budget n) + 1\<rparr>\<rparr>"
  let ?n2 = "snd (Send_frame c (wi_fail wi (fail_response req (Of_errcode ErrTooManyRequests))) ?n1)"
  have inv: "node_inv {} ?n1"
    using assms by (simp add: node_ok_def)
  note e = Send_frame_ok [OF inv, of c "wi_fail wi (fail_response req (Of_errcode ErrTooManyRequests))"]
  note cl = Close_client_ok [OF e(1), of c]
  have run: "nd_overRun ?n2 = (nd_overRun n)(c := nd_overRun n c + 1)" "nd_closed n \<subseteq> nd_closed ?n2"
    using e(2,4) by (simp_all add: only_def)
  have out: "overLimit wi c req n = (if nd_overRun n c + 1 \<ge> overLimitCloseAt then (False, Close_client c ?n2) else (True, ?n2))"
    using run(1) by (simp add: overLimit_def Let_def)
  have "nd_overRun (Close_client c ?n2) = (nd_overRun n)(c := nd_overRun n c + 1)" "nd_closed ?n2 \<subseteq> nd_closed (Close_client c ?n2)"
    using cl(2,4) run(1) by (simp_all add: only_def)
  then have "runs_ok (Close_client c ?n2)"
    using assms cl(3) run(2) by (auto simp: runs_ok_def node_ok_def)
  moreover have "runs_ok ?n2" if "nd_overRun n c + 1 < overLimitCloseAt"
    using assms run that by (auto simp: runs_ok_def node_ok_def)
  ultimately show "node_ok (snd (overLimit wi c req n))"
    using e(1) cl(1) by (simp add: out node_ok_def)
  show "fst (overLimit wi c req n) = (nd_overRun n c + 1 < overLimitCloseAt)"
    by (simp add: out)
  show "\<not> fst (overLimit wi c req n) \<Longrightarrow> c \<in> nd_closed (snd (overLimit wi c req n))"
    using cl(3) by (simp add: out split: if_splits)
qed

lemma run_reset_keeps: "node_ok n \<Longrightarrow> node_ok (n\<lparr>nd_overRun := (nd_overRun n)(c := 0)\<rparr>)"
  by (simp add: node_ok_def runs_ok_def overLimitCloseAt_def)

lemma admit_keeps:
  assumes "node_ok n"
  shows "node_ok (snd (admit wi opId allow now_ms begun c raw n))"
proof -
  let ?d = "decodeRequest (wi_request wi) raw" and ?n1 = "n\<lparr>nd_overRun := (nd_overRun n)(c := 0)\<rparr>"
  note reset = run_reset_keeps [OF assms, of c]
  have more: "node_ok (?n1\<lparr>nd_inflight := (nd_inflight n)(c := nd_inflight n c + 1)\<rparr>)"
    if "\<not> nd_inflight n c \<ge> max (WsInflightPerConn (nd_limits n)) 1"
  proof -
    have "nd_inflight n c + 1 \<le> max (WsInflightPerConn (nd_limits n)) 1"
      using that by linarith
    then show ?thesis
      using reset by (simp add: node_ok_def node_inv_def registered_def runs_ok_def del: max.bounded_iff)
  qed
  show ?thesis
  proof (cases "c \<in> nd_draining n \<or> c \<in> nd_closed n")
    case True
    then show ?thesis
      using assms by (auto simp: admit_def)
  next
    case live: False
    show ?thesis
    proof (cases allow)
      case False
      then have "snd (admit wi opId allow now_ms begun c raw n) = snd (overLimit wi c empty_request n)"
        using live by (simp add: admit_def)
      then show ?thesis
        using overLimit_keeps(1) [OF assms] by simp
    next
      case True
      obtain req e where d: "?d = (req, e)"
        by fastforce
      show ?thesis
      proof (cases e)
        case (Some err)
        then have "snd (admit wi opId allow now_ms begun c raw n) = snd (Send_frame c (wi_fail wi (fail_response req err)) ?n1)"
          using live True d by (simp add: admit_def)
        then show ?thesis
          using Send_frame_keeps [OF reset] by simp
      next
        case None
        note kick = closeAfterFlush_keeps [OF Send_frame_keeps [OF assms]]
        have "snd (admit wi opId allow now_ms begun c raw n) =
          (if id_ExpiresAt (cl_Identity c) > 0 \<and> now_ms > id_ExpiresAt (cl_Identity c)
           then kick_client wi opId ''token_expired'' c (snd (Send_frame c (wi_fail wi (fail_response req (Of_errcode ErrTokenExpired))) n))
           else if nd_inflight n c \<ge> max (WsInflightPerConn (nd_limits n)) 1 then snd (overLimit wi c req n)
           else if begun then ?n1\<lparr>nd_inflight := (nd_inflight n)(c := nd_inflight n c + 1)\<rparr> else ?n1)"
          using live True d None by (simp add: admit_def Let_def)
        then show ?thesis
          using kick overLimit_keeps(1) [OF assms] more reset by (simp add: kick_client_def del: max.bounded_iff)
      qed
    qed
  qed
qed

text \<open>A handler's place is given back only by a handler that has one.\<close>

lemma inflight_keeps:
  "node_ok n \<Longrightarrow> (\<And>c. f c \<le> max (WsInflightPerConn (nd_limits n)) 1) \<Longrightarrow> node_ok (n\<lparr>nd_inflight := f\<rparr>)"
  by (simp add: node_ok_def node_inv_def registered_def runs_ok_def del: max.bounded_iff)

lemma handled_keeps:
  assumes "node_ok n"
  shows "node_ok (handled c answer n)"
proof -
  let ?n1 = "snd (Send_frame c answer n)"
  have ok: "node_ok ?n1"
    by (rule Send_frame_keeps [OF assms])
  then have "nd_inflight ?n1 d \<le> max (WsInflightPerConn (nd_limits ?n1)) 1" for d
    by (simp add: node_ok_def node_inv_def del: max.bounded_iff)
  moreover from this [of c] have "nd_inflight ?n1 c - 1 \<le> max (WsInflightPerConn (nd_limits ?n1)) 1"
    by linarith
  ultimately have le: "((nd_inflight ?n1)(c := nd_inflight ?n1 c - 1)) d \<le> max (WsInflightPerConn (nd_limits ?n1)) 1" for d
    by (simp del: max.bounded_iff)
  have "node_ok (?n1\<lparr>nd_inflight := (nd_inflight ?n1)(c := nd_inflight ?n1 c - 1)\<rparr>)"
    using inflight_keeps [OF ok le] .
  then show ?thesis
    by (simp add: handled_def Let_def)
qed

section \<open>Runs of a node\<close>

inductive gw_step :: "Wire \<Rightarrow> Node \<Rightarrow> Node \<Rightarrow> bool" for wi where
  opened: "c \<notin> nd_closed n \<Longrightarrow> c \<notin> nd_draining n \<Longrightarrow> c \<notin> sp_ended (nd_subs n) \<Longrightarrow> c \<notin> registered n \<Longrightarrow> 0 \<le> cap \<Longrightarrow>
    Register_conn False c (nd_users n) = (Inr (), m) \<Longrightarrow>
    gw_step wi n (n\<lparr>nd_users := m, nd_queue := (nd_queue n)(c := new_queue cap), nd_overRun := (nd_overRun n)(c := 0),
      nd_inflight := (nd_inflight n)(c := 0)\<rparr>)"
| admitted: "gw_step wi n (snd (admit wi opId allow now_ms begun c raw n))"
| answered: "gw_step wi n (handled c answer n)"
| sent: "gw_step wi n (snd (Send_frame c frame n))"
| pushed: "gw_step wi n (fanout wi opIds userId exceptConnId frame n)"
| kicked_off: "\<not> nd_closing n \<Longrightarrow> gw_step wi n (kick wi opIds False userId platformId keepTokenId n)"
| flushed: "gw_step wi n (closeAfterFlush c final n)"
| closed: "gw_step wi n (Close_client c n)"
| received: "q_writing (nd_queue n c) = None \<Longrightarrow> gw_step wi n (n\<lparr>nd_queue := (nd_queue n)(c := receive (nd_queue n c))\<rparr>)"
| written: "write_section (nd_queue n c) (nd_budget n) = (q, b) \<Longrightarrow>
    gw_step wi n (n\<lparr>nd_queue := (nd_queue n)(c := q), nd_budget := b\<rparr>)"
| subscribed: "setOnlineSubscriptions available c inp now (nd_subs n) = (x, p) \<Longrightarrow> gw_step wi n (n\<lparr>nd_subs := p\<rparr>)"
| marked: "gw_step wi n (n\<lparr>nd_subs := markOnlineChanged walk now userIds (nd_subs n)\<rparr>)"
| reading: "sp_due (nd_subs n) = a # rest \<Longrightarrow> sp_reads (nd_subs n) \<noteq> onlineRefreshWorkers \<Longrightarrow> gw_step wi n (n\<lparr>nd_subs := start_read a now (nd_subs n)\<rparr>)"
| refreshed: "job \<in> set (sp_jobs (nd_subs n)) \<Longrightarrow> finishOnlineRead job (r :: OnlineStatus_row list result) now (nd_subs n) = (y, p) \<Longrightarrow>
    gw_step wi n (n\<lparr>nd_subs := p\<rparr>)"
| stopped: "gw_step wi n (n\<lparr>nd_subs := stop_subs cs (nd_subs n)\<rparr>)"
| draining: "gw_step wi n (n\<lparr>nd_subs := (nd_subs n)\<lparr>sp_closing := True\<rparr>\<rparr>)"

definition new_node :: "LimitsConfig \<Rightarrow> int64 \<Rightarrow> Node" where
  "new_node limits byteCap = \<lparr>nd_limits = limits, nd_users = NewUserMap limits, nd_queue = (\<lambda>_. new_queue 0),
     nd_budget = newSendBudget byteCap, nd_subs = newOnlineSubscriptions, nd_closed = {}, nd_draining = {}, nd_flush = {},
     nd_overRun = (\<lambda>_. 0), nd_inflight = (\<lambda>_. 0), nd_fails = (\<lambda>_. 0)\<rparr>"

lemma empty_subs: "sp_ended newOnlineSubscriptions = {}"
  by (simp add: newOnlineSubscriptions_def)

lemma new_node_ok: "node_ok (new_node limits byteCap)"
  using new_run_ok
  by (simp add: run_ok_def node_ok_def node_inv_def runs_ok_def new_node_def own_conns_def conns_of_def NewUserMap_def queue_inv_def held_bytes_def
      new_queue_def overLimitCloseAt_def registered_def le_max_iff_disj empty_subs)

lemma set_subs_onlineSub:
  assumes "subs_ok p" "setOnlineSubscriptions available c inp now p = (x, p')"
  shows "sp_ended p' = sp_ended p \<and> (c \<in> sp_ended p \<longrightarrow> p' = p) \<and> (\<forall>d. d \<noteq> c \<longrightarrow> sp_onlineSub p' d = sp_onlineSub p d)"
proof (cases "p' = p")
  case False
  obtain a p1 where run: "client_sub c p = (a, p1)"
    by fastforce
  let ?ids = "subscription_ids (sq_UserIds inp)" and ?r = "sq_Revision inp"
  have p': "p' = replace_sub a ?r ?ids now p1" "c \<notin> sp_ended p"
    using assms(2) False run by (auto simp: setOnlineSubscriptions_def Let_def split: if_splits)
  have p1: "sp_ended p1 = sp_ended p" "sp_onlineSub p1 = sp_onlineSub p"
    using run by (auto simp: client_sub_def set_sub_def split: option.splits)
  have c: "sb_client (sub_at p1 a) = c"
  proof (cases "sp_onlineSub p c")
    case None
    then show ?thesis
      using run by (auto simp: client_sub_def set_sub_def sub_at_def new_subscription_def)
  next
    case (Some b)
    have "owner_ok {} p"
      using assms(1) by (simp add: subs_ok_def subs_inv_def)
    then show ?thesis
      using Some run unfolding owner_ok_def by (fastforce simp: client_sub_def sub_at_def)
  qed
  have rem: "sp_ended (remove_sub a p1) = sp_ended p1" "sp_onlineSub (remove_sub a p1) = sp_onlineSub p1"
      "sb_client (sub_at (remove_sub a p1) a) = sb_client (sub_at p1 a)"
    by (simp_all add: remove_sub_def Let_def set_sub_def sub_at_def)
  have att: "sp_ended (attach a now q) = sp_ended q \<and> sp_onlineSub (attach a now q) = sp_onlineSub q" for q
    by (simp add: attach_def mark_def requeue_def Let_def set_sub_def notify_head_def notify_def)
  have "sp_ended p' = sp_ended p1 \<and> sp_onlineSub p' = (sp_onlineSub p1)(c \<mapsto> a)"
    using rem att c by (simp add: p'(1) replace_sub_def Let_def set_sub_def)
  then show ?thesis
    using p1 p'(2) by simp
qed simp

lemma fanout_keeps: "node_ok n \<Longrightarrow> node_ok (fanout wi opId u ex frame n)"
  using fanout_ok [of "{}" n wi opId u ex frame] only_runs by (auto simp: node_ok_def)

lemma Close_client_keeps: "node_ok n \<Longrightarrow> node_ok (Close_client c n)"
  using Close_client_ok [of "{}" n c] only_runs by (auto simp: node_ok_def)

lemma kick_targets_runs: "kick_targets p k cs n = (ts, n') \<Longrightarrow> nd_overRun n' = nd_overRun n"
  by (induction cs arbitrary: n ts) (auto simp: beginDrain_def split: if_splits prod.splits)

lemma kick_keeps:
  assumes "node_ok n" "\<not> nd_closing n"
  shows "node_ok (kick wi opId False u p k n)"
proof -
  obtain ts n1 where run: "kick_targets p k (conns_of (nd_users n) u) n = (ts, n1)"
    by fastforce
  have inv: "node_inv {} n" "runs_ok n"
    using assms(1) by (simp_all add: node_ok_def)
  have t: "node_inv ({} \<union> set ts) n1" "distinct ts" "nd_draining n1 = nd_draining n \<union> set ts" "nd_closed n1 = nd_closed n"
    using kick_targets_ok [OF inv(1) run] by blast+
  have n1: "node_inv (set ts) n1" "runs_ok n1"
    using t(1,4) inv(2) kick_targets_runs [OF run] by (simp_all add: runs_ok_def)
  have ended: "set ts \<subseteq> sp_ended (nd_subs n1)"
    using n1(1) t(3) unfolding node_inv_def by blast
  have "kick wi opId False u p k n = fold (\<lambda>c. finishDrain c (Some (pushFrame wi (opId c) KickOnline (ReasonData ''new_login'')))) ts n1"
    using assms(2) run by (simp add: kick_def Get_conns_def)
  then show ?thesis
    using finishDrains_ok [OF n1(1) t(2) ended, of "\<lambda>c. Some (pushFrame wi (opId c) KickOnline (ReasonData ''new_login''))"]
      only_runs [OF _ n1(2)] by (simp add: node_ok_def) blast
qed

lemma queue_keeps: "node_ok n \<Longrightarrow> queue_inv q \<Longrightarrow> (q_closing (nd_queue n c) \<longrightarrow> q_closing q) \<Longrightarrow>
    node_ok (n\<lparr>nd_queue := (nd_queue n)(c := q), nd_budget := b\<rparr>)"
  by (auto simp: node_ok_def node_inv_def registered_def runs_ok_def)

lemma opened_keeps:
  assumes "node_ok n" "c \<notin> nd_closed n" "c \<notin> registered n" "0 \<le> cap" "Register_conn False c (nd_users n) = (Inr (), m)"
  shows "node_ok (n\<lparr>nd_users := m, nd_queue := (nd_queue n)(c := new_queue cap), nd_overRun := (nd_overRun n)(c := 0),
    nd_inflight := (nd_inflight n)(c := 0)\<rparr>)"
proof -
  have m: "conns_of m u = (if u = cl_UserId c then conns_of (nd_users n) u @ [c] else conns_of (nd_users n) u)" for u
    using assms(5)
    by (auto simp: Register_conn_def Reserve_def take_slot_def Adopt_def adopt_error_def conns_of_def split: if_splits option.splits)
  have "own_conns m"
    using assms(1,3) m by (auto simp: node_ok_def node_inv_def own_conns_def registered_def)
  moreover have "queue_inv (new_queue cap)"
    using assms(4) by (simp add: queue_inv_def held_bytes_def new_queue_def)
  ultimately show ?thesis
    using assms(1,2) m
    by (auto simp: node_ok_def node_inv_def runs_ok_def registered_def overLimitCloseAt_def le_max_iff_disj simp del: max.bounded_iff)
qed

lemma subscribed_keeps:
  assumes "node_ok n" "setOnlineSubscriptions available c inp now (nd_subs n) = (x, p)"
  shows "node_ok (n\<lparr>nd_subs := p\<rparr>)"
proof -
  have ok: "subs_ok (nd_subs n)" and sub: "\<forall>d \<in> sp_ended (nd_subs n). sp_onlineSub (nd_subs n) d = None"
    using assms(1) by (simp_all add: node_ok_def node_inv_def)
  have s: "sp_ended p = sp_ended (nd_subs n)" "c \<in> sp_ended (nd_subs n) \<longrightarrow> p = nd_subs n"
      "\<forall>d. d \<noteq> c \<longrightarrow> sp_onlineSub p d = sp_onlineSub (nd_subs n) d"
    using set_subs_onlineSub [OF ok assms(2)] by blast+
  have "sp_onlineSub p d = None" if "d \<in> sp_ended (nd_subs n)" for d
    using s sub that by (cases "d = c") auto
  then show ?thesis
    using assms(1) s(1) setOnlineSubscriptions_ok [OF ok assms(2)]
    by (simp add: node_ok_def node_inv_def runs_ok_def registered_def del: max.bounded_iff)
qed

text \<open>The steps of the refresh leave the connections and their subscriptions where they are.\<close>

definition outer :: "Subs \<Rightarrow> Client set \<times> (Client \<Rightarrow> nat option)" where
  "outer p = (sp_ended p, sp_onlineSub p)"

lemma outer_simps [simp]:
  "outer (set_sub a s p) = outer p" "outer (p\<lparr>sp_due := d\<rparr>) = outer p" "outer (p\<lparr>sp_seq := i\<rparr>) = outer p" "outer (p\<lparr>sp_jobs := js\<rparr>) = outer p"
  "outer (p\<lparr>sp_reads := k\<rparr>) = outer p" "outer (notify p) = outer p" "outer (notify_head a p) = outer p"
  by (simp_all add: outer_def set_sub_def notify_def notify_head_def)

lemma outer_mark [simp]: "outer (requeue a t p) = outer p" "outer (mark a now p) = outer p"
  by (simp_all add: requeue_def mark_def Let_def)

lemma outer_mark_user [simp]: "outer (mark_user walk now u p) = outer p"
proof -
  have "outer (fold (\<lambda>c p. case sp_active p c of None \<Rightarrow> p | Some a \<Rightarrow> mark a now p) cs p) = outer p" for cs
    by (induction cs arbitrary: p) (simp_all split: option.split)
  then show ?thesis
    by (simp add: mark_user_def split: option.split)
qed

lemma outer_refresh:
  "outer (markOnlineChanged walk now us p) = outer p" "outer (start_read a now p) = outer p" "outer (snd (finishOnlineRead job r now p)) = outer p"
proof -
  have "outer (fold (mark_user walk now) us p) = outer p"
    by (induction us arbitrary: p) simp_all
  then show "outer (markOnlineChanged walk now us p) = outer p"
    by (simp add: markOnlineChanged_def)
  show "outer (start_read a now p) = outer p"
    by (simp add: start_read_def Let_def)
  have "outer (snd (finish_current job r now p)) = outer p" for p
    by (simp add: finish_current_def Let_def split: sum.split)
  then show "outer (snd (finishOnlineRead job r now p)) = outer p"
    by (simp add: finishOnlineRead_def Let_def split: prod.splits) (metis outer_simps(1,4) snd_conv)
qed

lemma stop_subs_outer: "sp_ended (stop_subs cs p) = sp_ended p \<and> (\<forall>c. sp_onlineSub p c = None \<longrightarrow> sp_onlineSub (stop_subs cs p) c = None)"
proof -
  let ?f = "\<lambda>c p. case sp_active p c of None \<Rightarrow> p | Some a \<Rightarrow> (remove_sub a p)\<lparr>sp_onlineSub := (sp_onlineSub p)(c := None)\<rparr>"
  have "sp_ended (fold ?f cs p) = sp_ended p \<and> (\<forall>c. sp_onlineSub p c = None \<longrightarrow> sp_onlineSub (fold ?f cs p) c = None)" for p
  proof (induction cs arbitrary: p)
    case (Cons c cs)
    have "sp_ended (?f c p) = sp_ended p \<and> (\<forall>d. sp_onlineSub p d = None \<longrightarrow> sp_onlineSub (?f c p) d = None)"
      by (simp add: remove_sub_def Let_def set_sub_def split: option.split)
    then show ?case
      using Cons.IH [of "?f c p"] by simp
  qed simp
  from this [of "p\<lparr>sp_stopped := True\<rparr>"] show ?thesis
    by (simp add: stop_subs_def)
qed

lemma subs_keeps:
  assumes "node_ok n" "subs_ok p" "sp_ended p = sp_ended (nd_subs n)" "\<forall>c. sp_onlineSub (nd_subs n) c = None \<longrightarrow> sp_onlineSub p c = None"
  shows "node_ok (n\<lparr>nd_subs := p\<rparr>)"
  using assms by (simp add: node_ok_def node_inv_def runs_ok_def registered_def del: max.bounded_iff)

lemma refresh_keeps: "node_ok n \<Longrightarrow> subs_ok p \<Longrightarrow> outer p = outer (nd_subs n) \<Longrightarrow> node_ok (n\<lparr>nd_subs := p\<rparr>)"
  by (rule subs_keeps) (simp_all add: outer_def)

lemma node_subs_ok: "node_ok n \<Longrightarrow> subs_ok (nd_subs n)"
  by (simp add: node_ok_def node_inv_def)

lemma gw_step_ok: "gw_step wi n n' \<Longrightarrow> node_ok n \<Longrightarrow> node_ok n'"
proof (induction rule: gw_step.induct)
  case (opened c n cap m)
  then show ?case
    by (intro opened_keeps)
next
  case (received n c)
  have "queue_inv (nd_queue n c)"
    using received.prems by (simp add: node_ok_def node_inv_def)
  then show ?case
    using queue_keeps [OF received.prems receive_inv(1), of "nd_queue n c" c "nd_budget n"] received.hyps
    by (simp add: receive_def split: list.splits)
next
  case (written n c q b)
  have "queue_inv (nd_queue n c)"
    using written.prems by (simp add: node_ok_def node_inv_def)
  moreover have "q_closing q = q_closing (nd_queue n c)"
    using written.hyps by (auto simp: write_section_def write_queue_def split: option.splits if_splits)
  ultimately show ?case
    using queue_keeps [OF written.prems write_section_inv(1) [OF written.hyps]] by simp
next
  case (marked n walk now userIds)
  then show ?case
    by (intro refresh_keeps markOnlineChanged_ok node_subs_ok outer_refresh(1))
next
  case (reading n a rest now)
  then show ?case
    by (intro refresh_keeps start_read_ok(1) node_subs_ok outer_refresh(2))
next
  case (refreshed job n r now y p)
  then show ?case
    using finishOnlineRead_ok [OF node_subs_ok [OF refreshed.prems] refreshed.hyps(1), of r now] outer_refresh(3) [of job r now "nd_subs n"]
    by (intro refresh_keeps) simp_all
next
  case (stopped n cs)
  then show ?case
    using stop_subs_outer [of cs "nd_subs n"] by (intro subs_keeps stop_subs_ok(1) node_subs_ok) simp_all
next
  case (draining n)
  have "subs_ok ((nd_subs n)\<lparr>sp_closing := True\<rparr>)"
    by (rule flags_ok [of "nd_subs n"]) (use draining in \<open>simp_all add: node_ok_def node_inv_def\<close>)
  then show ?case
    using draining by (simp add: node_ok_def node_inv_def runs_ok_def registered_def del: max.bounded_iff)
qed (rule admit_keeps handled_keeps Send_frame_keeps fanout_keeps kick_keeps closeAfterFlush_keeps Close_client_keeps subscribed_keeps; assumption)+

lemma gw_steps_ok: "(gw_step wi)\<^sup>*\<^sup>* n n' \<Longrightarrow> node_ok n \<Longrightarrow> node_ok n'"
  by (induction rule: rtranclp_induct) (auto intro: gw_step_ok)

lemma kick_drains:
  assumes "node_inv {} n" "\<not> nd_closing n" "c \<in> set (conns_of (nd_users n) u)" "kicked p k c"
  shows "c \<in> nd_draining (kick wi opId False u p k n)"
proof -
  have "own_conns (nd_users n)"
    using assms(1) by (simp add: node_inv_def)
  then have "c \<in> registered n"
    using assms(3) own_conns_of [of "nd_users n" c u] unfolding registered_def by blast
  then have "c \<notin> nd_closed n"
    using assms(1) by (auto simp: node_inv_def)
  then show ?thesis
    using kick_ok [OF assms(1,2), where u = u and p = p and k = k and wi = wi and opId = opId] assms(3,4) by blast
qed

section \<open>Properties\<close>

definition demo_wire :: Wire where
  "demo_wire = \<lparr>wi_push = (\<lambda>p. ''push'' @ pu_OpId p), wi_fail = (\<lambda>r. ''fail'' @ rs_OpId r),
     wi_request = (\<lambda>raw. (\<lparr>rq_ReqId = 1001, rq_OpId = raw, rq_MsgIncr = [], rq_Data = []\<rparr>, None))\<rparr>"

definition demo_node :: Node where
  "demo_node = (let n = new_node demo_limits 1000; c = demo_client ''c1'' in
     n\<lparr>nd_users := snd (Register_conn False c (nd_users n)), nd_queue := (nd_queue n)(c := new_queue 4),
       nd_overRun := (nd_overRun n)(c := 0), nd_inflight := (nd_inflight n)(c := 0)\<rparr>)"

lemma demo_node_run: "(gw_step demo_wire)\<^sup>*\<^sup>* (new_node demo_limits 1000) demo_node"
proof -
  have "fst (Register_conn False (demo_client ''c1'') (nd_users (new_node demo_limits 1000))) = Inr ()"
    by code_simp
  then have "Register_conn False (demo_client ''c1'') (nd_users (new_node demo_limits 1000)) =
      (Inr (), snd (Register_conn False (demo_client ''c1'') (nd_users (new_node demo_limits 1000))))"
    by (simp add: prod_eq_iff)
  then have "gw_step demo_wire (new_node demo_limits 1000) demo_node"
    unfolding demo_node_def Let_def
    by (rule gw_step.opened [rotated 5]) (simp_all add: new_node_def empty_subs registered_def conns_of_def NewUserMap_def)
  then show ?thesis
    by blast
qed

text \<open>C33: a kick on a node that is not shutting down reaches exactly the user's connections of that
  platform that hold another token: each of them is draining, watches nobody and gets no request
  admitted any more, while every other connection keeps its place, its queue and its state.\<close>

theorem kick_reaches:
  assumes "(gw_step wi)\<^sup>*\<^sup>* (new_node limits byteCap) n" "\<not> nd_closing n"
  shows "let n' = kick wi opId False userId platformId keepTokenId n in
    (\<forall>c \<in> set (conns_of (nd_users n) userId). kicked platformId keepTokenId c \<longrightarrow>
       c \<in> nd_draining n' \<and> sp_onlineSub (nd_subs n') c = None \<and>
       fst (admit wi op allow now_ms begun c raw n') = (False, None)) \<and>
    (\<forall>c. c \<notin> set (conns_of (nd_users n) userId) \<or> \<not> kicked platformId keepTokenId c \<longrightarrow>
       nd_queue n' c = nd_queue n c \<and> (c \<in> registered n' \<longleftrightarrow> c \<in> registered n) \<and> (c \<in> nd_draining n' \<longleftrightarrow> c \<in> nd_draining n))"
proof -
  let ?n' = "kick wi opId False userId platformId keepTokenId n"
  have ok: "node_inv {} n"
    using gw_steps_ok [OF assms(1) new_node_ok] by (simp add: node_ok_def)
  have k: "node_inv {} ?n'" "nd_draining ?n' = nd_draining n \<union> ({c \<in> set (conns_of (nd_users n) userId). kicked platformId keepTokenId c} - nd_closed n - nd_draining n)"
      "\<And>c. c \<notin> {c \<in> set (conns_of (nd_users n) userId). kicked platformId keepTokenId c} - nd_closed n - nd_draining n \<Longrightarrow>
        nd_queue ?n' c = nd_queue n c \<and> (c \<in> registered ?n' \<longleftrightarrow> c \<in> registered n)"
    using kick_ok [OF ok assms(2), where u = userId and p = platformId and k = keepTokenId and wi = wi and opId = opId] by blast+
  have "c \<in> nd_draining ?n' \<and> sp_onlineSub (nd_subs ?n') c = None \<and> fst (admit wi op allow now_ms begun c raw ?n') = (False, None)"
    if c: "c \<in> set (conns_of (nd_users n) userId)" "kicked platformId keepTokenId c" for c
  proof -
    have d: "c \<in> nd_draining ?n'"
      by (rule kick_drains [OF ok assms(2) c])
    then have "sp_onlineSub (nd_subs ?n') c = None"
      using k(1) by (simp add: node_inv_def)
    then show ?thesis
      using d by (simp add: admit_def)
  qed
  then show ?thesis
    using k(2,3) unfolding Let_def by blast
qed

theorem kick_reaches_witness: "demo_client ''c1'' \<in> nd_draining (kick demo_wire (\<lambda>_. ''op'') False ''u___1'' 1 ''t2'' demo_node)"
proof -
  have "\<not> nd_closing demo_node" "demo_client ''c1'' \<in> set (conns_of (nd_users demo_node) ''u___1'')" "kicked 1 ''t2'' (demo_client ''c1'')"
    by code_simp+
  then show ?thesis
    using kick_reaches [OF demo_node_run, of "\<lambda>_. ''op''" "''u___1''" 1 "''t2''"] unfolding Let_def by blast
qed

text \<open>C34: a handler is started only on a live connection whose token has not expired, and never for
  more requests at once than the connection may have; and an open connection has had fewer than
  three frames in a row over its limits, as the third closes it.\<close>

theorem admission_bounded:
  assumes "(gw_step wi)\<^sup>*\<^sup>* (new_node limits byteCap) n" "admit wi op allow now_ms begun c raw n = ((on, r), n')"
  shows "(r = None \<or> c \<notin> nd_draining n \<and> c \<notin> nd_closed n \<and> allow \<and>
      (id_ExpiresAt (cl_Identity c) \<le> 0 \<or> now_ms \<le> id_ExpiresAt (cl_Identity c)) \<and> nd_inflight n' c = nd_inflight n c + 1) \<and>
    nd_inflight n' c \<le> max (WsInflightPerConn (nd_limits n')) 1 \<and> (c \<in> nd_closed n' \<or> nd_overRun n' c < 3)"
proof -
  have "node_ok n'"
    using admit_keeps [OF gw_steps_ok [OF assms(1) new_node_ok], of wi op allow now_ms begun c raw] assms(2) by simp
  then have "nd_inflight n' c \<le> max (WsInflightPerConn (nd_limits n')) 1 \<and> (c \<in> nd_closed n' \<or> nd_overRun n' c < 3)"
    by (auto simp: node_ok_def node_inv_def runs_ok_def overLimitCloseAt_def simp del: max.bounded_iff)
  moreover have "r = None \<or> c \<notin> nd_draining n \<and> c \<notin> nd_closed n \<and> allow \<and>
      (id_ExpiresAt (cl_Identity c) \<le> 0 \<or> now_ms \<le> id_ExpiresAt (cl_Identity c)) \<and> nd_inflight n' c = nd_inflight n c + 1"
    using assms(2)
    by (auto simp: admit_def Let_def map_prod_def split: if_splits prod.splits option.splits simp del: max.bounded_iff)
  ultimately show ?thesis
    by blast
qed

theorem admission_bounded_witness:
  "nd_inflight (snd (admit demo_wire ''op'' True 0 True (demo_client ''c1'') ''raw'' demo_node)) (demo_client ''c1'') = 1"
proof -
  let ?run = "admit demo_wire ''op'' True 0 True (demo_client ''c1'') ''raw'' demo_node"
  have "snd (fst ?run) \<noteq> None" "nd_inflight demo_node (demo_client ''c1'') = 0"
    by code_simp+
  moreover have "?run = ((fst (fst ?run), snd (fst ?run)), snd ?run)"
    by simp
  ultimately show ?thesis
    using admission_bounded [OF demo_node_run] by fastforce
qed

text \<open>The tick at which a token is given up, for a connection whose token has not expired.\<close>

definition unavailable :: "unit result \<Rightarrow> bool" where
  "unavailable r \<longleftrightarrow> (\<exists>e. r = Inl e \<and> errors_Is e (Sentinel auth_ErrUnavailable))"

definition refused :: "unit result \<Rightarrow> bool" where
  "refused r \<longleftrightarrow> isl r \<and> \<not> unavailable r"

definition dead_at :: "int \<Rightarrow> unit result list \<Rightarrow> nat \<Rightarrow> bool" where
  "dead_at fails rs k \<longleftrightarrow> k < length rs \<and>
     (refused (rs ! k) \<or> int k + fails \<ge> 2 \<and> (\<forall>j \<le> k. k < j + 3 \<longrightarrow> unavailable (rs ! j)))"

lemma all_le_Suc: "(\<forall>j \<le> Suc k. P j) \<longleftrightarrow> P 0 \<and> (\<forall>j \<le> k. P (Suc j))"
  by (metis Suc_le_mono le0 not0_implies_Suc)

lemma dead_at_Suc:
  assumes "\<not> refused r" "0 \<le> fails"
  shows "dead_at fails (r # rs) (Suc k) \<longleftrightarrow> dead_at (if unavailable r then fails + 1 else 0) rs k"
proof -
  have all: "(\<forall>j \<le> Suc k. Suc k < j + 3 \<longrightarrow> unavailable ((r # rs) ! j)) \<longleftrightarrow>
      (k < 2 \<longrightarrow> unavailable r) \<and> (\<forall>j \<le> k. k < j + 3 \<longrightarrow> unavailable (rs ! j))"
    unfolding all_le_Suc by auto
  show ?thesis
    unfolding dead_at_def all using assms by auto
qed

definition native_ticks :: "int64 \<Rightarrow> unit result list \<Rightarrow> (int64 \<times> unit result option \<times> bool) list" where
  "native_ticks now_ms rs = map (\<lambda>r. (now_ms, Some r, False)) rs"

lemma recheck_ticks_dead:
  assumes "id_Source i = SourceNative" "id_ExpiresAt i \<le> 0 \<or> now_ms \<le> id_ExpiresAt i" "0 \<le> fails" "fails < 3"
  shows "recheck_ticks i (native_ticks now_ms rs) fails = Some k \<longleftrightarrow> dead_at fails rs k \<and> (\<forall>j < k. \<not> dead_at fails rs j)"
  using assms(3,4)
proof (induction rs arbitrary: fails k)
  case Nil
  then show ?case
    by (simp add: native_ticks_def dead_at_def)
next
  case (Cons r rs)
  let ?f = "if unavailable r then fails + 1 else 0"
  have zero: "dead_at fails (r # rs) 0 \<longleftrightarrow> refused r \<or> fails = 2 \<and> unavailable r"
    using Cons.prems by (auto simp: dead_at_def)
  have step: "recheck_ticks i (native_ticks now_ms (r # rs)) fails =
      (if dead_at fails (r # rs) 0 then Some 0 else map_option Suc (recheck_ticks i (native_ticks now_ms rs) ?f))"
    using assms(1,2) Cons.prems unfolding zero
    by (auto simp: native_ticks_def tokenDead_def recheckFailLimit_def refused_def unavailable_def split: sum.splits)
  show ?case
  proof (cases "dead_at fails (r # rs) 0")
    case True
    then show ?thesis
      unfolding step by (cases k) auto
  next
    case False
    then have "\<not> refused r" "0 \<le> ?f" "?f < 3"
      using zero Cons.prems by (auto simp: dead_at_def)
    note IH = Cons.IH [OF this(2,3)] and suc = dead_at_Suc [OF this(1) Cons.prems(1), of rs]
    show ?thesis
    proof (cases k)
      case 0
      then show ?thesis
        using False unfolding step by auto
    next
      case (Suc m)
      have "(\<forall>j < Suc m. \<not> dead_at fails (r # rs) j) \<longleftrightarrow> (\<forall>j < m. \<not> dead_at ?f rs j)"
        using False suc by (simp add: All_less_Suc2)
      then show ?thesis
        using IH [of m] suc [of m] False Suc unfolding step by simp
    qed
  qed
qed

text \<open>C35: the token of a native connection is rechecked at every tick, and the connection is given up
  at the first tick at which the token is refused or the store has been unreachable for three
  ticks in a row: two unreachable ticks are tolerated, and an answer starts the count again.\<close>

theorem recheck_gives_up:
  assumes "id_Source i = SourceNative" "id_ExpiresAt i \<le> 0 \<or> now_ms \<le> id_ExpiresAt i"
  shows "recheck_ticks i (native_ticks now_ms rs) 0 = Some k \<longleftrightarrow>
    k < length rs \<and> (refused (rs ! k) \<or> 2 \<le> k \<and> unavailable (rs ! k) \<and> unavailable (rs ! (k - 1)) \<and> unavailable (rs ! (k - 2))) \<and>
    (\<forall>j < k. \<not> refused (rs ! j) \<and> \<not> (2 \<le> j \<and> unavailable (rs ! j) \<and> unavailable (rs ! (j - 1)) \<and> unavailable (rs ! (j - 2))))"
proof -
  define out where "out m \<longleftrightarrow> 2 \<le> m \<and> unavailable (rs ! m) \<and> unavailable (rs ! (m - 1)) \<and> unavailable (rs ! (m - 2))" for m
  have "dead_at 0 rs m \<longleftrightarrow> m < length rs \<and> (refused (rs ! m) \<or> out m)" for m
  proof -
    have "(\<forall>j \<le> m. m < j + 3 \<longrightarrow> P j) \<longleftrightarrow> P m \<and> P (m - 1) \<and> P (m - 2)" if m: "2 \<le> m" for P
    proof -
      have "{j. j \<le> m \<and> m < j + 3} = {m, m - 1, m - 2}"
        using m by auto
      then have "(\<forall>j \<in> {j. j \<le> m \<and> m < j + 3}. P j) \<longleftrightarrow> P m \<and> P (m - 1) \<and> P (m - 2)"
        by simp
      then show ?thesis
        unfolding mem_Collect_eq Ball_def by blast
    qed
    from this [of "\<lambda>j. unavailable (rs ! j)"] show ?thesis
      unfolding dead_at_def out_def by auto
  qed
  then show ?thesis
    unfolding recheck_ticks_dead [OF assms order_refl zero_less_numeral] out_def [symmetric] using less_trans by blast
qed

theorem recheck_gives_up_witness:
  "recheck_ticks \<lparr>id_UserId = ''nx__a'', id_Role = ''user'', id_PlatformId = 1, id_TokenId = ''t1'', id_ExpiresAt = 0, id_Source = SourceNative\<rparr>
     (native_ticks 7 [Inl (Sentinel auth_ErrUnavailable), Inl (Sentinel auth_ErrUnavailable), Inl (Sentinel auth_ErrUnavailable)]) 0 = Some 2"
proof -
  have u: "unavailable (Inl (Sentinel auth_ErrUnavailable))" "\<not> refused (Inl (Sentinel auth_ErrUnavailable))"
    by (simp_all add: unavailable_def refused_def)
  have two: "j < 2 \<longleftrightarrow> j = 0 \<or> j = 1" for j :: nat
    by linarith
  show ?thesis
    by (subst recheck_gives_up) (use u in \<open>auto simp: two\<close>)
qed

end
