(* ===== verification/Delivery.thy ===== *)
theory Delivery
  imports Gateway GroupFacts Demo
begin

text \<open>
  \<^verbatim>\<open>Deliver\<close> on the PostgreSQL store: who gets a pushed message.
\<close>

lemma pg_statements:
  assumes "others mm Rl"
  shows "store_statements (pg_store :: (Pg, 'c) StoreTx) (pg_I Rl) pg_T pg_H Rl"
  using nexo_store.axioms(1) [OF pg_nexo_store [OF assms]] store_tx.axioms(1) by blast

lemma Recipients_pg:
  assumes "others mm Rl" "pg_I Rl d"
    and "run_state (Recipients (pg_store :: (Pg, 'c) StoreTx) ev now1 now2 now3) (d, w) = (r, d1, w1)"
  shows "pg_I Rl d1 \<and> Rl (pg_T d) (pg_T d1) \<and> (pg_H d \<longrightarrow> pg_H d1 \<and> \<not> isl r)"
proof -
  have refl: "Rl t t" for t
    using assms(1) by (simp add: others_def reflp_def)
  note ok = store_statements.ListGroupMembers_ok [OF pg_statements [where 'c = 'c, OF assms(1)]]
  have list: "pg_I Rl d2 \<and> Rl (pg_T d) (pg_T d2) \<and> (pg_H d \<longrightarrow> pg_H d2 \<and> \<not> isl ms)"
    if run: "run_state (ListGroupMembers (pg_store :: (Pg, 'c) StoreTx) g) d = (ms, d2)" for g ms d2
    using op_okD [OF ok assms(2) run] by (auto simp: ListGroupMembers_spec_def)
  have healthy: "\<not> pg_H d" if "run_state (ListGroupMembers (pg_store :: (Pg, 'c) StoreTx) g) d = (Inl e, d2)" for g e d2
    using list [OF that] by simp
  show ?thesis
    using assms(2,3) refl list healthy
    by (auto simp: Recipients_def split: if_splits option.splits prod.splits sum.splits)
qed

text \<open>The users who can see a message in the tables.\<close>

definition can_see :: "Tables \<Rightarrow> PushEvent \<Rightarrow> string \<Rightarrow> bool" where
  "can_see t ev u \<longleftrightarrow> (\<exists>uc. uconvs t (u, pe_ConversationId ev) = Some uc \<and> covers uc (dm_Seq (pe_Message ev)))"

lemma VisibleTo_pg:
  assumes "others mm Rl" "pg_I Rl d"
    and "run_state (VisibleTo (pg_store :: (Pg, 'c) StoreTx) (pe_ConversationId ev) us (dm_Seq (pe_Message ev))) d = (r, d')"
  shows "\<exists>t. Rl (pg_T d) t \<and> (\<forall>xs. r = Inr xs \<longrightarrow> distinct xs \<and> set xs = {u \<in> set us. can_see t ev u}) \<and> (pg_H d \<longrightarrow> \<not> isl r)"
proof -
  note ok = store_statements.VisibleOwners_ok [OF pg_statements [where 'c = 'c, OF assms(1)]]
  obtain r0 where run: "run_state (VisibleOwners (pg_store :: (Pg, 'c) StoreTx) (pe_ConversationId ev) us (dm_Seq (pe_Message ev))) d = (r0, d')"
      and r: "r = (case r0 of Inl e \<Rightarrow> Inl (store_failed e) | Inr ids \<Rightarrow> Inr ids)"
    using assms(3) by (auto simp: VisibleTo_def split: prod.splits)
  show ?thesis
    using op_okD(3) [OF ok assms(2) run] unfolding r by (auto simp: VisibleOwners_spec_def can_see_def)
qed

lemma OnlineExcept_conn:
  assumes "c \<in> set (conns_of m u)" "cl_Id c \<noteq> ex" "u \<in> set us"
  shows "u \<in> set (OnlineExcept us ex m)"
  using assms by (cases "conns_of m u"; cases "tl (conns_of m u)") (auto simp: OnlineExcept_def Let_def)

lemma Deliver_pg:
  assumes "node_inv {} n" "others mm Rl" "pg_I Rl d"
    and "run_state (Recipients (pg_store :: (Pg, 'c) StoreTx) ev now1 now2 now3) (d, w) = (cands, d1, w1)"
    and "Deliver (pg_store :: (Pg, 'c) StoreTx) wi opId op ev now1 now2 now3 (d, w) n = (s', n')"
  shows "\<exists>t. Rl (pg_T d) t \<and>
    (\<forall>c. nd_queue n' c \<noteq> nd_queue n c \<longrightarrow> c \<in> registered n \<and> cl_Id c \<noteq> pe_SenderConnId ev \<and> can_see t ev (cl_UserId c)) \<and>
    (\<forall>us c. pg_H d \<longrightarrow> cands = Inr us \<longrightarrow> c \<in> registered n \<longrightarrow> cl_Id c \<noteq> pe_SenderConnId ev \<longrightarrow> cl_UserId c \<in> set us \<longrightarrow>
       can_see t ev (cl_UserId c) \<longrightarrow>
       takes c {pushFrame wi op PushMsg (MsgData (pe_Message ev)), over_cap_frame wi (opId c)} n n')"
proof -
  let ?ex = "pe_SenderConnId ev" and ?frame = "pushFrame wi op PushMsg (MsgData (pe_Message ev))"
  have Rl: "Rl t t" "Rl t1 t2 \<Longrightarrow> Rl t2 t3 \<Longrightarrow> Rl t1 t3" for t t1 t2 t3
    using assms(2) by (auto simp: others_def reflp_def transp_def)
  note rec = Recipients_pg [OF assms(2-4)]
  show ?thesis
  proof (cases cands)
    case (Inl e)
    then have "n' = n"
      using assms(4,5) by (simp add: Deliver_def)
    then show ?thesis
      using Inl Rl(1) by auto
  next
    case (Inr us)
    let ?l = "OnlineExcept us ?ex (nd_users n)"
    show ?thesis
    proof (cases "?l = []")
      case True
      then have "n' = n"
        using assms(4,5) Inr by (simp add: Deliver_def Let_def)
      moreover have "\<not> (c \<in> registered n \<and> cl_Id c \<noteq> ?ex \<and> cl_UserId c \<in> set us)" for c
        using OnlineExcept_conn [of c "nd_users n" "cl_UserId c" ?ex us] True by (auto simp: registered_def)
      ultimately show ?thesis
        using Inr Rl(1) by auto
    next
      case False
      obtain r d2 where vis: "run_state (VisibleTo (pg_store :: (Pg, 'c) StoreTx) (pe_ConversationId ev) ?l (dm_Seq (pe_Message ev))) d1 = (r, d2)"
        by fastforce
      obtain t where t: "Rl (pg_T d1) t" "\<And>xs. r = Inr xs \<Longrightarrow> distinct xs \<and> set xs = {u \<in> set ?l. can_see t ev u}"
          "pg_H d1 \<longrightarrow> \<not> isl r"
        using VisibleTo_pg [OF assms(2) _ vis] rec by blast
      have Rt: "Rl (pg_T d) t"
        using rec t(1) Rl(2) by blast
      show ?thesis
      proof (cases r)
        case (Inl e)
        then have "n' = n" "\<not> pg_H d"
          using assms(4,5) Inr False vis t(3) rec by (auto simp: Deliver_def Let_def)
        then show ?thesis
          using Rt by auto
      next
        case targets: (Inr xs)
        then have n': "n' = fold (\<lambda>u. fanout wi opId u ?ex ?frame) xs n"
          using assms(4,5) Inr False vis by (simp add: Deliver_def Let_def)
        have xs: "distinct xs" "set xs = {u \<in> set ?l. can_see t ev u}"
          using t(2) [OF targets] by blast+
        have f: "only (push_targets n (set xs) ?ex) n n'"
            "\<And>c. c \<in> push_targets n (set xs) ?ex \<Longrightarrow> takes c {?frame, over_cap_frame wi (opId c)} n n'"
          using fanouts_ok [OF assms(1) xs(1), of wi opId ?ex ?frame] unfolding n' by blast+
        have "c \<in> registered n \<and> cl_Id c \<noteq> ?ex \<and> can_see t ev (cl_UserId c)" if "nd_queue n' c \<noteq> nd_queue n c" for c
        proof -
          have "c \<in> push_targets n (set xs) ?ex"
            using f(1) that unfolding only_def by blast
          then show ?thesis
            using xs(2) by (simp add: push_targets_def)
        qed
        moreover have "takes c {?frame, over_cap_frame wi (opId c)} n n'"
          if "c \<in> registered n" "cl_Id c \<noteq> ?ex" "cl_UserId c \<in> set us" "can_see t ev (cl_UserId c)" for c
        proof (rule f(2))
          have "cl_UserId c \<in> set ?l"
            using OnlineExcept_conn [of c "nd_users n" "cl_UserId c" ?ex us] that by (simp add: registered_def)
          then show "c \<in> push_targets n (set xs) ?ex"
            using that xs(2) by (simp add: push_targets_def)
        qed
        ultimately show ?thesis
          using Rt Inr by (intro exI [of _ t]) auto
      qed
    qed
  qed
qed

text \<open>C32: a push reaches only live connections of users who can see the message at the time it is
  checked, and never the connection that sent it. When the store answers, every other connection
  of every recipient who can see it gets the frame, or a resync when the node is over its byte cap,
  or is closed as too slow.\<close>

theorem deliver_private:
  assumes "(gw_step wi)\<^sup>*\<^sup>* (new_node limits byteCap) n" "pg_ready mm Rl d"
    and "run_state (Recipients (pg_store :: (Pg, 'c) StoreTx) ev now1 now2 now3) (d, w) = (cands, d1, w1)"
    and "Deliver (pg_store :: (Pg, 'c) StoreTx) wi opId op ev now1 now2 now3 (d, w) n = (s', n')"
  shows "\<exists>t. Rl (pg_T d) t \<and>
    (\<forall>c. nd_queue n' c \<noteq> nd_queue n c \<longrightarrow> c \<in> registered n \<and> cl_Id c \<noteq> pe_SenderConnId ev \<and> can_see t ev (cl_UserId c)) \<and>
    (\<forall>us c. pg_H d \<longrightarrow> cands = Inr us \<longrightarrow> c \<in> registered n \<longrightarrow> cl_Id c \<noteq> pe_SenderConnId ev \<longrightarrow> cl_UserId c \<in> set us \<longrightarrow>
       can_see t ev (cl_UserId c) \<longrightarrow>
       takes c {pushFrame wi op PushMsg (MsgData (pe_Message ev)), over_cap_frame wi (opId c)} n n')"
proof -
  have "node_inv {} n"
    using gw_steps_ok [OF assms(1) new_node_ok] by (simp add: node_ok_def)
  from Deliver_pg [OF this pg_readyD(1,2) [OF assms(2)] assms(3,4)] show ?thesis .
qed

text \<open>The message sent in the demo, pushed to the sender's own other connection.\<close>

definition demo_event :: PushEvent where
  "demo_event = \<lparr>pe_ConversationId = ''si_u___1:u___2'', pe_SessionType = ConversationSingle, pe_SenderId = ''u___1'',
     pe_SenderConnId = ''c9'', pe_RecvId = ''u___2'', pe_GroupId = [],
     pe_Message = MessageFromStore (hd (t_messages (pg_rows demo_sent)))\<rparr>"

definition demo_delivered :: "(Pg \<times> unit MsgState) \<times> Node" where
  "demo_delivered = Deliver (pg_store :: (Pg, unit) StoreTx) demo_wire (\<lambda>_. ''op'') ''op'' demo_event 0 0 0 (demo_sent, demo_sent_w) demo_node"

theorem deliver_private_witness:
  "nd_queue (snd demo_delivered) (demo_client ''c1'') \<noteq> nd_queue demo_node (demo_client ''c1'') \<and> can_see (pg_T demo_sent) demo_event ''u___1''"
proof -
  let ?r = "run_state (Recipients (pg_store :: (Pg, unit) StoreTx) demo_event 0 0 0) (demo_sent, demo_sent_w)"
  have "q_send (nd_queue (snd demo_delivered) (demo_client ''c1'')) \<noteq> q_send (nd_queue demo_node (demo_client ''c1''))"
    by code_simp
  then have changed: "nd_queue (snd demo_delivered) (demo_client ''c1'') \<noteq> nd_queue demo_node (demo_client ''c1'')"
    by metis
  have "?r = (fst ?r, fst (snd ?r), snd (snd ?r))" "Deliver (pg_store :: (Pg, unit) StoreTx) demo_wire (\<lambda>_. ''op'') ''op'' demo_event 0 0 0
      (demo_sent, demo_sent_w) demo_node = (fst demo_delivered, snd demo_delivered)"
    by (simp_all add: demo_delivered_def)
  from deliver_private [OF demo_node_run demo_sent_ready [OF others_none] this] show ?thesis
    using changed by (auto simp: demo_client_def cl_UserId_def)
qed

end
