(* ===== verification/BusEvents.thy ===== *)
theory BusEvents
  imports Gateway OnlineStore "HOL-Library.Word" "HOL-Library.Sublist"
begin

text \<open>
  \<^verbatim>\<open>internal/gateway/push.go\<close>: the shards that keep the pushes of a conversation in order. A run
  interleaves the arrivals of events, in the order of the bus, with the workers of the shards.
\<close>

unbundle bit_operations_syntax

section \<open>Shards\<close>

text \<open>\<^verbatim>\<open>hash/fnv\<close>: the 32-bit FNV-1a of the key's bytes.\<close>

definition fnv32a :: "string \<Rightarrow> 32 word" where
  "fnv32a key = fold (\<lambda>c h. (h XOR of_char c) * 16777619) key 2166136261"

definition shardOf :: "string \<Rightarrow> nat \<Rightarrow> nat" where
  "shardOf key n = unat (fnv32a key mod word_of_nat n)"

text \<open>The channels of the shards with their capacity, and the count of dropped events.\<close>

record Shards =
  sh_deliver :: "PushPayload list list"
  sh_cap :: nat
  sh_dropped :: int64

definition enqueuePush :: "PushPayload \<Rightarrow> Shards \<Rightarrow> Shards" where
  "enqueuePush p s =
     (let i = shardOf (pp_ConversationId p) (length (sh_deliver s)); ch = sh_deliver s ! i in
      if length ch < sh_cap s then s\<lparr>sh_deliver := (sh_deliver s)[i := ch @ [p]]\<rparr>
      else s\<lparr>sh_dropped := sh_dropped s + 1\<rparr>)"

text \<open>Events arrive in the order of the list \<^verbatim>\<open>arrived\<close>, and the worker of a shard takes its oldest; \<^verbatim>\<open>taken\<close>
  is the order in which workers take them.\<close>

inductive push_run :: "nat \<Rightarrow> nat \<Rightarrow> PushPayload list \<Rightarrow> PushPayload list \<Rightarrow> Shards \<Rightarrow> bool" for n cap where
  start: "push_run n cap [] [] \<lparr>sh_deliver = replicate n [], sh_cap = cap, sh_dropped = 0\<rparr>"
| arrive: "push_run n cap arrived taken s \<Longrightarrow> push_run n cap (arrived @ [p]) taken (enqueuePush p s)"
| take: "push_run n cap arrived taken s \<Longrightarrow> i < length (sh_deliver s) \<Longrightarrow> sh_deliver s ! i = p # rest \<Longrightarrow>
    push_run n cap arrived (taken @ [p]) (s\<lparr>sh_deliver := (sh_deliver s)[i := rest]\<rparr>)"

definition of_conv :: "string \<Rightarrow> PushPayload list \<Rightarrow> PushPayload list" where
  "of_conv c ps = filter (\<lambda>p. pp_ConversationId p = c) ps"

lemma of_conv_simps [simp]:
  "of_conv c [] = []" "of_conv c (ps @ qs) = of_conv c ps @ of_conv c qs"
  "of_conv c (p # ps) = (if pp_ConversationId p = c then p # of_conv c ps else of_conv c ps)"
  by (simp_all add: of_conv_def)

definition shard_inv :: "nat \<Rightarrow> PushPayload list \<Rightarrow> PushPayload list \<Rightarrow> Shards \<Rightarrow> bool" where
  "shard_inv n arrived taken s \<longleftrightarrow> length (sh_deliver s) = n \<and>
     (\<forall>i < n. \<forall>p \<in> set (sh_deliver s ! i). shardOf (pp_ConversationId p) n = i) \<and>
     (\<forall>c. subseq (of_conv c taken @ of_conv c (sh_deliver s ! shardOf c n)) (of_conv c arrived))"

lemma shardOf_less: "0 < n \<Longrightarrow> n < 2 ^ 32 \<Longrightarrow> shardOf key n < n"
proof -
  assume n: "0 < n" "n < 2 ^ 32"
  then have "unat (word_of_nat n :: 32 word) = n"
    by (simp add: unat_of_nat)
  moreover have "unat (fnv32a key mod word_of_nat n) = unat (fnv32a key) mod unat (word_of_nat n :: 32 word)"
    by (simp add: unat_mod_distrib)
  ultimately show ?thesis
    using n(1) by (simp add: shardOf_def)
qed

lemma shard_arrive:
  assumes "shard_inv n arrived taken s" "0 < n" "n < 2 ^ 32"
  shows "shard_inv n (arrived @ [p]) taken (enqueuePush p s)"
proof -
  let ?i = "shardOf (pp_ConversationId p) n"
  have inv: "length (sh_deliver s) = n" "\<And>i q. i < n \<Longrightarrow> q \<in> set (sh_deliver s ! i) \<Longrightarrow> shardOf (pp_ConversationId q) n = i"
      "\<And>c. subseq (of_conv c taken @ of_conv c (sh_deliver s ! shardOf c n)) (of_conv c arrived)"
    using assms(1) unfolding shard_inv_def by blast+
  have i: "?i < n"
    by (rule shardOf_less [OF assms(2,3)])
  have more: "subseq (xs :: PushPayload list) (of_conv c arrived) \<Longrightarrow> subseq xs (of_conv c (arrived @ [p]))" for xs c
    by (simp add: subseq_rev_drop_many)
  show ?thesis
  proof (cases "length (sh_deliver s ! ?i) < sh_cap s")
    case True
    let ?d = "(sh_deliver s)[?i := sh_deliver s ! ?i @ [p]]"
    have run: "sh_deliver (enqueuePush p s) = ?d"
      using True by (simp add: enqueuePush_def inv(1) Let_def)
    have "shardOf (pp_ConversationId q) n = j" if j: "j < n" "q \<in> set (?d ! j)" for j q
    proof (cases "j = ?i")
      case True
      then have "q \<in> set (sh_deliver s ! j) \<or> q = p"
        using j(2) i inv(1) by auto
      then show ?thesis
        using inv(2) [OF j(1)] True by blast
    next
      case False
      then show ?thesis
        using inv(2) [OF j(1)] j(2) by simp
    qed
    moreover have "subseq (of_conv c taken @ of_conv c (?d ! shardOf c n)) (of_conv c (arrived @ [p]))" for c
    proof (cases "c = pp_ConversationId p")
      case c: True
      have "of_conv c taken @ of_conv c (?d ! ?i) = (of_conv c taken @ of_conv c (sh_deliver s ! ?i)) @ [p]"
        using i inv(1) c by simp
      moreover have "subseq ((of_conv c taken @ of_conv c (sh_deliver s ! ?i)) @ [p]) (of_conv c arrived @ [p])"
        using inv(3) [of c] c by (intro list_emb_append_mono) simp_all
      ultimately show ?thesis
        using c by simp
    next
      case False
      then have "of_conv c (?d ! shardOf c n) = of_conv c (sh_deliver s ! shardOf c n)"
        using i inv(1) by (cases "shardOf c n = ?i") auto
      then show ?thesis
        using more [OF inv(3) [of c]] by simp
    qed
    ultimately show ?thesis
      unfolding shard_inv_def run length_list_update using inv(1) by blast
  next
    case False
    then have "sh_deliver (enqueuePush p s) = sh_deliver s"
      by (simp add: enqueuePush_def inv(1) Let_def)
    then show ?thesis
      unfolding shard_inv_def using inv(1,2) more [OF inv(3)] by metis
  qed
qed

lemma shard_take:
  assumes "shard_inv n arrived taken s" "i < n" "sh_deliver s ! i = p # rest"
  shows "shard_inv n arrived (taken @ [p]) (s\<lparr>sh_deliver := (sh_deliver s)[i := rest]\<rparr>)"
proof -
  have inv: "length (sh_deliver s) = n" "\<And>i q. i < n \<Longrightarrow> q \<in> set (sh_deliver s ! i) \<Longrightarrow> shardOf (pp_ConversationId q) n = i"
      "\<And>c. subseq (of_conv c taken @ of_conv c (sh_deliver s ! shardOf c n)) (of_conv c arrived)"
    using assms(1) unfolding shard_inv_def by blast+
  have p: "shardOf (pp_ConversationId p) n = i"
    using inv(2) [OF assms(2)] assms(3) by simp
  have sel: "sh_deliver (s\<lparr>sh_deliver := d\<rparr>) = d" for d
    by simp
  have kept: "of_conv c (taken @ [p]) @ of_conv c ((sh_deliver s)[i := rest] ! shardOf c n) =
      of_conv c taken @ of_conv c (sh_deliver s ! shardOf c n)" for c
    using p assms(2,3) inv(1) by (cases "shardOf c n = i") auto
  have "shardOf (pp_ConversationId q) n = j" if "j < n" "q \<in> set ((sh_deliver s)[i := rest] ! j)" for j q
    using inv(2) [OF that(1)] that(2) assms(2,3) inv(1) by (cases "j = i") simp_all
  then show ?thesis
    unfolding shard_inv_def sel length_list_update kept using inv(1,3) by blast
qed

lemma push_run_inv:
  assumes "push_run n cap arrived taken s" "0 < n" "n < 2 ^ 32"
  shows "shard_inv n arrived taken s"
  using assms(1)
proof (induction rule: push_run.induct)
  case start
  show ?case
    using shardOf_less [OF assms(2,3)] by (simp add: shard_inv_def)
next
  case (arrive arrived taken s p)
  then show ?case
    by (intro shard_arrive assms(2,3))
next
  case (take arrived taken s i p rest)
  then have "i < n"
    unfolding shard_inv_def by blast
  then show ?case
    using take by (intro shard_take)
qed

text \<open>C36: the pushes of a conversation are taken in the order in which their events arrived: however
  the shards' workers run, what they have taken of a conversation is the arrived sequence with
  some events left out, the dropped ones and those still queued.\<close>

theorem push_order:
  assumes "push_run n cap arrived taken s" "0 < n" "n < 2 ^ 32"
  shows "subseq (of_conv c taken) (of_conv c arrived)"
proof -
  have "subseq (of_conv c taken @ of_conv c (sh_deliver s ! shardOf c n)) (of_conv c arrived)"
    using push_run_inv [OF assms] unfolding shard_inv_def by blast
  moreover have "subseq (of_conv c taken) (of_conv c taken @ of_conv c (sh_deliver s ! shardOf c n))"
    by (rule subseq_rev_drop_many) simp
  ultimately show ?thesis
    using subseq_order.order_trans by blast
qed

definition demo_payload :: "int64 \<Rightarrow> PushPayload" where
  "demo_payload seq = \<lparr>pp_ConversationId = ''c'', pp_Seq = seq, pp_SessionType = 1, pp_SenderId = ''u___1'', pp_SenderConnId = ''c1'',
     pp_RecvId = ''u___2'', pp_GroupId = [], pp_Ref = True, pp_Msg = None\<rparr>"

theorem push_order_witness: "subseq (of_conv ''c'' [demo_payload 1]) (of_conv ''c'' [demo_payload 1, demo_payload 2])"
proof -
  let ?s0 = "\<lparr>sh_deliver = replicate 1 [], sh_cap = 8, sh_dropped = 0\<rparr>"
  have one: "shardOf k 1 = 0" for k
    using shardOf_less [of 1 k] by simp
  have r1: "push_run 1 8 ([] @ [demo_payload 1]) [] (enqueuePush (demo_payload 1) ?s0)"
    by (rule push_run.arrive [OF push_run.start])
  have s1: "sh_deliver (enqueuePush (demo_payload 1) ?s0) ! 0 = demo_payload 1 # []" "0 < length (sh_deliver (enqueuePush (demo_payload 1) ?s0))"
    using one by (simp_all add: enqueuePush_def Let_def)
  have "push_run 1 8 (([] @ [demo_payload 1]) @ [demo_payload 2]) ([] @ [demo_payload 1])
      (enqueuePush (demo_payload 2) ((enqueuePush (demo_payload 1) ?s0)\<lparr>sh_deliver := (sh_deliver (enqueuePush (demo_payload 1) ?s0))[0 := []]\<rparr>))"
    by (rule push_run.arrive [OF push_run.take [OF r1 s1(2,1)]])
  from push_order [OF this] show ?thesis
    by simp
qed

end
