(* ===== verification/LocalBus.thy ===== *)
theory LocalBus
  imports Errcode "HOL-Library.Sublist" "HOL-Library.AList"
begin

text \<open>
  \<^verbatim>\<open>internal/bus/bus.go\<close>, \<^verbatim>\<open>backoff.go\<close> and \<^verbatim>\<open>local/local.go\<close>: the events between nodes and the bus
  inside one process. The contract of a bus is at-most-once delivery in the order of publication,
  with an error whenever the driver knows that a subscriber missed an event; it is the locale
  \<^verbatim>\<open>at_most_once\<close>, and the in-process bus is an interpretation of it.
\<close>

section \<open>bus.go\<close>

definition TypePush :: string where "TypePush = ''push''"
definition TypeKick :: string where "TypeKick = ''kick''"
definition TypeGroupChanged :: string where "TypeGroupChanged = ''group_changed''"
definition TypeConvRead :: string where "TypeConvRead = ''conv_read''"
definition TypePresenceChanged :: string where "TypePresenceChanged = ''presence_changed''"

record Event =
  ev_Type :: string
  ev_NodeId :: string
  ev_Payload :: string

record KickPayload =
  k_UserId :: string
  k_PlatformId :: int
  k_KeepTokenId :: string

record ConvReadPayload =
  r_UserId :: string
  r_ReaderConnId :: string
  r_ConversationId :: string
  r_ReadSeq :: int64

section \<open>backoff.go\<close>

definition MinBackoff :: duration where "MinBackoff = second"
definition MaxBackoff :: duration where "MaxBackoff = 30 * second"

text \<open>The next backoff, after a wait that was not cancelled.\<close>

definition Sleep :: "duration \<Rightarrow> duration" where
  "Sleep d = min (d * 2) MaxBackoff"

section \<open>local.go\<close>

definition queueSize :: nat where "queueSize = 1024"

text \<open>The channels of the subscribers, each with its number.\<close>

record LocalBus =
  lb_subs :: "(nat \<times> Event list) list"
  lb_dropped :: int64

definition New_bus :: LocalBus where
  "New_bus = \<lparr>lb_subs = [], lb_dropped = 0\<rparr>"

definition DegradedPublishes :: "LocalBus \<Rightarrow> int64 \<times> bool" where
  "DegradedPublishes b = (lb_dropped b, True)"

definition offer :: "Event \<Rightarrow> Event list \<Rightarrow> Event list" where
  "offer ev q = (if length q < queueSize then q @ [ev] else q)"

definition Publish :: "Event \<Rightarrow> LocalBus \<Rightarrow> Error option \<times> LocalBus" where
  "Publish ev b =
     (let dropped = int (length (filter (\<lambda>(_, q). \<not> length q < queueSize) (lb_subs b)));
          b1 = b\<lparr>lb_subs := map (\<lambda>(i, q). (i, offer ev q)) (lb_subs b)\<rparr>
      in if dropped > 0 then (Some ErrBusFailed, b1\<lparr>lb_dropped := i64 (lb_dropped b + dropped)\<rparr>) else (None, b1))"

text \<open>\<^verbatim>\<open>Subscribe\<close>: the new channel, what its loop receives, and its deferred function.\<close>

definition subscribe :: "nat \<Rightarrow> LocalBus \<Rightarrow> LocalBus" where
  "subscribe i b = b\<lparr>lb_subs := (i, []) # lb_subs b\<rparr>"

definition next_event :: "nat \<Rightarrow> LocalBus \<Rightarrow> (Event \<times> LocalBus) option" where
  "next_event i b =
     (case map_of (lb_subs b) i of
        Some (ev # q) \<Rightarrow> Some (ev, b\<lparr>lb_subs := AList.update i q (lb_subs b)\<rparr>)
      | _ \<Rightarrow> None)"

definition unsubscribe :: "nat \<Rightarrow> LocalBus \<Rightarrow> LocalBus" where
  "unsubscribe i b = b\<lparr>lb_subs := AList.delete i (lb_subs b)\<rparr>"

section \<open>Runs of a bus\<close>

text \<open>What a subscriber's channel saw: the events published since it was opened, those its loop has
  received, and whether every publication since then was reported as delivered.\<close>

record Log =
  lg_since :: "Event list"
  lg_got :: "Event list"
  lg_clean :: bool

definition empty_log :: Log where
  "empty_log = \<lparr>lg_since = [], lg_got = [], lg_clean = True\<rparr>"

definition log_publish :: "Event \<Rightarrow> bool \<Rightarrow> Log \<Rightarrow> Log" where
  "log_publish ev ok l = l\<lparr>lg_since := lg_since l @ [ev], lg_clean := lg_clean l \<and> ok\<rparr>"

inductive bus_run :: "(Event \<Rightarrow> 'b \<Rightarrow> 'e option \<times> 'b) \<Rightarrow> ('b \<Rightarrow> nat \<Rightarrow> Event list option) \<Rightarrow> (nat \<Rightarrow> 'b \<Rightarrow> 'b) \<Rightarrow>
    (nat \<Rightarrow> 'b \<Rightarrow> (Event \<times> 'b) option) \<Rightarrow> (nat \<Rightarrow> 'b \<Rightarrow> 'b) \<Rightarrow> 'b \<Rightarrow> 'b \<Rightarrow> (nat \<Rightarrow> Log) \<Rightarrow> bool"
  for pub que sub nxt uns b0 where
  start: "bus_run pub que sub nxt uns b0 b0 (\<lambda>_. empty_log)"
| publish: "bus_run pub que sub nxt uns b0 b h \<Longrightarrow> pub ev b = (r, b') \<Longrightarrow>
    bus_run pub que sub nxt uns b0 b' (\<lambda>i. log_publish ev (r = None) (h i))"
| subscribe: "bus_run pub que sub nxt uns b0 b h \<Longrightarrow> que b i = None \<Longrightarrow> bus_run pub que sub nxt uns b0 (sub i b) (h(i := empty_log))"
| receive: "bus_run pub que sub nxt uns b0 b h \<Longrightarrow> nxt i b = Some (ev, b') \<Longrightarrow>
    bus_run pub que sub nxt uns b0 b' (h(i := (h i)\<lparr>lg_got := lg_got (h i) @ [ev]\<rparr>))"
| unsubscribe: "bus_run pub que sub nxt uns b0 b h \<Longrightarrow> bus_run pub que sub nxt uns b0 (uns i b) h"

text \<open>The contract: a publication is appended to a channel or missed by it, and it is missed by one
  exactly when it is reported; a channel is first in, first out.\<close>

locale at_most_once =
  fixes pub :: "Event \<Rightarrow> 'b \<Rightarrow> 'e option \<times> 'b" and que :: "'b \<Rightarrow> nat \<Rightarrow> Event list option" and sub :: "nat \<Rightarrow> 'b \<Rightarrow> 'b"
    and nxt :: "nat \<Rightarrow> 'b \<Rightarrow> (Event \<times> 'b) option" and uns :: "nat \<Rightarrow> 'b \<Rightarrow> 'b" and b0 :: 'b and ok :: "'b \<Rightarrow> bool"
  assumes new: "que b0 i = None"
    and ok_new: "ok b0"
    and ok_keeps: "ok b \<Longrightarrow> ok (snd (pub ev b))" "ok b \<Longrightarrow> que b i = None \<Longrightarrow> ok (sub i b)"
      "ok b \<Longrightarrow> nxt i b = Some (ev, b') \<Longrightarrow> ok b'" "ok b \<Longrightarrow> ok (uns i b)"
    and pub_none: "que b i = None \<Longrightarrow> que (snd (pub ev b)) i = None"
    and pub_some: "que b i = Some q \<Longrightarrow> que (snd (pub ev b)) i \<in> {Some q, Some (q @ [ev])}"
    and pub_ok: "fst (pub ev b) = None \<Longrightarrow> que b i = Some q \<Longrightarrow> que (snd (pub ev b)) i = Some (q @ [ev])"
    and pub_failed: "ok b \<Longrightarrow> fst (pub ev b) \<noteq> None \<Longrightarrow> \<exists>i q. que b i = Some q \<and> que (snd (pub ev b)) i = Some q"
    and sub_que: "que (sub i b) = (que b)(i \<mapsto> [])"
    and nxt_que: "nxt i b = Some (ev, b') \<longleftrightarrow> (\<exists>q. que b i = Some (ev # q) \<and> b' = snd (the (nxt i b)) \<and> que b' = (que b)(i \<mapsto> q))"
    and uns_que: "que (uns i b) = (que b)(i := None)"
begin

lemma run_ok: "bus_run pub que sub nxt uns b0 b h \<Longrightarrow> ok b"
proof (induction rule: bus_run.induct)
  case (publish b h ev r b')
  then show ?case
    using ok_keeps(1) [of b ev] by simp
qed (auto intro: ok_new ok_keeps)

lemma reported:
  assumes "bus_run pub que sub nxt uns b0 b h"
  shows "fst (pub ev b) \<noteq> None \<longleftrightarrow> (\<exists>i q. que b i = Some q \<and> que (snd (pub ev b)) i = Some q)"
  using pub_failed [OF run_ok [OF assms]] pub_ok [of ev b] by fastforce

lemma delivery:
  assumes "bus_run pub que sub nxt uns b0 b h"
  shows "subseq (lg_got (h i)) (lg_since (h i)) \<and>
    (\<forall>q. que b i = Some q \<longrightarrow> subseq (lg_got (h i) @ q) (lg_since (h i)) \<and> (lg_clean (h i) \<longrightarrow> lg_since (h i) = lg_got (h i) @ q))"
  using assms
proof (induction arbitrary: i rule: bus_run.induct)
  case start
  then show ?case
    by (simp add: empty_log_def new)
next
  case (publish b h ev r b')
  have more: "subseq xs (lg_since (h i)) \<Longrightarrow> subseq xs (lg_since (h i) @ [ev])" for xs
    by (rule subseq_rev_drop_many)
  have rb: "r = fst (pub ev b)" "b' = snd (pub ev b)"
    using publish.hyps(2) by simp_all
  show ?case
  proof (cases "que b i")
    case None
    then show ?thesis
      using pub_none [OF None, of ev] publish.IH [of i] more by (simp add: rb log_publish_def)
  next
    case (Some q)
    have "subseq (lg_got (h i) @ q @ [ev]) (lg_since (h i) @ [ev])"
      using publish.IH [of i] Some list_emb_append_mono [of "(=)" "lg_got (h i) @ q" "lg_since (h i)" "[ev]" "[ev]"] by simp
    then show ?thesis
      using pub_some [OF Some, of ev] pub_ok [OF _ Some, of ev] publish.IH [of i] Some more
      by (auto simp: rb log_publish_def)
  qed
next
  case (subscribe b h j)
  then show ?case
    by (simp add: sub_que empty_log_def)
next
  case (receive b h j ev b')
  obtain q where q: "que b j = Some (ev # q)" "que b' = (que b)(j \<mapsto> q)"
    using receive.hyps(2) unfolding nxt_que by blast
  have "subseq ((lg_got (h j) @ [ev]) @ q) (lg_since (h j))"
    using receive.IH [of j] q(1) by simp
  moreover have "subseq (lg_got (h j) @ [ev]) ((lg_got (h j) @ [ev]) @ q)"
    by (rule subseq_rev_drop_many) simp
  ultimately have "subseq (lg_got (h j) @ [ev]) (lg_since (h j))"
    using subseq_order.order_trans by blast
  then show ?case
    using receive.IH [of i] receive.IH [of j] q by auto
next
  case (unsubscribe b h j)
  then show ?case
    by (simp add: uns_que)
qed

end

definition channel :: "LocalBus \<Rightarrow> nat \<Rightarrow> Event list option" where
  "channel b = map_of (lb_subs b)"

lemma map_of_offer: "map_of (map (\<lambda>(i, q). (i, offer ev q)) xs) i = map_option (offer ev) (map_of xs i)"
  by (induction xs) auto

lemma Publish_channel: "channel (snd (Publish ev b)) i = map_option (offer ev) (channel b i)"
  by (simp add: Publish_def channel_def Let_def map_of_offer)

lemma Publish_failed:
  assumes "distinct (map fst (lb_subs b))"
  shows "fst (Publish ev b) \<noteq> None \<longleftrightarrow> (\<exists>i q. channel b i = Some q \<and> queueSize \<le> length q)"
  using assms unfolding Publish_def channel_def Let_def
  by (auto simp: filter_empty_conv not_less map_of_eq_Some_iff dest!: map_of_SomeD)

lemma Publish_ok: "fst (Publish ev b) = None \<Longrightarrow> channel b i = Some q \<Longrightarrow> length q < queueSize"
  unfolding Publish_def channel_def Let_def
  by (auto simp: filter_empty_conv split: if_splits dest!: map_of_SomeD)

lemma next_event_channel:
  "next_event i b = Some (ev, b') \<longleftrightarrow> (\<exists>q. channel b i = Some (ev # q) \<and> b' = b\<lparr>lb_subs := AList.update i q (lb_subs b)\<rparr>)"
  by (auto simp: next_event_def channel_def split: option.splits list.splits)

lemma update_channel: "channel (b\<lparr>lb_subs := AList.update i q (lb_subs b)\<rparr>) = (channel b)(i \<mapsto> q)"
  by (simp add: channel_def update_conv')

interpretation local_bus: at_most_once Publish channel subscribe next_event unsubscribe New_bus "\<lambda>b. distinct (map fst (lb_subs b))"
proof
  fix b i ev b' q
  show "channel New_bus i = None" "distinct (map fst (lb_subs New_bus))"
    by (simp_all add: channel_def New_bus_def)
  show "channel (subscribe i b) = (channel b)(i \<mapsto> [])"
    by (simp add: subscribe_def channel_def)
  show "channel (unsubscribe i b) = (channel b)(i := None)"
    by (simp add: unsubscribe_def channel_def delete_conv')
  show "channel b i = None \<Longrightarrow> channel (snd (Publish ev b)) i = None"
    by (simp add: Publish_channel)
  show "channel b i = Some q \<Longrightarrow> channel (snd (Publish ev b)) i \<in> {Some q, Some (q @ [ev])}"
    by (simp add: Publish_channel offer_def)
  show "next_event i b = Some (ev, b') \<longleftrightarrow>
      (\<exists>q. channel b i = Some (ev # q) \<and> b' = snd (the (next_event i b)) \<and> channel b' = (channel b)(i \<mapsto> q))"
    by (auto simp: next_event_channel update_channel) (auto simp: next_event_def channel_def)
  show "channel (snd (Publish ev b)) i = Some (q @ [ev])" if "fst (Publish ev b) = None" "channel b i = Some q"
    using Publish_ok [OF that] that(2) by (simp add: Publish_channel offer_def)
  have "map fst (lb_subs (snd (Publish ev b))) = map fst (lb_subs b)"
    by (simp add: Publish_def Let_def case_prod_beta comp_def)
  then show "distinct (map fst (lb_subs b)) \<Longrightarrow> distinct (map fst (lb_subs (snd (Publish ev b))))"
    by simp
  show "distinct (map fst (lb_subs b)) \<Longrightarrow> channel b i = None \<Longrightarrow> distinct (map fst (lb_subs (subscribe i b)))"
    by (simp add: subscribe_def channel_def map_of_eq_None_iff)
  show "distinct (map fst (lb_subs b)) \<Longrightarrow> next_event i b = Some (ev, b') \<Longrightarrow> distinct (map fst (lb_subs b'))"
    by (auto simp: next_event_channel distinct_update)
  show "distinct (map fst (lb_subs b)) \<Longrightarrow> distinct (map fst (lb_subs (unsubscribe i b)))"
    by (simp add: unsubscribe_def distinct_delete)
  show "\<exists>i q. channel b i = Some q \<and> channel (snd (Publish ev b)) i = Some q"
    if failed: "distinct (map fst (lb_subs b))" "fst (Publish ev b) \<noteq> None"
  proof -
    obtain j r where "channel b j = Some r" "queueSize \<le> length r"
      using Publish_failed [OF failed(1), of ev] failed(2) by blast
    then have "channel (snd (Publish ev b)) j = Some r"
      by (simp add: Publish_channel offer_def)
    with \<open>channel b j = Some r\<close> show ?thesis
      by blast
  qed
qed

text \<open>C38: a subscriber of the in-process bus receives events in the order of their publication, each
  at most once; it misses none as long as every publication is reported as delivered, and a
  publication is reported as failed exactly when the queue of some subscriber misses it.\<close>

theorem local_bus_delivery:
  assumes "bus_run Publish channel subscribe next_event unsubscribe New_bus b h"
  shows "subseq (lg_got (h i)) (lg_since (h i)) \<and>
    (\<forall>q. channel b i = Some q \<and> lg_clean (h i) \<longrightarrow> lg_since (h i) = lg_got (h i) @ q) \<and>
    (fst (Publish ev b) = Some ErrBusFailed \<longleftrightarrow> (\<exists>j q. channel b j = Some q \<and> channel (snd (Publish ev b)) j = Some q))"
proof -
  have "fst (Publish ev b) = Some ErrBusFailed \<longleftrightarrow> fst (Publish ev b) \<noteq> None"
    by (simp add: Publish_def Let_def)
  then show ?thesis
    using local_bus.delivery [OF assms, of i] local_bus.reported [OF assms, of ev] by blast
qed

theorem local_bus_delivery_witness:
  "\<exists>b h. bus_run Publish channel subscribe next_event unsubscribe New_bus b h \<and>
     channel b 0 = Some [\<lparr>ev_Type = TypeKick, ev_NodeId = ''n1'', ev_Payload = ''{}''\<rparr>] \<and> lg_since (h 0) = lg_got (h 0) @ the (channel b 0)"
proof -
  let ?ev = "\<lparr>ev_Type = TypeKick, ev_NodeId = ''n1'', ev_Payload = ''{}''\<rparr>"
  let ?b1 = "subscribe 0 New_bus" and ?b2 = "\<lparr>lb_subs = [(0, [?ev])], lb_dropped = 0\<rparr>"
  have pub: "Publish ?ev ?b1 = (None, ?b2)"
    by (simp add: Publish_def subscribe_def New_bus_def offer_def queueSize_def)
  have "bus_run Publish channel subscribe next_event unsubscribe New_bus ?b1 ((\<lambda>_. empty_log)(0 := empty_log))"
    by (rule bus_run.subscribe [OF bus_run.start]) (simp add: channel_def New_bus_def)
  note run = bus_run.publish [OF this pub]
  have que: "channel ?b2 0 = Some [?ev]"
    by (simp add: channel_def)
  have "lg_clean (log_publish ?ev True empty_log)"
    by (simp add: log_publish_def empty_log_def)
  then show ?thesis
    using local_bus_delivery [OF run, of 0] run que by fastforce
qed

end
