(* ===== verification/PresenceEvents.thy ===== *)
theory PresenceEvents
  imports LocalBus Identity Presence OnlineStore MessageService
begin

text \<open>
  \<^verbatim>\<open>internal/gateway/presence_events.go\<close>: the presence events a node publishes, in chunks that fit the
  bus. Their JSON is written out as \<^verbatim>\<open>encoding/json/v2\<close> encodes strings, the list of ids and the
  envelope; the driver of the bus is a parameter.
\<close>

section \<open>JSON\<close>

definition byte :: "char \<Rightarrow> int" where "byte c = of_char c"

definition continuation :: "char \<Rightarrow> bool" where
  "continuation c \<longleftrightarrow> 128 \<le> byte c \<and> byte c \<le> 191"

text \<open>\<^verbatim>\<open>utf8.Valid\<close>: the well-formed byte sequences.\<close>

fun utf8_valid :: "string \<Rightarrow> bool" where
  "utf8_valid [] = True"
| "utf8_valid [a] = (byte a < 128)"
| "utf8_valid [a, b] =
     (if byte a < 128 then utf8_valid [b] else 194 \<le> byte a \<and> byte a \<le> 223 \<and> continuation b)"
| "utf8_valid [a, b, c] =
     (if byte a < 128 then utf8_valid [b, c]
      else if byte a \<le> 223 then 194 \<le> byte a \<and> continuation b \<and> utf8_valid [c]
      else byte a \<le> 239 \<and> continuation b \<and> continuation c \<and> (byte a = 224 \<longrightarrow> 160 \<le> byte b) \<and> (byte a = 237 \<longrightarrow> byte b \<le> 159))"
| "utf8_valid (a # b # c # d # s) =
     (if byte a < 128 then utf8_valid (b # c # d # s)
      else if byte a \<le> 223 then 194 \<le> byte a \<and> continuation b \<and> utf8_valid (c # d # s)
      else if byte a \<le> 239 then continuation b \<and> continuation c \<and> (byte a = 224 \<longrightarrow> 160 \<le> byte b) \<and> (byte a = 237 \<longrightarrow> byte b \<le> 159) \<and>
        utf8_valid (d # s)
      else byte a \<le> 244 \<and> continuation b \<and> continuation c \<and> continuation d \<and> (byte a = 240 \<longrightarrow> 144 \<le> byte b) \<and>
        (byte a = 244 \<longrightarrow> byte b \<le> 143) \<and> utf8_valid s)"

definition quote_char :: char where "quote_char = char_of (34 :: int)"
definition backslash :: char where "backslash = char_of (92 :: int)"

definition json_char :: "char \<Rightarrow> string" where
  "json_char c =
     (if c = quote_char \<or> c = backslash then [backslash, c]
      else if byte c = 8 then [backslash, CHR ''b'']
      else if byte c = 9 then [backslash, CHR ''t'']
      else if byte c = 10 then [backslash, CHR ''n'']
      else if byte c = 12 then [backslash, CHR ''f'']
      else if byte c = 13 then [backslash, CHR ''r'']
      else if byte c < 32 then backslash # ''u00'' @ [hex_char (byte c div 16), hex_char (byte c mod 16)]
      else [c])"

definition json_string :: "string \<Rightarrow> string option" where
  "json_string s = (if utf8_valid s then Some (quote_char # concat (map json_char s) @ [quote_char]) else None)"

definition quoted :: "string \<Rightarrow> string" where
  "quoted s = quote_char # s @ [quote_char]"

fun commas :: "string list \<Rightarrow> string" where
  "commas [] = []"
| "commas [x] = x"
| "commas (x # xs) = x @ '','' @ commas xs"

text \<open>\<^verbatim>\<open>json.Marshal\<close> of a \<^verbatim>\<open>PresenceChanged\<close> and of an \<^verbatim>\<open>Event\<close>, whose payload is a JSON value that stands
  for itself.\<close>

definition Marshal_PresenceChanged :: "string list \<Rightarrow> string option" where
  "Marshal_PresenceChanged userIds =
     map_option (\<lambda>xs. ''{'' @ quoted ''user_ids'' @ '':['' @ commas xs @ '']}'') (those (map json_string userIds))"

definition Marshal_Event :: "Event \<Rightarrow> string option" where
  "Marshal_Event ev =
     (case (json_string (ev_Type ev), json_string (ev_NodeId ev)) of
        (Some t, Some n) \<Rightarrow>
          Some (''{'' @ quoted ''type'' @ '':'' @ t @ '','' @ quoted ''node_id'' @ '':'' @ n @ '','' @ quoted ''payload'' @ '':'' @ ev_Payload ev @ ''}'')
      | _ \<Rightarrow> None)"

section \<open>presence_events.go\<close>

definition maxUserIdJsonBytes :: int where
  "maxUserIdJsonBytes = int PrefixLength + 36 + 3"

definition presenceChunkSize :: nat where "presenceChunkSize = 100"

definition presenceChunkJsonBytes :: int where
  "presenceChunkJsonBytes = int presenceChunkSize * maxUserIdJsonBytes + 15"

definition presenceEnvelopeBudget :: int where
  "presenceEnvelopeBudget = int MaxPayloadBytes - presenceChunkJsonBytes"

definition publish_chunk :: "(Event \<Rightarrow> 'b \<Rightarrow> go_error option \<times> 'b) \<Rightarrow> string \<Rightarrow> int \<Rightarrow> string list \<Rightarrow> int64 \<times> 'b \<Rightarrow> int64 \<times> 'b" where
  "publish_chunk pub nodeId baseSize ids = (\<lambda>(fails, b).
     case Marshal_PresenceChanged ids of
       None \<Rightarrow> (fails + 1, b)
     | Some raw \<Rightarrow>
         if baseSize + int (length raw) > int MaxPayloadBytes then (fails + 1, b)
         else case pub \<lparr>ev_Type = TypePresenceChanged, ev_NodeId = nodeId, ev_Payload = raw\<rparr> b of
           (None, b') \<Rightarrow> (fails, b')
         | (Some _, b') \<Rightarrow> (fails + 1, b'))"

text \<open>The subscriptions of the node, the count \<^verbatim>\<open>onlinePublishFails\<close> and the bus. A node without a bus has
  none to publish on.\<close>

definition publishOnlineChanged :: "(Event \<Rightarrow> 'b \<Rightarrow> go_error option \<times> 'b) option \<Rightarrow> string \<Rightarrow> (Client set \<Rightarrow> Client list) \<Rightarrow> time \<Rightarrow>
    string list \<Rightarrow> Subs \<times> int64 \<times> 'b \<Rightarrow> Subs \<times> int64 \<times> 'b" where
  "publishOnlineChanged bus nodeId walk now userIds = (\<lambda>(p, fails, b).
     if userIds = [] then (p, fails, b)
     else
       let ids = remdups_adj (sort userIds);
           p = markOnlineChanged walk now ids p
       in case bus of
         None \<Rightarrow> (p, fails, b)
       | Some pub \<Rightarrow>
           (case Marshal_PresenceChanged [] of
              None \<Rightarrow> (p, fails + 1, b)
            | Some empty_raw \<Rightarrow>
                (case Marshal_Event \<lparr>ev_Type = TypePresenceChanged, ev_NodeId = nodeId, ev_Payload = empty_raw\<rparr> of
                   None \<Rightarrow> (p, fails + 1, b)
                 | Some envelope \<Rightarrow>
                     let baseSize = int (length envelope) - int (length empty_raw) in
                     if baseSize > presenceEnvelopeBudget then (p, fails + 1, b)
                     else (p, fold (publish_chunk pub nodeId baseSize) (chunk presenceChunkSize ids) (fails, b)))))"

section \<open>Sizes\<close>

definition plain :: "char \<Rightarrow> bool" where
  "plain c \<longleftrightarrow> 32 \<le> byte c \<and> byte c < 127 \<and> c \<noteq> quote_char \<and> c \<noteq> backslash"

lemma utf8_ascii: "list_all (\<lambda>c. byte c < 128) s \<Longrightarrow> utf8_valid s"
  by (induction s rule: utf8_valid.induct) auto

lemma json_string_plain: "list_all plain s \<Longrightarrow> json_string s = Some (quoted s)"
proof -
  assume s: "list_all plain s"
  then have "concat (map json_char s) = s"
    by (induction s) (auto simp: plain_def json_char_def)
  moreover have "utf8_valid s"
    by (rule utf8_ascii) (use s in \<open>auto simp: list_all_iff plain_def\<close>)
  ultimately show ?thesis
    by (simp add: json_string_def quoted_def)
qed

lemma those_plain: "list_all (list_all plain) ss \<Longrightarrow> those (map json_string ss) = Some (map quoted ss)"
  by (induction ss) (simp_all add: json_string_plain)

lemma length_commas: "list_all (\<lambda>x. length x + 1 \<le> n) xs \<Longrightarrow> length (commas xs) \<le> length xs * n"
  by (induction xs rule: commas.induct) auto

lemma Marshal_PresenceChanged_size:
  assumes "list_all (list_all plain) ids" "list_all (\<lambda>u. length u \<le> 40) ids" "length ids \<le> presenceChunkSize"
  shows "\<exists>raw. Marshal_PresenceChanged ids = Some raw \<and> int (length raw) \<le> presenceChunkJsonBytes"
proof -
  have "length (commas (map quoted ids)) \<le> length (map quoted ids) * 43"
    by (rule length_commas) (use assms(2) in \<open>auto simp: list_all_iff quoted_def\<close>)
  then have "length (commas (map quoted ids)) \<le> 4300"
    using assms(3) by (simp add: presenceChunkSize_def)
  then show ?thesis
    by (simp add: Marshal_PresenceChanged_def those_plain [OF assms(1)] presenceChunkJsonBytes_def presenceChunkSize_def maxUserIdJsonBytes_def
        PrefixLength_def quoted_def)
qed

lemma Marshal_empty: "Marshal_PresenceChanged [] = Some (''{'' @ quoted ''user_ids'' @ '':[]}'')"
  by (simp add: Marshal_PresenceChanged_def)

lemma Marshal_Event_presence:
  "Marshal_Event \<lparr>ev_Type = TypePresenceChanged, ev_NodeId = nodeId, ev_Payload = raw\<rparr> =
     map_option (\<lambda>n. ''{'' @ quoted ''type'' @ '':'' @ quoted TypePresenceChanged @ '','' @ quoted ''node_id'' @ '':'' @ n @ '','' @ quoted ''payload'' @ '':'' @ raw @ ''}'')
       (json_string nodeId)"
proof -
  have "json_string TypePresenceChanged = Some (quoted TypePresenceChanged)"
    by (rule json_string_plain) code_simp
  then show ?thesis
    by (simp add: Marshal_Event_def split: option.splits)
qed

lemma envelope_size:
  assumes "json_string nodeId = Some q"
  obtains env where "Marshal_Event \<lparr>ev_Type = TypePresenceChanged, ev_NodeId = nodeId, ev_Payload = raw\<rparr> = Some env"
    "length env = 49 + length q + length raw"
proof -
  have "length (quoted TypePresenceChanged) = 18"
    by (simp add: quoted_def TypePresenceChanged_def)
  then show ?thesis
    using that unfolding Marshal_Event_presence assms by (simp add: quoted_def)
qed

lemma budget_value: "presenceEnvelopeBudget = 3185" "presenceChunkJsonBytes = 4315" "int MaxPayloadBytes = 7500"
  by (simp_all add: presenceEnvelopeBudget_def MaxPayloadBytes_def presenceChunkJsonBytes_def presenceChunkSize_def
      maxUserIdJsonBytes_def PrefixLength_def)

section \<open>Ids\<close>

lemma int_digits_length: "0 \<le> n \<Longrightarrow> n < 10 ^ k \<Longrightarrow> 0 < k \<Longrightarrow> length (int_digits n) \<le> k"
proof (induction n arbitrary: k rule: int_digits.induct)
  case (1 n)
  show ?case
  proof (cases "n < 10")
    case True
    then show ?thesis
      using 1 by (subst int_digits.simps) simp
  next
    case False
    then obtain j where k: "k = Suc j"
      using 1 by (cases k) auto
    have j: "0 < j"
      using 1 False k by (cases j) auto
    have "n div 10 < 10 ^ j"
      using 1(3) k by simp
    then have "length (int_digits (n div 10)) \<le> j"
      using 1 False j by (simp add: pos_imp_zdiv_nonneg_iff)
    then show ?thesis
      using False k by (subst int_digits.simps) simp
  qed
qed

lemma plain_digit: "is_digit c \<Longrightarrow> plain c"
  by (auto simp: is_digit_def plain_def byte_def quote_char_def backslash_def)

lemma plain_hex: "0 \<le> n \<Longrightarrow> n < 16 \<Longrightarrow> plain (hex_char n)"
  by (auto simp: hex_char_def plain_def byte_def quote_char_def backslash_def)

lemma prefixes_plain: "list_all plain PrefixUser" "list_all plain PrefixAgent" "list_all plain PrefixNative" "list_all plain ''-''"
  by code_simp+

lemma FormatInt_plain:
  assumes "0 < i" "in_i64 i"
  shows "list_all plain (FormatInt i)" "length (FormatInt i) \<le> 19"
proof -
  have "list_all is_digit (FormatInt i)"
    using assms(1) int_digits_all_digits [of i] by (simp add: FormatInt_def)
  then show "list_all plain (FormatInt i)"
    using plain_digit by (auto simp: list_all_iff)
  have "length (int_digits i) \<le> 19"
    by (rule int_digits_length) (use assms in \<open>simp_all add: in_i64_def\<close>)
  then show "length (FormatInt i) \<le> 19"
    using assms(1) by (simp add: FormatInt_def)
qed

lemma uuid_String_plain:
  assumes "uuid_Parse s = Some u"
  shows "list_all plain (uuid_String u)"
proof -
  obtain t where "hex_values t = Some u"
    using assms by (auto simp: uuid_Parse_def split: if_splits)
  from hex_values_bound [OF this] have "list_all plain (map hex_char u)"
    using plain_hex by (auto simp: list_all_iff)
  then have "\<forall>c \<in> set (map hex_char u). plain c"
    by (simp add: list_all_iff)
  then show ?thesis
    using prefixes_plain(4) unfolding uuid_String_def Let_def
    by (auto simp: list_all_iff dest!: in_set_takeD in_set_dropD)
qed

lemma Valid_size:
  assumes "Valid u"
  shows "list_all plain u \<and> length u \<le> 40"
proof -
  consider a where "ParseActor u = Inr a" | v where "take PrefixLength u = PrefixNative" "uuid_Parse (drop PrefixLength u) = Some v"
      "uuid_String v = drop PrefixLength u"
    using assms by (auto simp: Valid_def Let_def split: if_splits sum.splits option.splits)
  then show ?thesis
  proof cases
    case 1
    note a = ParseActor_Inr [OF 1]
    then have "u = PrefixUser @ FormatInt (actor_Id a) \<or> u = PrefixAgent @ FormatInt (actor_Id a)"
      by (auto simp: UserId_def split: Role.splits)
    then show ?thesis
      using prefixes_plain(1,2) FormatInt_plain [of "actor_Id a"] a by (auto simp: prefix_defs)
  next
    case 2
    let ?d = "drop PrefixLength u"
    have u: "u = PrefixNative @ ?d"
      by (subst 2(1) [symmetric]) simp
    have "length ?d = 36"
      using 2(2) by (simp add: uuid_Parse_def split: if_splits)
    then have "length (PrefixNative @ ?d) = 40"
      by (simp add: PrefixNative_def)
    moreover have "list_all plain (PrefixNative @ ?d)"
      using uuid_String_plain [OF 2(2)] 2(3) prefixes_plain(3) by simp
    ultimately show ?thesis
      unfolding u [symmetric] by simp
  qed
qed

section \<open>What is published\<close>

text \<open>A bus that records every event with the answer it gave, which may depend on all before.\<close>

definition recording :: "(Event \<Rightarrow> (Event \<times> go_error option) list \<Rightarrow> go_error option) \<Rightarrow>
    Event \<Rightarrow> (Event \<times> go_error option) list \<Rightarrow> go_error option \<times> (Event \<times> go_error option) list" where
  "recording ans ev b = (ans ev b, b @ [(ev, ans ev b)])"

definition presence_event :: "string \<Rightarrow> string list \<Rightarrow> Event" where
  "presence_event nodeId ids = \<lparr>ev_Type = TypePresenceChanged, ev_NodeId = nodeId, ev_Payload = the (Marshal_PresenceChanged ids)\<rparr>"

definition failures :: "(Event \<times> go_error option) list \<Rightarrow> int" where
  "failures b = int (length (filter (\<lambda>(_, r). r \<noteq> None) b))"

definition fits :: "Event \<Rightarrow> bool" where
  "fits ev = (case Marshal_Event ev of None \<Rightarrow> False | Some raw \<Rightarrow> length raw \<le> MaxPayloadBytes)"

definition good_ids :: "string list \<Rightarrow> bool" where
  "good_ids ids \<longleftrightarrow> list_all (list_all plain) ids \<and> list_all (\<lambda>u. length u \<le> 40) ids \<and> length ids \<le> presenceChunkSize"

lemma failures_Cons: "failures (x # b) = failures [x] + failures b"
  by (simp add: failures_def split: prod.splits)

lemma publish_chunks:
  assumes "list_all good_ids cs" "base \<le> presenceEnvelopeBudget"
  shows "\<exists>new. fold (publish_chunk (recording ans) nodeId base) cs (fails, b) = (fails + failures new, b @ new) \<and>
    map fst new = map (presence_event nodeId) cs"
  using assms(1)
proof (induction cs arbitrary: fails b)
  case Nil
  show ?case
    by (rule exI [of _ "[]"]) (simp add: failures_def)
next
  case (Cons c cs)
  obtain raw where raw: "Marshal_PresenceChanged c = Some raw" "int (length raw) \<le> presenceChunkJsonBytes"
    using Marshal_PresenceChanged_size Cons.prems by (auto simp: good_ids_def)
  let ?ev = "presence_event nodeId c"
  have size: "\<not> base + int (length raw) > int MaxPayloadBytes"
    using raw(2) assms(2) by (simp add: presenceEnvelopeBudget_def)
  have step: "publish_chunk (recording ans) nodeId base c (fails, b) =
      (fails + failures [(?ev, ans ?ev b)], b @ [(?ev, ans ?ev b)])"
    using size by (auto simp: publish_chunk_def raw(1) recording_def presence_event_def failures_def split: option.splits)
  obtain new where new: "fold (publish_chunk (recording ans) nodeId base) cs (fails + failures [(?ev, ans ?ev b)], b @ [(?ev, ans ?ev b)]) =
      (fails + failures [(?ev, ans ?ev b)] + failures new, (b @ [(?ev, ans ?ev b)]) @ new)" "map fst new = map (presence_event nodeId) cs"
    using Cons.IH [of "fails + failures [(?ev, ans ?ev b)]" "b @ [(?ev, ans ?ev b)]"] Cons.prems by auto
  show ?case
    by (rule exI [of _ "(?ev, ans ?ev b) # new"]) (simp add: step new failures_Cons [of _ new])
qed

lemma distinct_remdups_sorted: "sorted xs \<Longrightarrow> distinct (remdups_adj xs)"
  by (induction xs rule: remdups_adj.induct) (auto simp: order.antisym)

lemma remdups_adj_sort: "remdups_adj (sort xs) = sorted_list_of_set (set xs)"
  by (rule sorted_distinct_set_unique) (simp_all add: distinct_remdups_sorted)

lemma chunks_good:
  assumes "list_all Valid ids"
  shows "list_all good_ids (chunk presenceChunkSize ids)"
proof -
  have "set c \<subseteq> set ids" if "c \<in> set (chunk presenceChunkSize ids)" for c
    using that concat_chunk [of presenceChunkSize ids] unfolding presenceChunkSize_def by (metis Union_upper set_concat image_eqI zero_less_numeral)
  then show ?thesis
    using assms Valid_size chunk_length [of _ presenceChunkSize ids] unfolding good_ids_def list_all_iff by blast
qed

lemma presence_event_fits:
  assumes "good_ids c" "json_string nodeId = Some q" "length q \<le> 3136"
  shows "fits (presence_event nodeId c)"
proof -
  obtain raw where raw: "Marshal_PresenceChanged c = Some raw" "int (length raw) \<le> presenceChunkJsonBytes"
    using Marshal_PresenceChanged_size assms(1) unfolding good_ids_def by blast
  obtain env where "Marshal_Event \<lparr>ev_Type = TypePresenceChanged, ev_NodeId = nodeId, ev_Payload = raw\<rparr> = Some env"
      "length env = 49 + length q + length raw"
    by (rule envelope_size [OF assms(2)])
  then show ?thesis
    using raw assms(3) budget_value by (simp add: fits_def presence_event_def)
qed

text \<open>C39: a presence change is published once for every user it is about: the chunks name each user
  exactly once, in order, and with ids the system issues no event exceeds what the bus carries,
  whatever the node's name, as a name too long for a full chunk publishes nothing and counts one
  failure. Every refused event is counted once and does not stop the next.\<close>

theorem presence_events_fit:
  assumes "list_all Valid ids" "json_string nodeId = Some q"
  shows "case publishOnlineChanged (Some (recording ans)) nodeId walk now ids (p, fails, []) of (p', fails', b) \<Rightarrow>
    if ids \<noteq> [] \<and> length q > 3136 then b = [] \<and> fails' = fails + 1
    else (\<exists>cs. map fst b = map (presence_event nodeId) cs \<and> concat cs = sorted_list_of_set (set ids)) \<and>
      list_all (\<lambda>(ev, _). fits ev) b \<and> fails' = fails + failures b"
proof -
  let ?ids = "sorted_list_of_set (set ids)" and ?base = "int (49 + length q)"
  let ?cs = "chunk presenceChunkSize ?ids"
  obtain env where env: "Marshal_Event \<lparr>ev_Type = TypePresenceChanged, ev_NodeId = nodeId, ev_Payload = ''{'' @ quoted ''user_ids'' @ '':[]}''\<rparr> = Some env"
      "length env = 49 + length q + length (''{'' @ quoted ''user_ids'' @ '':[]}'')"
    by (rule envelope_size [OF assms(2)])
  have run: "publishOnlineChanged (Some (recording ans)) nodeId walk now ids (p, fails, []) =
      (if ids = [] then (p, fails, [])
       else if ?base > presenceEnvelopeBudget then (markOnlineChanged walk now ?ids p, fails + 1, [])
       else (markOnlineChanged walk now ?ids p, fold (publish_chunk (recording ans) nodeId ?base) ?cs (fails, [])))"
    unfolding publishOnlineChanged_def remdups_adj_sort Marshal_empty Let_def by (simp only: option.case env) simp
  show ?thesis
  proof (cases "ids = [] \<or> length q > 3136")
    case True
    then show ?thesis
      unfolding run budget_value by (auto simp: failures_def)
  next
    case False
    have "list_all Valid ?ids"
      using assms(1) by (simp add: list_all_iff)
    note good = chunks_good [OF this]
    have base: "?base \<le> presenceEnvelopeBudget"
      using False unfolding budget_value by simp
    obtain b where b: "fold (publish_chunk (recording ans) nodeId ?base) ?cs (fails, []) = (fails + failures b, b)"
        "map fst b = map (presence_event nodeId) ?cs"
      using publish_chunks [OF good base, of ans nodeId fails "[]"] by auto
    have "list_all fits (map fst b)"
      unfolding b(2) using good presence_event_fits [OF _ assms(2)] False by (auto simp: list_all_iff)
    moreover have "concat ?cs = ?ids"
      by (simp add: concat_chunk presenceChunkSize_def)
    moreover have "publishOnlineChanged (Some (recording ans)) nodeId walk now ids (p, fails, []) =
        (markOnlineChanged walk now ?ids p, fails + failures b, b)"
      unfolding run b(1) using False base by simp
    moreover have "list_all (\<lambda>(ev, _). fits ev) b \<longleftrightarrow> list_all fits (map fst b)"
      by (simp add: list_all_iff case_prod_beta)
    ultimately show ?thesis
      using b(2) False by auto
  qed
qed

theorem presence_events_fit_witness:
  "case publishOnlineChanged (Some (recording (\<lambda>_ _. None))) ''n1'' (\<lambda>_. []) 0 [''u___2'', ''u___1'', ''u___2''] (newOnlineSubscriptions, 0, []) of
     (_, fails, b) \<Rightarrow> (\<exists>cs. map fst b = map (presence_event ''n1'') cs \<and> concat cs = [''u___1'', ''u___2'']) \<and> list_all (\<lambda>(ev, _). fits ev) b"
proof -
  have "list_all Valid [''u___2'', ''u___1'', ''u___2'']" "json_string ''n1'' = Some (quoted ''n1'')"
      "sorted_list_of_set (set [''u___2'', ''u___1'', ''u___2'']) = [''u___1'', ''u___2'']"
    by code_simp+
  from presence_events_fit [OF this(1,2), where ans = "\<lambda>_ _. None" and walk = "\<lambda>_. []" and now = 0 and p = newOnlineSubscriptions and fails = 0] this(3) show ?thesis
    by (simp add: quoted_def case_prod_beta)
qed

end
