(* ===== verification/EventLoop.thy ===== *)
theory EventLoop
  imports BusEvents PresenceEvents
begin

text \<open>
  \<^verbatim>\<open>internal/gateway/subscribe.go\<close>: what a node does with the events of the bus and with its
  (re)connections, and the kick a new connection broadcasts. The JSON decoders of the payloads and
  the encoder of a kick are parameters.
\<close>

section \<open>Events\<close>

record Decoders =
  dc_presence :: "string \<Rightarrow> string list option"
  dc_push :: "string \<Rightarrow> PushPayload option"
  dc_kick :: "string \<Rightarrow> KickPayload option"
  dc_read :: "string \<Rightarrow> ConvReadPayload option"
  dc_group :: "string \<Rightarrow> string option"

text \<open>The node with its shards, the state of its message service and the counts.\<close>

record 'lim BusNode =
  bn_node :: Node
  bn_shards :: Shards
  bn_msgs :: "'lim MsgState"
  bn_decodeFails :: int64
  bn_connects :: int
  bn_ready :: bool

definition decodeBus :: "(string \<Rightarrow> 'a option) \<Rightarrow> Event \<Rightarrow> 'lim BusNode \<Rightarrow> 'a option \<times> 'lim BusNode" where
  "decodeBus dec ev g =
     (case dec (ev_Payload ev) of
        None \<Rightarrow> (None, g\<lparr>bn_decodeFails := bn_decodeFails g + 1\<rparr>)
      | Some v \<Rightarrow> (Some v, g))"

text \<open>\<^verbatim>\<open>Kick\<close> runs with a context that never ends.\<close>

definition Kick :: "Wire \<Rightarrow> (Client \<Rightarrow> string) \<Rightarrow> string \<Rightarrow> int \<Rightarrow> string \<Rightarrow> Node \<Rightarrow> Node" where
  "Kick wi opId userId platformId keepTokenId n = kick wi opId False userId platformId keepTokenId n"

definition onEvent :: "Wire \<Rightarrow> Decoders \<Rightarrow> string \<Rightarrow> (Client set \<Rightarrow> Client list) \<Rightarrow> (Client \<Rightarrow> string) \<Rightarrow> string \<Rightarrow> time \<Rightarrow> Event \<Rightarrow>
    'lim BusNode \<Rightarrow> 'lim BusNode" where
  "onEvent wi dec nodeId walk opId op now ev g =
     (if ev_Type ev = TypePresenceChanged then
        if ev_NodeId ev = nodeId then g
        else case decodeBus (dc_presence dec) ev g of
          (None, g) \<Rightarrow> g
        | (Some ids, g) \<Rightarrow> g\<lparr>bn_node := (bn_node g)\<lparr>nd_subs := markOnlineChanged walk now ids (nd_subs (bn_node g))\<rparr>\<rparr>
      else if ev_Type ev = TypePush then
        case decodeBus (dc_push dec) ev g of
          (None, g) \<Rightarrow> g
        | (Some p, g) \<Rightarrow> g\<lparr>bn_shards := enqueuePush p (bn_shards g)\<rparr>
      else if ev_Type ev = TypeKick then
        case decodeBus (dc_kick dec) ev g of
          (None, g) \<Rightarrow> g
        | (Some k, g) \<Rightarrow> g\<lparr>bn_node := Kick wi opId (k_UserId k) (k_PlatformId k) (k_KeepTokenId k) (bn_node g)\<rparr>
      else if ev_Type ev = TypeConvRead then
        case decodeBus (dc_read dec) ev g of
          (None, g) \<Rightarrow> g
        | (Some r, g) \<Rightarrow>
            g\<lparr>bn_node := ConversationRead wi opId op (r_UserId r) (r_ReaderConnId r) (r_ConversationId r) (r_ReadSeq r) (bn_node g)\<rparr>
      else if ev_Type ev = TypeGroupChanged then
        case decodeBus (dc_group dec) ev g of
          (None, g) \<Rightarrow> g
        | (Some groupId, g) \<Rightarrow> g\<lparr>bn_msgs := snd (run_state (InvalidateGroup groupId) (bn_msgs g))\<rparr>
      else g)"

text \<open>The callback of \<^verbatim>\<open>Subscribe\<close> after a connect: the first one opens the node, every later one
  resynchronizes the clients.\<close>

definition onConnected :: "Wire \<Rightarrow> string list \<Rightarrow> string \<Rightarrow> 'lim BusNode \<Rightarrow> 'lim BusNode" where
  "onConnected wi ks op g =
     (let g1 = g\<lparr>bn_ready := True, bn_connects := bn_connects g + 1\<rparr> in
      if bn_connects g1 > 1 then g1\<lparr>bn_node := ResyncAll wi ks op ''bus_reconnected'' (bn_node g1)\<rparr> else g1)"

section \<open>The kick of a new connection\<close>

text \<open>\<^verbatim>\<open>ended i\<close>: the context is done at its check number \<^verbatim>\<open>i\<close>.\<close>

definition publishKick :: "(Event \<Rightarrow> 'b \<Rightarrow> go_error option \<times> 'b) option \<Rightarrow> (KickPayload \<Rightarrow> string) \<Rightarrow> string \<Rightarrow> Wire \<Rightarrow> (Client \<Rightarrow> string) \<Rightarrow>
    (nat \<Rightarrow> bool) \<Rightarrow> Client \<Rightarrow> Node \<times> 'b \<Rightarrow> Node \<times> 'b" where
  "publishKick bus enc nodeId wi opId ended c = (\<lambda>(n, b).
     if ended 0 \<or> nd_closing n then (n, b)
     else
       let userId = cl_UserId c; platformId = id_PlatformId (cl_Identity c); keepTokenId = id_TokenId (cl_Identity c) in
       case bus of
         None \<Rightarrow> (kick wi opId (ended 1) userId platformId keepTokenId n, b)
       | Some pub \<Rightarrow>
           if ended 1 then (n, b)
           else
             (case pub \<lparr>ev_Type = TypeKick, ev_NodeId = nodeId,
                 ev_Payload = enc \<lparr>k_UserId = userId, k_PlatformId = platformId, k_KeepTokenId = keepTokenId\<rparr>\<rparr> b of
                (None, b') \<Rightarrow> (n, b')
              | (Some _, b') \<Rightarrow> if ended 2 then (n, b') else (kick wi opId (ended 3) userId platformId keepTokenId n, b')))"

section \<open>Lemmas\<close>

lemma kick_step: "(gw_step wi)\<^sup>*\<^sup>* n (Kick wi opId u p k n)"
proof (cases "nd_closing n")
  case True
  then show ?thesis
    by (simp add: Kick_def kick_def)
next
  case False
  then show ?thesis
    unfolding Kick_def by (intro r_into_rtranclp gw_step.kicked_off)
qed

text \<open>Whatever the event, the node takes steps of its own kind, so its invariants hold on.\<close>

lemma steps_if: "(c \<Longrightarrow> (gw_step wi)\<^sup>*\<^sup>* n (bn_node x)) \<Longrightarrow> (\<not> c \<Longrightarrow> (gw_step wi)\<^sup>*\<^sup>* n (bn_node y)) \<Longrightarrow>
    (gw_step wi)\<^sup>*\<^sup>* n (bn_node (if c then x else y))"
  by simp

lemma steps_decoded:
  assumes "\<And>v g1. bn_node g1 = bn_node g \<Longrightarrow> (gw_step wi)\<^sup>*\<^sup>* (bn_node g) (bn_node (f v g1))"
  shows "(gw_step wi)\<^sup>*\<^sup>* (bn_node g) (bn_node (case decodeBus dec ev g of (None, g) \<Rightarrow> g | (Some v, g) \<Rightarrow> f v g))"
  using assms [OF refl] by (simp add: decodeBus_def split: option.split)

lemma onEvent_steps: "(gw_step wi)\<^sup>*\<^sup>* (bn_node g) (bn_node (onEvent wi dec nodeId walk opId op now ev g))"
  unfolding onEvent_def ConversationRead_def
  by (intro steps_if steps_decoded) (simp_all add: kick_step r_into_rtranclp gw_step.marked gw_step.pushed)

lemma events_steps: "(gw_step wi)\<^sup>*\<^sup>* (bn_node g) (bn_node (fold (onEvent wi dec nodeId walk opId op now) evs g))"
  by (induction evs arbitrary: g) (auto intro: rtranclp_trans onEvent_steps)

definition kick_of :: "Client \<Rightarrow> KickPayload" where
  "kick_of c = \<lparr>k_UserId = cl_UserId c, k_PlatformId = id_PlatformId (cl_Identity c), k_KeepTokenId = id_TokenId (cl_Identity c)\<rparr>"

definition superseded :: "Client \<Rightarrow> Node \<Rightarrow> Client set" where
  "superseded c n = {d \<in> set (conns_of (nd_users n) (cl_UserId c)). kicked (id_PlatformId (cl_Identity c)) (id_TokenId (cl_Identity c)) d}"

lemma superseded_drained:
  assumes "(gw_step wi)\<^sup>*\<^sup>* (new_node limits byteCap) n" "\<not> nd_closing n"
  shows "superseded c n \<subseteq> nd_draining (kick wi opId False (cl_UserId c) (id_PlatformId (cl_Identity c)) (id_TokenId (cl_Identity c)) n)"
proof -
  have "node_inv {} n"
    using gw_steps_ok [OF assms(1) new_node_ok] by (simp add: node_ok_def)
  then show ?thesis
    using kick_drains [OF _ assms(2)] unfolding superseded_def by blast
qed

text \<open>C37: the kick of a new connection is not lost: it is published exactly once, a node that receives
  the event, whatever events it handled before, drains every connection the new one replaces, and
  when the bus refuses the event the publishing node drains its own at once.\<close>

theorem kick_not_lost:
  assumes "(gw_step wi)\<^sup>*\<^sup>* (new_node limits byteCap) n" "\<not> nd_closing n"
    and "(gw_step wi)\<^sup>*\<^sup>* (new_node limits' byteCap') (bn_node g)" "\<not> nd_closing (bn_node g')"
    and "g' = fold (onEvent wi dec nodeId' walk opId op now) evs g" "dc_kick dec (enc (kick_of c)) = Some (kick_of c)"
  shows "\<exists>ev r. case publishKick (Some (recording ans)) enc nodeId wi opId (\<lambda>_. False) c (n, []) of (n', b) \<Rightarrow>
    b = [(ev, r)] \<and> (if r = None then n' = n else superseded c n \<subseteq> nd_draining n') \<and>
    superseded c (bn_node g') \<subseteq> nd_draining (bn_node (onEvent wi dec nodeId' walk opId op now ev g'))"
proof -
  let ?u = "cl_UserId c" and ?p = "id_PlatformId (cl_Identity c)" and ?k = "id_TokenId (cl_Identity c)"
  let ?ev = "\<lparr>ev_Type = TypeKick, ev_NodeId = nodeId, ev_Payload = enc (kick_of c)\<rparr>"
  have run: "publishKick (Some (recording ans)) enc nodeId wi opId (\<lambda>_. False) c (n, []) =
      (if ans ?ev [] = None then n else kick wi opId False ?u ?p ?k n, [(?ev, ans ?ev [])])"
    using assms(2) by (simp add: publishKick_def recording_def Let_def kick_of_def split: option.split)
  have "bn_node (onEvent wi dec nodeId' walk opId op now ?ev g') = kick wi opId False ?u ?p ?k (bn_node g')"
    by (simp add: onEvent_def decodeBus_def Kick_def assms(6) TypeKick_def TypePresenceChanged_def TypePush_def) (simp add: kick_of_def)
  moreover have "(gw_step wi)\<^sup>*\<^sup>* (new_node limits' byteCap') (bn_node g')"
    unfolding assms(5) by (rule rtranclp_trans [OF assms(3) events_steps])
  ultimately have "superseded c (bn_node g') \<subseteq> nd_draining (bn_node (onEvent wi dec nodeId' walk opId op now ?ev g'))"
    using superseded_drained [OF _ assms(4)] by metis
  then show ?thesis
    using superseded_drained [OF assms(1,2)] unfolding run by (intro exI [of _ ?ev] exI [of _ "ans ?ev []"]) simp
qed

definition demo_new_client :: Client where
  "demo_new_client = (demo_client ''c2'')\<lparr>cl_Identity := (cl_Identity (demo_client ''c2''))\<lparr>id_TokenId := ''t2''\<rparr>\<rparr>"

definition demo_decoders :: Decoders where
  "demo_decoders = \<lparr>dc_presence = (\<lambda>_. None), dc_push = (\<lambda>_. None),
     dc_kick = (\<lambda>raw. if raw = ''kick'' then Some (kick_of demo_new_client) else None), dc_read = (\<lambda>_. None), dc_group = (\<lambda>_. None)\<rparr>"

definition demo_bus_node :: "unit MsgState \<Rightarrow> unit BusNode" where
  "demo_bus_node w = \<lparr>bn_node = demo_node, bn_shards = \<lparr>sh_deliver = [[]], sh_cap = 1, sh_dropped = 0\<rparr>, bn_msgs = w, bn_decodeFails = 0,
     bn_connects = 1, bn_ready = True\<rparr>"

theorem kick_not_lost_witness:
  "\<forall>w. \<exists>ev. demo_client ''c1'' \<in>
     nd_draining (bn_node (onEvent demo_wire demo_decoders ''n2'' (\<lambda>_. []) (\<lambda>_. ''op'') ''op'' 0 ev (demo_bus_node w)))"
proof
  fix w
  let ?g = "demo_bus_node w"
  have closing: "\<not> nd_closing demo_node" and in_set: "demo_client ''c1'' \<in> superseded demo_new_client demo_node"
    unfolding superseded_def mem_Collect_eq by code_simp+
  have g: "bn_node ?g = demo_node" and fold: "?g = fold (onEvent demo_wire demo_decoders ''n2'' (\<lambda>_. []) (\<lambda>_. ''op'') ''op'' 0) [] ?g"
    by (simp_all add: demo_bus_node_def)
  have dec: "dc_kick demo_decoders ((\<lambda>_. ''kick'') (kick_of demo_new_client)) = Some (kick_of demo_new_client)"
    by (simp add: demo_decoders_def)
  from kick_not_lost [OF demo_node_run closing demo_node_run [folded g] closing [folded g] fold dec,
      where ans = "\<lambda>_ _. None" and nodeId = "''n1''"]
  show "\<exists>ev. demo_client ''c1'' \<in> nd_draining (bn_node (onEvent demo_wire demo_decoders ''n2'' (\<lambda>_. []) (\<lambda>_. ''op'') ''op'' 0 ev ?g))"
    using in_set g by fastforce
qed

end
