(* ===== verification/Spec2Isabelle.thy ===== *)
theory Spec2Isabelle
  imports Identity Base64 Demo GroupFacts Sessions Delivery EventLoop
begin

text \<open>
  Verification of nexo, an instant-messaging server in Go.

  \<^bold>\<open>The program.\<close> Clients speak HTTP and WebSocket to a node. The services (\<^verbatim>\<open>internal/service\<close>)
  validate a request and work on a \<^verbatim>\<open>Store\<close> (\<^verbatim>\<open>internal/store\<close>), whose PostgreSQL implementation is
  \<^verbatim>\<open>pgstore\<close>. A committed message is published on a bus (\<^verbatim>\<open>internal/bus\<close>); the gateway of every node
  (\<^verbatim>\<open>internal/gateway\<close>) takes the events off it and pushes frames to its connections. Identities come
  from a chain of providers (\<^verbatim>\<open>internal/auth\<close>) over a token store and a cache.

  \<^bold>\<open>Basics.\<close> \<^verbatim>\<open>Prelude\<close> has Go's strings, times and 64-bit integers and the part of its library the
  sources call; \<^verbatim>\<open>Errcode\<close> Go errors and the catalogue of \<^verbatim>\<open>errcode/errcode.go\<close>; \<^verbatim>\<open>Base64\<close>, \<^verbatim>\<open>KeyedList\<close> and
  \<^verbatim>\<open>Heap\<close> generic data. A fallible call is a \<^verbatim>\<open>State_Monad\<close> action with a sum as its result, \<^verbatim>\<open>Inl\<close> the
  error. The clock, random bytes and uuids are arguments.

  \<^bold>\<open>Identities.\<close> \<^verbatim>\<open>Identity\<close> models \<^verbatim>\<open>internal/identity\<close>: the spellings of user ids.

  \<^bold>\<open>The store.\<close> \<^verbatim>\<open>Store\<close> has the rows of \<^verbatim>\<open>store.go\<close> and the interface as a record of actions. \<^verbatim>\<open>StoreSpec\<close>
  states each method's promise as a relation over maps from keys to rows, \<^verbatim>\<open>StoreContract\<close> gives the
  locales the services are proved against and their proof rules. \<^verbatim>\<open>PgGen\<close> has the SQL statements on
  lists of rows, \<^verbatim>\<open>PgStore\<close> the methods over them, with a driver that may lose a round trip or its
  reply at any point and with the commits of other requests between any two statements;
  \<^verbatim>\<open>PgContract\<close> proves that it keeps the contract, by an interpretation of the locale.

  \<^bold>\<open>The services.\<close> \<^verbatim>\<open>Conv\<close>, \<^verbatim>\<open>Dto\<close>, \<^verbatim>\<open>Msgbody\<close>, \<^verbatim>\<open>Ratelimit\<close>, \<^verbatim>\<open>MemberCache\<close>, \<^verbatim>\<open>MessageService\<close>, \<^verbatim>\<open>GroupService\<close>,
  \<^verbatim>\<open>ConversationService\<close>, \<^verbatim>\<open>UserService\<close> and \<^verbatim>\<open>OnlineStore\<close> model the packages of the same names, a
  definition per function. \<^verbatim>\<open>System\<close> has one rule per committed change the services make and the
  invariant of the tables, \<^verbatim>\<open>SystemInv\<close> that every change keeps it and \<^verbatim>\<open>SystemRely\<close> what stays true
  while other requests run. \<^verbatim>\<open>MessageTx\<close>, \<^verbatim>\<open>MessageProofs\<close>, \<^verbatim>\<open>GroupProofs\<close>, \<^verbatim>\<open>ConversationProofs\<close> and
  \<^verbatim>\<open>UserProofs\<close> list the outcomes of each call on any store with the contract and show that its
  commits are changes of the system; \<^verbatim>\<open>NexoPg\<close> moves them to PostgreSQL, \<^verbatim>\<open>NexoCalls\<close> to histories of
  calls, \<^verbatim>\<open>NexoFacts\<close> and \<^verbatim>\<open>GroupFacts\<close> to what users see. The properties of this theory say that the
  tables keep their invariant in every history, that a send is stored once, is idempotent,
  succeeds when it should, leaves nothing when it fails and needs membership, that seqs have no
  gaps, and what joining, leaving, pulling and reading show to whom.

  \<^bold>\<open>Sessions.\<close> \<^verbatim>\<open>Cache\<close> has the interface of \<^verbatim>\<open>internal/cache\<close>, its contract as a locale and the
  in-process cache as an interpretation; \<^verbatim>\<open>Auth\<close> the token store and the providers, \<^verbatim>\<open>Sessions\<close> what
  they accept and refuse: the fate of a token through any later logins, logouts and checks
  (\<^verbatim>\<open>session_run\<close>), the answer of the chain, the identity of a platform token, replayed requests and what
  a signature binds. One property shows a request accepted twice, at the two ends of its window.
  \<^verbatim>\<open>Config\<close> models \<^verbatim>\<open>internal/config\<close>: no weak secret passes validation, and the redacted form does not
  depend on the secrets.

  \<^bold>\<open>The gateway.\<close> \<^verbatim>\<open>UserMap\<close> (connections and their slots), \<^verbatim>\<open>SendQueue\<close> (frames and bytes, with the
  atomic pieces of a send, a push, a write and a close interleaved by \<^verbatim>\<open>send_step\<close>), \<^verbatim>\<open>Presence\<close> and
  \<^verbatim>\<open>PresenceSteps\<close> (subscriptions, their heap and the reads), \<^verbatim>\<open>Gateway\<close> (admission, kicks, pushes, and the
  step relation \<^verbatim>\<open>gw_step\<close> of a node), \<^verbatim>\<open>Delivery\<close> (who gets a message), \<^verbatim>\<open>LocalBus\<close> (the contract of a bus
  and the in-process one), \<^verbatim>\<open>BusEvents\<close> (the shards of pushes), \<^verbatim>\<open>PresenceEvents\<close> (the presence events
  and their sizes) and \<^verbatim>\<open>EventLoop\<close> (the handler of events). A critical section is a function, the
  goroutines are any order of such functions. The properties bound the resources, keep the
  accounts exact, and say who is reached: a push goes only to those who may see the message, in
  order, and a kick reaches every connection it replaces.

  \<^bold>\<open>Bounds.\<close> The dispatch loop of \<^verbatim>\<open>Presence\<close> has one unit of fuel more than the subscriptions queued,
  each round takes one off the queue, and \<^verbatim>\<open>dispatch_complete\<close> shows that it returns only when
  nothing can be started. The retries of a driver are a finite list of faults after which it
  answers. Histories assume that no conversation comes to the end of its 64-bit seqs. Every other
  function is total without fuel. \<^verbatim>\<open>Demo\<close> has the deployment the witnesses run.

  \<^bold>\<open>Parameters.\<close> Code outside the repository is a parameter with what is used of it as a hypothesis:
  JSON web tokens (ASCII claims with dates in whole seconds parse back), SHA-256 and HMAC, bcrypt, the token bucket of \<^verbatim>\<open>x/time/rate\<close>, the push provider, the
  JSON encoders and decoders of frames and events.

  \<^bold>\<open>Not modelled.\<close> The HTTP routes and their middleware (\<^verbatim>\<open>internal/api\<close>), the start and stop of the
  process (\<^verbatim>\<open>internal/app\<close>, \<^verbatim>\<open>server\<close>, \<^verbatim>\<open>cmd\<close>) and the SDK bind JSON to the modelled calls. The sockets,
  timers, pools and wait groups of the gateway are I/O and scheduling. The drivers that run scripts
  or SQL of their own on another server (\<^verbatim>\<open>gormstore\<close>, the Redis and PostgreSQL caches and buses, the
  Redis registry) are further implementations of the modelled interfaces. The parser of message
  bodies, the load and smoke tools and the test suites are left out. Of PostgreSQL, transactions take
  effect in the order of their commits, and the widths of columns and the refusal of NUL bytes and
  of malformed UTF-8 are left out: such a value makes a statement fail, as a fault of the driver
  does. Between the critical sections of a kick or of a publication on the in-process bus nothing
  else of the node is interleaved.
\<close>

section \<open>The system\<close>

text \<open>C1: whatever the services are called with, in whatever order, with the other requests' commits
  interleaved between their statements and with the driver failing at any point, the tables keep
  the system's invariant.\<close>

theorem history_keeps_invariant:
  assumes "server mm ms gs" "others mm Rl" "pg_I Rl d0" "nexo_inv mm (pg_T d0)" "history ms gs Rl d0 d"
  shows "nexo_inv mm (pg_T d)"
  using history_steps [OF assms(5,1-4)] by blast

lemma demo_history: "history demo_messages demo_groups Rl demo demo_sent"
proof (rule history.call [OF history.start, where fs = "[]" and os = "[]"])
  show "roomy (pg_T demo)"
    by (simp add: roomy_def demo_empty)
  show "nexo_call demo_messages demo_groups (demo\<lparr>pg_drv := [], pg_env := []\<rparr>) demo_sent"
    using nexo_call.Send [OF demo_send_run] by (simp add: demo_def)
qed (simp add: env_ok_def)

theorem history_keeps_invariant_witness: "nexo_inv 10 (pg_T demo_sent)"
  by (rule history_keeps_invariant [OF demo_server others_rely demo_I demo_inv demo_history])

text \<open>C5: after any history, the messages of a conversation have exactly the seqs from 1 to its
  max_seq, and their send times do not go back as the seqs go up.\<close>

theorem conversation_gapless:
  assumes "server mm ms gs" "others mm Rl" "pg_I Rl d0" "nexo_inv mm (pg_T d0)" "history ms gs Rl d0 d"
    and "convs (pg_T d) i = Some c"
  shows "map msg_Seq (messages_between (pg_T d) i 1 (conv_MaxSeq c)) = [1..conv_MaxSeq c] \<and>
    sorted (map msg_SendTime (messages_between (pg_T d) i 1 (conv_MaxSeq c))) \<and>
    {m \<in> ran (msgs (pg_T d)). msg_ConversationId m = i} = set (messages_between (pg_T d) i 1 (conv_MaxSeq c))"
proof -
  have inv: "nexo_inv mm (pg_T d)"
    using history_steps [OF assms(5,1-4)] by blast
  show ?thesis
    using gapless_messages [OF inv assms(6)] all_messages_between [OF inv assms(6)] by blast
qed

theorem conversation_gapless_witness:
  "\<exists>c. convs (pg_T demo_sent) ''si_u___1:u___2'' = Some c \<and>
     map msg_Seq (messages_between (pg_T demo_sent) ''si_u___1:u___2'' 1 (conv_MaxSeq c)) = [1..conv_MaxSeq c]"
proof -
  have "convs (pg_T demo_sent) ''si_u___1:u___2'' \<noteq> None"
    by code_simp
  then show ?thesis
    using conversation_gapless [OF demo_server others_rely demo_I demo_inv demo_history] by blast
qed

section \<open>Sending\<close>

text \<open>C2: an acknowledged send is stored exactly once: the tables hold one message under the
  request's conversation, sender and client message id, and the acknowledgement is that message's.\<close>

theorem send_exactly_once:
  assumes "pg_ready mm Rl d" "s_store s = pg_store" "run_state (Send s inp now uuid) (d, w) = (Inr a, d', w')"
  shows "\<exists>m. {m' \<in> ran (msgs (pg_T d')). clientKey m' = send_key inp} = {m} \<and> a = ack m"
  using Send_ack_stored [OF pg_readyD(1,3) [OF assms(1)] Send_pg(1) [OF assms]] .

theorem send_exactly_once_witness:
  "\<exists>m. {m' \<in> ran (msgs (pg_T demo_sent)). clientKey m' = send_key demo_send} = {m} \<and> demo_ack = ack m"
  by (rule send_exactly_once [OF demo_ready [OF others_rely] demo_store(1) demo_send_run])

text \<open>C3: a retry is idempotent: a send with the conversation, sender and client message id of one
  that was acknowledged, made any time later whatever was committed in between, is answered with
  the same acknowledgement or with an error, never with another message.\<close>

theorem send_idempotent:
  assumes "pg_ready mm Rl d" "s_store s = pg_store" "run_state (Send s inp now uuid) (d, w) = (Inr a, d1, w1)"
    and "(nexo_step mm)\<^sup>*\<^sup>* (pg_T d1) (pg_T d2)" "pg_ready mm Rl d2" "send_key inp' = send_key inp"
    and "run_state (Send s inp' now' uuid') (d2, w2) = (Inr a', d3, w3)"
  shows "a' = a"
proof -
  note first = Send_steps_pg [OF assms(1-3)]
  obtain m where m: "m \<in> ran (msgs (pg_T d1))" "clientKey m = send_key inp" "a = ack m"
    using Send_ack_stored [OF pg_readyD(1,3) [OF assms(1)] Send_pg(1) [OF assms(1-3)]] by blast
  obtain m' where m': "{x \<in> ran (msgs (pg_T d3)). clientKey x = send_key inp'} = {m'}" "a' = ack m'"
    using Send_ack_stored [OF pg_readyD(1,3) [OF assms(5)] Send_pg(1) [OF assms(5,2,7)]] by blast
  have "(nexo_step mm)\<^sup>*\<^sup>* (pg_T d1) (pg_T d3)"
    using assms(4) Send_steps_pg(1) [OF assms(5,2,7)] by (rule rtranclp_trans)
  then have "m \<in> ran (msgs (pg_T d3))"
    using first(2) m(1) by (rule nexo_steps_ran)
  then have "m = m'"
    using m'(1) m(2) assms(6) by auto
  then show ?thesis
    using m(3) m'(2) by simp
qed

definition demo_retry :: "Ack result \<times> Pg \<times> unit MsgState" where
  "demo_retry = run_state (Send demo_messages demo_send 9000000 ''id2'') (demo_sent, demo_sent_w)"

theorem send_idempotent_witness: "projr (fst demo_retry) = demo_ack"
proof -
  have "\<not> isl (fst demo_retry)"
    by code_simp
  then have "run_state (Send demo_messages demo_send 9000000 ''id2'') (demo_sent, demo_sent_w) =
      (Inr (projr (fst demo_retry)), fst (snd demo_retry), snd (snd demo_retry))"
    unfolding demo_retry_def [symmetric] by (simp add: prod_eq_iff)
  from send_idempotent [OF demo_ready [OF others_rely] demo_store(1) demo_send_run rtranclp.rtrancl_refl
      demo_sent_ready [OF others_rely] refl this] show ?thesis .
qed

text \<open>C4: a valid request within the rate limit, to a recipient that exists or by a member of an
  active group, under a new client message id, is stored with the conversation's next seq,
  acknowledged and published, when the store answers.\<close>

theorem send_succeeds:
  assumes "pg_ready mm (=) d" "pg_H d" "s_store s = pg_store" "validate s inp = None" "within_limit s inp now w"
    and "deliverable inp uuid (pg_T d)"
  shows "\<exists>m d' w'. run_state (Send s inp now uuid) (d, w) = (Inr (ack m), d', w') \<and>
    msgs (pg_T d') = (msgs (pg_T d))((dest inp, next_seq (pg_T d) (dest inp)) \<mapsto> m) \<and>
    msg_Seq m = next_seq (pg_T d) (dest inp) \<and> msg_SenderId m = in_SenderId inp \<and> msg_Content m = in_Content inp \<and>
    m_published w' = m_published w @ [push_event m (in_SenderConnId inp)]"
proof -
  obtain r d' w' where run: "run_state (Send s inp now uuid) (d, w) = (r, d', w')"
    by (metis surj_pair)
  let ?m = "committed_message inp now uuid (pg_T d)"
  note out = Send_committed_alone [OF Send_pg(1) [OF assms(1,3) run, simplified assms(2)] pg_readyD(3) [OF assms(1)] assms(4-6)]
  have "msg_Seq ?m = next_seq (pg_T d) (dest inp)"
    by (rule committed_seq [OF pg_readyD(3) [OF assms(1)]])
  then have "run_state (Send s inp now uuid) (d, w) = (Inr (ack ?m), d', w') \<and>
    msgs (pg_T d') = (msgs (pg_T d))((dest inp, next_seq (pg_T d) (dest inp)) \<mapsto> ?m) \<and>
    msg_Seq ?m = next_seq (pg_T d) (dest inp) \<and> msg_SenderId ?m = in_SenderId inp \<and> msg_Content ?m = in_Content inp \<and>
    m_published w' = m_published w @ [push_event ?m (in_SenderConnId inp)]"
    using run out by (simp add: published_after msgKey_def)
  then show ?thesis
    by blast
qed

theorem send_succeeds_witness:
  "\<exists>m d' w'. run_state (Send demo_messages demo_send 1000000 ''id1'') (demo, demo_w) = (Inr (ack m), d', w') \<and>
     msg_Seq m = next_seq (pg_T demo) ''si_u___1:u___2''"
proof -
  have "validate demo_messages demo_send = None" "within_limit demo_messages demo_send 1000000 demo_w"
    by code_simp+
  moreover have "users (pg_T demo) ''u___2'' \<noteq> None" "dest demo_send = ''si_u___1:u___2''"
    by code_simp+
  moreover have "deliverable demo_send ''id1'' (pg_T demo)"
    using calculation by (simp add: deliverable_def demo_empty may_send_def demo_send_def store_consts)
  ultimately show ?thesis
    using send_succeeds [OF demo_ready [OF others_none] demo_healthy demo_store(1)] by metis
qed

text \<open>C6: on a store that answers, a send that returns an error has stored and published nothing:
  the tables are what the other requests made of them.\<close>

theorem send_error_atomic:
  assumes "pg_ready mm Rl d" "pg_H d" "s_store s = pg_store" "run_state (Send s inp now uuid) (d, w) = (Inl e, d', w')"
  shows "Rl (pg_T d) (pg_T d') \<and> m_published w' = m_published w"
  using Send_error_nothing [OF _ pg_readyD(1) [OF assms(1)]] Send_pg(1) [OF assms(1,3,4)] assms(2) by simp

definition demo_self :: SendInput where
  "demo_self = demo_send\<lparr>in_RecvId := ''u___9''\<rparr>"

lemma demo_self_error:
  "fst (run_state (Send demo_messages demo_self 1000000 ''id1'') (demo, demo_w)) = Inl (Of_errcode ErrUserNotFound)"
  by code_simp

theorem send_error_atomic_witness:
  "pg_T (fst (snd (run_state (Send demo_messages demo_self 1000000 ''id1'') (demo, demo_w)))) = pg_T demo"
  using send_error_atomic [OF demo_ready [OF others_none] demo_healthy demo_store(1)
      run_parts [of "Send demo_messages demo_self 1000000 ''id1''" "(demo, demo_w)", unfolded demo_self_error]] by simp

text \<open>C7: a group message is only ever stored for a sender who is a member of the group, while the
  group is active, even when the driver loses replies.\<close>

theorem send_needs_membership:
  assumes "pg_ready mm (=) d" "s_store s = pg_store" "run_state (Send s inp now uuid) (d, w) = (r, d', w')"
    and "m \<in> ran (msgs (pg_T d'))" "m \<notin> ran (msgs (pg_T d))" "in_SessionType inp = ConversationGroup"
  shows "members (pg_T d) (in_GroupId inp, in_SenderId inp) \<noteq> None \<and>
    (\<exists>g. groups (pg_T d) (in_GroupId inp) = Some g \<and> group_Status g \<noteq> GroupStatusDismissed) \<and>
    msg_SenderId m = in_SenderId inp \<and> msg_ConversationId m = GroupConv (in_GroupId inp)"
  using Send_stores_own [OF Send_pg(1) [OF assms(1-3)] assms(4,5)] assms(6)
  by (auto simp: may_send_def dest_def store_consts)

theorem send_needs_membership_witness: "members (pg_T demo_created) (demo_gid, ''u___1'') \<noteq> None"
proof -
  let ?run = "run_state (Send demo_messages demo_group_send 2000000 ''id3'') (demo_created, demo_w)"
  have "(\<lambda>(r, d, w). (case r of Inr a \<Rightarrow> length (t_messages (pg_rows d)) = 1 \<and> msg_ServerMsgId (hd (t_messages (pg_rows d))) = ''id3'' | Inl _ \<Rightarrow> False)) ?run"
    by code_simp
  then obtain m where "t_messages (pg_rows (fst (snd ?run))) = [m]"
    by (auto simp: length_Suc_conv split: sum.splits prod.splits)
  then have "m \<in> ran (msgs (pg_T (fst (snd ?run))))"
    by (simp add: pg_T_def ran_index)
  moreover have "t_messages (pg_rows demo_created) = []"
    by code_simp
  then have "m \<notin> ran (msgs (pg_T demo_created))"
    by (simp add: pg_T_def)
  moreover have "in_SessionType demo_group_send = ConversationGroup" "in_GroupId demo_group_send = demo_gid"
    "in_SenderId demo_group_send = ''u___1''"
    by (simp_all add: demo_group_send_def demo_send_def store_consts)
  ultimately show ?thesis
    using send_needs_membership [OF demo_created_ready [OF others_none] demo_store(1) run_parts] by metis
qed

text \<open>C8: a send publishes at most one event, and only of a message that is stored and acknowledged.\<close>

theorem send_publishes_stored:
  assumes "pg_ready mm Rl d" "s_store s = pg_store" "run_state (Send s inp now uuid) (d, w) = (r, d', w')"
  shows "m_published w' = m_published w \<or>
    (\<exists>m \<in> ran (msgs (pg_T d')). clientKey m = send_key inp \<and> r = Inr (ack m) \<and>
       m_published w' = m_published w @ [push_event m (in_SenderConnId inp)])"
  using Send_publishes [OF Send_pg(1) [OF assms]] .

theorem send_publishes_stored_witness: "length (m_published demo_sent_w) \<le> 1"
proof -
  have "m_published demo_w = []"
    by code_simp
  then show ?thesis
    using send_publishes_stored [OF demo_ready [OF others_rely] demo_store(1) demo_send_run] by auto
qed

section \<open>Groups\<close>

text \<open>C11: a created group is stored with its owner, its members are exactly the owner and the named
  users, all of them known users, at most as many as the limit, and nobody sees a message in it.\<close>

theorem create_group:
  assumes "pg_ready mm Rl d" "g_store s = pg_store" "g_maxMembers s = mm"
    and "run_state (Create s ow inp now rnd) (d, w) = (Inr info, d', w')"
  shows "info_Id info = shortId rnd \<and> info_OwnerId info = ow \<and>
    groups (pg_T d') (shortId rnd) = Some (new_group (shortId rnd) ow inp now) \<and>
    roster (pg_T d') (shortId rnd) = insert ow (set (ci_MemberIds inp)) \<and>
    info_MemberCount info = int (card (roster (pg_T d') (shortId rnd))) \<and> info_MemberCount info \<le> mm \<and>
    (\<forall>u \<in> roster (pg_T d') (shortId rnd). users (pg_T d') u \<noteq> None \<and>
       visible (pg_T d') u (GroupConv (shortId rnd)) = {})"
  using Create_group_made [OF Create_pg(1) [OF assms] pg_readyD(1,3) [OF assms(1)]] .

theorem create_group_witness: "roster (pg_T demo_created) demo_gid = {''u___1'', ''u___2''}"
proof -
  let ?run = "run_state (Create demo_groups ''u___1'' demo_group_input 1000000 demo_rnd) (demo, \<lparr>g_notified = []\<rparr>)"
  have "\<not> isl (fst ?run)"
    by code_simp
  then obtain info where "fst ?run = Inr info"
    by (metis sum.collapse(2))
  then have "?run = (Inr info, demo_created, snd (snd ?run))"
    unfolding demo_created_def using run_parts [of _ "(demo, \<lparr>g_notified = []\<rparr>)"] by metis
  from create_group [OF demo_ready [OF others_rely] demo_store(2) _ this] show ?thesis
    by (simp add: demo_groups_def demo_gid_def demo_group_input_def)
qed

text \<open>C9: joining makes the user a member of a group that stays within its size limit. The new member
  sees none of the messages sent before, now or after whatever happens later, including leaving
  and joining again.\<close>

theorem join_hides_history:
  assumes "pg_ready mm Rl d" "g_store s = pg_store" "g_maxMembers s = mm"
    and "run_state (Join s gid u now) (d, w) = (Inr (), d', w')"
  shows "\<exists>c. convs (pg_T d') (GroupConv gid) = Some c \<and> members (pg_T d') (gid, u) \<noteq> None \<and>
    int (card (roster (pg_T d') gid)) \<le> mm \<and> visible (pg_T d') u (GroupConv gid) = {} \<and>
    (\<forall>t2. (nexo_step mm)\<^sup>*\<^sup>* (pg_T d') t2 \<longrightarrow> visible t2 u (GroupConv gid) \<subseteq> {conv_MaxSeq c<..})"
  using Join_made [OF Join_pg(1) [OF assms] pg_readyD(1,3) [OF assms(1)]] .

theorem join_hides_history_witness: "visible (pg_T demo_joined) ''u___3'' (GroupConv demo_gid) = {}"
  using join_hides_history [OF demo_group_sent_ready [OF others_rely] demo_store(2) _ demo_join_run]
  by (auto simp: demo_groups_def)

text \<open>C10: a removal, by quitting or by being kicked, happens only to a member who is not the owner,
  of an active group, and on somebody else only by an owner or admin of a higher role. The former
  member keeps exactly the messages visible at that moment, for as long as they stay out.\<close>

theorem removal_freezes_view:
  assumes "pg_ready mm Rl d" "g_store s = pg_store"
    and "run_state (Kick_member s gid op u now) (d, w) = (Inr (), d', w') \<or>
      op = u \<and> run_state (Quit s gid u now) (d, w) = (Inr (), d', w')"
  shows "\<exists>t1. Rl (pg_T d) t1 \<and> can_remove gid op u t1 \<and> members (pg_T d') (gid, u) = None \<and>
    (\<forall>t2. (outside_step mm gid u)\<^sup>*\<^sup>* (pg_T d') t2 \<longrightarrow> visible t2 u (GroupConv gid) = visible t1 u (GroupConv gid))"
proof -
  have "remove_outcome Rl (pg_H d) gid op u now (pg_T d) w (Inr ()) (pg_T d') w'"
    using assms(3) Kick_pg(1) [OF assms(1,2)] Quit_pg(1) [OF assms(1,2)] by blast
  from removed_view [OF this pg_readyD(1,3) [OF assms(1)]] show ?thesis .
qed

theorem removal_freezes_view_witness:
  "members (pg_T demo_kicked) (demo_gid, ''u___2'') = None \<and>
   visible (pg_T demo_kicked) ''u___2'' (GroupConv demo_gid) = visible (pg_T demo_group_sent) ''u___2'' (GroupConv demo_gid)"
  using removal_freezes_view [OF demo_group_sent_ready [OF others_none] demo_store(2), of demo_gid "''u___1''" "''u___2''"] demo_kick_run
  by blast

section \<open>Reading\<close>

text \<open>C13: marking read answers with a cursor that is stored and within what the user can see; the
  event sent to the user's other connections carries that cursor, which is never past the one asked for.\<close>

theorem mark_read_bounded:
  assumes "pg_ready mm Rl d" "run_state (MarkRead (pg_store :: (Pg, 'c) StoreTx) u conn i readSeq) (d, w) = (Inr s, d', w')"
  shows "(\<exists>uc c. uconvs (pg_T d') (u, i) = Some uc \<and> convs (pg_T d') i = Some c \<and> s \<le> uc_ReadSeq uc \<and>
      uc_ReadSeq uc \<le> VisibleMax uc (conv_MaxSeq c)) \<and>
    (c_notified w' = c_notified w \<or> c_notified w' = c_notified w @ [read_event u conn i s] \<and> s \<le> readSeq)"
  using MarkRead_result [OF MarkRead_pg(1) [OF assms] pg_readyD(1,3) [OF assms(1)]] by blast

theorem mark_read_bounded_witness:
  "\<exists>uc. uconvs (pg_T demo_read) (''u___2'', ''si_u___1:u___2'') = Some uc \<and> 1 \<le> uc_ReadSeq uc"
  using mark_read_bounded [OF demo_sent_ready [OF others_rely] demo_read_run] by blast

text \<open>C14: marking read never moves a read position back, whatever it answers and whatever the other
  requests send, read, join or leave while it runs: against the rows as the others' commits alone
  leave them, every position but the caller's in that conversation is the same and that one is not
  before what the others made of it, such as a later position another device marked in the
  meantime; and the others' commits move none back either.\<close>

theorem mark_read_monotone:
  assumes "pg_ready mm Rl d" "run_state (MarkRead (pg_store :: (Pg, 'c) StoreTx) u conn i readSeq) (d, w) = (r, d', w')"
  shows "\<exists>fs. pg_env d = fs @ pg_env d' \<and>
    (\<forall>k. read_pos (pg_T d) k \<le> read_pos (pg_tabs (others_rows fs d)) k \<and>
       read_pos (pg_tabs (others_rows fs d)) k \<le> read_pos (pg_T d') k \<and>
       (k \<noteq> (u, i) \<longrightarrow> read_pos (pg_T d') k = read_pos (pg_tabs (others_rows fs d)) k))"
  by (rule MarkRead_forward [OF assms])

theorem mark_read_monotone_witness:
  "read_pos (pg_T demo_sent) (''u___2'', ''si_u___1:u___2'') \<le> read_pos (pg_T demo_read) (''u___2'', ''si_u___1:u___2'')"
  using mark_read_monotone [OF demo_sent_ready [OF others_rely] demo_read_run] by (meson order_trans)

text \<open>C12: a pull answers with consecutive seqs, from the first one asked for that the user may see,
  up to the last such one or to the page limit; it says there is more exactly when the limit cut
  it short, and every message it returns is a stored one of that conversation.\<close>

theorem pull_consecutive:
  assumes "pg_ready mm Rl d" "pageMax < 2 ^ 31 - 1"
    and "run_state (Pull (pg_store :: (Pg, 'c) StoreTx) inp pageMax) d = (Inr p, d')"
  shows "\<exists>t1 row. Rl (pg_T d) t1 \<and> joined t1 (pl_UserId inp) (pl_ConversationId inp) = Some row \<and>
    (let seqs = [max (pl_BeginSeq inp) (uc_MinSeq row)..min (pl_EndSeq inp) (VisibleMax row (row_ConvMaxSeq row))];
         n = nat (page_limit (pl_Limit inp) pageMax)
     in map dm_Seq (pr_Messages p) = take n seqs \<and> (pr_HasMore p \<longleftrightarrow> n < length seqs)) \<and>
    set (pr_Messages p) \<subseteq> MessageFromStore ` {m. \<exists>s. msgs t1 (pl_ConversationId inp, s) = Some m}"
  using Pull_result [OF Pull_pg(1) [OF assms] pg_readyD(1,3) [OF assms(1)]] .

theorem pull_consecutive_witness:
  "\<exists>row. joined (pg_T demo_sent) ''u___2'' ''si_u___1:u___2'' = Some row"
  using pull_consecutive [OF demo_sent_ready [OF others_none] _ demo_pull_run] by (auto simp: demo_pull_def)

section \<open>Identities\<close>

text \<open>C40: a platform user id names exactly one actor, and in exactly one spelling: parsing an id
  succeeds with an actor precisely when the actor's number is a positive 64-bit integer and the
  id is the string the actor formats to.\<close>

theorem actor_id_spelling:
  "ParseActor s = Inr a \<longleftrightarrow> UserId a = Inr s \<and> 0 < actor_Id a \<and> in_i64 (actor_Id a)"
proof
  assume "UserId a = Inr s \<and> 0 < actor_Id a \<and> in_i64 (actor_Id a)"
  then show "ParseActor s = Inr a"
    using ParseActor_user [of "actor_Id a"] ParseActor_agent [of "actor_Id a"]
    by (cases a) (auto simp: UserId_def split: Role.splits)
qed (rule ParseActor_Inr)

end
